(* ===== verification/Prelude.thy ===== *)
theory Prelude
  imports Main "HOL-Library.Word" "HOL-Library.Char_ord" "HOL-Library.List_Lexorder"
begin

text \<open>
  What the components share: the machine types and character constants of the C++ code, its
  exceptions, \<open>std::map\<close> as a sorted association list with the contract its clients use
  (\<open>std_map\<close>), the contract of an encoder and its decoder (\<open>codec\<close>) and the contract of a
  state machine with an invariant (\<open>invariant_machine\<close>).
\<close>

section \<open>Collections\<close>

named_theorems map_laws \<open>laws of the ordered maps, as rewrite rules\<close>
named_theorems value_simps \<open>definitions of the small operations of Json::Value\<close>
named_theorems bus_simps \<open>definitions of the operations of VertxBus\<close>

section \<open>Machine types, characters\<close>

type_synonym u8 = "8 word"
type_synonym u16 = "16 word"
type_synonym u32 = "32 word"
type_synonym u64 = "64 word"

text \<open>A C++ \<open>char\<close> is a byte: \<open>code\<close> reads it as the unsigned value 0 to 255.\<close>

abbreviation code :: "char \<Rightarrow> nat" where
  "code c \<equiv> of_char c"

abbreviation chr :: "nat \<Rightarrow> char" where
  "chr n \<equiv> char_of n"

definition byte :: "char \<Rightarrow> u8" where
  "byte c = word_of_nat (code c)"

definition unbyte :: "u8 \<Rightarrow> char" where
  "unbyte b = chr (unat b)"

lemma unbyte_byte [simp]: "unbyte (byte c) = c"
  by (simp add: unbyte_def byte_def unat_of_nat take_bit_eq_mod)

lemma byte_unbyte [simp]: "byte (unbyte b) = b"
proof -
  have "unat b < 2 ^ LENGTH(8)" by (rule unsigned_less)
  then have "unat b < 256" by simp
  then show ?thesis by (simp add: unbyte_def byte_def)
qed

lemma code_less: "code c < 256"
  by (metis of_char_mod_256 mod_less_divisor zero_less_numeral)

definition NUL :: char where "NUL = CHR 0x00"
definition BS :: char where "BS = CHR 0x08"
definition TAB :: char where "TAB = CHR 0x09"
definition LF :: char where "LF = CHR 0x0A"
definition FF :: char where "FF = CHR 0x0C"
definition CR :: char where "CR = CHR 0x0D"
definition QUOTE :: char where "QUOTE = CHR 0x22"
definition BACKSLASH :: char where "BACKSLASH = CHR 0x5C"

lemmas char_consts = NUL_def BS_def TAB_def LF_def FF_def CR_def QUOTE_def BACKSLASH_def

text \<open>The exceptions the code throws.\<close>

datatype exn = RuntimeError string | LogicError string | SystemError string

text \<open>An expression that may throw, followed by what uses its value.\<close>

definition and_then :: "exn + 'a \<Rightarrow> ('a \<Rightarrow> exn + 'b) \<Rightarrow> exn + 'b" where
  "and_then m f = (case m of Inl e \<Rightarrow> Inl e | Inr x \<Rightarrow> f x)"

lemma and_then_simps [simp]: "and_then (Inl e) f = Inl e" "and_then (Inr x) f = f x"
  by (simp_all add: and_then_def)

lemma and_then_Inr: "and_then m f = Inr y \<longleftrightarrow> (\<exists>x. m = Inr x \<and> f x = Inr y)"
  by (cases m) auto

text \<open>A pointer into a NUL-terminated buffer is the text from it to the end; reading through it
  at the end gives the terminating NUL.\<close>

fun deref :: "string \<Rightarrow> char" where
  "deref [] = NUL"
| "deref (c # _) = c"

text \<open>The part of a buffer from pointer \<open>p\<close> to pointer \<open>q\<close>, both suffixes of the buffer.\<close>

definition between :: "string \<Rightarrow> string \<Rightarrow> string" where
  "between p q = take (length p - length q) p"

lemma between_append [simp]: "between (xs @ q) q = xs"
  by (simp add: between_def)

lemma between_Cons_append [simp]: "between (x # xs @ q) q = x # xs"
  by (metis append_Cons between_append)

section \<open>Decimal numbers\<close>

definition is_digit :: "char \<Rightarrow> bool" where
  "is_digit c \<longleftrightarrow> CHR ''0'' \<le> c \<and> c \<le> CHR ''9''"

definition digit_value :: "char \<Rightarrow> nat" where
  "digit_value c = code c - 48"

definition decimal_value :: "string \<Rightarrow> nat" where
  "decimal_value ds = foldl (\<lambda>n c. 10 * n + digit_value c) 0 ds"

fun nat_digits :: "nat \<Rightarrow> string" where
  "nat_digits n = (if n < 10 then [chr (n + 48)] else nat_digits (n div 10) @ [chr (n mod 10 + 48)])"

declare nat_digits.simps [simp del]

lemma nat_digits_digits: "list_all is_digit (nat_digits n)"
proof (induction n rule: nat_digits.induct)
  case (1 n)
  have "is_digit (chr (k + 48))" if "k < 10" for k
    using that by (simp add: is_digit_def less_eq_char_def)
  with 1 show ?case by (subst nat_digits.simps) auto
qed

lemma nat_digits_not_Nil [simp]: "nat_digits n \<noteq> []"
  by (subst nat_digits.simps) simp

lemma is_digit_chr: "k < 10 \<Longrightarrow> is_digit (chr (k + 48))"
  by (simp add: is_digit_def less_eq_char_def)

lemma decimal_value_nat_digits: "decimal_value (nat_digits n) = n"
proof (induction n rule: nat_digits.induct)
  case (1 n)
  then show ?case
    by (subst nat_digits.simps) (auto simp: decimal_value_def digit_value_def)
qed

lemma decimal_value_snoc: "decimal_value (ds @ [c]) = 10 * decimal_value ds + digit_value c"
  by (simp add: decimal_value_def)

text \<open>The number at the beginning of a text, as the C and C++ libraries find it: blanks, a sign, the digits.\<close>

definition is_space :: "char \<Rightarrow> bool" where
  "is_space c \<longleftrightarrow> c = CHR '' '' \<or> (9 \<le> code c \<and> code c \<le> 13)"

definition scan_number :: "string \<Rightarrow> bool \<times> string" where
  "scan_number s =
     (let s = dropWhile is_space s;
          signed = (s \<noteq> [] \<and> (s ! 0 = CHR ''-'' \<or> s ! 0 = CHR ''+''))
      in (signed \<and> s ! 0 = CHR ''-'', takeWhile is_digit (if signed then tl s else s)))"

lemma digit_code: "is_digit c \<Longrightarrow> 48 \<le> code c \<and> code c \<le> 57"
  by (simp add: is_digit_def less_eq_char_def)

lemma scan_digits:
  assumes "list_all is_digit ds" "ds \<noteq> []" "r = [] \<or> \<not> is_digit (r ! 0)"
  shows "scan_number (ds @ r) = (False, ds)"
proof -
  obtain c q where ds: "ds = c # q" using assms(2) by (cases ds) auto
  have "is_digit c" using assms(1) by (simp add: ds)
  then have c: "\<not> is_space c" "c \<noteq> CHR ''-''" "c \<noteq> CHR ''+''" using digit_code [of c] by (auto simp: is_space_def)
  have "takeWhile is_digit (ds @ r) = ds"
    using assms(1,3) by (cases r) (auto simp: list_all_iff takeWhile_append2 simp del: takeWhile_append)
  then show ?thesis using c by (simp add: scan_number_def ds Let_def)
qed

text \<open>The bytes of a word, the least significant first.\<close>

definition le_bytes :: "nat \<Rightarrow> 'a::len word \<Rightarrow> u8 list" where
  "le_bytes n w = map (\<lambda>i. ucast (drop_bit (8 * i) w)) [0 ..< n]"

section \<open>Lower case\<close>

definition tolower :: "char \<Rightarrow> char" where
  "tolower c = (if CHR ''A'' \<le> c \<and> c \<le> CHR ''Z'' then chr (code c + 32) else c)"

section \<open>Ordered maps\<close>

text \<open>
  \<open>std::map\<close> iterates in key order, so it is the sorted list of its entries:
  \<open>omap_find\<close> is \<open>find\<close>, \<open>omap_insert\<close> is \<open>m[k] = v\<close>, \<open>omap_erase\<close> is \<open>erase\<close>.
\<close>

definition omap_find :: "('k \<times> 'v) list \<Rightarrow> 'k \<Rightarrow> 'v option" where
  "omap_find m k = map_of m k"

fun omap_insert :: "'k::linorder \<Rightarrow> 'v \<Rightarrow> ('k \<times> 'v) list \<Rightarrow> ('k \<times> 'v) list" where
  "omap_insert k v [] = [(k, v)]"
| "omap_insert k v ((a, b) # m) =
     (if k < a then (k, v) # (a, b) # m
      else if k = a then (k, v) # m
      else (a, b) # omap_insert k v m)"

fun omap_erase :: "'k::linorder \<Rightarrow> ('k \<times> 'v) list \<Rightarrow> ('k \<times> 'v) list" where
  "omap_erase k [] = []"
| "omap_erase k ((a, b) # m) = (if k = a then m else (a, b) # omap_erase k m)"

definition omap_inv :: "('k::linorder \<times> 'v) list \<Rightarrow> bool" where
  "omap_inv m \<longleftrightarrow> sorted_wrt (<) (map fst m)"

lemma omap_find_Nil [simp]: "omap_find [] k = None"
  by (simp add: omap_find_def)

lemma omap_find_Cons [simp]:
  "omap_find ((a, b) # m) k = (if k = a then Some b else omap_find m k)"
  by (simp add: omap_find_def)

lemma omap_inv_Nil [simp]: "omap_inv []"
  by (simp add: omap_inv_def)

lemma omap_inv_Cons:
  "omap_inv ((a, b) # m) \<longleftrightarrow> (\<forall>k \<in> set (map fst m). a < k) \<and> omap_inv m"
  by (simp add: omap_inv_def)

lemma omap_find_eq_None: "omap_find m k = None \<longleftrightarrow> k \<notin> set (map fst m)"
  by (simp add: omap_find_def map_of_eq_None_iff)

lemma omap_find_insert: "omap_find (omap_insert k v m) = (omap_find m)(k \<mapsto> v)"
  by (induction k v m rule: omap_insert.induct) (auto simp: fun_eq_iff)

lemma keys_omap_insert: "set (map fst (omap_insert k v m)) = insert k (set (map fst m))"
  by (induction k v m rule: omap_insert.induct) auto

lemma omap_inv_insert: "omap_inv m \<Longrightarrow> omap_inv (omap_insert k v m)"
proof (induction k v m rule: omap_insert.induct)
  case (2 k v a b m)
  then show ?case
    using keys_omap_insert [of k v m]
    by (auto simp: omap_inv_Cons simp del: set_map)
qed (simp add: omap_inv_def)

lemma omap_find_erase: "omap_inv m \<Longrightarrow> omap_find (omap_erase k m) = (omap_find m)(k := None)"
proof (induction k m rule: omap_erase.induct)
  case (2 k a b m)
  have "a \<notin> set (map fst m)" using "2.prems" by (auto simp: omap_inv_Cons)
  then have "omap_find m a = None" by (simp add: omap_find_eq_None)
  with 2 show ?case by (auto simp: omap_inv_Cons fun_eq_iff)
qed auto

lemma keys_omap_erase: "set (map fst (omap_erase k m)) \<subseteq> set (map fst m)"
  by (induction k m rule: omap_erase.induct) auto

lemma omap_inv_erase: "omap_inv m \<Longrightarrow> omap_inv (omap_erase k m)"
proof (induction k m rule: omap_erase.induct)
  case (2 k a b m)
  then show ?case
    using keys_omap_erase [of k m] by (auto simp: omap_inv_Cons simp del: set_map)
qed simp

text \<open>Two sorted lists with the same lookups are the same list.\<close>

lemma omap_ext:
  assumes "omap_inv m" "omap_inv n" "omap_find m = omap_find n"
  shows "m = n"
  using assms
proof (induction m arbitrary: n)
  case Nil
  then show ?case
    by (cases n) (auto simp: fun_eq_iff split: if_splits)
next
  case (Cons e m)
  obtain a b where e: "e = (a, b)" by force
  obtain c d n' where n: "n = (c, d) # n'"
    using Cons.prems(3) e by (cases n) (auto simp: fun_eq_iff split: if_splits)
  have am: "\<forall>k \<in> set (map fst m). a < k" and cn: "\<forall>k \<in> set (map fst n'). c < k"
    using Cons.prems(1,2) by (auto simp: e n omap_inv_Cons)
  have ac: "a = c"
  proof (rule ccontr)
    assume ne: "a \<noteq> c"
    have "omap_find n' a = Some b"
      using fun_cong [OF Cons.prems(3), of a] ne by (simp add: e n)
    then have "a \<in> set (map fst n')"
      using omap_find_eq_None [of n' a] by (auto simp del: set_map)
    moreover have "omap_find m c = Some d"
      using fun_cong [OF Cons.prems(3), of c] ne by (simp add: e n)
    then have "c \<in> set (map fst m)"
      using omap_find_eq_None [of m c] by (auto simp del: set_map)
    ultimately have "c < a" "a < c" using am cn by auto
    then show False by simp
  qed
  have bd: "b = d" using fun_cong [OF Cons.prems(3), of a] by (simp add: e n ac)
  have "omap_find m = omap_find n'"
  proof
    fix k
    show "omap_find m k = omap_find n' k"
    proof (cases "k = a")
      case True
      have "a \<notin> set (map fst m)" "a \<notin> set (map fst n')" using am cn ac by auto
      then show ?thesis
        using omap_find_eq_None [of m a] omap_find_eq_None [of n' a] True by simp
    next
      case False
      then show ?thesis using fun_cong [OF Cons.prems(3), of k] by (simp add: e n ac)
    qed
  qed
  then have "m = n'" using Cons.IH Cons.prems(1,2) by (simp add: e n omap_inv_Cons)
  with ac bd show ?case by (simp add: e n)
qed

subsection \<open>The contract\<close>

locale std_map =
  fixes empty :: "'m"
    and find :: "'m \<Rightarrow> 'k \<Rightarrow> 'v option"
    and insert :: "'k \<Rightarrow> 'v \<Rightarrow> 'm \<Rightarrow> 'm"
    and erase :: "'k \<Rightarrow> 'm \<Rightarrow> 'm"
    and invar :: "'m \<Rightarrow> bool"
  assumes find_empty: "find empty k = None"
    and find_insert: "invar m \<Longrightarrow> find (insert k v m) = (find m)(k \<mapsto> v)"
    and find_erase: "invar m \<Longrightarrow> find (erase k m) = (find m)(k := None)"
    and invar_empty: "invar empty"
    and invar_insert: "invar m \<Longrightarrow> invar (insert k v m)"
    and invar_erase: "invar m \<Longrightarrow> invar (erase k m)"
    and canonical: "invar m \<Longrightarrow> invar n \<Longrightarrow> find m = find n \<Longrightarrow> m = n"
begin

lemma find_insert_same: "invar m \<Longrightarrow> find (insert k v m) k = Some v"
  by (simp add: find_insert)

lemma find_insert_other: "invar m \<Longrightarrow> j \<noteq> k \<Longrightarrow> find (insert k v m) j = find m j"
  by (simp add: find_insert)

lemma find_erase_same: "invar m \<Longrightarrow> find (erase k m) k = None"
  by (simp add: find_erase)

lemma insert_absorb: "invar m \<Longrightarrow> find m k = Some v \<Longrightarrow> insert k v m = m"
  by (rule canonical) (auto simp: find_insert invar_insert)

lemma insert_overwrites: "invar m \<Longrightarrow> insert k v (insert k w m) = insert k v m"
  by (rule canonical) (auto simp: find_insert invar_insert)

lemma insert_commutes:
  "invar m \<Longrightarrow> j \<noteq> k \<Longrightarrow> insert j u (insert k v m) = insert k v (insert j u m)"
  by (rule canonical) (auto simp: find_insert invar_insert)

lemma erase_fresh_insert: "invar m \<Longrightarrow> find m k = None \<Longrightarrow> erase k (insert k v m) = m"
  by (rule canonical) (auto simp: find_insert find_erase invar_insert invar_erase)

lemma invar_fold_insert: "invar m \<Longrightarrow> invar (fold (\<lambda>(k, v). insert k v) kvs m)"
  by (induction kvs arbitrary: m) (auto simp: invar_insert)

lemma find_fold_insert:
  "invar m \<Longrightarrow> find (fold (\<lambda>(k, v). insert k v) kvs m) k =
     (case map_of (rev kvs) k of None \<Rightarrow> find m k | Some v \<Rightarrow> Some v)"
proof (induction kvs arbitrary: m)
  case (Cons e kvs)
  obtain a b where e: "e = (a, b)" by force
  have "find (fold (\<lambda>(k, v). insert k v) kvs (insert a b m)) k =
      (case map_of (rev kvs) k of None \<Rightarrow> find (insert a b m) k | Some v \<Rightarrow> Some v)"
    by (rule Cons.IH) (simp add: invar_insert Cons.prems)
  then show ?case
    by (auto simp: e find_insert Cons.prems map_add_def split: option.splits)
qed simp

end

interpretation om: std_map "[]" omap_find omap_insert omap_erase omap_inv
  by unfold_locales
    (auto simp: omap_find_insert omap_find_erase omap_inv_insert omap_inv_erase omap_ext)

declare om.find_insert [map_laws] om.find_erase [map_laws]
  om.invar_insert [map_laws] om.invar_erase [map_laws]

text \<open>A key after all others.\<close>

lemma omap_insert_last: "\<forall>a \<in> set (map fst m). a < k \<Longrightarrow> omap_insert k v m = m @ [(k, v)]"
  by (induction k v m rule: omap_insert.induct) auto

lemma omap_insert_at_end:
  "\<forall>a \<in> set (map fst pre). a < k \<Longrightarrow> omap_insert k v (pre @ [(k, u)]) = pre @ [(k, v)]"
  by (induction k v pre rule: omap_insert.induct) auto

lemma omap_find_fresh: "\<forall>a \<in> set (map fst pre). a < (k :: 'a :: linorder) \<Longrightarrow> omap_find pre k = None"
  by (auto simp: omap_find_eq_None simp del: set_map)

lemma omap_insert_insert: "omap_insert k x (omap_insert k y m) = omap_insert k x m"
  by (induction k x m rule: omap_insert.induct) auto

text \<open>The entries of a sorted list, looked up.\<close>

lemma omap_find_in_set: "omap_inv m \<Longrightarrow> (k, v) \<in> set m \<longleftrightarrow> omap_find m k = Some v"
proof (induction m)
  case (Cons e m)
  obtain a b where e: "e = (a, b)" by force
  have fresh: "a \<notin> set (map fst m)" using Cons.prems by (auto simp: e omap_inv_Cons)
  have "(a, v) \<notin> set m" using fresh by force
  then show ?case using Cons by (auto simp: e omap_inv_Cons)
qed simp

lemma omap_find_map: "omap_find (map (\<lambda>(k, v). (k, f v)) m) k = map_option f (omap_find m k)"
  by (induction m) (auto split: if_splits)

lemma omap_find_SomeD: "omap_find m k = Some v \<Longrightarrow> (k, v) \<in> set m"
  by (simp add: omap_find_def map_of_SomeD)

section \<open>Maxima\<close>

lemma fold_max_upper: "x \<in> set xs \<Longrightarrow> x \<le> fold max xs (a :: nat)"
proof (induction xs arbitrary: a)
  case (Cons y xs)
  have "b \<le> fold max xs b" for b by (induction xs arbitrary: b) (auto intro: le_trans [OF max.cobounded2])
  then have "y \<le> fold max xs (max y a)" by (meson max.boundedE)
  with Cons show ?case by auto
qed simp

section \<open>Encoders and decoders\<close>

locale codec =
  fixes encode :: "'a \<Rightarrow> 'b"
    and decode :: "'b \<Rightarrow> 'a option"
    and valid :: "'a \<Rightarrow> bool"
  assumes decode_encode: "valid x \<Longrightarrow> decode (encode x) = Some x"
begin

lemma encode_injective: "valid x \<Longrightarrow> valid y \<Longrightarrow> encode x = encode y \<Longrightarrow> x = y"
  by (metis decode_encode option.inject)

lemma inj_on_encode: "inj_on encode {x. valid x}"
  by (auto intro: inj_onI encode_injective)

lemma decode_image: "valid x \<Longrightarrow> b = encode x \<Longrightarrow> decode b = Some x"
  by (simp add: decode_encode)

end

section \<open>State machines with an invariant\<close>

inductive runs :: "('s \<Rightarrow> 'e \<Rightarrow> 's \<Rightarrow> bool) \<Rightarrow> 's \<Rightarrow> 'e list \<Rightarrow> 's \<Rightarrow> bool"
  for step where
  runs_Nil: "runs step s [] s"
| runs_Cons: "step s e t \<Longrightarrow> runs step t es u \<Longrightarrow> runs step s (e # es) u"

inductive_simps runs_Nil_iff [simp]: "runs step s [] t"
inductive_simps runs_Cons_iff: "runs step s (e # es) t"

lemma runs_append: "runs step s (es @ fs) u \<longleftrightarrow> (\<exists>t. runs step s es t \<and> runs step t fs u)"
  by (induction es arbitrary: s) (auto simp: runs_Cons_iff)

locale invariant_machine =
  fixes step :: "'s \<Rightarrow> 'e \<Rightarrow> 's \<Rightarrow> bool"
    and init :: "'s \<Rightarrow> bool"
    and inv :: "'s \<Rightarrow> bool"
  assumes init_inv: "init s \<Longrightarrow> inv s"
    and step_inv: "step s e t \<Longrightarrow> inv s \<Longrightarrow> inv t"
begin

lemma runs_inv: "runs step s es t \<Longrightarrow> inv s \<Longrightarrow> inv t"
  by (induction rule: runs.induct) (blast intro: step_inv)+

lemma reachable_inv: "init s \<Longrightarrow> runs step s es t \<Longrightarrow> inv t"
  by (blast intro: runs_inv init_inv)

end

end
