(* ===== verification/Json_Text.thy ===== *)
theory Json_Text
  imports Prelude
begin

unbundle bit_operations_syntax

text \<open>
  The text routines of the JSON library: \<open>json_tool.h\<close> as amalgamated into
  Client/cpp/json/jsoncpp.cpp (UTF-8 encoding, decimal output) and the quoting of strings in
  \<open>json_writer.cpp\<close>. A C string is the text up to its first NUL.
\<close>

section \<open>UTF-8 output\<close>

text \<open>\<open>static_cast<char>\<close> keeps the low eight bits.\<close>

definition char_cast :: "u32 \<Rightarrow> char" where
  "char_cast w = unbyte (ucast w)"

definition codePointToUTF8 :: "u32 \<Rightarrow> string" where
  "codePointToUTF8 cp =
     (if cp \<le> 0x7F then [char_cast cp]
      else if cp \<le> 0x7FF then
        [char_cast (0xC0 OR (0x1F AND drop_bit 6 cp)),
         char_cast (0x80 OR (0x3F AND cp))]
      else if cp \<le> 0xFFFF then
        [char_cast (0xE0 OR (0xF AND drop_bit 12 cp)),
         char_cast (0x80 OR (0x3F AND drop_bit 6 cp)),
         char_cast (0x80 OR (0x3F AND cp))]
      else if cp \<le> 0x10FFFF then
        [char_cast (0xF0 OR (0x7 AND drop_bit 18 cp)),
         char_cast (0x80 OR (0x3F AND drop_bit 12 cp)),
         char_cast (0x80 OR (0x3F AND drop_bit 6 cp)),
         char_cast (0x80 OR (0x3F AND cp))]
      else [])"

section \<open>Decimal output\<close>

text \<open>The do-while loop of \<open>uintToString\<close>, which writes the digits before \<open>current\<close>.\<close>

function uintToString :: "u64 \<Rightarrow> string \<Rightarrow> string" where
  "uintToString value current =
     (let current' = chr (unat (value mod 10) + 48) # current; value' = value div 10
      in if value' \<noteq> 0 then uintToString value' current' else current')"
  by pat_completeness auto
termination
proof (relation "measure (\<lambda>(v, _). unat v)")
  fix v v' :: u64 and current c' :: string
  assume "v' = v div 10" "v' \<noteq> 0"
  then have "v \<noteq> 0" by auto
  then have "unat v div 10 < unat v" by (simp add: unat_gt_0)
  then show "((v', c'), v, current) \<in> measure (\<lambda>(v, _). unat v)"
    using \<open>v' = v div 10\<close> by (simp add: unat_div)
qed simp

declare uintToString.simps [simp del]

definition valueToString_uint :: "u64 \<Rightarrow> string" where
  "valueToString_uint value = uintToString value []"

text \<open>\<open>value = -value\<close> on the smallest integer wraps to itself.\<close>

definition valueToString_int :: "u64 \<Rightarrow> string" where
  "valueToString_int value =
     (let isNegative = sint value < 0;
          value' = (if isNegative then - value else value);
          current = uintToString value' []
      in if isNegative then CHR ''-'' # current else current)"

definition valueToString_bool :: "bool \<Rightarrow> string" where
  "valueToString_bool value = (if value then ''true'' else ''false'')"

fun fixNumericLocale :: "string \<Rightarrow> string" where
  "fixNumericLocale [] = []"
| "fixNumericLocale (c # cs) =
     (if c = CHR '','' then CHR ''.'' else c) # fixNumericLocale cs"

section \<open>Quoting\<close>

text \<open>The code compares a signed \<open>char\<close>.\<close>

definition isControlCharacter :: "char \<Rightarrow> bool" where
  "isControlCharacter ch \<longleftrightarrow> 0 < sint (byte ch) \<and> sint (byte ch) \<le> 0x1F"

fun containsControlCharacter :: "string \<Rightarrow> bool" where
  "containsControlCharacter [] = False"
| "containsControlCharacter (c # str) =
     (if c = NUL then False
      else if isControlCharacter c then True
      else containsControlCharacter str)"

fun containsControlCharacter0 :: "string \<Rightarrow> bool" where
  "containsControlCharacter0 [] = False"
| "containsControlCharacter0 (c # str) =
     (if isControlCharacter c \<or> c = NUL then True else containsControlCharacter0 str)"

text \<open>\<open>strnpbrk\<close> returns a pointer: the text from the character found.\<close>

fun strnpbrk :: "string \<Rightarrow> string \<Rightarrow> string option" where
  "strnpbrk [] accept = None"
| "strnpbrk (c # s) accept = (if c \<in> set accept then Some (c # s) else strnpbrk s accept)"

definition special_chars :: string where
  "special_chars = [QUOTE, BACKSLASH, BS, FF, LF, CR, TAB]"

text \<open>\<open>hex\<close>, \<open>uppercase\<close>, \<open>setfill('0')\<close>, \<open>setw(4)\<close>.\<close>

definition hex_digit :: "nat \<Rightarrow> char" where
  "hex_digit n = (if n < 10 then chr (n + 48) else chr (n + 55))"

definition hex4 :: "nat \<Rightarrow> string" where
  "hex4 n = [hex_digit (n div 4096 mod 16), hex_digit (n div 256 mod 16),
             hex_digit (n div 16 mod 16), hex_digit (n mod 16)]"

definition unicode_escape :: "char \<Rightarrow> string" where
  "unicode_escape c = BACKSLASH # CHR ''u'' # hex4 (nat (sint (byte c)))"

text \<open>One turn of the loop of \<open>valueToQuotedString\<close> and of \<open>valueToQuotedStringN\<close>; the second
  also escapes NUL, which ends the string of the first.\<close>

definition escape_with :: "(char \<Rightarrow> bool) \<Rightarrow> char \<Rightarrow> string" where
  "escape_with is_control c =
     (if c = QUOTE then [BACKSLASH, QUOTE]
      else if c = BACKSLASH then [BACKSLASH, BACKSLASH]
      else if c = BS then [BACKSLASH, CHR ''b'']
      else if c = FF then [BACKSLASH, CHR ''f'']
      else if c = LF then [BACKSLASH, CHR ''n'']
      else if c = CR then [BACKSLASH, CHR ''r'']
      else if c = TAB then [BACKSLASH, CHR ''t'']
      else if is_control c then unicode_escape c
      else [c])"

definition c_str :: "string \<Rightarrow> string" where
  "c_str s = takeWhile (\<lambda>c. c \<noteq> NUL) s"

definition valueToQuotedString :: "string option \<Rightarrow> string" where
  "valueToQuotedString value = (case value of
       None \<Rightarrow> ''''
     | Some v \<Rightarrow>
         let s = c_str v in
         if strnpbrk s special_chars = None \<and> \<not> containsControlCharacter s
         then QUOTE # s @ [QUOTE]
         else QUOTE # concat (map (escape_with isControlCharacter) s) @ [QUOTE])"

definition escape :: "char \<Rightarrow> string" where
  "escape = escape_with (\<lambda>c. isControlCharacter c \<or> c = NUL)"

definition valueToQuotedStringN :: "string option \<Rightarrow> string" where
  "valueToQuotedStringN value = (case value of
       None \<Rightarrow> ''''
     | Some s \<Rightarrow>
         if strnpbrk s special_chars = None \<and> \<not> containsControlCharacter0 s
         then QUOTE # c_str s @ [QUOTE]
         else QUOTE # concat (map escape s) @ [QUOTE])"

section \<open>Lemmas on quoting\<close>

lemma signed_mod_256:
  assumes "(n :: int) < 256" "0 \<le> n"
  shows "(n + 128) mod 256 - 128 = (if n < 128 then n else n - 256)"
proof (cases "n < 128")
  case False
  have "(n + 128) mod 256 = ((n - 128) + 256) mod 256" by (simp add: add.commute)
  also have "\<dots> = n - 128" using assms False by (simp only: mod_add_self2 mod_pos_pos_trivial)
  finally show ?thesis using False by simp
qed (use assms in simp)

lemma sint_byte: "sint (byte c) = (if code c < 128 then int (code c) else int (code c) - 256)"
proof -
  have u: "uint (byte c) = int (code c)"
    by (simp add: byte_def uint_nat unat_of_nat take_bit_eq_mod)
  have "sint (byte c) = (uint (byte c) + 128) mod 256 - 128"
    by (simp add: sint_uint signed_take_bit_eq_take_bit_shift take_bit_eq_mod)
  then show ?thesis
    using signed_mod_256 [of "int (code c)"] code_less [of c] by (simp add: u)
qed

lemma isControlCharacter_code: "isControlCharacter c \<longleftrightarrow> 0 < code c \<and> code c \<le> 0x1F"
proof -
  have "(0 < k \<and> k \<le> 0x1F) = (0 < n \<and> n \<le> 0x1F)"
    if "n < 256" "k = (if n < 128 then int n else int n - 256)" for n :: nat and k :: int
    using that by auto
  from this [OF code_less sint_byte] show ?thesis by (simp add: isControlCharacter_def)
qed

lemma strnpbrk_None: "strnpbrk s accept = None \<longleftrightarrow> set s \<inter> set accept = {}"
  by (induction s) auto

lemma containsControlCharacter0_iff:
  "containsControlCharacter0 s \<longleftrightarrow> (\<exists>c \<in> set s. isControlCharacter c \<or> c = NUL)"
  by (induction s) auto

lemma c_str_no_NUL: "NUL \<notin> set s \<Longrightarrow> c_str s = s"
  by (auto simp: c_str_def takeWhile_eq_all_conv)

lemma escape_plain:
  "c \<notin> set special_chars \<Longrightarrow> \<not> isControlCharacter c \<Longrightarrow> c \<noteq> NUL \<Longrightarrow> escape c = [c]"
  by (auto simp: escape_def escape_with_def special_chars_def)

text \<open>The fast path of \<open>valueToQuotedStringN\<close> writes what the loop would write.\<close>

lemma valueToQuotedStringN_escape:
  "valueToQuotedStringN (Some s) = QUOTE # concat (map escape s) @ [QUOTE]"
proof (cases "strnpbrk s special_chars = None \<and> \<not> containsControlCharacter0 s")
  case True
  then have plain: "\<forall>c \<in> set s. escape c = [c]" and nul: "NUL \<notin> set s"
    by (auto simp: strnpbrk_None containsControlCharacter0_iff intro!: escape_plain)
  have "concat (map escape s) = s"
    using plain by (induction s) auto
  with True nul show ?thesis by (simp add: valueToQuotedStringN_def c_str_no_NUL)
qed (auto simp: valueToQuotedStringN_def)

end
