(* ===== verification/Json_Real.thy ===== *)
theory Json_Real
  imports Json_Text
begin

text \<open>
  The \<open>double\<close> of the JSON library: IEEE 754 binary64 values as exact dyadic numbers, the part of
  the C library the code calls on them (\<open>sscanf\<close> with "%lf" on a decimal numeral, \<open>snprintf\<close> with
  "%.17g", \<open>modf\<close>, casts and comparisons) and the routines of jsoncpp.cpp built on these.
  Rounding is to nearest, ties to even.
\<close>

section \<open>Values\<close>

text \<open>\<open>Finite neg m k\<close> is \<open>m * 2 ^ k\<close>, negated when \<open>neg\<close>; \<open>m < 2 ^ 53\<close> and \<open>k \<ge> -1074\<close>,
  and \<open>k = -1074\<close> when \<open>m < 2 ^ 52\<close>.\<close>

datatype double = Finite bool nat int | Infinity bool | NaN

definition round_half_even :: "nat \<Rightarrow> nat \<Rightarrow> nat" where
  "round_half_even n d =
     (let q = n div d; r = n mod d
      in if 2 * r > d \<or> (2 * r = d \<and> odd q) then q + 1 else q)"

fun bit_length :: "nat \<Rightarrow> nat" where
  "bit_length n = (if n = 0 then 0 else Suc (bit_length (n div 2)))"

declare bit_length.simps [simp del]

text \<open>The double nearest to \<open>num / den\<close>.\<close>

definition ratio_to_double :: "bool \<Rightarrow> nat \<Rightarrow> nat \<Rightarrow> double" where
  "ratio_to_double neg num den =
     (if num = 0 then Finite neg 0 (-1074)
      else
        let e = int (bit_length num) - int (bit_length den);
            fl = (if num * 2 ^ nat (- e) \<ge> den * 2 ^ nat e then e else e - 1);
            k = max (-1074) (fl - 52);
            m = round_half_even (num * 2 ^ nat (- k)) (den * 2 ^ nat k);
            (m', k') = (if m = 2 ^ 53 then (2 ^ 52, k + 1) else (m, k))
        in if k' > 971 then Infinity neg else Finite neg m' k')"

definition int_to_double :: "int \<Rightarrow> double" where
  "int_to_double i = ratio_to_double (i < 0) (nat \<bar>i\<bar>) 1"

text \<open>A cast to an integer type drops the fraction.\<close>

fun double_trunc :: "double \<Rightarrow> int" where
  "double_trunc (Finite neg m k) =
     (let a = int (if k \<ge> 0 then m * 2 ^ nat k else m div 2 ^ nat (- k))
      in if neg then - a else a)"
| "double_trunc _ = 0"

text \<open>\<open>modf\<close> returns a zero fraction for the infinities.\<close>

fun IsIntegral :: "double \<Rightarrow> bool" where
  "IsIntegral (Finite neg m k) \<longleftrightarrow> k \<ge> 0 \<or> m mod 2 ^ nat (- k) = 0"
| "IsIntegral (Infinity neg) = True"
| "IsIntegral NaN = False"

fun signed_mantissa :: "bool \<Rightarrow> nat \<Rightarrow> int" where
  "signed_mantissa neg m = (if neg then - int m else int m)"

fun double_less :: "double \<Rightarrow> double \<Rightarrow> bool" where
  "double_less (Finite s m j) (Finite t n k) =
     (signed_mantissa s m * 2 ^ nat (j - min j k) < signed_mantissa t n * 2 ^ nat (k - min j k))"
| "double_less (Infinity s) (Infinity t) = (s \<and> \<not> t)"
| "double_less (Infinity s) (Finite _ _ _) = s"
| "double_less (Finite _ _ _) (Infinity t) = (\<not> t)"
| "double_less _ _ = False"

fun double_eq :: "double \<Rightarrow> double \<Rightarrow> bool" where
  "double_eq (Finite s m j) (Finite t n k) =
     (signed_mantissa s m * 2 ^ nat (j - min j k) = signed_mantissa t n * 2 ^ nat (k - min j k))"
| "double_eq (Infinity s) (Infinity t) = (s = t)"
| "double_eq _ _ = False"

definition double_le :: "double \<Rightarrow> double \<Rightarrow> bool" where
  "double_le x y \<longleftrightarrow> double_less x y \<or> double_eq x y"

text \<open>\<open>InRange\<close> compares with bounds converted to \<open>double\<close>.\<close>

definition InRange :: "double \<Rightarrow> int \<Rightarrow> int \<Rightarrow> bool" where
  "InRange d lo hi \<longleftrightarrow> double_le (int_to_double lo) d \<and> double_le d (int_to_double hi)"

section \<open>Reading: sscanf with "%lf"\<close>

text \<open>The exponent part: absent, or \<open>e\<close> with an optional sign and at least one digit;
  \<open>e\<close> without digits is a matching failure.\<close>

definition scan_exponent :: "string \<Rightarrow> int option" where
  "scan_exponent s = (case s of
       [] \<Rightarrow> Some 0
     | c # r \<Rightarrow>
         if c \<noteq> CHR ''e'' \<and> c \<noteq> CHR ''E'' then Some 0
         else
           let (neg, r') = (case r of
                 [] \<Rightarrow> (False, [])
               | d # r'' \<Rightarrow> if d = CHR ''-'' then (True, r'')
                            else if d = CHR ''+'' then (False, r'') else (False, r));
               ds = takeWhile is_digit r'
           in if ds = [] then None
              else Some (if neg then - int (decimal_value ds) else int (decimal_value ds)))"

definition decimal_to_double :: "bool \<Rightarrow> nat \<Rightarrow> int \<Rightarrow> double" where
  "decimal_to_double neg n e = ratio_to_double neg (n * 10 ^ nat e) (10 ^ nat (- e))"

definition sscanf_lf :: "string \<Rightarrow> double option" where
  "sscanf_lf s =
     (let (neg, r) = (case s of
            [] \<Rightarrow> (False, [])
          | c # r \<Rightarrow> if c = CHR ''-'' then (True, r)
                     else if c = CHR ''+'' then (False, r) else (False, s));
          ip = takeWhile is_digit r;
          r1 = dropWhile is_digit r;
          (fp, r2) = (case r1 of
            [] \<Rightarrow> ([], [])
          | c # r' \<Rightarrow> if c = CHR ''.'' then (takeWhile is_digit r', dropWhile is_digit r')
                      else ([], r1))
      in if ip @ fp = [] then None
         else (case scan_exponent r2 of
             None \<Rightarrow> None
           | Some e \<Rightarrow>
               Some (decimal_to_double neg (decimal_value (ip @ fp)) (e - int (length fp)))))"

section \<open>Writing: snprintf with "%.17g"\<close>

text \<open>The decimal exponent of \<open>num / den\<close>: the \<open>x\<close> with \<open>10 ^ x \<le> num / den < 10 ^ (x + 1)\<close>.\<close>

definition decimal_exponent :: "nat \<Rightarrow> nat \<Rightarrow> int" where
  "decimal_exponent num den =
     (if den \<le> num then int (length (nat_digits (num div den))) - 1
      else - int (length (nat_digits ((den + num - 1) div num - 1))))"

definition strip_zeros :: "string \<Rightarrow> string" where
  "strip_zeros ds = rev (dropWhile (\<lambda>c. c = CHR ''0'') (rev ds))"

definition with_fraction :: "string \<Rightarrow> string \<Rightarrow> string" where
  "with_fraction ip fp = (let f = strip_zeros fp in if f = [] then ip else ip @ CHR ''.'' # f)"

definition exponent_suffix :: "int \<Rightarrow> string" where
  "exponent_suffix x =
     (let ds = nat_digits (nat \<bar>x\<bar>)
      in CHR ''e'' # (if x < 0 then CHR ''-'' else CHR ''+'') #
         (if length ds < 2 then CHR ''0'' # ds else ds))"

definition printf_17g :: "bool \<Rightarrow> nat \<Rightarrow> int \<Rightarrow> string" where
  "printf_17g neg m k =
     (let sgn = (if neg then ''-'' else '''')
      in if m = 0 then sgn @ ''0''
         else
           let num = m * 2 ^ nat k; den = 2 ^ nat (- k);
               x = decimal_exponent num den;
               d = round_half_even (num * 10 ^ nat (16 - x)) (den * 10 ^ nat (x - 16));
               (d', x') = (if d = 10 ^ 17 then (10 ^ 16, x + 1) else (d, x));
               ds = nat_digits d'
           in if x' < -4 \<or> 17 \<le> x' then
                sgn @ with_fraction (take 1 ds) (drop 1 ds) @ exponent_suffix x'
              else if 0 \<le> x' then
                sgn @ with_fraction (take (nat x' + 1) ds) (drop (nat x' + 1) ds)
              else sgn @ with_fraction ''0'' (replicate (nat (- x' - 1)) (CHR ''0'') @ ds))"

definition valueToString_double :: "double \<Rightarrow> string" where
  "valueToString_double v = fixNumericLocale (case v of
       Finite neg m k \<Rightarrow> printf_17g neg m k
     | NaN \<Rightarrow> ''null''
     | Infinity neg \<Rightarrow> if neg then ''-1e+9999'' else ''1e+9999'')"

end
