(* ===== verification/Json_Value.thy ===== *)
theory Json_Value
  imports Json_Real
begin

text \<open>
  \<open>Json::Value\<close> (Client/cpp/json/jsoncpp.cpp, class Value): the tagged union of the eight value
  types, its member and element access, its conversions and its order. The map of an array or an
  object is a \<open>std::map\<close>, so an array may have gaps; its size is its last index plus one. A string
  value made by \<open>Value(stringValue)\<close> holds no buffer, which is \<open>JStr None\<close>. The source positions and
  comments a value carries for the writers are not part of the model: no operation here reads them.
  A JSON_ASSERT_MESSAGE or JSON_FAIL_MESSAGE that fails throws a \<open>LogicError\<close>.
\<close>

section \<open>Data\<close>

datatype value_type = nullValue | intValue | uintValue | realValue | stringValue | booleanValue
  | arrayValue | objectValue

datatype json =
    JNull
  | JInt u64
  | JUInt u64
  | JReal double
  | JStr "string option"
  | JBool bool
  | JArr "(u32 \<times> json) list"
  | JObj "(string \<times> json) list"

text \<open>The enumerators are ordered as declared: the order of values of different types.\<close>

fun type_rank :: "value_type \<Rightarrow> nat" where
  "type_rank nullValue = 0"
| "type_rank intValue = 1"
| "type_rank uintValue = 2"
| "type_rank realValue = 3"
| "type_rank stringValue = 4"
| "type_rank booleanValue = 5"
| "type_rank arrayValue = 6"
| "type_rank objectValue = 7"

lemma type_rank_inject [simp]: "type_rank s = type_rank t \<longleftrightarrow> s = t"
  by (cases s; cases t) simp_all

instantiation value_type :: linorder
begin

definition less_eq_value_type :: "value_type \<Rightarrow> value_type \<Rightarrow> bool" where
  "less_eq_value_type s t \<longleftrightarrow> type_rank s \<le> type_rank t"

definition less_value_type :: "value_type \<Rightarrow> value_type \<Rightarrow> bool" where
  "less_value_type s t \<longleftrightarrow> type_rank s < type_rank t"

instance
  by standard (auto simp: less_eq_value_type_def less_value_type_def)

end

fun type :: "json \<Rightarrow> value_type" where
  "type JNull = nullValue"
| "type (JInt _) = intValue"
| "type (JUInt _) = uintValue"
| "type (JReal _) = realValue"
| "type (JStr _) = stringValue"
| "type (JBool _) = booleanValue"
| "type (JArr _) = arrayValue"
| "type (JObj _) = objectValue"

fun Value :: "value_type \<Rightarrow> json" where
  "Value nullValue = JNull"
| "Value intValue = JInt 0"
| "Value uintValue = JUInt 0"
| "Value realValue = JReal (Finite False 0 (-1074))"
| "Value stringValue = JStr None"
| "Value booleanValue = JBool False"
| "Value arrayValue = JArr []"
| "Value objectValue = JObj []"

abbreviation JString :: "string \<Rightarrow> json" where
  "JString s \<equiv> JStr (Some s)"

text \<open>\<open>Value(Int)\<close> sign-extends into the 64-bit member, \<open>Value(const char*)\<close> stops at the NUL.\<close>

definition Value_Int :: "u32 \<Rightarrow> json" where
  "Value_Int i = JInt (scast i)"

definition Value_UInt :: "u32 \<Rightarrow> json" where
  "Value_UInt i = JUInt (ucast i)"

definition Value_cstr :: "string \<Rightarrow> json" where
  "Value_cstr s = JString (c_str s)"

section \<open>Types and ranges\<close>

definition minInt :: int where "minInt = - (2 ^ 31)"
definition maxInt :: int where "maxInt = 2 ^ 31 - 1"
definition maxUInt :: int where "maxUInt = 2 ^ 32 - 1"
definition minInt64 :: int where "minInt64 = - (2 ^ 63)"
definition maxInt64 :: int where "maxInt64 = 2 ^ 63 - 1"
definition maxUInt64 :: int where "maxUInt64 = 2 ^ 64 - 1"

definition isNull :: "json \<Rightarrow> bool" where "isNull v \<longleftrightarrow> type v = nullValue"
definition isBool :: "json \<Rightarrow> bool" where "isBool v \<longleftrightarrow> type v = booleanValue"
definition isString :: "json \<Rightarrow> bool" where "isString v \<longleftrightarrow> type v = stringValue"
definition isArray :: "json \<Rightarrow> bool" where "isArray v \<longleftrightarrow> type v = arrayValue"
definition isObject :: "json \<Rightarrow> bool" where "isObject v \<longleftrightarrow> type v = objectValue"

fun isInt :: "json \<Rightarrow> bool" where
  "isInt (JInt i) \<longleftrightarrow> minInt \<le> sint i \<and> sint i \<le> maxInt"
| "isInt (JUInt u) \<longleftrightarrow> uint u \<le> maxInt"
| "isInt (JReal r) \<longleftrightarrow> double_le (int_to_double minInt) r \<and> double_le r (int_to_double maxInt)
     \<and> IsIntegral r"
| "isInt _ = False"

fun isUInt :: "json \<Rightarrow> bool" where
  "isUInt (JInt i) \<longleftrightarrow> 0 \<le> sint i \<and> uint i \<le> maxUInt"
| "isUInt (JUInt u) \<longleftrightarrow> uint u \<le> maxUInt"
| "isUInt (JReal r) \<longleftrightarrow> double_le (int_to_double 0) r \<and> double_le r (int_to_double maxUInt)
     \<and> IsIntegral r"
| "isUInt _ = False"

fun isInt64 :: "json \<Rightarrow> bool" where
  "isInt64 (JInt i) = True"
| "isInt64 (JUInt u) \<longleftrightarrow> uint u \<le> maxInt64"
| "isInt64 (JReal r) \<longleftrightarrow> double_le (int_to_double minInt64) r \<and> double_less r (int_to_double maxInt64)
     \<and> IsIntegral r"
| "isInt64 _ = False"

fun isUInt64 :: "json \<Rightarrow> bool" where
  "isUInt64 (JInt i) \<longleftrightarrow> 0 \<le> sint i"
| "isUInt64 (JUInt u) = True"
| "isUInt64 (JReal r) \<longleftrightarrow> double_le (int_to_double 0) r \<and> double_less r (int_to_double maxUInt64)
     \<and> IsIntegral r"
| "isUInt64 _ = False"

definition isIntegral :: "json \<Rightarrow> bool" where
  "isIntegral v \<longleftrightarrow> isInt64 v \<or> isUInt64 v"

definition isDouble :: "json \<Rightarrow> bool" where
  "isDouble v \<longleftrightarrow> type v = realValue \<or> isIntegral v"

definition isNumeric :: "json \<Rightarrow> bool" where
  "isNumeric v \<longleftrightarrow> isIntegral v \<or> isDouble v"

lemmas type_tests [value_simps] = isNull_def isBool_def isString_def isArray_def isObject_def
  isIntegral_def isDouble_def isNumeric_def

section \<open>Size\<close>

text \<open>\<open>ArrayIndex\<close> is 32 bits: the size of an array wraps after its last possible index.\<close>

definition arr_size :: "(u32 \<times> json) list \<Rightarrow> u32" where
  "arr_size m = (if m = [] then 0 else fst (last m) + 1)"

fun size_of :: "json \<Rightarrow> u32" where
  "size_of (JArr m) = arr_size m"
| "size_of (JObj m) = word_of_nat (length m)"
| "size_of _ = 0"

definition is_empty :: "json \<Rightarrow> bool" where
  "is_empty v = (if isNull v \<or> isArray v \<or> isObject v then size_of v = 0 else False)"

definition isValidIndex :: "json \<Rightarrow> u32 \<Rightarrow> bool" where
  "isValidIndex v index \<longleftrightarrow> index < size_of v"

fun clear :: "json \<Rightarrow> exn + json" where
  "clear JNull = Inr JNull"
| "clear (JArr m) = Inr (JArr [])"
| "clear (JObj m) = Inr (JObj [])"
| "clear _ = Inl (LogicError ''in Json::Value::clear(): requires complex value'')"

section \<open>Elements\<close>

text \<open>\<open>operator[](ArrayIndex)\<close> on a non-const value makes an array of a null value and creates the
  element, null, when it is missing: the value after the call and the element.\<close>

fun index_ref :: "json \<Rightarrow> u32 \<Rightarrow> exn + (u32 \<times> json) list \<times> json" where
  "index_ref JNull index = Inr ([(index, JNull)], JNull)"
| "index_ref (JArr m) index = (case omap_find m index of
       Some v \<Rightarrow> Inr (m, v)
     | None \<Rightarrow> Inr (omap_insert index JNull m, JNull))"
| "index_ref _ _ =
     Inl (LogicError ''in Json::Value::operator[](ArrayIndex): requires arrayValue'')"

text \<open>Assigning through the reference.\<close>

definition set_index :: "json \<Rightarrow> u32 \<Rightarrow> json \<Rightarrow> exn + json" where
  "set_index v index x =
     (case index_ref v index of Inl e \<Rightarrow> Inl e | Inr (m, _) \<Rightarrow> Inr (JArr (omap_insert index x m)))"

fun at :: "json \<Rightarrow> u32 \<Rightarrow> exn + json" where
  "at JNull index = Inr JNull"
| "at (JArr m) index = (case omap_find m index of Some v \<Rightarrow> Inr v | None \<Rightarrow> Inr JNull)"
| "at _ _ =
     Inl (LogicError ''in Json::Value::operator[](ArrayIndex)const: requires arrayValue'')"

definition append_value :: "json \<Rightarrow> json \<Rightarrow> exn + json" where
  "append_value v x = set_index v (size_of v) x"

definition resize :: "json \<Rightarrow> u32 \<Rightarrow> exn + json" where
  "resize v newSize =
     (case (case v of JNull \<Rightarrow> Some [] | JArr m \<Rightarrow> Some m | _ \<Rightarrow> None) of
        None \<Rightarrow> Inl (LogicError ''in Json::Value::resize(): requires arrayValue'')
      | Some m \<Rightarrow>
          let oldSize = arr_size m in
          if newSize = 0 then Inr (JArr [])
          else if oldSize < newSize then
            (case index_ref (JArr m) (newSize - 1) of Inl e \<Rightarrow> Inl e | Inr (m', _) \<Rightarrow> Inr (JArr m'))
          else Inr (JArr (fold omap_erase (map word_of_nat [unat newSize ..< unat oldSize]) m)))"

text \<open>\<open>removeIndex\<close> moves every later element one place down and erases the last.\<close>

definition shift_down :: "u32 \<Rightarrow> (u32 \<times> json) list \<Rightarrow> (u32 \<times> json) list" where
  "shift_down i m =
     (case omap_find m (i + 1) of
        Some v \<Rightarrow> omap_insert i v m
      | None \<Rightarrow> omap_insert i JNull (omap_insert (i + 1) JNull m))"

fun removeIndex :: "json \<Rightarrow> u32 \<Rightarrow> json option \<times> json" where
  "removeIndex (JArr m) index =
     (case omap_find m index of
        None \<Rightarrow> (None, JArr m)
      | Some removed \<Rightarrow>
          let oldSize = arr_size m;
              m' = fold shift_down (map word_of_nat [unat index ..< unat (oldSize - 1)]) m
          in (Some removed, JArr (omap_erase (oldSize - 1) m')))"
| "removeIndex v index = (None, v)"

section \<open>Members\<close>

fun find :: "json \<Rightarrow> string \<Rightarrow> exn + json option" where
  "find JNull key = Inr None"
| "find (JObj m) key = Inr (omap_find m key)"
| "find _ _ = Inl (LogicError
     ''in Json::Value::find(key, end, found): requires objectValue or nullValue'')"

definition member :: "json \<Rightarrow> string \<Rightarrow> exn + json" where
  "member v key = (case find v key of
       Inl e \<Rightarrow> Inl e | Inr None \<Rightarrow> Inr JNull | Inr (Some x) \<Rightarrow> Inr x)"

definition get :: "json \<Rightarrow> string \<Rightarrow> json \<Rightarrow> exn + json" where
  "get v key defaultValue = (case find v key of
       Inl e \<Rightarrow> Inl e | Inr None \<Rightarrow> Inr defaultValue | Inr (Some x) \<Rightarrow> Inr x)"

definition isMember :: "json \<Rightarrow> string \<Rightarrow> exn + bool" where
  "isMember v key = (case find v key of Inl e \<Rightarrow> Inl e | Inr r \<Rightarrow> Inr (r \<noteq> None))"

text \<open>\<open>resolveReference\<close> makes an object of a null value and creates the member, null, when it is
  missing: the members after the call and the member.\<close>

fun resolveReference :: "json \<Rightarrow> string \<Rightarrow> exn + (string \<times> json) list \<times> json" where
  "resolveReference JNull key = Inr ([(key, JNull)], JNull)"
| "resolveReference (JObj m) key = (case omap_find m key of
       Some v \<Rightarrow> Inr (m, v)
     | None \<Rightarrow> Inr (omap_insert key JNull m, JNull))"
| "resolveReference _ _ = Inl (LogicError
     ''in Json::Value::resolveReference(key, end): requires objectValue'')"

definition set_member :: "json \<Rightarrow> string \<Rightarrow> json \<Rightarrow> exn + json" where
  "set_member v key x =
     (case resolveReference v key of
        Inl e \<Rightarrow> Inl e | Inr (m, _) \<Rightarrow> Inr (JObj (omap_insert key x m)))"

fun getMemberNames :: "json \<Rightarrow> exn + string list" where
  "getMemberNames JNull = Inr []"
| "getMemberNames (JObj m) = Inr (map fst m)"
| "getMemberNames _ =
     Inl (LogicError ''in Json::Value::getMemberNames(), value must be objectValue'')"

text \<open>\<open>removeMember(key, end, removed)\<close>: what was removed, if anything, and the value after.\<close>

fun removeMember :: "json \<Rightarrow> string \<Rightarrow> json option \<times> json" where
  "removeMember (JObj m) key = (case omap_find m key of
       None \<Rightarrow> (None, JObj m)
     | Some removed \<Rightarrow> (Some removed, JObj (omap_erase key m)))"
| "removeMember v key = (None, v)"

text \<open>\<open>Value removeMember(const char*)\<close>.\<close>

fun removeMember_value :: "json \<Rightarrow> string \<Rightarrow> exn + json \<times> json" where
  "removeMember_value JNull key = Inr (JNull, JNull)"
| "removeMember_value (JObj m) key =
     (case removeMember (JObj m) (c_str key) of
        (None, v) \<Rightarrow> Inr (JNull, v) | (Some r, v) \<Rightarrow> Inr (r, v))"
| "removeMember_value _ _ =
     Inl (LogicError ''in Json::Value::removeMember(): requires objectValue'')"

section \<open>Conversions\<close>

fun asString :: "json \<Rightarrow> exn + string" where
  "asString JNull = Inr ''''"
| "asString (JStr None) = Inr ''''"
| "asString (JStr (Some s)) = Inr s"
| "asString (JBool b) = Inr (if b then ''true'' else ''false'')"
| "asString (JInt i) = Inr (valueToString_int i)"
| "asString (JUInt u) = Inr (valueToString_uint u)"
| "asString (JReal r) = Inr (valueToString_double r)"
| "asString _ = Inl (LogicError ''Type is not convertible to string'')"

fun asInt :: "json \<Rightarrow> exn + u32" where
  "asInt (JInt i) = (if isInt (JInt i) then Inr (ucast i)
     else Inl (LogicError ''LargestInt out of Int range''))"
| "asInt (JUInt u) = (if isInt (JUInt u) then Inr (ucast u)
     else Inl (LogicError ''LargestUInt out of Int range''))"
| "asInt (JReal r) = (if InRange r minInt maxInt then Inr (word_of_int (double_trunc r))
     else Inl (LogicError ''double out of Int range''))"
| "asInt JNull = Inr 0"
| "asInt (JBool b) = Inr (if b then 1 else 0)"
| "asInt _ = Inl (LogicError ''Value is not convertible to Int.'')"

fun asUInt :: "json \<Rightarrow> exn + u32" where
  "asUInt (JInt i) = (if isUInt (JInt i) then Inr (ucast i)
     else Inl (LogicError ''LargestInt out of UInt range''))"
| "asUInt (JUInt u) = (if isUInt (JUInt u) then Inr (ucast u)
     else Inl (LogicError ''LargestUInt out of UInt range''))"
| "asUInt (JReal r) = (if InRange r 0 maxUInt then Inr (word_of_int (double_trunc r))
     else Inl (LogicError ''double out of UInt range''))"
| "asUInt JNull = Inr 0"
| "asUInt (JBool b) = Inr (if b then 1 else 0)"
| "asUInt _ = Inl (LogicError ''Value is not convertible to UInt.'')"

fun asInt64 :: "json \<Rightarrow> exn + u64" where
  "asInt64 (JInt i) = Inr i"
| "asInt64 (JUInt u) = (if isInt64 (JUInt u) then Inr u
     else Inl (LogicError ''LargestUInt out of Int64 range''))"
| "asInt64 (JReal r) = (if InRange r minInt64 maxInt64 then Inr (word_of_int (double_trunc r))
     else Inl (LogicError ''double out of Int64 range''))"
| "asInt64 JNull = Inr 0"
| "asInt64 (JBool b) = Inr (if b then 1 else 0)"
| "asInt64 _ = Inl (LogicError ''Value is not convertible to Int64.'')"

fun asUInt64 :: "json \<Rightarrow> exn + u64" where
  "asUInt64 (JInt i) = (if isUInt64 (JInt i) then Inr i
     else Inl (LogicError ''LargestInt out of UInt64 range''))"
| "asUInt64 (JUInt u) = Inr u"
| "asUInt64 (JReal r) = (if InRange r 0 maxUInt64 then Inr (word_of_int (double_trunc r))
     else Inl (LogicError ''double out of UInt64 range''))"
| "asUInt64 JNull = Inr 0"
| "asUInt64 (JBool b) = Inr (if b then 1 else 0)"
| "asUInt64 _ = Inl (LogicError ''Value is not convertible to UInt64.'')"

fun asDouble :: "json \<Rightarrow> exn + double" where
  "asDouble (JInt i) = Inr (int_to_double (sint i))"
| "asDouble (JUInt u) = Inr (int_to_double (uint u))"
| "asDouble (JReal r) = Inr r"
| "asDouble JNull = Inr (int_to_double 0)"
| "asDouble (JBool b) = Inr (int_to_double (if b then 1 else 0))"
| "asDouble _ = Inl (LogicError ''Value is not convertible to double.'')"

fun asBool :: "json \<Rightarrow> exn + bool" where
  "asBool (JBool b) = Inr b"
| "asBool JNull = Inr False"
| "asBool (JInt i) = Inr (i \<noteq> 0)"
| "asBool (JUInt u) = Inr (u \<noteq> 0)"
| "asBool (JReal r) = Inr (\<not> double_eq r (int_to_double 0))"
| "asBool _ = Inl (LogicError ''Value is not convertible to bool.'')"

definition isConvertibleTo :: "json \<Rightarrow> value_type \<Rightarrow> bool" where
  "isConvertibleTo v other = (case other of
       nullValue \<Rightarrow>
         (isNumeric v \<and> (case asDouble v of Inr d \<Rightarrow> double_eq d (int_to_double 0) | Inl _ \<Rightarrow> False))
         \<or> v = JBool False
         \<or> (type v = stringValue \<and> asString v = Inr '''')
         \<or> v = JArr [] \<or> v = JObj [] \<or> type v = nullValue
     | intValue \<Rightarrow>
         isInt v \<or> (case v of JReal r \<Rightarrow> InRange r minInt maxInt | _ \<Rightarrow> False)
         \<or> type v = booleanValue \<or> type v = nullValue
     | uintValue \<Rightarrow>
         isUInt v \<or> (case v of JReal r \<Rightarrow> InRange r 0 maxUInt | _ \<Rightarrow> False)
         \<or> type v = booleanValue \<or> type v = nullValue
     | realValue \<Rightarrow> isNumeric v \<or> type v = booleanValue \<or> type v = nullValue
     | booleanValue \<Rightarrow> isNumeric v \<or> type v = booleanValue \<or> type v = nullValue
     | stringValue \<Rightarrow>
         isNumeric v \<or> type v = booleanValue \<or> type v = stringValue \<or> type v = nullValue
     | arrayValue \<Rightarrow> type v = arrayValue \<or> type v = nullValue
     | objectValue \<Rightarrow> type v = objectValue \<or> type v = nullValue)"

section \<open>Comparison\<close>

text \<open>The keys of an object compare by \<open>memcmp\<close> and then length (\<open>CZString::operator<\<close>).\<close>

fun CZString_less :: "string \<Rightarrow> string \<Rightarrow> bool" where
  "CZString_less [] [] = False"
| "CZString_less [] (_ # _) = True"
| "CZString_less (_ # _) [] = False"
| "CZString_less (c # s) (d # t) =
     (if code c < code d then True else if code d < code c then False else CZString_less s t)"

lemma CZString_less_iff: "CZString_less s t \<longleftrightarrow> s < t"
  by (induction s t rule: CZString_less.induct) (auto simp: less_char_def)

text \<open>\<open>int(size - other.size)\<close>.\<close>

definition size_delta :: "nat \<Rightarrow> nat \<Rightarrow> int" where
  "size_delta m n = sint (word_of_int (int m - int n) :: u32)"

text \<open>\<open>operator<\<close>; maps compare entry by entry, an entry by its key and then its value.\<close>

text \<open>A missing string buffer comes before every string.\<close>

fun str_less :: "string option \<Rightarrow> string option \<Rightarrow> bool" where
  "str_less None None = False"
| "str_less None (Some _) = True"
| "str_less (Some _) None = False"
| "str_less (Some s) (Some t) = CZString_less s t"

function (sequential) json_less :: "json \<Rightarrow> json \<Rightarrow> bool"
  and arr_less :: "(u32 \<times> json) list \<Rightarrow> (u32 \<times> json) list \<Rightarrow> bool"
  and obj_less :: "(string \<times> json) list \<Rightarrow> (string \<times> json) list \<Rightarrow> bool"
where
  "json_less v w =
     (if type v \<noteq> type w then type v < type w
      else (case v of
          JNull \<Rightarrow> False
        | JInt i \<Rightarrow> (case w of JInt j \<Rightarrow> sint i < sint j | _ \<Rightarrow> False)
        | JUInt i \<Rightarrow> (case w of JUInt j \<Rightarrow> i < j | _ \<Rightarrow> False)
        | JReal r \<Rightarrow> (case w of JReal s \<Rightarrow> double_less r s | _ \<Rightarrow> False)
        | JBool a \<Rightarrow> (case w of JBool b \<Rightarrow> \<not> a \<and> b | _ \<Rightarrow> False)
        | JStr s \<Rightarrow> (case w of JStr t \<Rightarrow> str_less s t | _ \<Rightarrow> False)
        | JArr m \<Rightarrow> (case w of
              JArr n \<Rightarrow>
                (let delta = size_delta (length m) (length n)
                 in if delta \<noteq> 0 then delta < 0 else arr_less m n)
            | _ \<Rightarrow> False)
        | JObj m \<Rightarrow> (case w of
              JObj n \<Rightarrow>
                (let delta = size_delta (length m) (length n)
                 in if delta \<noteq> 0 then delta < 0 else obj_less m n)
            | _ \<Rightarrow> False)))"
| "arr_less [] [] = False"
| "arr_less [] (_ # _) = True"
| "arr_less (_ # _) [] = False"
| "arr_less ((i, v) # m) ((j, w) # n) =
     (if i < j \<or> \<not> j < i \<and> json_less v w then True
      else if j < i \<or> \<not> i < j \<and> json_less w v then False
      else arr_less m n)"
| "obj_less [] [] = False"
| "obj_less [] (_ # _) = True"
| "obj_less (_ # _) [] = False"
| "obj_less ((k, v) # m) ((l, w) # n) =
     (if CZString_less k l \<or> \<not> CZString_less l k \<and> json_less v w then True
      else if CZString_less l k \<or> \<not> CZString_less k l \<and> json_less w v then False
      else obj_less m n)"
  by pat_completeness auto
termination
  by (relation "measure (\<lambda>x. case x of
        Inl (v, w) \<Rightarrow> size v + size w
      | Inr (Inl (m, n)) \<Rightarrow> size_list (size_prod (\<lambda>_. 0) size) m + size_list (size_prod (\<lambda>_. 0) size) n
      | Inr (Inr (m, n)) \<Rightarrow> size_list (size_prod (\<lambda>_. 0) size) m + size_list (size_prod (\<lambda>_. 0) size) n)")
    auto

definition json_compare :: "json \<Rightarrow> json \<Rightarrow> int" where
  "json_compare v w = (if json_less v w then -1 else if json_less w v then 1 else 0)"

fun json_eq :: "json \<Rightarrow> json \<Rightarrow> bool"
  and arr_eq :: "(u32 \<times> json) list \<Rightarrow> (u32 \<times> json) list \<Rightarrow> bool"
  and obj_eq :: "(string \<times> json) list \<Rightarrow> (string \<times> json) list \<Rightarrow> bool"
where
  "json_eq JNull w = (w = JNull)"
| "json_eq (JInt i) w = (w = JInt i)"
| "json_eq (JUInt i) w = (w = JUInt i)"
| "json_eq (JReal r) w = (case w of JReal s \<Rightarrow> double_eq r s | _ \<Rightarrow> False)"
| "json_eq (JStr s) w = (w = JStr s)"
| "json_eq (JBool a) w = (w = JBool a)"
| "json_eq (JArr m) w = (case w of JArr n \<Rightarrow> length m = length n \<and> arr_eq m n | _ \<Rightarrow> False)"
| "json_eq (JObj m) w = (case w of JObj n \<Rightarrow> length m = length n \<and> obj_eq m n | _ \<Rightarrow> False)"
| "arr_eq [] [] = True"
| "arr_eq ((i, v) # m) ((j, w) # n) = (i = j \<and> json_eq v w \<and> arr_eq m n)"
| "arr_eq _ _ = False"
| "obj_eq [] [] = True"
| "obj_eq ((i, v) # m) ((j, w) # n) = (i = j \<and> json_eq v w \<and> obj_eq m n)"
| "obj_eq _ _ = False"

declare json_less.simps [simp del]

end
