(* ===== verification/Json_Reader.thy ===== *)
theory Json_Reader
  imports Json_Value
begin

text \<open>
  \<open>Json::Reader\<close> (Client/cpp/json/jsoncpp.cpp): the tokenizer, the recursive descent over tokens, the
  decoding of numbers and strings, error records and error recovery. A pointer into the document
  is the text from it to the end of the document. Comments are skipped as the code skips them; the
  collection of their text into the values (\<open>collectComments_\<close>) and the source positions of values are
  not modelled: they do not influence what is accepted or which payload is read.

  The three mutually recursive functions \<open>readValue\<close>, \<open>readObject\<close> and \<open>readArray\<close> take a bound on the
  number of calls; \<open>None\<close> means it ran out, \<open>Some (Inl e)\<close> that \<open>e\<close> was thrown.
\<close>

section \<open>Data\<close>

type_synonym location = string

datatype token_type = tokenEndOfStream | tokenObjectBegin | tokenObjectEnd | tokenArrayBegin
  | tokenArrayEnd | tokenString | tokenNumber | tokenTrue | tokenFalse | tokenNull
  | tokenArraySeparator | tokenMemberSeparator | tokenComment | tokenError

record token =
  tok_type :: token_type
  tok_start :: location
  tok_end :: location

record error_info =
  err_token :: token
  err_message :: string
  err_extra :: "location option"

record features =
  allowComments :: bool
  strictRoot :: bool
  allowDroppedNullPlaceholders :: bool
  allowNumericKeys :: bool

definition Features :: features where
  "Features = \<lparr>allowComments = True, strictRoot = False, allowDroppedNullPlaceholders = False,
     allowNumericKeys = False\<rparr>"

definition strictMode :: features where
  "strictMode = \<lparr>allowComments = False, strictRoot = True, allowDroppedNullPlaceholders = False,
     allowNumericKeys = False\<rparr>"

record reader =
  current :: location
  errors :: "error_info list"
  stackDepth :: nat

definition stackLimit :: nat where "stackLimit = 1000"

text \<open>\<open>getNextChar\<close>: NUL at the end, where the pointer stays.\<close>

fun getNextChar :: "location \<Rightarrow> char \<times> location" where
  "getNextChar [] = (NUL, [])"
| "getNextChar (c # s) = (c, s)"

lemma getNextChar_length: "length (snd (getNextChar s)) \<le> length s"
  by (cases s) auto

section \<open>Tokens\<close>

definition is_space :: "char \<Rightarrow> bool" where
  "is_space c \<longleftrightarrow> c = CHR '' '' \<or> c = TAB \<or> c = CR \<or> c = LF"

definition skipSpaces :: "location \<Rightarrow> location" where
  "skipSpaces s = dropWhile is_space s"

definition match_pattern :: "string \<Rightarrow> location \<Rightarrow> bool \<times> location" where
  "match_pattern pattern s =
     (if length s < length pattern then (False, s)
      else if take (length pattern) s \<noteq> pattern then (False, s)
      else (True, drop (length pattern) s))"

fun c_comment_loop :: "location \<Rightarrow> location" where
  "c_comment_loop [] = []"
| "c_comment_loop (c # s) = (if c = CHR ''*'' \<and> deref s = CHR ''/'' then s else c_comment_loop s)"

definition readCStyleComment :: "location \<Rightarrow> bool \<times> location" where
  "readCStyleComment s =
     (let (c, s') = getNextChar (c_comment_loop s) in (c = CHR ''/'', s'))"

fun cpp_comment_loop :: "location \<Rightarrow> location" where
  "cpp_comment_loop [] = []"
| "cpp_comment_loop (c # s) =
     (if c = LF then s
      else if c = CR then (if s \<noteq> [] \<and> deref s = LF then snd (getNextChar s) else s)
      else cpp_comment_loop s)"

definition readCppStyleComment :: "location \<Rightarrow> bool \<times> location" where
  "readCppStyleComment s = (True, cpp_comment_loop s)"

definition readComment :: "location \<Rightarrow> bool \<times> location" where
  "readComment s =
     (let (c, s') = getNextChar s
      in if c = CHR ''*'' then readCStyleComment s'
         else if c = CHR ''/'' then readCppStyleComment s'
         else (False, s'))"

text \<open>\<open>readNumber\<close>: digits, a fraction, an exponent; each part may be missing.\<close>

definition readNumber :: "location \<Rightarrow> location" where
  "readNumber s =
     (let s1 = dropWhile is_digit s;
          s2 = (if deref s1 = CHR ''.'' then dropWhile is_digit (tl s1) else s1)
      in if deref s2 = CHR ''e'' \<or> deref s2 = CHR ''E'' then
           (let s3 = tl s2;
                s4 = (if deref s3 = CHR ''+'' \<or> deref s3 = CHR ''-'' then tl s3 else s3)
            in dropWhile is_digit s4)
         else s2)"

text \<open>\<open>readString\<close>, \<open>c\<close> being the last character looked at.\<close>

function readString_loop :: "char \<Rightarrow> location \<Rightarrow> bool \<times> location" where
  "readString_loop c [] = (c = QUOTE, [])"
| "readString_loop c (d # s) =
     (if d = BACKSLASH then readString_loop d (snd (getNextChar s))
      else if d = QUOTE then (True, s)
      else readString_loop d s)"
  by pat_completeness auto

termination
  by (relation "measure (\<lambda>(c, s). length s)")
    (auto intro: le_less_trans [OF getNextChar_length])

definition readString :: "location \<Rightarrow> bool \<times> location" where
  "readString s = readString_loop NUL s"

text \<open>The switch of \<open>readToken\<close> on the first character: the token type, whether the token is well
  formed, and where it ends.\<close>

definition scan_token :: "char \<Rightarrow> location \<Rightarrow> token_type \<times> bool \<times> location" where
  "scan_token c s =
     (if c = CHR ''{'' then (tokenObjectBegin, True, s)
      else if c = CHR ''}'' then (tokenObjectEnd, True, s)
      else if c = CHR ''['' then (tokenArrayBegin, True, s)
      else if c = CHR '']'' then (tokenArrayEnd, True, s)
      else if c = QUOTE then (tokenString, readString s)
      else if c = CHR ''/'' then (tokenComment, readComment s)
      else if is_digit c \<or> c = CHR ''-'' then (tokenNumber, True, readNumber s)
      else if c = CHR ''t'' then (tokenTrue, match_pattern ''rue'' s)
      else if c = CHR ''f'' then (tokenFalse, match_pattern ''alse'' s)
      else if c = CHR ''n'' then (tokenNull, match_pattern ''ull'' s)
      else if c = CHR '','' then (tokenArraySeparator, True, s)
      else if c = CHR '':'' then (tokenMemberSeparator, True, s)
      else if c = NUL then (tokenEndOfStream, True, s)
      else (tokenError, False, s))"

definition readToken :: "location \<Rightarrow> token" where
  "readToken s0 =
     (let s = skipSpaces s0;
          (c, s1) = getNextChar s;
          (ty, ok, s2) = scan_token c s1
      in \<lparr>tok_type = (if ok then ty else tokenError), tok_start = s, tok_end = s2\<rparr>)"

lemma dropWhile_length: "length (dropWhile P s) \<le> length s"
  by (simp add: length_dropWhile_le)

lemma c_comment_length: "length (c_comment_loop s) \<le> length s"
  by (induction s rule: c_comment_loop.induct) auto

lemma cpp_comment_length: "length (cpp_comment_loop s) \<le> length s"
  by (induction s rule: cpp_comment_loop.induct)
    (auto intro: le_trans [OF getNextChar_length])

lemma readComment_length: "readComment s = (ok, s') \<Longrightarrow> length s' \<le> length s"
proof -
  assume "readComment s = (ok, s')"
  moreover obtain c t where t: "getNextChar s = (c, t)" by force
  moreover have "length t \<le> length s" using getNextChar_length [of s] t by simp
  moreover have "length (snd (getNextChar (c_comment_loop t))) \<le> length t"
    by (rule le_trans [OF getNextChar_length c_comment_length])
  ultimately show ?thesis
    using cpp_comment_length [of t]
    by (auto simp: readComment_def readCStyleComment_def readCppStyleComment_def
        split: prod.splits if_splits)
qed

lemma readNumber_length: "length (readNumber s) \<le> length s"
proof -
  have tl: "length (tl t) \<le> length t" for t :: string by simp
  show ?thesis
    unfolding readNumber_def Let_def
    by (auto intro!: le_trans [OF dropWhile_length] le_trans [OF tl])
qed

lemma readString_loop_length: "readString_loop c s = (ok, s') \<Longrightarrow> length s' \<le> length s"
proof (induction c s rule: readString_loop.induct)
  case (2 c d s)
  then show ?case
    using getNextChar_length [of s] by (fastforce split: if_splits)
qed simp

lemma match_pattern_length: "match_pattern p s = (ok, s') \<Longrightarrow> length s' \<le> length s"
  by (auto simp: match_pattern_def split: if_splits)

lemma scan_token_length: "scan_token c s = (ty, ok, s') \<Longrightarrow> length s' \<le> length s"
  by (auto simp: scan_token_def readString_def readNumber_length split: if_splits
      dest: readComment_length readString_loop_length match_pattern_length)

text \<open>Every token but the end of the stream consumes a character.\<close>

lemma scan_token_NUL: "scan_token NUL s = (tokenEndOfStream, True, s)"
  by (simp add: scan_token_def char_consts is_digit_def)

lemma readToken_length: "length (tok_end (readToken s)) \<le> length s"
proof -
  obtain c t where t: "getNextChar (skipSpaces s) = (c, t)" by force
  obtain ty ok u where u: "scan_token c t = (ty, ok, u)" by (cases "scan_token c t") auto
  have "length t \<le> length s"
    using getNextChar_length [of "skipSpaces s"] dropWhile_length [of is_space s] t
    by (simp add: skipSpaces_def)
  with scan_token_length [OF u] show ?thesis by (simp add: readToken_def t u)
qed

lemma readToken_consumes:
  assumes "tok_type (readToken s) \<noteq> tokenEndOfStream"
  shows "length (tok_end (readToken s)) < length s"
proof (cases "skipSpaces s")
  case Nil
  then show ?thesis using assms by (simp add: readToken_def scan_token_NUL)
next
  case (Cons c t)
  obtain ty ok u where u: "scan_token c t = (ty, ok, u)" by (cases "scan_token c t") auto
  have "length (skipSpaces s) \<le> length s" by (simp add: skipSpaces_def dropWhile_length)
  with Cons scan_token_length [OF u] show ?thesis by (simp add: readToken_def u)
qed

text \<open>\<open>skipCommentTokens\<close>, and the loops of \<open>readObject\<close> and \<open>readArray\<close> that skip comments whatever
  the features say.\<close>

function readPastComments :: "location \<Rightarrow> token" where
  "readPastComments s =
     (let token = readToken s
      in if tok_type token = tokenComment then readPastComments (tok_end token) else token)"
  by pat_completeness auto
termination
  by (relation "measure length") (auto intro: readToken_consumes)

declare readPastComments.simps [simp del]

definition skipCommentTokens :: "features \<Rightarrow> location \<Rightarrow> token" where
  "skipCommentTokens f s = (if allowComments f then readPastComments s else readToken s)"

lemma readPastComments_length: "length (tok_end (readPastComments s)) \<le> length s"
proof (induction s rule: readPastComments.induct)
  case (1 s)
  then show ?case
    using readToken_length [of s] by (subst readPastComments.simps) (auto simp: Let_def)
qed

lemma readPastComments_consumes:
  "tok_type (readPastComments s) \<noteq> tokenEndOfStream \<Longrightarrow> length (tok_end (readPastComments s)) < length s"
proof (induction s rule: readPastComments.induct)
  case (1 s)
  show ?case
  proof (cases "tok_type (readToken s) = tokenComment")
    case True
    then have "length (tok_end (readToken s)) < length s" by (intro readToken_consumes) simp
    moreover have "readPastComments s = readPastComments (tok_end (readToken s))"
      using True by (subst readPastComments.simps) simp
    ultimately show ?thesis
      using readPastComments_length [of "tok_end (readToken s)"] by simp
  next
    case False
    then have "readPastComments s = readToken s" by (subst readPastComments.simps) simp
    with 1(2) show ?thesis by (simp add: readToken_consumes)
  qed
qed

lemma skipCommentTokens_length: "length (tok_end (skipCommentTokens f s)) \<le> length s"
  by (simp add: skipCommentTokens_def readPastComments_length readToken_length)

lemma skipCommentTokens_consumes:
  "tok_type (skipCommentTokens f s) \<noteq> tokenEndOfStream \<Longrightarrow>
   length (tok_end (skipCommentTokens f s)) < length s"
  by (auto simp: skipCommentTokens_def readPastComments_consumes readToken_consumes)

end
