(* ===== verification/Json_Parser_Laws.thy ===== *)
theory Json_Parser_Laws
  imports Json_Parser
begin

text \<open>
  Laws of the parser: every call returns within its fuel, the position never moves backwards, and
  the only exception is the one of the stack limit.
\<close>

section \<open>The plumbing\<close>

lemma continue_Inr_iff:
  "continue m f = Some (Inr y) \<longleftrightarrow> (\<exists>x. m = Some (Inr x) \<and> f x = Some (Inr y))"
  by (auto simp: continue_def split: option.splits sum.splits)

lemma continue_None_iff:
  "continue m f = None \<longleftrightarrow> m = None \<or> (\<exists>x. m = Some (Inr x) \<and> f x = None)"
  by (auto simp: continue_def split: option.splits sum.splits)

lemma finish_simps [simp]:
  "finish ok v r = Some (Inr (ok', v', r')) \<longleftrightarrow> ok' = ok \<and> v' = v \<and> r' = r"
  "finish ok v r \<noteq> None"
  by (auto simp: finish_def)

lemma leave_simps:
  "leave (ok, v, r) = finish ok v (r\<lparr>stackDepth := stackDepth r - 1\<rparr>)"
  by (simp add: leave_def)

lemma leave_not_None [simp]: "leave x \<noteq> None"
  by (cases x) (simp add: leave_simps)

lemma lift_exn_not_None [simp]: "\<exists>y. lift_exn x = Some y"
  by (simp add: lift_exn_def)

lemma current_addError [simp]: "current (addError m t e r) = current r"
  by (simp add: addError_def)

lemma current_recover: "length (current (recoverFromError t r)) \<le> length (current r)"
  by (simp add: recoverFromError_def recover_loop_length)

lemma current_addErrorAndRecover: "length (current (addErrorAndRecover m t k r)) \<le> length (current r)"
  unfolding addErrorAndRecover_def by (rule le_trans [OF current_recover]) simp

lemma current_decodeNumber: "decodeNumber t r = (v, r') \<Longrightarrow> current r' = current r"
  by (auto simp: decodeNumber_def decodeDouble_def Let_def split: option.splits)

lemma current_decodeString: "decodeString t r = (v, r') \<Longrightarrow> current r' = current r"
  by (auto simp: decodeString_def Let_def split: sum.splits)

lemma member_name_current:
  "member_name f t r = Some (Inr (Some (n, r'))) \<Longrightarrow> current r' = current r"
  by (auto simp: member_name_def continue_Inr_iff split: if_splits prod.splits option.splits
      dest: current_decodeNumber current_decodeString)

lemma member_name_not_None [simp]: "\<exists>y. member_name f t r = Some y"
  by (auto simp: member_name_def continue_def lift_exn_def split: prod.splits option.splits sum.splits)

lemma tok_start_readToken: "length (tok_start (readToken s)) \<le> length s"
  by (auto simp: readToken_def Let_def skipSpaces_def dropWhile_length split: prod.splits)

lemma tok_start_readPastComments: "length (tok_start (readPastComments s)) \<le> length s"
proof (induction s rule: readPastComments.induct)
  case (1 s)
  then show ?case
    using readToken_length [of s] tok_start_readToken [of s]
    by (subst readPastComments.simps) (auto simp: Let_def)
qed

lemma tok_start_skipCommentTokens: "length (tok_start (skipCommentTokens f s)) \<le> length s"
  by (simp add: skipCommentTokens_def tok_start_readPastComments tok_start_readToken)


definition within :: "bool \<Rightarrow> nat \<Rightarrow> (bool \<times> json \<times> reader) run \<Rightarrow> bool" where
  "within b L m \<longleftrightarrow> (b \<longrightarrow> m \<noteq> None) \<and>
     (\<forall>ok v r. m = Some (Inr (ok, v, r)) \<longrightarrow> length (current r) \<le> L)"

lemma within_finish [intro]: "length (current r) \<le> L \<Longrightarrow> within b L (finish ok v r)"
  by (simp add: within_def finish_def)

lemma within_throw [intro, simp]: "within b L (Some (Inl e))"
  by (simp add: within_def)

lemma within_leave [intro]: "length (current r) \<le> L \<Longrightarrow> within b L (leave (ok, v, r))"
  by (auto simp: leave_simps)

lemma within_recover [intro]:
  "length (current r) \<le> L \<Longrightarrow> within b L (finish ok v (recoverFromError t r))"
  "length (current r) \<le> L \<Longrightarrow> within b L (finish ok v (addErrorAndRecover m u t r))"
  by (auto intro!: within_finish le_trans [OF current_recover] le_trans [OF current_addErrorAndRecover])

lemma within_mono: "within b K m \<Longrightarrow> (c \<Longrightarrow> b) \<Longrightarrow> K \<le> L \<Longrightarrow> within c L m"
  by (fastforce simp: within_def)

lemma within_continue:
  assumes "within b K m" "c \<Longrightarrow> b"
    and "\<And>ok v r. length (current r) \<le> K \<Longrightarrow> within c L (f (ok, v, r))"
  shows "within c L (continue m f)"
  using assms by (cases m) (fastforce simp: within_def continue_def split: sum.splits)+

lemma within_bind:
  assumes "m \<noteq> None" "\<And>x. m = Some (Inr x) \<Longrightarrow> within c L (f x)"
  shows "within c L (continue m f)"
  using assms by (fastforce simp: continue_def split: sum.splits)


lemma member_separator_length:
  "member_separator s = Inl comma \<Longrightarrow> length (tok_end comma) \<le> length s"
  "member_separator s = Inr comma \<Longrightarrow> length (tok_end comma) \<le> length s"
  "member_separator s = Inr comma \<Longrightarrow> tok_type comma \<noteq> tokenObjectEnd \<Longrightarrow>
     length (tok_end comma) < length s"
  using readToken_length [of s] readToken_consumes [of s]
    readPastComments_length [of "tok_end (readToken s)"]
  by (auto simp: member_separator_def Let_def split: if_splits)

lemma readValue_within:
  assumes O: "\<And>name v r. within (2 * length (current r) + 1 < n) (length (current r)) (readObject f n name v r)"
    and A: "\<And>i v r. within (2 * length (current r) + 1 < n) (length (current r)) (readArray f n i v r)"
  shows "within (2 * length (current r) < Suc n) (length (current r)) (readValue f (Suc n) cur r)"
proof (cases "stackDepth r \<ge> stackLimit")
  case False
  define t where "t = skipCommentTokens f (current r)"
  have le: "length (tok_end t) \<le> length (current r)"
    by (simp add: t_def skipCommentTokens_length)
  have lt: "length (tok_end t) < length (current r)" if "tok_type t \<noteq> tokenEndOfStream"
    using that by (simp add: t_def skipCommentTokens_consumes)
  have sp: "length (skipSpaces s) \<le> length s" for s by (simp add: skipSpaces_def dropWhile_length)
  have rt: "length (tok_end (readToken (skipSpaces s))) \<le> length s" for s
    using readToken_length sp le_trans by blast
  have st: "length (tok_start t) \<le> length (current r)"
    by (simp add: t_def tok_start_skipCommentTokens)
  show ?thesis
  proof (cases "tok_type t")
    case tokenObjectBegin
    then show ?thesis using False lt
      by (auto simp add: Let_def t_def [symmetric] intro!: within_continue [OF O])
  next
    case tokenArrayBegin
    then show ?thesis using False lt le rt [of "tok_end t"] sp [of "tok_end t"]
      by (auto simp add: Let_def t_def [symmetric] intro!: within_continue [OF A] within_leave)
  qed (use False le st in \<open>auto simp add: Let_def t_def [symmetric] 
    split: option.splits prod.splits dest!: current_decodeNumber current_decodeString\<close>)
qed simp

lemma readObject_within:
  assumes V: "\<And>cur r. within (2 * length (current r) < n) (length (current r)) (readValue f n cur r)"
    and O: "\<And>name v r. within (2 * length (current r) + 1 < n) (length (current r)) (readObject f n name v r)"
  shows "within (2 * length (current r) + 1 < Suc n) (length (current r)) (readObject f (Suc n) name v r)"
proof -
  define t where "t = readPastComments (current r)"
  have le: "length (tok_end t) \<le> length (current r)"
    by (simp add: t_def readPastComments_length)
  have colon: "length (tok_end (readToken (tok_end t))) \<le> length (current r)"
    using readToken_length [of "tok_end t"] le by simp
  have tail: "within (2 * length (current r) < n) (length (current r))
      (case member_separator (current r4) of
         Inl comma \<Rightarrow> finish False v' (addErrorAndRecover msg comma tokenObjectEnd (r4\<lparr>current := tok_end comma\<rparr>))
       | Inr comma \<Rightarrow>
           let r5 = r4\<lparr>current := tok_end comma\<rparr>
           in if tok_type comma = tokenObjectEnd then finish True v' r5
              else readObject f n name' v' r5)"
    if "length (current r4) \<le> length (current r)" for r4 v' name' msg
    using member_separator_length [of "current r4"] that
    by (fastforce simp: Let_def split: sum.split intro: within_mono [OF O])
  from le colon show ?thesis
    by (auto simp: Let_def t_def [symmetric] split: option.split prod.split
      dest!: member_name_current intro!: within_bind within_continue [OF V] tail within_recover)
qed

lemma readArray_within:
  assumes V: "\<And>cur r. within (2 * length (current r) < n) (length (current r)) (readValue f n cur r)"
    and A: "\<And>i v r. within (2 * length (current r) + 1 < n) (length (current r)) (readArray f n i v r)"
  shows "within (2 * length (current r) + 1 < Suc n) (length (current r)) (readArray f (Suc n) i v r)"
proof -
  have tail: "within (2 * length (current r) < n) (length (current r))
      (let token = readPastComments (current r1); r2 = r1\<lparr>current := tok_end token\<rparr>
       in if tok_type token \<notin> {tokenArraySeparator, tokenArrayEnd}
          then finish False v' (addErrorAndRecover msg token tokenArrayEnd r2)
          else if tok_type token = tokenArrayEnd then finish True v' r2
          else readArray f n (i + 1) v' r2)"
    if "length (current r1) \<le> length (current r)" for r1 v' msg
    using readPastComments_length [of "current r1"] readPastComments_consumes [of "current r1"] that
    by (auto simp: Let_def intro: within_mono [OF A])
  show ?thesis
    using tail by (auto simp: Let_def intro!: within_bind within_continue [OF V] split: prod.split)
qed

lemma reads_within:
  "within (2 * length (current r) < n) (length (current r)) (readValue f n cur r) \<and>
   within (2 * length (current r) + 1 < n) (length (current r)) (readObject f n name v r) \<and>
   within (2 * length (current r) + 1 < n) (length (current r)) (readArray f n i v r)"
proof (induction n arbitrary: cur r name v i)
  case 0
  then show ?case by (simp add: within_def)
next
  case (Suc n)
  show ?case
    by (intro conjI readValue_within readObject_within readArray_within) (use Suc.IH in blast)+
qed

section \<open>Termination\<close>

lemma parse_returns: "parse f doc root \<noteq> None"
proof -
  have "within (2 * length doc < parse_fuel doc) (length doc)
     (readValue f (parse_fuel doc) root \<lparr>current = doc, errors = [], stackDepth = 0\<rparr>)"
    using reads_within [of "\<lparr>current = doc, errors = [], stackDepth = 0\<rparr>"] by simp
  then have "readValue f (parse_fuel doc) root \<lparr>current = doc, errors = [], stackDepth = 0\<rparr> \<noteq> None"
    by (simp add: within_def parse_fuel_def)
  then show ?thesis
    by (auto simp: parse_def continue_None_iff finish_def Let_def)
qed

text \<open>
  C18: \<open>Reader::parse\<close> returns on every document, under every set of features: the recursion of
  \<open>readValue\<close>, \<open>readObject\<close> and \<open>readArray\<close> never runs out of its bound of calls.
\<close>

theorem parse_terminates: "parse f doc root \<noteq> None"
  by (rule parse_returns)

section \<open>Exceptions\<close>

definition limit_exn :: exn where
  "limit_exn = RuntimeError ''Exceeded stackLimit in readValue().''"

definition throws_limit :: "'a run \<Rightarrow> bool" where
  "throws_limit m \<longleftrightarrow> (\<forall>e. m = Some (Inl e) \<longrightarrow> e = limit_exn)"

lemma throws_limit_simps [simp]:
  "throws_limit (finish ok v r)" "throws_limit (leave x)" "throws_limit None"
  "throws_limit (Some (Inr y))" "throws_limit (Some (Inl limit_exn))"
  by (auto simp: throws_limit_def finish_def leave_def split: prod.splits)

lemma throws_limit_continue [intro]:
  "throws_limit m \<Longrightarrow> (\<And>x. m = Some (Inr x) \<Longrightarrow> throws_limit (f x)) \<Longrightarrow> throws_limit (continue m f)"
  by (auto simp: throws_limit_def continue_def split: option.splits sum.splits)

lemma decodeNumber_numeric: "decodeNumber t r = (Some v, r') \<Longrightarrow> \<exists>s. asString v = Inr s"
  by (auto simp: decodeNumber_def decodeDouble_def Let_def split: option.splits if_splits)

lemma member_name_throws [simp]: "throws_limit (member_name f t r)"
  by (auto simp: member_name_def lift_exn_def continue_def throws_limit_def 
    split: prod.splits option.splits sum.splits if_splits dest!: decodeNumber_numeric)

lemma resolve_object: "throws_limit (lift_exn (resolveReference (JObj m) name))"
  by (auto simp: lift_exn_def throws_limit_def split: option.splits)

lemma index_array: "throws_limit (lift_exn (index_ref (JArr m) i))"
  by (auto simp: lift_exn_def throws_limit_def split: option.splits)

lemma reads_throw_limit:
  "throws_limit (readValue f n cur r) \<and> throws_limit (readObject f n name (JObj m) r) \<and>
   throws_limit (readArray f n i (JArr a) r)"
proof (induction n arbitrary: cur r name m i a)
  case (Suc n)
  have V: "throws_limit (readValue f n cur r)" and O: "throws_limit (readObject f n name (JObj m) r)"
    and A: "throws_limit (readArray f n i (JArr a) r)" for cur r name m i a
    using Suc.IH by blast+
  have "throws_limit (readValue f (Suc n) cur r)"
    using O A by (auto simp: Let_def limit_exn_def [symmetric] split: token_type.splits prod.splits option.splits)
  moreover have "throws_limit (readObject f (Suc n) name (JObj m) r)"
    using V O by (auto simp: Let_def simp del: resolveReference.simps intro!: throws_limit_continue resolve_object
        split: prod.splits option.splits sum.splits)
  moreover have "throws_limit (readArray f (Suc n) i (JArr a) r)"
    using V A by (auto simp: Let_def simp del: index_ref.simps intro!: throws_limit_continue index_array
        split: prod.splits option.splits sum.splits)
  ultimately show ?case by blast
qed simp

lemma parse_throws:
  "parse f doc root = Some (Inl e) \<Longrightarrow> e = RuntimeError ''Exceeded stackLimit in readValue().''"
proof -
  have "throws_limit (parse f doc root)"
    unfolding parse_def by (rule throws_limit_continue) (auto simp: Let_def reads_throw_limit)
  then show "parse f doc root = Some (Inl e) \<Longrightarrow> e = RuntimeError ''Exceeded stackLimit in readValue().''"
    by (simp add: throws_limit_def limit_exn_def)
qed

end
