(* ===== verification/Json_Tokens.thy ===== *)
theory Json_Tokens
  imports Json_Parser_Laws
begin

text \<open>
  What the writers write for integers, strings and literals, and punctuation, as the tokenizer and the decoding
  of \<open>Reader\<close> read it.
\<close>

section \<open>Decimal numbers\<close>

lemma uintToString_nat_digits: "uintToString v cur = nat_digits (unat v) @ cur"
proof (induction v cur rule: uintToString.induct)
  case (1 v cur)
  have d: "unat (v div 10) = unat v div 10" and m: "unat (v mod 10) = unat v mod 10"
    by (simp_all add: unat_div unat_mod)
  have z: "v div 10 = 0 \<longleftrightarrow> unat v < 10"
    using d by (metis div_less div_eq_0_iff unat_0 unat_eq_0 zero_neq_numeral)
  show ?case
  proof (cases "v div 10 = 0")
    case True
    then show ?thesis using z m by (subst uintToString.simps) (simp add: nat_digits.simps)
  next
    case False
    then have "uintToString v cur = uintToString (v div 10) (chr (unat (v mod 10) + 48) # cur)"
      by (subst uintToString.simps) (simp add: Let_def)
    also have "\<dots> = nat_digits (unat v div 10) @ chr (unat v mod 10 + 48) # cur"
      using "1.IH" [OF refl refl False] d m by simp
    finally show ?thesis using False z by (simp add: nat_digits.simps [of "unat v"])
  qed
qed

text \<open>The loop of \<open>decodeNumber\<close> computes the value of the digits when it does not exceed the largest
  number, and gives up otherwise.\<close>

lemma foldl_mono: "(a :: nat) \<le> foldl (\<lambda>n c. 10 * n + digit_value c) a ds"
proof (induction ds arbitrary: a)
  case (Cons d ds)
  have "a \<le> 10 * a + digit_value d" by simp
  also have "\<dots> \<le> foldl (\<lambda>n c. 10 * n + digit_value c) (10 * a + digit_value d) ds" by (rule Cons.IH)
  finally show ?case by simp
qed simp

lemma decode_digits_value:
  assumes "list_all is_digit ds" "10 \<le> unat M"
    and "foldl (\<lambda>n c. 10 * n + digit_value c) (unat v) ds \<le> unat M"
  shows "decode_digits M (M div 10) v ds =
    Some (word_of_nat (foldl (\<lambda>n c. 10 * n + digit_value c) (unat v) ds))"
  using assms
proof (induction ds arbitrary: v)
  case (Cons c ds)
  define k where "k = digit_value c"
  have k: "k < 10"
    using Cons.prems(1) by (auto simp: k_def digit_value_def is_digit_def less_eq_char_def)
  have M: "unat M < 2 ^ 64" using unsigned_less [of M] by simp
  have le: "10 * unat v + k \<le> unat M"
    using Cons.prems(3) foldl_mono [of "10 * unat v + k" ds] by (simp add: k_def)
  define v' where "v' = v * 10 + word_of_nat k"
  have v': "unat v' = 10 * unat v + k"
  proof -
    have "v' = word_of_nat (10 * unat v + k)" by (simp add: v'_def mult.commute)
    then show ?thesis using le M by (simp only: unat_of_nat) (simp add: take_bit_eq_mod)
  qed
  have guard: "\<not> (v \<ge> M div 10 \<and> (v > M div 10 \<or> ds \<noteq> [] \<or> word_of_nat k > M mod 10))"
  proof
    assume g: "v \<ge> M div 10 \<and> (v > M div 10 \<or> ds \<noteq> [] \<or> word_of_nat k > M mod 10)"
    have k': "unat (word_of_nat k :: u64) = k" using k by (simp add: unat_of_nat take_bit_eq_mod)
    have "unat M div 10 \<le> unat v"
      using g by (simp add: word_le_nat_alt unat_div)
    moreover have "unat v \<le> unat M div 10" using le by linarith
    ultimately have eq: "unat v = unat M div 10" by simp
    with g have "ds \<noteq> [] \<or> unat M mod 10 < k"
      by (auto simp: word_less_nat_alt unat_div unat_mod k')
    then show False
    proof
      assume "unat M mod 10 < k"
      moreover have "unat M = 10 * (unat M div 10) + unat M mod 10" by simp
      ultimately show False using le eq by linarith
    next
      assume "ds \<noteq> []"
      then obtain d es where ds: "ds = d # es" by (cases ds) auto
      have "10 * (10 * unat v + k) \<le> unat M"
        using Cons.prems(3) foldl_mono [of "10 * (10 * unat v + k) + digit_value d" es]
        by (simp add: k_def ds)
      moreover have "unat M < 10 * (unat M div 10) + 10" by simp
      ultimately have "10 * (10 * unat v + k) < 10 * unat v + 10" using eq by simp
      moreover have "10 * (10 * a + b) < 10 * a + 10 \<Longrightarrow> a = 0" for a b :: nat by presburger
      ultimately have "unat v = 0" by blast
      then have "unat M div 10 = 0" using eq by simp
      then show False using Cons.prems(2) by simp
    qed
  qed
  have c: "is_digit c" using Cons.prems(1) by simp
  have "decode_digits M (M div 10) v (c # ds) = decode_digits M (M div 10) v' ds"
    using c guard by (simp add: Let_def k_def [symmetric] v'_def)
  also have "\<dots> = Some (word_of_nat (foldl (\<lambda>n c. 10 * n + digit_value c) (unat v') ds))"
    using Cons.prems by (intro Cons.IH) (auto simp: v' k_def)
  finally show ?case by (simp add: v' k_def)
qed simp

lemma decode_digits_nat_digits:
  "10 \<le> unat M \<Longrightarrow> n \<le> unat M \<Longrightarrow> decode_digits M (M div 10) 0 (nat_digits n) = Some (word_of_nat n)"
  using decode_digits_value [of "nat_digits n" M 0] nat_digits_digits [of n] decimal_value_nat_digits [of n]
  by (simp add: decimal_value_def)

text \<open>The number token read back from decimal text.\<close>

definition delimited :: "string \<Rightarrow> bool" where
  "delimited s \<longleftrightarrow> \<not> is_digit (deref s) \<and> deref s \<notin> {CHR ''.'', CHR ''e'', CHR ''E''}"

lemma readNumber_digits:
  assumes "list_all is_digit ds" "delimited s"
  shows "readNumber (ds @ s) = s"
proof -
  have "dropWhile is_digit (ds @ s) = dropWhile is_digit s"
    using assms(1) by (intro dropWhile_append2) (auto simp: list_all_iff)
  also have "\<dots> = s" using assms(2) by (cases s) (auto simp: delimited_def)
  finally show ?thesis using assms(2) by (simp add: readNumber_def Let_def delimited_def)
qed

lemma readToken_char:
  assumes "\<not> is_space c" "scan_token c s = (ty, True, t)"
  shows "readToken (c # s) = \<lparr>tok_type = ty, tok_start = c # s, tok_end = t\<rparr>"
  using assms by (simp add: readToken_def skipSpaces_def)

lemma digit_cases: "is_digit c \<Longrightarrow> c \<in> set ''0123456789''"
proof -
  assume "is_digit c"
  then have "code c \<in> {48 ..< 58}" by (simp add: is_digit_def less_eq_char_def)
  moreover have "n \<in> {48 ..< 58} \<Longrightarrow> n \<in> {48, 49, 50, 51, 52, 53, 54, 55, 56, 57}" for n :: nat
    by (simp, presburger)
  ultimately have "code c \<in> {48, 49, 50, 51, 52, 53, 54, 55, 56, 57}" by blast
  then have "chr (code c) \<in> chr ` {48, 49, 50, 51, 52, 53, 54, 55, 56, 57}" by (rule imageI)
  moreover have "chr ` {48, 49, 50, 51, 52, 53, 54, 55, 56, 57} = set ''0123456789''" by code_simp
  ultimately show ?thesis by (simp only: char_of_char)
qed

lemma scan_number:
  assumes "is_digit c \<or> c = CHR ''-''" "list_all is_digit ds" "delimited s"
  shows "scan_token c (ds @ s) = (tokenNumber, True, s)" "\<not> is_space c"
proof -
  have c: "c \<in> set ''-0123456789''" using assms(1) digit_cases [of c] by auto
  have n: "c \<noteq> CHR ''{'' \<and> c \<noteq> CHR ''}'' \<and> c \<noteq> CHR ''['' \<and> c \<noteq> CHR '']'' \<and> c \<noteq> QUOTE \<and> c \<noteq> CHR ''/''"
    using c by (auto simp: QUOTE_def)
  have "is_digit c \<or> c = CHR ''-''" by (fact assms(1))
  then have "scan_token c t = (tokenNumber, True, readNumber t)" for t
    using n by (simp add: scan_token_def)
  then show "scan_token c (ds @ s) = (tokenNumber, True, s)"
    using assms by (simp add: readNumber_digits)
  show "\<not> is_space c" using c by (auto simp: is_space_def char_consts)
qed

text \<open>An integer written and read back: its type is that of the smallest range it fits, which may not
  be the one it had.\<close>

definition norm_int :: "u64 \<Rightarrow> json" where
  "norm_int i = (if sint i < 0 \<or> sint i \<le> maxInt then JInt i else JUInt i)"

definition norm_uint :: "u64 \<Rightarrow> json" where
  "norm_uint u = (if uint u \<le> maxInt then JInt u else JUInt u)"

definition tok :: "token_type \<Rightarrow> string \<Rightarrow> string \<Rightarrow> token" where
  "tok ty txt rest = \<lparr>tok_type = ty, tok_start = txt @ rest, tok_end = rest\<rparr>"

lemma tok_simps [simp]:
  "tok_type (tok ty txt rest) = ty" "tok_end (tok ty txt rest) = rest"
  "tok_start (tok ty txt rest) = txt @ rest" "token_text (tok ty txt rest) = txt"
  by (auto simp: tok_def token_text_def)

lemma uintToString_Cons: "\<exists>c ds. nat_digits n = c # ds \<and> is_digit c \<and> list_all is_digit ds"
  using nat_digits_digits [of n] by (cases "nat_digits n") auto

lemma read_uint:
  assumes "delimited rest"
  shows "readToken (valueToString_uint u @ rest) = tok tokenNumber (valueToString_uint u) rest"
proof -
  obtain c ds where "nat_digits (unat u) = c # ds" "is_digit c" "list_all is_digit ds"
    using uintToString_Cons by blast
  with scan_number [of c ds rest] assms show ?thesis
    by (simp add: valueToString_uint_def uintToString_nat_digits tok_def readToken_char)
qed

lemma not_minus: "is_digit c \<Longrightarrow> c \<noteq> CHR ''-''"
  using digit_cases [of c] by auto

lemma decode_uint:
  "decodeNumber (tok tokenNumber (valueToString_uint u) rest) r = (Some (norm_uint u), r)"
proof -
  obtain c ds where c: "nat_digits (unat u) = c # ds" "is_digit c" "list_all is_digit ds"
    using uintToString_Cons by blast
  have "unat u \<le> unat (2 ^ 64 - 1 :: u64)" using unsigned_less [of u, where ?'a = nat] by simp
  then have d: "decode_digits (2 ^ 64 - 1) ((2 ^ 64 - 1) div 10) 0 (nat_digits (unat u)) = Some u"
    using decode_digits_nat_digits [of "2 ^ 64 - 1" "unat u"] by simp
  have le: "u \<le> word_of_int maxInt \<longleftrightarrow> uint u \<le> maxInt"
    by (simp add: word_le_def maxInt_def)
  show ?thesis
    using c d not_minus [OF c(2)] 
    by (simp add: decodeNumber_def Let_def valueToString_uint_def uintToString_nat_digits norm_uint_def le)
qed

lemma sint_u64: "sint (i :: u64) = (if uint i < 2 ^ 63 then uint i else uint i - 2 ^ 64)"
proof -
  have "sint i = (uint i + 2 ^ 63) mod 2 ^ 64 - 2 ^ 63"
    by (simp add: sint_uint signed_take_bit_eq_take_bit_shift take_bit_eq_mod)
  moreover have "0 \<le> uint i" "uint i < 2 ^ 64"
    using unsigned_less [of i, where ?'a = int] by simp_all
  moreover have "(n + 2 ^ 63) mod 2 ^ 64 - 2 ^ 63 = (if n < 2 ^ 63 then n else n - 2 ^ 64)"
    if "0 \<le> n" "n < 2 ^ 64" for n :: int
  proof (cases "n < 2 ^ 63")
    case False
    have "(n + 2 ^ 63) mod 2 ^ 64 = ((n - 2 ^ 63) + 2 ^ 64) mod 2 ^ 64" by (simp add: add.commute)
    also have "\<dots> = (n - 2 ^ 63) mod 2 ^ 64" by (rule mod_add_self2)
    also have "\<dots> = n - 2 ^ 63" using that False by (intro mod_pos_pos_trivial) simp_all
    finally show ?thesis using False by simp
  qed (use that in simp)
  ultimately show ?thesis by simp
qed

lemma unat_uminus_neg: "sint i < 0 \<Longrightarrow> unat (- i :: u64) \<le> 2 ^ 63 \<and> - i \<noteq> 0"
proof -
  assume "sint i < 0"
  then have i: "2 ^ 63 \<le> uint i" by (simp add: sint_u64 split: if_splits)
  have u: "uint i < 2 ^ 64" using unsigned_less [of i, where ?'a = int] by simp
  have "uint (- i) = (- uint i) mod 2 ^ 64" by (simp add: uint_word_ariths)
  also have "\<dots> = (2 ^ 64 - uint i) mod 2 ^ 64" by (simp add: mod_simps)
  also have "\<dots> = 2 ^ 64 - uint i" using i u by (intro mod_pos_pos_trivial) auto
  finally have e: "uint (- i) = 2 ^ 64 - uint i" .
  then have "unat (- i) \<le> 2 ^ 63" using i by (simp add: unat_eq_nat_uint)
  moreover have "- i \<noteq> 0" using e u by auto
  ultimately show ?thesis by blast
qed

lemma valueToString_int_eq:
  "valueToString_int i = (if sint i < 0 then CHR ''-'' # valueToString_uint (- i) else valueToString_uint i)"
  by (simp add: valueToString_int_def valueToString_uint_def Let_def)

lemma read_int:
  assumes "delimited rest"
  shows "readToken (valueToString_int i @ rest) = tok tokenNumber (valueToString_int i) rest"
proof (cases "sint i < 0")
  case True
  with scan_number [of "CHR ''-''" "nat_digits (unat (- i))" rest] assms show ?thesis
    by (simp add: valueToString_int_eq valueToString_uint_def uintToString_nat_digits tok_def readToken_char nat_digits_digits)
qed (use assms in \<open>simp add: valueToString_int_eq read_uint\<close>)

lemma decode_int:
  "decodeNumber (tok tokenNumber (valueToString_int i) rest) r = (Some (norm_int i), r)"
proof (cases "sint i < 0")
  case True
  have d: "decode_digits (2 ^ 63) (2 ^ 63 div 10) 0 (nat_digits (unat (- i))) = Some (- i)"
    using decode_digits_nat_digits [of "2 ^ 63" "unat (- i)"] unat_uminus_neg [OF True] by simp
  with True show ?thesis
    by (simp add: decodeNumber_def Let_def valueToString_int_eq valueToString_uint_def
        uintToString_nat_digits norm_int_def)
next
  case False
  then have "uint i = sint i" using unsigned_less [of i, where ?'a = int] by (simp add: sint_u64 split: if_splits)
  with False show ?thesis by (simp add: valueToString_int_eq decode_uint norm_int_def norm_uint_def)
qed

section \<open>Strings\<close>

lemma hex_value_digit: "n < 16 \<Longrightarrow> hex_value (hex_digit n) = Some (word_of_nat n)"
proof -
  have "\<forall>n < 16. hex_value (hex_digit n) = Some (word_of_nat n :: u32)" by code_simp
  then show "n < 16 \<Longrightarrow> hex_value (hex_digit n) = Some (word_of_nat n)" by blast
qed

text \<open>The shapes an escaped character has.\<close>

lemma numeral_chr0: "chr 0 = CHR 0x00" by code_simp

lemma escape_cases:
  obtains (simple) e where "escape c = [BACKSLASH, e]" "simple_escape e = Some c"
  | (unicode) "escape c = unicode_escape c" "code c \<le> 0x1F"
  | (plain) "escape c = [c]" "c \<noteq> QUOTE" "c \<noteq> BACKSLASH"
proof -
  consider "c \<in> set special_chars" | "c \<notin> set special_chars" "code c \<le> 0x1F" | 
     "c \<notin> set special_chars" "\<not> code c \<le> 0x1F" by blast
  then show thesis
  proof cases
    case 1
    then have "\<exists>e. escape c = [BACKSLASH, e] \<and> simple_escape e = Some c"
      by (auto simp: special_chars_def escape_def escape_with_def simple_escape_def char_consts)
    with simple show thesis by blast
  next
    case 2
    then have "isControlCharacter c \<or> c = NUL"
      by (metis NUL_def char_of_char isControlCharacter_code neq0_conv numeral_chr0)
    with 2 have "escape c = unicode_escape c"
      by (auto simp: special_chars_def escape_def escape_with_def)
    with 2 unicode show thesis by blast
  next
    case 3
    then have "\<not> (isControlCharacter c \<or> c = NUL)" by (auto simp: isControlCharacter_code NUL_def)
    with 3 have "escape c = [c]" by (intro escape_plain) auto
    with 3 plain show thesis by (auto simp: special_chars_def)
  qed
qed

lemma four: "(4 :: nat) = Suc (Suc (Suc (Suc 0)))" by simp

lemma decode_unicode_escape:
  assumes "n \<le> 0x1F"
  shows "decodeUnicodeCodePoint (hex4 n @ s) = Inr (word_of_nat n, s)"
proof -
  have e: "hex4 n = [hex_digit 0, hex_digit 0, hex_digit (n div 16), hex_digit (n mod 16)]"
    using assms by (simp add: hex4_def)
  have h: "hex_value (hex_digit 0) = Some 0" 
    "hex_value (hex_digit (n div 16)) = Some (word_of_nat (n div 16))"
    "hex_value (hex_digit (n mod 16)) = Some (word_of_nat (n mod 16))"
    using hex_value_digit [of 0] hex_value_digit [of "n div 16"] hex_value_digit [of "n mod 16"] assms by simp_all
  have w: "(word_of_nat (n div 16) :: u32) * 16 + word_of_nat (n mod 16) = word_of_nat n"
  proof -
    have "(word_of_nat (n div 16) :: u32) * 16 + word_of_nat (n mod 16) = word_of_nat (n div 16 * 16 + n mod 16)"
      by (simp only: of_nat_add of_nat_mult of_nat_numeral)
    then show ?thesis by (simp only: div_mult_mod_eq)
  qed
  have "decodeUnicodeEscapeSequence (hex4 n @ s) = Inr (word_of_nat n, s)"
  proof -
    have "hex_loop (Suc (Suc (Suc (Suc 0)))) 0 (hex4 n @ s) = Inr (word_of_nat n, s)"
      unfolding e by (simp only: append_Cons append_Nil hex_loop.simps h option.case mult_zero_left add_0_left w)
    then show ?thesis by (simp only: decodeUnicodeEscapeSequence_def four) (simp add: e)
  qed
  moreover have "\<not> 0xD800 \<le> (word_of_nat n :: u32)"
    using assms by (simp add: word_le_nat_alt unat_of_nat take_bit_eq_mod)
  ultimately show ?thesis by (simp add: decodeUnicodeCodePoint_def)
qed

lemma codePointToUTF8_control: "code c \<le> 0x1F \<Longrightarrow> codePointToUTF8 (word_of_nat (code c)) = [c]"
proof -
  assume c: "code c \<le> 0x1F"
  have "(word_of_nat (code c) :: u32) \<le> 0x7F"
    using c by (simp add: word_le_nat_alt unat_of_nat take_bit_eq_mod)
  moreover have "char_cast (word_of_nat (code c)) = c"
  proof -
    have "(ucast (word_of_nat (code c) :: u32) :: u8) = byte c"
      using c by (intro word_unat_eq_iff [THEN iffD2]) (simp add: byte_def unat_of_nat unsigned_ucast_eq take_bit_eq_mod)
    then show ?thesis by (simp add: char_cast_def)
  qed
  ultimately show ?thesis by (simp add: codePointToUTF8_def)
qed

lemma unicode_escape_hex: "code c \<le> 0x1F \<Longrightarrow> unicode_escape c = BACKSLASH # CHR ''u'' # hex4 (code c)"
  by (simp add: unicode_escape_def sint_byte)

lemma decode_chars_escape: "decode_chars (escape c @ s) d = decode_chars s (d @ [c])"
proof (cases c rule: escape_cases)
  case (simple e)
  then show ?thesis by (simp add: char_consts)
next
  case unicode
  then show ?thesis
    by (simp add: unicode_escape_hex decode_unicode_escape codePointToUTF8_control simple_escape_def char_consts)
next
  case plain
  then show ?thesis by simp
qed

lemma decode_chars_escaped: "decode_chars (concat (map escape s)) d = Inr (d @ s)"
  by (induction s arbitrary: d) (auto simp: decode_chars_escape)


lemma readString_loop_irrelevant: "s \<noteq> [] \<Longrightarrow> readString_loop x s = readString_loop y s"
  by (cases s) auto

definition plain_char :: "char \<Rightarrow> bool" where
  "plain_char c \<longleftrightarrow> c \<noteq> QUOTE \<and> c \<noteq> BACKSLASH"

lemma readString_loop_plain:
  "list_all plain_char t \<Longrightarrow> s \<noteq> [] \<Longrightarrow> readString_loop x (t @ s) = readString_loop y s"
proof (induction t arbitrary: x)
  case (Cons c t)
  then have "readString_loop x ((c # t) @ s) = readString_loop c (t @ s)" by (simp add: plain_char_def)
  with Cons show ?case by simp
qed (simp add: readString_loop_irrelevant)

lemma plain_hex4: "list_all plain_char (hex4 n)"
proof -
  have "\<forall>k < 16. plain_char (hex_digit k)" by code_simp
  then show ?thesis by (simp add: hex4_def)
qed

lemma readString_loop_escape:
  assumes "s \<noteq> []"
  shows "readString_loop x (escape c @ s) = readString_loop y s"
proof (cases c rule: escape_cases)
  case (simple e)
  then show ?thesis using assms readString_loop_irrelevant [OF assms, of BACKSLASH y] by simp
next
  case unicode
  then show ?thesis
    using readString_loop_plain [OF plain_hex4 assms, of BACKSLASH "code c" y] by (simp add: unicode_escape_hex)
next
  case plain
  then show ?thesis using assms readString_loop_irrelevant [OF assms, of c y] by simp
qed

lemma readString_loop_escaped:
  "readString_loop x (concat (map escape s) @ QUOTE # rest) = (True, rest)"
proof (induction s arbitrary: x)
  case Nil
  then show ?case by (simp add: char_consts)
next
  case (Cons c s)
  then show ?case
    using readString_loop_escape [of "concat (map escape s) @ QUOTE # rest" x c x] by simp
qed

lemma read_string:
  "readToken (valueToQuotedStringN (Some s) @ rest) = tok tokenString (valueToQuotedStringN (Some s)) rest"
proof -
  have "scan_token QUOTE t = (tokenString, readString t)" for t
    by (simp add: scan_token_def char_consts)
  moreover have "\<not> is_space QUOTE" by (simp add: is_space_def char_consts)
  ultimately show ?thesis
    by (simp add: valueToQuotedStringN_escape readToken_char tok_def readString_def readString_loop_escaped)
qed

lemma decode_string:
  "decodeString (tok tokenString (valueToQuotedStringN (Some s)) rest) r = (Some s, r)"
  by (simp add: decodeString_def valueToQuotedStringN_escape decode_chars_escaped Let_def)

declare readValue.simps [simp del] readObject.simps [simp del] readArray.simps [simp del]

section \<open>Punctuation and literals\<close>

lemma delimited_chars [simp]:
  "delimited (CHR '','' # s)" "delimited (CHR '']'' # s)" "delimited (CHR ''}'' # s)"
  by (simp_all add: delimited_def is_digit_def)

lemma read_punctuation [simp]:
  "readToken (CHR '','' # s) = tok tokenArraySeparator '','' s"
  "readToken (CHR '']'' # s) = tok tokenArrayEnd '']'' s"
  "readToken (CHR ''['' # s) = tok tokenArrayBegin ''['' s"
  "readToken (CHR ''}'' # s) = tok tokenObjectEnd ''}'' s"
  "readToken (CHR ''{'' # s) = tok tokenObjectBegin ''{'' s"
  "readToken (CHR '':'' # s) = tok tokenMemberSeparator '':'' s"
  by (auto simp: readToken_def skipSpaces_def is_space_def scan_token_def is_digit_def char_consts tok_def)

lemma readPast_readToken:
  "tok_type (readToken s) \<noteq> tokenComment \<Longrightarrow> readPastComments s = readToken s"
  by (subst readPastComments.simps) (simp add: Let_def)

lemma readPast_tok:
  "readToken s = tok ty txt rest \<Longrightarrow> ty \<noteq> tokenComment \<Longrightarrow> readPastComments s = tok ty txt rest"
  by (simp add: readPast_readToken)

lemma skip_tok: "readToken s = tok ty txt rest \<Longrightarrow> ty \<noteq> tokenComment \<Longrightarrow>
    skipCommentTokens Features s = tok ty txt rest"
  by (simp add: skipCommentTokens_def Features_def readPast_tok)

lemma read_literals [simp]:
  "readToken (CHR ''n'' # CHR ''u'' # CHR ''l'' # CHR ''l'' # s) = tok tokenNull ''null'' s"
  "readToken (CHR ''t'' # CHR ''r'' # CHR ''u'' # CHR ''e'' # s) = tok tokenTrue ''true'' s"
  "readToken (CHR ''f'' # CHR ''a'' # CHR ''l'' # CHR ''s'' # CHR ''e'' # s) = tok tokenFalse ''false'' s"
  by (auto simp: readToken_def skipSpaces_def is_space_def scan_token_def is_digit_def match_pattern_def
      char_consts tok_def)

lemma valueToString_uint_start:
  "\<exists>c s. valueToString_uint u = c # s \<and> c \<noteq> CHR '']'' \<and> \<not> is_space c"
proof -
  obtain c ds where c: "nat_digits (unat u) = c # ds" "is_digit c" "list_all is_digit ds"
    using uintToString_Cons by blast
  then have "c \<noteq> CHR '']''" using digit_cases [of c] by auto
  moreover have "\<not> is_space c" using scan_number(2) [of c "[]" "CHR '','' # []"] c by simp
  ultimately show ?thesis using c by (simp add: valueToString_uint_def uintToString_nat_digits)
qed

section \<open>Running on\<close>

lemma continue_finish [simp]: "continue (finish ok v r) f = f (ok, v, r)"
  by (simp add: continue_def finish_def)

lemma continue_Inr [simp]: "continue (Some (Inr x)) f = f x"
  by (simp add: continue_def)

lemma continue_lift_exn [simp]: "continue (lift_exn (Inr x)) f = f x"
  by (simp add: continue_def lift_exn_def)

end
