(* ===== verification/Json_Layout.thy ===== *)
theory Json_Layout
  imports Json_Tokens
begin

text \<open>
  What a reader makes of the text of a value, however it is laid out: the relation \<open>layout\<close> between a value and
  its texts with blanks before any token, and the contract of a recursive descent reader under which it reads
  every such text back (the locale \<open>reading\<close>). \<open>Reader\<close> and \<open>OurReader\<close> keep the contract, the writers write such
  texts.
\<close>

section \<open>Values and their texts\<close>

text \<open>The values whose text says everything: no reals, no missing string buffers, arrays without gaps that a loop
  over \<open>int\<close> indices covers, sorted member names. A value read has its integers in the smallest range.\<close>

fun writable :: "json \<Rightarrow> bool" where
  "writable (JReal d) = False"
| "writable (JStr s) = (s \<noteq> None)"
| "writable (JArr m) = (map fst m = map word_of_nat [0 ..< length m] \<and> length m < 2 ^ 31
     \<and> (\<forall>e \<in> set m. writable (snd e)))"
| "writable (JObj m) = (omap_inv m \<and> (\<forall>e \<in> set m. writable (snd e)))"
| "writable v = True"

fun normalised :: "json \<Rightarrow> json" where
  "normalised (JInt i) = norm_int i"
| "normalised (JUInt u) = norm_uint u"
| "normalised (JArr m) = JArr (map (\<lambda>(k, v). (k, normalised v)) m)"
| "normalised (JObj m) = JObj (map (\<lambda>(k, v). (k, normalised v)) m)"
| "normalised v = v"

fun depth :: "json \<Rightarrow> nat" where
  "depth (JArr m) = Suc (fold max (map (\<lambda>(k, v). depth v) m) 0)"
| "depth (JObj m) = Suc (fold max (map (\<lambda>(k, v). depth v) m) 0)"
| "depth v = 1"

fun names_ok :: "(string \<Rightarrow> bool) \<Rightarrow> json \<Rightarrow> bool" where
  "names_ok P (JArr m) = (\<forall>e \<in> set m. names_ok P (snd e))"
| "names_ok P (JObj m) = (\<forall>e \<in> set m. P (fst e) \<and> names_ok P (snd e))"
| "names_ok P v = True"

lemma names_ok_True [simp]: "names_ok (\<lambda>_. True) v"
  by (induction v) (auto simp: snds.simps)

lemma names_ok_mono: "names_ok P v \<Longrightarrow> (\<And>k. P k \<Longrightarrow> Q k) \<Longrightarrow> names_ok Q v"
  by (induction v) (auto simp: snds.simps)

lemma depth_element:
  "e \<in> set m \<Longrightarrow> depth (snd e) < depth (JArr m)" "f \<in> set n \<Longrightarrow> depth (snd f) < depth (JObj n)"
  using fold_max_upper [of "depth (snd e)" "map (\<lambda>(k, v). depth v) m" 0]
    fold_max_upper [of "depth (snd f)" "map (\<lambda>(k, v). depth v) n" 0]
  by (force simp: split_def)+

text \<open>The values that are one token.\<close>

fun scalar_text :: "json \<Rightarrow> string option" where
  "scalar_text JNull = Some ''null''"
| "scalar_text (JInt i) = Some (valueToString_int i)"
| "scalar_text (JUInt u) = Some (valueToString_uint u)"
| "scalar_text (JStr (Some s)) = Some (valueToQuotedStringN (Some s))"
| "scalar_text (JBool b) = Some (valueToString_bool b)"
| "scalar_text v = None"

fun scalar_type :: "json \<Rightarrow> token_type" where
  "scalar_type JNull = tokenNull"
| "scalar_type (JInt i) = tokenNumber"
| "scalar_type (JUInt u) = tokenNumber"
| "scalar_type (JStr s) = tokenString"
| "scalar_type (JBool b) = (if b then tokenTrue else tokenFalse)"
| "scalar_type v = tokenError"

definition blank :: "string \<Rightarrow> bool" where
  "blank ws \<longleftrightarrow> list_all is_space ws"

text \<open>The texts of a value: its tokens, with blanks before each of them.\<close>

inductive layout :: "json \<Rightarrow> string \<Rightarrow> bool"
  and element_texts :: "(u32 \<times> json) list \<Rightarrow> string \<Rightarrow> bool"
  and member_texts :: "(string \<times> json) list \<Rightarrow> string \<Rightarrow> bool"
where
  layout_token: "scalar_text v = Some t \<Longrightarrow> blank ws \<Longrightarrow> layout v (ws @ t)"
| layout_no_elements: "blank ws \<Longrightarrow> blank u \<Longrightarrow> layout (JArr []) (ws @ CHR ''['' # u @ '']'')"
| layout_elements: "element_texts m t \<Longrightarrow> blank ws \<Longrightarrow> blank u \<Longrightarrow> layout (JArr m) (ws @ CHR ''['' # t @ u @ '']'')"
| layout_no_members: "blank ws \<Longrightarrow> blank u \<Longrightarrow> layout (JObj []) (ws @ CHR ''{'' # u @ ''}'')"
| layout_members: "member_texts m t \<Longrightarrow> blank ws \<Longrightarrow> blank u \<Longrightarrow> layout (JObj m) (ws @ CHR ''{'' # t @ u @ ''}'')"
| one_element: "layout v t \<Longrightarrow> element_texts [(i, v)] t"
| more_elements: "layout v t \<Longrightarrow> element_texts m t' \<Longrightarrow> blank u \<Longrightarrow> element_texts ((i, v) # m) (t @ u @ CHR '','' # t')"
| one_member: "layout v t \<Longrightarrow> blank ws \<Longrightarrow> blank u \<Longrightarrow>
    member_texts [(k, v)] (ws @ valueToQuotedStringN (Some k) @ u @ CHR '':'' # t)"
| more_members: "layout v t \<Longrightarrow> member_texts m t' \<Longrightarrow> blank ws \<Longrightarrow> blank u \<Longrightarrow> blank u' \<Longrightarrow>
    member_texts ((k, v) # m) (ws @ valueToQuotedStringN (Some k) @ u @ CHR '':'' # t @ u' @ CHR '','' # t')"

lemma blank_simps [simp]:
  "blank []" "blank (c # s) \<longleftrightarrow> is_space c \<and> blank s" "blank (s @ t) \<longleftrightarrow> blank s \<and> blank t"
  "blank (replicate n c) \<longleftrightarrow> n = 0 \<or> is_space c"
  by (auto simp: blank_def list_all_iff)

lemma is_space_chars [simp]: "is_space (CHR '' '')" "is_space LF"
  by (simp_all add: is_space_def char_consts)

lemma blank_take: "blank s \<Longrightarrow> blank (take n s)"
  by (auto simp: blank_def list_all_iff dest: in_set_takeD)

lemma skip_blank [simp]: "blank ws \<Longrightarrow> skipSpaces (ws @ s) = skipSpaces s"
  by (induction ws) (auto simp: skipSpaces_def)

lemma skip_Cons [simp]: "skipSpaces (c # s) = (if is_space c then skipSpaces s else c # s)" "skipSpaces [] = []"
  by (simp_all add: skipSpaces_def)

lemma read_blank [simp]: "blank ws \<Longrightarrow> readToken (ws @ s) = readToken s"
  by (simp add: readToken_def)

lemma delimited_blank: "blank u \<Longrightarrow> delimited s \<Longrightarrow> delimited (u @ s)"
  by (cases u) (auto simp: delimited_def is_space_def is_digit_def char_consts)

lemma scalar_read: "scalar_text v = Some t \<Longrightarrow> delimited rest \<Longrightarrow> readToken (t @ rest) = tok (scalar_type v) t rest"
  by (cases v rule: scalar_text.cases) (auto simp: read_int read_uint read_string valueToString_bool_def)

lemma not_space [simp]:
  "\<not> is_space (CHR ''['')" "\<not> is_space (CHR '']'')" "\<not> is_space (CHR ''{'')" "\<not> is_space (CHR ''}'')" "\<not> is_space QUOTE"
  "\<not> is_space (CHR ''n'')" "\<not> is_space (CHR ''t'')" "\<not> is_space (CHR ''f'')" "\<not> is_space (CHR ''-'')"
  by (simp_all add: is_space_def char_consts)

lemma scalar_start:
  assumes "scalar_text v = Some t"
  shows "\<exists>c s. t = c # s \<and> c \<noteq> CHR '']'' \<and> \<not> is_space c"
proof -
  consider i where "v = JInt i" | u where "v = JUInt u" | s where "v = JStr (Some s)" | "v = JNull" | b where "v = JBool b"
    using assms by (cases v rule: scalar_text.cases) auto
  then show ?thesis
  proof cases
    case 1
    then show ?thesis using assms valueToString_uint_start [of i] by (auto simp: valueToString_int_eq)
  next
    case 2
    then show ?thesis using assms valueToString_uint_start by auto
  next
    case 3
    then have "t = QUOTE # concat (map escape s) @ [QUOTE]" using assms by (simp add: valueToQuotedStringN_escape)
    then show ?thesis by (simp add: QUOTE_def is_space_def char_consts)
  next
    case 5
    then have "t = (if b then ''true'' else ''false'')" using assms by (simp add: valueToString_bool_def)
    then show ?thesis by simp
  next
    case 4
    then have "t = ''null''" using assms by simp
    then show ?thesis by simp
  qed
qed

text \<open>A text without its leading blanks is a text of the same value, and does not end an array.\<close>

lemma layout_skip:
  assumes "layout v t"
  shows "\<exists>c s. skipSpaces t = c # s \<and> c \<noteq> CHR '']'' \<and> \<not> is_space c \<and> layout v (c # s)"
  using assms
proof cases
  case (layout_token x ws)
  obtain c s where c: "x = c # s" "c \<noteq> CHR '']''" "\<not> is_space c" using scalar_start [OF layout_token(2)] by blast
  then have "skipSpaces t = c # s" using layout_token by simp
  then show ?thesis
    using c layout_token layout_element_texts_member_texts.layout_token [of v x "[]"] by simp
next
  case (layout_no_elements ws u)
  then show ?thesis using layout_element_texts_member_texts.layout_no_elements [of "[]" u] by simp
next
  case (layout_elements m x ws u)
  then show ?thesis using layout_element_texts_member_texts.layout_elements [of m x "[]" u] by simp
next
  case (layout_no_members ws u)
  then show ?thesis using layout_element_texts_member_texts.layout_no_members [of "[]" u] by simp
next
  case (layout_members m x ws u)
  then show ?thesis using layout_element_texts_member_texts.layout_members [of m x "[]" u] by simp
qed

lemma elements_skip:
  assumes "element_texts m t"
  shows "\<exists>c s. skipSpaces t = c # s \<and> c \<noteq> CHR '']'' \<and> \<not> is_space c \<and> element_texts m (c # s)"
  using assms
proof cases
  case (one_element v i)
  then show ?thesis using layout_skip [of v t] layout_element_texts_member_texts.one_element by blast
next
  case (more_elements v x m' t' u i)
  obtain c s where c: "skipSpaces x = c # s" "c \<noteq> CHR '']''" "\<not> is_space c" "layout v (c # s)"
    using layout_skip [OF more_elements(3)] by blast
  have "skipSpaces (x @ y) = c # s @ y" for y
    using c(1) by (simp add: skipSpaces_def dropWhile_append) (metis dropWhile_eq_Nil_conv list.distinct(1))
  then show ?thesis
    using more_elements c layout_element_texts_member_texts.more_elements [OF c(4) more_elements(4,5), of i] by simp
qed

section \<open>The contract of a reader\<close>

text \<open>What the three functions of a recursive descent do with a token of the right kind. \<open>limit\<close> is the bound on
  the depth, \<open>name_ok\<close> the names that are accepted.\<close>

locale reading =
  fixes limit :: int
    and name_ok :: "string \<Rightarrow> bool"
    and RV :: "nat \<Rightarrow> json \<Rightarrow> reader \<Rightarrow> (bool \<times> json \<times> reader) run"
    and RO :: "nat \<Rightarrow> string \<Rightarrow> json \<Rightarrow> reader \<Rightarrow> (bool \<times> json \<times> reader) run"
    and RA :: "nat \<Rightarrow> nat \<Rightarrow> json \<Rightarrow> reader \<Rightarrow> (bool \<times> json \<times> reader) run"
  assumes value_scalar: "int (stackDepth r) < limit \<Longrightarrow> scalar_text v = Some t \<Longrightarrow>
      readToken (current r) = tok (scalar_type v) t rest \<Longrightarrow> RV (Suc n) cur r = finish True (normalised v) (r\<lparr>current := rest\<rparr>)"
    and value_object: "int (stackDepth r) < limit \<Longrightarrow> readToken (current r) = tok tokenObjectBegin t rest \<Longrightarrow>
      RV (Suc n) cur r = continue (RO n [] (JObj []) (r\<lparr>stackDepth := stackDepth r + 1, current := rest\<rparr>)) leave"
    and value_no_elements: "int (stackDepth r) < limit \<Longrightarrow> readToken (current r) = tok tokenArrayBegin t rest \<Longrightarrow>
      deref (skipSpaces rest) = CHR '']'' \<Longrightarrow>
      RV (Suc n) cur r = finish True (JArr []) (r\<lparr>current := tok_end (readToken (skipSpaces rest))\<rparr>)"
    and value_array: "int (stackDepth r) < limit \<Longrightarrow> readToken (current r) = tok tokenArrayBegin t rest \<Longrightarrow>
      deref (skipSpaces rest) \<noteq> CHR '']'' \<Longrightarrow>
      RV (Suc n) cur r = continue (RA n 0 (JArr []) (r\<lparr>stackDepth := stackDepth r + 1, current := skipSpaces rest\<rparr>)) leave"
    and object_end: "readToken (current r) = tok tokenObjectEnd t rest \<Longrightarrow> RO (Suc n) [] v r = finish True v (r\<lparr>current := rest\<rparr>)"
    and object_member: "name_ok k \<Longrightarrow> omap_find m k = None \<Longrightarrow>
      readToken (current r) = tok tokenString (valueToQuotedStringN (Some k)) rest \<Longrightarrow>
      readToken rest = tok tokenMemberSeparator t rest1 \<Longrightarrow>
      RV n JNull (r\<lparr>current := rest1\<rparr>) = finish True x (r\<lparr>current := rest2\<rparr>) \<Longrightarrow>
      readToken rest2 = tok ty t' rest3 \<Longrightarrow> ty = tokenObjectEnd \<or> ty = tokenArraySeparator \<Longrightarrow>
      RO (Suc n) name (JObj m) r =
        (if ty = tokenObjectEnd then finish True (JObj (omap_insert k x m)) (r\<lparr>current := rest3\<rparr>)
         else RO n k (JObj (omap_insert k x m)) (r\<lparr>current := rest3\<rparr>))"
    and array_element: "omap_find a (word_of_nat i) = None \<Longrightarrow> RV n JNull r = finish True x (r\<lparr>current := rest\<rparr>) \<Longrightarrow>
      readToken rest = tok ty t rest1 \<Longrightarrow> ty = tokenArrayEnd \<or> ty = tokenArraySeparator \<Longrightarrow>
      RA (Suc n) i (JArr a) r =
        (if ty = tokenArrayEnd then finish True (JArr (omap_insert (word_of_nat i) x a)) (r\<lparr>current := rest1\<rparr>)
         else RA n (i + 1) (JArr (omap_insert (word_of_nat i) x a)) (r\<lparr>current := rest1\<rparr>))"

text \<open>A text is read back, and so are the elements of an array and the members of an object, whatever follows.\<close>

definition value_reads where
  "value_reads limit name_ok RV v t \<longleftrightarrow> writable v \<longrightarrow> names_ok name_ok v \<longrightarrow>
     (\<forall>n (r :: reader) cur rest. current r = t @ rest \<longrightarrow> delimited rest \<longrightarrow> int (stackDepth r) + int (depth v) \<le> limit \<longrightarrow>
       2 * length (current r) < n \<longrightarrow> RV n cur r = finish True (normalised v) (r\<lparr>current := rest\<rparr>))"

definition elements_read where
  "elements_read limit name_ok RA m t \<longleftrightarrow> (\<forall>e \<in> set m. writable (snd e) \<and> names_ok name_ok (snd e)) \<longrightarrow>
     (\<forall>n i (r :: reader) pre u rest. map fst m = map word_of_nat [i ..< i + length m] \<longrightarrow> i + length m < 2 ^ 31 \<longrightarrow>
       map fst pre = map word_of_nat [0 ..< i] \<longrightarrow> current r = t @ u @ CHR '']'' # rest \<longrightarrow> blank u \<longrightarrow>
       (\<forall>e \<in> set m. int (stackDepth r) + int (depth (snd e)) \<le> limit) \<longrightarrow> 2 * length (current r) + 1 < n \<longrightarrow>
       RA n i (JArr pre) r = finish True (JArr (pre @ map (\<lambda>(k, v). (k, normalised v)) m)) (r\<lparr>current := rest\<rparr>))"

definition members_read where
  "members_read limit name_ok RO m t \<longleftrightarrow>
     (\<forall>e \<in> set m. name_ok (fst e) \<and> writable (snd e) \<and> names_ok name_ok (snd e)) \<longrightarrow>
     (\<forall>n name (r :: reader) pre u rest. omap_inv (pre @ m) \<longrightarrow>
       current r = t @ u @ CHR ''}'' # rest \<longrightarrow> blank u \<longrightarrow>
       (\<forall>e \<in> set m. int (stackDepth r) + int (depth (snd e)) \<le> limit) \<longrightarrow> 2 * length (current r) + 1 < n \<longrightarrow>
       RO n name (JObj (map (\<lambda>(k, v). (k, normalised v)) pre)) r =
         finish True (JObj (map (\<lambda>(k, v). (k, normalised v)) (pre @ m))) (r\<lparr>current := rest\<rparr>))"

text \<open>The next index of an array without gaps.\<close>

lemma next_index:
  assumes "map fst pre = map word_of_nat [0 ..< i]" "i < 2 ^ 31"
  shows "\<forall>a \<in> set (map fst pre). a < (word_of_nat i :: u32)"
  unfolding assms(1) using assms(2) by (auto simp: word_less_nat_alt unat_of_nat take_bit_eq_mod)

context reading
begin

lemma reads_scalar:
  assumes "scalar_text v = Some t" "blank ws"
  shows "value_reads limit name_ok RV v (ws @ t)"
  unfolding value_reads_def
proof (intro impI allI)
  fix n cur rest and r :: reader
  assume a: "current r = (ws @ t) @ rest" "delimited rest" "int (stackDepth r) + int (depth v) \<le> limit" "2 * length (current r) < n"
  obtain n' where n: "n = Suc n'" using a(4) by (cases n) auto
  have "0 < depth v" by (cases v) auto
  then have "int (stackDepth r) < limit" using a(3) by linarith
  then show "RV n cur r = finish True (normalised v) (r\<lparr>current := rest\<rparr>)"
    unfolding n by (rule value_scalar [OF _ assms(1)]) (simp add: a(1) assms scalar_read a(2))
qed

lemma reads_no_elements:
  assumes "blank ws" "blank u"
  shows "value_reads limit name_ok RV (JArr []) (ws @ CHR ''['' # u @ '']'')"
  unfolding value_reads_def
proof (intro impI allI)
  fix n cur rest and r :: reader
  assume a: "current r = (ws @ CHR ''['' # u @ '']'') @ rest" "int (stackDepth r) + int (depth (JArr [])) \<le> limit" "2 * length (current r) < n"
  obtain n' where n: "n = Suc n'" using a(3) by (cases n) auto
  have s: "skipSpaces (u @ CHR '']'' # rest) = CHR '']'' # rest" using assms by simp
  show "RV n cur r = finish True (normalised (JArr [])) (r\<lparr>current := rest\<rparr>)"
    using a(2) value_no_elements [of r "''[''" "u @ CHR '']'' # rest" n' cur] by (simp add: n a(1) assms s)
qed

lemma reads_no_members:
  assumes "blank ws" "blank u"
  shows "value_reads limit name_ok RV (JObj []) (ws @ CHR ''{'' # u @ ''}'')"
  unfolding value_reads_def
proof (intro impI allI)
  fix n cur rest and r :: reader
  assume a: "current r = (ws @ CHR ''{'' # u @ ''}'') @ rest" "int (stackDepth r) + int (depth (JObj [])) \<le> limit" "2 * length (current r) < n"
  then obtain n' where n: "n = Suc (Suc n')" by (cases n; cases "n - 1") auto
  show "RV n cur r = finish True (normalised (JObj [])) (r\<lparr>current := rest\<rparr>)"
    using a(2) value_object [of r "''{''" "u @ CHR ''}'' # rest" "Suc n'" cur]
      object_end [of "r\<lparr>stackDepth := stackDepth r + 1, current := u @ CHR ''}'' # rest\<rparr>" "''}''" rest n']
    by (simp add: n a(1) assms leave_simps)
qed

lemma reads_one_element:
  assumes v: "value_reads limit name_ok RV v t"
  shows "elements_read limit name_ok RA [(k, v)] t"
  unfolding elements_read_def
proof (intro impI allI)
  fix n i u rest and r :: reader and pre :: "(u32 \<times> json) list"
  assume ok: "\<forall>e \<in> set [(k, v)]. writable (snd e) \<and> names_ok name_ok (snd e)"
    and k: "map fst [(k, v)] = map word_of_nat [i ..< i + length [(k, v)]]" "i + length [(k, v)] < 2 ^ 31"
    and pre: "map fst pre = map word_of_nat [0 ..< i]"
    and cur: "current r = t @ u @ CHR '']'' # rest" "blank u"
    and dp: "\<forall>e \<in> set [(k, v)]. int (stackDepth r) + int (depth (snd e)) \<le> limit" and n: "2 * length (current r) + 1 < n"
  obtain n' where n': "n = Suc n'" using n by (cases n) auto
  have fresh: "\<forall>a \<in> set (map fst pre). a < word_of_nat i" using next_index [OF pre] k(2) by simp
  have "RV n' JNull r = finish True (normalised v) (r\<lparr>current := u @ CHR '']'' # rest\<rparr>)"
    using v ok cur dp n by (simp add: value_reads_def n' delimited_blank)
  then show "RA n i (JArr pre) r = finish True (JArr (pre @ map (\<lambda>(k, v). (k, normalised v)) [(k, v)])) (r\<lparr>current := rest\<rparr>)"
    unfolding n' using k(1) cur(2)
    by (subst array_element [OF omap_find_fresh [OF fresh], where ty = tokenArrayEnd])
      (auto simp: omap_insert_last [OF fresh] read_punctuation)
qed

lemma reads_more_elements:
  assumes v: "value_reads limit name_ok RV v t" and m: "elements_read limit name_ok RA m t'" and u: "blank u"
  shows "elements_read limit name_ok RA ((k, v) # m) (t @ u @ CHR '','' # t')"
  unfolding elements_read_def
proof (intro impI allI)
  fix n i u' rest and r :: reader and pre :: "(u32 \<times> json) list"
  let ?m = "(k, v) # m"
  assume ok: "\<forall>e \<in> set ?m. writable (snd e) \<and> names_ok name_ok (snd e)"
    and k: "map fst ?m = map word_of_nat [i ..< i + length ?m]" "i + length ?m < 2 ^ 31"
    and pre: "map fst pre = map word_of_nat [0 ..< i]"
    and cur: "current r = (t @ u @ CHR '','' # t') @ u' @ CHR '']'' # rest" "blank u'"
    and dp: "\<forall>e \<in> set ?m. int (stackDepth r) + int (depth (snd e)) \<le> limit" and n: "2 * length (current r) + 1 < n"
  obtain n' where n': "n = Suc n'" using n by (cases n) auto
  have upt: "[i ..< i + length ?m] = i # [Suc i ..< Suc i + length m]" by (simp add: upt_conv_Cons del: upt_Suc)
  have k': "k = word_of_nat i" "map fst m = map word_of_nat [Suc i ..< Suc i + length m]" using k(1) unfolding upt by simp_all
  have fresh: "\<forall>a \<in> set (map fst pre). a < word_of_nat i" using next_index [OF pre] k(2) by simp
  define rest' where "rest' = t' @ u' @ CHR '']'' # rest"
  have first: "RV n' JNull r = finish True (normalised v) (r\<lparr>current := u @ CHR '','' # rest'\<rparr>)"
    using v ok cur dp n u by (simp add: value_reads_def n' delimited_blank rest'_def)
  have others: "RA n' (Suc i) (JArr (pre @ [(k, normalised v)])) (r\<lparr>current := rest'\<rparr>) =
    finish True (JArr ((pre @ [(k, normalised v)]) @ map (\<lambda>(k, v). (k, normalised v)) m)) (r\<lparr>current := rest', current := rest\<rparr>)"
    using m [unfolded elements_read_def, rule_format, of "Suc i" "pre @ [(k, normalised v)]" "r\<lparr>current := rest'\<rparr>" u' rest n']
      ok k k' pre cur dp n by (simp add: rest'_def n')
  show "RA n i (JArr pre) r = finish True (JArr (pre @ map (\<lambda>(k, v). (k, normalised v)) ?m)) (r\<lparr>current := rest\<rparr>)"
    unfolding n' using others u k'(1)
    by (subst array_element [OF omap_find_fresh [OF fresh] first, where ty = tokenArraySeparator])
      (auto simp: omap_insert_last [OF fresh] read_punctuation)
qed

lemma reads_one_member:
  assumes v: "value_reads limit name_ok RV v t" and ws: "blank ws" "blank u"
  shows "members_read limit name_ok RO [(k, v)] (ws @ valueToQuotedStringN (Some k) @ u @ CHR '':'' # t)"
  unfolding members_read_def
proof (intro impI allI)
  fix n name u' rest and r :: reader and pre :: "(string \<times> json) list"
  let ?q = "valueToQuotedStringN (Some k)" and ?pre = "map (\<lambda>(k, v). (k, normalised v)) pre"
  assume ok: "\<forall>e \<in> set [(k, v)]. name_ok (fst e) \<and> writable (snd e) \<and> names_ok name_ok (snd e)"
    and inv: "omap_inv (pre @ [(k, v)])"
    and cur: "current r = (ws @ ?q @ u @ CHR '':'' # t) @ u' @ CHR ''}'' # rest" "blank u'"
    and dp: "\<forall>e \<in> set [(k, v)]. int (stackDepth r) + int (depth (snd e)) \<le> limit" and n: "2 * length (current r) + 1 < n"
  obtain n' where n': "n = Suc n'" using n by (cases n) auto
  have fresh: "\<forall>a \<in> set (map fst ?pre). a < k" using inv by (auto simp: omap_inv_def sorted_wrt_append)
  define rest1 where "rest1 = t @ u' @ CHR ''}'' # rest"
  have "RV n' JNull (r\<lparr>current := rest1\<rparr>) = finish True (normalised v) (r\<lparr>current := rest1, current := u' @ CHR ''}'' # rest\<rparr>)"
    using v ok cur dp n by (simp add: value_reads_def n' delimited_blank rest1_def)
  then show "RO n name (JObj ?pre) r = finish True (JObj (map (\<lambda>(k, v). (k, normalised v)) (pre @ [(k, v)]))) (r\<lparr>current := rest\<rparr>)"
    unfolding n' using ok cur(2) ws
    by (subst object_member [where k = k and ty = tokenObjectEnd and rest = "u @ CHR '':'' # rest1" and ?rest1.0 = rest1
        and ?rest2.0 = "u' @ CHR ''}'' # rest" and ?rest3.0 = rest, OF _ omap_find_fresh [OF fresh]])
      (auto simp: omap_insert_last [OF fresh] read_punctuation cur(1) rest1_def read_string)
qed

lemma reads_more_members:
  assumes v: "value_reads limit name_ok RV v t" and m: "members_read limit name_ok RO m t'"
    and ws: "blank ws" "blank u" "blank u'"
  shows "members_read limit name_ok RO ((k, v) # m) (ws @ valueToQuotedStringN (Some k) @ u @ CHR '':'' # t @ u' @ CHR '','' # t')"
  unfolding members_read_def
proof (intro impI allI)
  fix n name w rest and r :: reader and pre :: "(string \<times> json) list"
  let ?m = "(k, v) # m" and ?q = "valueToQuotedStringN (Some k)" and ?pre = "map (\<lambda>(k, v). (k, normalised v)) pre"
  assume ok: "\<forall>e \<in> set ?m. name_ok (fst e) \<and> writable (snd e) \<and> names_ok name_ok (snd e)"
    and inv: "omap_inv (pre @ ?m)"
    and cur: "current r = (ws @ ?q @ u @ CHR '':'' # t @ u' @ CHR '','' # t') @ w @ CHR ''}'' # rest" "blank w"
    and dp: "\<forall>e \<in> set ?m. int (stackDepth r) + int (depth (snd e)) \<le> limit" and n: "2 * length (current r) + 1 < n"
  obtain n' where n': "n = Suc n'" using n by (cases n) auto
  have fresh: "\<forall>a \<in> set (map fst ?pre). a < k" using inv by (auto simp: omap_inv_def sorted_wrt_append)
  define rest3 where "rest3 = t' @ w @ CHR ''}'' # rest"
  define rest1 where "rest1 = t @ u' @ CHR '','' # rest3"
  have first: "RV n' JNull (r\<lparr>current := rest1\<rparr>) = finish True (normalised v) (r\<lparr>current := rest1, current := u' @ CHR '','' # rest3\<rparr>)"
    using v ok cur dp n ws by (simp add: value_reads_def n' delimited_blank rest1_def rest3_def)
  have others: "RO n' k (JObj (map (\<lambda>(k, v). (k, normalised v)) (pre @ [(k, v)]))) (r\<lparr>current := rest3\<rparr>) =
    finish True (JObj (map (\<lambda>(k, v). (k, normalised v)) ((pre @ [(k, v)]) @ m))) (r\<lparr>current := rest3, current := rest\<rparr>)"
    using m [unfolded members_read_def, rule_format, of "pre @ [(k, v)]" "r\<lparr>current := rest3\<rparr>" w rest n' k]
      ok inv cur dp n by (simp add: rest3_def n')
  show "RO n name (JObj ?pre) r = finish True (JObj (map (\<lambda>(k, v). (k, normalised v)) (pre @ ?m))) (r\<lparr>current := rest\<rparr>)"
    unfolding n' using ok cur(2) ws first others
    by (subst object_member [where k = k and ty = tokenArraySeparator and rest = "u @ CHR '':'' # rest1" and ?rest1.0 = rest1
        and ?rest2.0 = "u' @ CHR '','' # rest3" and ?rest3.0 = rest3, OF _ omap_find_fresh [OF fresh]])
      (auto simp: omap_insert_last [OF fresh] read_punctuation cur(1) rest1_def rest3_def read_string)
qed

lemma reads_elements:
  assumes m: "element_texts m t" and ws: "blank ws" "blank u"
    and skip: "elements_read limit name_ok RA m (skipSpaces t)"
  shows "value_reads limit name_ok RV (JArr m) (ws @ CHR ''['' # t @ u @ '']'')"
  unfolding value_reads_def
proof (intro impI allI)
  fix n cur rest and r :: reader
  assume ok: "writable (JArr m)" "names_ok name_ok (JArr m)" and a: "current r = (ws @ CHR ''['' # t @ u @ '']'') @ rest"
    and dp: "int (stackDepth r) + int (depth (JArr m)) \<le> limit" and n: "2 * length (current r) < n"
  obtain n' where n': "n = Suc n'" using n by (cases n) auto
  obtain c s where c: "skipSpaces t = c # s" "c \<noteq> CHR '']''" "\<not> is_space c" "element_texts m (c # s)"
    using elements_skip [OF m] by blast
  let ?body = "u @ CHR '']'' # rest"
  have sk: "skipSpaces (t @ ?body) = c # s @ ?body"
    using c(1) by (simp add: skipSpaces_def dropWhile_append) (metis dropWhile_eq_Nil_conv list.distinct(1))
  have le: "length (c # s @ ?body) \<le> length (t @ ?body)" unfolding sk [symmetric] by (simp only: skipSpaces_def dropWhile_length)
  let ?r = "r\<lparr>stackDepth := stackDepth r + 1, current := c # s @ ?body\<rparr>"
  have "RA n' 0 (JArr []) ?r = finish True (JArr ([] @ map (\<lambda>(k, v). (k, normalised v)) m)) (?r\<lparr>current := rest\<rparr>)"
    using skip [unfolded c(1) elements_read_def, rule_format, of 0 "[]" ?r u rest n'] ok a n ws le dp depth_element(1) [of _ m]
    by (fastforce simp: n' simp del: depth.simps)
  moreover have "int (stackDepth r) < limit" using dp by simp
  ultimately show "RV n cur r = finish True (normalised (JArr m)) (r\<lparr>current := rest\<rparr>)"
    using value_array [of r "''[''" "t @ ?body" n' cur] ws c(2) by (simp add: n' a sk read_punctuation leave_simps)
qed

lemma reads_members:
  assumes m: "members_read limit name_ok RO m t" and ws: "blank ws" "blank u"
  shows "value_reads limit name_ok RV (JObj m) (ws @ CHR ''{'' # t @ u @ ''}'')"
  unfolding value_reads_def
proof (intro impI allI)
  fix n cur rest and r :: reader
  assume ok: "writable (JObj m)" "names_ok name_ok (JObj m)" and a: "current r = (ws @ CHR ''{'' # t @ u @ ''}'') @ rest"
    and dp: "int (stackDepth r) + int (depth (JObj m)) \<le> limit" and n: "2 * length (current r) < n"
  obtain n' where n': "n = Suc n'" using n by (cases n) auto
  let ?body = "t @ u @ CHR ''}'' # rest"
  let ?r = "r\<lparr>stackDepth := stackDepth r + 1, current := ?body\<rparr>"
  have "RO n' [] (JObj (map (\<lambda>(k, v). (k, normalised v)) [])) ?r =
      finish True (JObj (map (\<lambda>(k, v). (k, normalised v)) ([] @ m))) (?r\<lparr>current := rest\<rparr>)"
    using m [unfolded members_read_def, rule_format, of "[]" ?r u rest n' "[]"] ok a n ws dp depth_element(2) [of _ m]
    by (fastforce simp: n' simp del: depth.simps)
  moreover have "int (stackDepth r) < limit" using dp by simp
  ultimately show "RV n cur r = finish True (normalised (JObj m)) (r\<lparr>current := rest\<rparr>)"
    using value_object [of r "''{''" ?body n' cur] ws by (simp add: n' a read_punctuation leave_simps)
qed

text \<open>Every text of a value is read back.\<close>

lemma layout_reads:
  "layout v t \<Longrightarrow> value_reads limit name_ok RV v t \<and> value_reads limit name_ok RV v (skipSpaces t)"
  "element_texts m t \<Longrightarrow> elements_read limit name_ok RA m t \<and> elements_read limit name_ok RA m (skipSpaces t)"
  "member_texts n t \<Longrightarrow> members_read limit name_ok RO n t"
proof (induction v t and m t and n t rule: layout_element_texts_member_texts.inducts)
  case (layout_token v t ws)
  obtain c s where "t = c # s" "\<not> is_space c" using scalar_start [OF layout_token(1)] by blast
  then have "skipSpaces t = t" by simp
  then show ?case using layout_token reads_scalar [of v t ws] reads_scalar [of v t "[]"] by simp
next
  case (layout_no_elements ws u)
  then show ?case using reads_no_elements [of ws u] reads_no_elements [of "[]" u] by simp
next
  case (layout_elements m t ws u)
  then show ?case using reads_elements [of m t ws u] reads_elements [of m t "[]" u] by simp
next
  case (layout_no_members ws u)
  then show ?case using reads_no_members [of ws u] reads_no_members [of "[]" u] by simp
next
  case (layout_members m t ws u)
  then show ?case using reads_members [of m t ws u] reads_members [of m t "[]" u] by simp
next
  case (one_element v t i)
  then show ?case by (simp add: reads_one_element)
next
  case (more_elements v t m t' u i)
  obtain c s where c: "skipSpaces t = c # s" using layout_skip [OF more_elements(1)] by blast
  have "skipSpaces (t @ x) = skipSpaces t @ x" for x
    using c by (simp add: skipSpaces_def dropWhile_append) (metis dropWhile_eq_Nil_conv list.distinct(1))
  then show ?case using more_elements by (simp add: reads_more_elements)
qed (simp_all add: reads_one_member reads_more_members)

lemma reads_layout:
  assumes "layout v t" "writable v" "names_ok name_ok v" "delimited rest" "int (depth v) \<le> limit" "2 * length (t @ rest) < n"
  shows "RV n cur \<lparr>current = t @ rest, errors = [], stackDepth = 0\<rparr> =
    finish True (normalised v) \<lparr>current = rest, errors = [], stackDepth = 0\<rparr>"
  using layout_reads(1) [OF assms(1)] assms(2-) by (simp add: value_reads_def)

end

section \<open>Reader\<close>

text \<open>\<open>Reader\<close> keeps the contract, with every set of features.\<close>

lemma skip_read: "tok_type (readToken s) \<noteq> tokenComment \<Longrightarrow> skipCommentTokens f s = readToken s"
  by (simp add: skipCommentTokens_def readPast_readToken)

interpretation reader: reading "int stackLimit" "\<lambda>_. True" "readValue f" "readObject f" "readArray f" for f
proof (standard, goal_cases)
  case (1 r v t rest n cur)
  then have lt: "stackDepth r < stackLimit" by simp
  consider i where "v = JInt i" | u where "v = JUInt u" | s where "v = JStr (Some s)" | "v = JNull" | b where "v = JBool b"
    using 1(2) by (cases v rule: scalar_text.cases) auto
  then show ?case
    by cases (use 1 lt in \<open>auto simp: readValue.simps skip_read leave_simps decode_int decode_uint decode_string split: if_splits\<close>)
next
  case (2 r t rest n cur)
  then show ?case by (simp add: readValue.simps skip_read)
next
  case (3 r t rest n cur)
  then show ?case by (simp add: readValue.simps skip_read leave_simps)
next
  case (4 r t rest n cur)
  then show ?case by (simp add: readValue.simps skip_read)
next
  case (5 r t rest n v)
  then show ?case by (simp add: readObject.simps readPast_readToken)
next
  case (6 k m r rest t rest1 n x rest2 ty t' rest3 name)
  then show ?case
    by (auto simp: readObject.simps readPast_readToken member_name_def decode_string member_separator_def Let_def omap_insert_insert)
next
  case (7 m i n r x rest ty t rest1)
  then show ?case by (auto simp: readArray.simps readPast_readToken Let_def omap_insert_insert)
qed

text \<open>A document is a text of its value, with blanks at the end.\<close>

lemma parse_layout:
  assumes "layout v t" "writable v" "depth v \<le> stackLimit" "blank ws" "strictRoot f \<longrightarrow> isArray v \<or> isObject v"
  shows "\<exists>r. parse f (t @ ws) root = Some (Inr (True, normalised v, r)) \<and> good r"
proof -
  have d: "delimited ws" using delimited_blank [OF assms(4), of "[]"] by (simp add: delimited_def is_digit_def char_consts)
  have "readValue f (parse_fuel (t @ ws)) root \<lparr>current = t @ ws, errors = [], stackDepth = 0\<rparr> =
      finish True (normalised v) \<lparr>current = ws, errors = [], stackDepth = 0\<rparr>"
    using assms(3) by (intro reader.reads_layout [OF assms(1,2) _ d]) (simp_all add: parse_fuel_def)
  moreover have "isArray (normalised v) = isArray v \<and> isObject (normalised v) = isObject v"
    by (cases v) (simp_all add: norm_int_def norm_uint_def isArray_def isObject_def)
  ultimately have "parse f (t @ ws) root =
      finish True (normalised v) \<lparr>current = tok_end (skipCommentTokens f ws), errors = [], stackDepth = 0\<rparr>"
    using assms(5) by (auto simp: parse_def Let_def)
  then show ?thesis by (simp add: finish_def good_def)
qed

end
