(* ===== verification/Json_Writer.thy ===== *)
theory Json_Writer
  imports Json_Value
begin

text \<open>
  The writers of the JSON library (Client/cpp/json/jsoncpp.cpp): \<open>FastWriter\<close>, which VertxBus uses for
  its frames, and \<open>StyledWriter\<close>, which it and KvdnClient use for logging. Values carry no comments
  here, so the writers' comment functions write nothing and are left out. A writer visits a
  container by its indices or member names and looks each one up; the recursion is over the
  entries, and the looked-up text (or action) is taken from the list of their results.
\<close>

section \<open>FastWriter\<close>

record fast_writer =
  yamlCompatiblityEnabled :: bool
  dropNullPlaceholders :: bool
  omitEndingLineFeed :: bool

definition FastWriter :: fast_writer where
  "FastWriter = \<lparr>yamlCompatiblityEnabled = False, dropNullPlaceholders = False,
     omitEndingLineFeed = False\<rparr>"

fun join :: "string \<Rightarrow> string list \<Rightarrow> string" where
  "join sep [] = ''''"
| "join sep [x] = x"
| "join sep (x # y # xs) = x @ sep @ join sep (y # xs)"

text \<open>\<open>value[index]\<close> and \<open>value[name]\<close> of a missing element are null.\<close>

definition looked_up :: "'a \<Rightarrow> ('k \<times> 'a) list \<Rightarrow> 'k \<Rightarrow> 'a" where
  "looked_up null m k = (case omap_find m k of Some x \<Rightarrow> x | None \<Rightarrow> null)"

text \<open>The indices of the loop \<open>for (int index = 0; index < size; ++index)\<close>.\<close>

definition int_indices :: "u32 \<Rightarrow> u32 list" where
  "int_indices sz = map word_of_nat [0 ..< nat (sint sz)]"

fun fast_writeValue :: "fast_writer \<Rightarrow> json \<Rightarrow> string" where
  "fast_writeValue w JNull = (if dropNullPlaceholders w then '''' else ''null'')"
| "fast_writeValue w (JInt i) = valueToString_int i"
| "fast_writeValue w (JUInt u) = valueToString_uint u"
| "fast_writeValue w (JReal r) = valueToString_double r"
| "fast_writeValue w (JStr s) = valueToQuotedStringN s"
| "fast_writeValue w (JBool b) = valueToString_bool b"
| "fast_writeValue w (JArr m) =
     (let ws = map (\<lambda>(k, v). (k, fast_writeValue w v)) m;
          null = (if dropNullPlaceholders w then '''' else ''null'')
      in ''['' @ join '','' (map (looked_up null ws) (int_indices (arr_size m))) @ '']'')"
| "fast_writeValue w (JObj m) =
     (let ws = map (\<lambda>(k, v). (k, fast_writeValue w v)) m;
          null = (if dropNullPlaceholders w then '''' else ''null'');
          colon = (if yamlCompatiblityEnabled w then '': '' else '':'')
      in ''{'' @ join '',''
           (map (\<lambda>name. valueToQuotedStringN (Some name) @ colon @ looked_up null ws name)
             (map fst m)) @ ''}'')"

definition fast_write :: "fast_writer \<Rightarrow> json \<Rightarrow> string" where
  "fast_write w root = fast_writeValue w root @ (if omitEndingLineFeed w then '''' else [LF])"

section \<open>StyledWriter\<close>

record styled_writer =
  document :: string
  childValues :: "string list"
  indentString :: string
  addChildValues :: bool

definition rightMargin :: int where "rightMargin = 74"
definition indentSize :: nat where "indentSize = 3"

definition StyledWriter :: styled_writer where
  "StyledWriter = \<lparr>document = '''', childValues = [], indentString = '''', addChildValues = False\<rparr>"

definition put :: "string \<Rightarrow> styled_writer \<Rightarrow> styled_writer" where
  "put s w = w\<lparr>document := document w @ s\<rparr>"

definition pushValue :: "string \<Rightarrow> styled_writer \<Rightarrow> styled_writer" where
  "pushValue s w =
     (if addChildValues w then w\<lparr>childValues := childValues w @ [s]\<rparr> else put s w)"

definition writeIndent :: "styled_writer \<Rightarrow> styled_writer" where
  "writeIndent w =
     (if document w \<noteq> [] then
        let l = last (document w) in
        if l = CHR '' '' then w
        else if l \<noteq> LF then put (LF # indentString w) w
        else put (indentString w) w
      else put (indentString w) w)"

definition writeWithIndent :: "string \<Rightarrow> styled_writer \<Rightarrow> styled_writer" where
  "writeWithIndent s w = put s (writeIndent w)"

definition indent :: "styled_writer \<Rightarrow> styled_writer" where
  "indent w = w\<lparr>indentString := indentString w @ replicate indentSize (CHR '' '')\<rparr>"

definition unindent :: "styled_writer \<Rightarrow> styled_writer" where
  "unindent w =
     w\<lparr>indentString := take (length (indentString w) - indentSize) (indentString w)\<rparr>"

text \<open>\<open>childValues_[index]\<close>.\<close>

definition child_text :: "styled_writer \<Rightarrow> nat \<Rightarrow> string" where
  "child_text w i = (if i < length (childValues w) then childValues w ! i else '''')"

text \<open>The second half of \<open>isMultineArray\<close>: write every child into \<open>childValues_\<close> and add up the
  line length.\<close>

fun collect_children ::
    "(styled_writer \<Rightarrow> styled_writer) list \<Rightarrow> nat \<Rightarrow> int \<Rightarrow> styled_writer \<Rightarrow> int \<times> styled_writer"
where
  "collect_children [] i lineLength w = (lineLength, w)"
| "collect_children (act # acts) i lineLength w =
     (let w' = act w
      in collect_children acts (i + 1) (lineLength + int (length (child_text w' i))) w')"

text \<open>\<open>isMultineArray\<close> on an array of \<open>size\<close> elements, given for each index the element and the
  action that writes it.\<close>

definition isMultineArray ::
    "u32 \<Rightarrow> (json \<times> (styled_writer \<Rightarrow> styled_writer)) list \<Rightarrow> styled_writer \<Rightarrow> bool \<times> styled_writer"
where
  "isMultineArray sz elems w =
     (let n = sint sz;
          multi = (n * 3 \<ge> rightMargin
            \<or> (\<exists>(v, _) \<in> set (take (nat n) elems). (isArray v \<or> isObject v) \<and> size_of v > 0));
          w0 = w\<lparr>childValues := []\<rparr>
      in if multi then (True, w0)
         else
           let (lineLength, w1) =
             collect_children (map snd (take (nat n) elems)) 0 (4 + (n - 1) * 2)
               (w0\<lparr>addChildValues := True\<rparr>)
           in (lineLength \<ge> rightMargin, w1\<lparr>addChildValues := False\<rparr>))"

text \<open>The loop over the elements of a multi-line array.\<close>

fun write_elements ::
    "bool \<Rightarrow> nat \<Rightarrow> (styled_writer \<Rightarrow> styled_writer) list \<Rightarrow> styled_writer \<Rightarrow> styled_writer" where
  "write_elements hasChildValue i [] w = w"
| "write_elements hasChildValue i (act # acts) w =
     (let w1 = (if hasChildValue then writeWithIndent (child_text w i) w else act (writeIndent w))
      in if acts = [] then w1 else write_elements hasChildValue (i + 1) acts (put '','' w1))"

definition writeArrayValue ::
    "u32 \<Rightarrow> (json \<times> (styled_writer \<Rightarrow> styled_writer)) list \<Rightarrow> styled_writer \<Rightarrow> styled_writer"
where
  "writeArrayValue sz elems w =
     (if sz = 0 then pushValue ''[]'' w
      else
        let (multi, w1) = isMultineArray sz elems w in
        if multi then
          let w2 = indent (writeWithIndent ''['' w1);
              w3 = write_elements (childValues w2 \<noteq> []) 0 (map snd elems) w2
          in writeWithIndent '']'' (unindent w3)
        else put ('' ]'') (put (join '', '' (map (child_text w1) [0 ..< unat sz])) (put ''[ '' w1)))"

text \<open>The loop over the members of an object.\<close>

fun write_members :: "(string \<times> (styled_writer \<Rightarrow> styled_writer)) list \<Rightarrow> styled_writer \<Rightarrow> styled_writer"
where
  "write_members [] w = w"
| "write_members ((name, act) # ms) w =
     (let w1 = act (put '' : '' (writeWithIndent (valueToQuotedString (Some name)) w))
      in if ms = [] then w1 else write_members ms (put '','' w1))"

fun styled_writeValue :: "json \<Rightarrow> styled_writer \<Rightarrow> styled_writer" where
  "styled_writeValue JNull = pushValue ''null''"
| "styled_writeValue (JInt i) = pushValue (valueToString_int i)"
| "styled_writeValue (JUInt u) = pushValue (valueToString_uint u)"
| "styled_writeValue (JReal r) = pushValue (valueToString_double r)"
| "styled_writeValue (JStr s) = pushValue (valueToQuotedStringN s)"
| "styled_writeValue (JBool b) = pushValue (valueToString_bool b)"
| "styled_writeValue (JArr m) =
     (let acts = map (\<lambda>(k, v). (k, (v, styled_writeValue v))) m
      in writeArrayValue (arr_size m)
           (map (\<lambda>i. looked_up (JNull, pushValue ''null'') acts (word_of_nat i))
             [0 ..< unat (arr_size m)]))"
| "styled_writeValue (JObj m) =
     (let acts = map (\<lambda>(k, v). (k, styled_writeValue v)) m in
      if m = [] then pushValue ''{}''
      else (\<lambda>w. writeWithIndent ''}'' (unindent
        (write_members (map (\<lambda>name. (name, looked_up (pushValue ''null'') acts name)) (map fst m))
          (indent (writeWithIndent ''{'' w))))))"

definition styled_write :: "json \<Rightarrow> string" where
  "styled_write root = document (styled_writeValue root StyledWriter) @ [LF]"

definition toStyledString :: "json \<Rightarrow> string" where
  "toStyledString v = styled_write v"

end
