(* ===== verification/Json_Roundtrip.thy ===== *)
theory Json_Roundtrip
  imports Json_Layout Json_Writer
begin

text \<open>
  What \<open>FastWriter\<close> writes is what \<open>Reader\<close> reads: whole documents of nested arrays and objects. The stack limit
  bounds the nesting.
\<close>

section \<open>The texts of FastWriter\<close>

lemma join_Cons: "ys \<noteq> [] \<Longrightarrow> join sep (y # ys) = y @ sep @ join sep ys"
  by (cases ys) auto

lemma int_indices_eq: "n < 2 ^ 31 \<Longrightarrow> int_indices (word_of_nat n) = map word_of_nat [0 ..< n]"
proof -
  assume n: "n < 2 ^ 31"
  have "sint (word_of_nat n :: u32) = int n"
    using n by (simp add: signed_of_nat signed_take_bit_int_eq_self)
  then show ?thesis by (simp add: int_indices_def)
qed

lemma dense_size: "map fst m = map word_of_nat [0 ..< length m] \<Longrightarrow> arr_size m = word_of_nat (length m)"
proof -
  assume d: "map fst m = map word_of_nat [0 ..< length m]"
  show ?thesis
  proof (cases "m = []")
    case False
    then have "fst (last m) = last (map fst m)" by (simp add: last_map)
    also have "\<dots> = word_of_nat (length m - 1)" using False by (simp add: d last_map)
    finally show ?thesis using False
      by (simp add: arr_size_def) (metis Suc_pred length_greater_0_conv of_nat_Suc add.commute)
  qed (simp add: arr_size_def)
qed

lemma looked_up_all: "distinct (map fst m) \<Longrightarrow>
   map (looked_up d (map (\<lambda>(k, v). (k, f v)) m)) (map fst m) = map (\<lambda>(k, v). f v) m"
proof (induction m)
  case (Cons e m)
  obtain k v where e: "e = (k, v)" by force
  have "map (looked_up d (map (\<lambda>(k, v). (k, f v)) (e # m))) (map fst m) =
      map (looked_up d (map (\<lambda>(k, v). (k, f v)) m)) (map fst m)"
    using Cons.prems by (auto simp: e looked_up_def)
  with Cons show ?case by (auto simp: e looked_up_def)
qed simp

lemma distinct_words: "n \<le> 2 ^ 32 \<Longrightarrow> distinct (map (word_of_nat :: nat \<Rightarrow> u32) [0 ..< n])"
  by (auto simp: distinct_map inj_on_def word_of_nat_eq_iff take_bit_eq_mod)

text \<open>Blanks before a text.\<close>

lemma layout_blank:
  assumes "layout v t" "blank ws"
  shows "layout v (ws @ t)"
  using assms(1)
proof cases
  case (layout_token x u)
  then show ?thesis using assms(2) layout_element_texts_member_texts.layout_token [of v x "ws @ u"] by simp
next
  case (layout_no_elements u w)
  then show ?thesis using assms(2) layout_element_texts_member_texts.layout_no_elements [of "ws @ u" w] by simp
next
  case (layout_elements m x u w)
  then show ?thesis using assms(2) layout_element_texts_member_texts.layout_elements [of m x "ws @ u" w] by simp
next
  case (layout_no_members u w)
  then show ?thesis using assms(2) layout_element_texts_member_texts.layout_no_members [of "ws @ u" w] by simp
next
  case (layout_members m x u w)
  then show ?thesis using assms(2) layout_element_texts_member_texts.layout_members [of m x "ws @ u" w] by simp
qed

lemma elements_blank:
  assumes "element_texts m t" "blank ws"
  shows "element_texts m (ws @ t)"
  using assms(1)
proof cases
  case (one_element v i)
  then show ?thesis using layout_element_texts_member_texts.one_element [OF layout_blank [OF _ assms(2)], of v t i] by simp
next
  case (more_elements v x m' t' u i)
  then show ?thesis using layout_element_texts_member_texts.more_elements [OF layout_blank [OF _ assms(2)], of v x m' t' u i] by simp
qed

lemma members_blank:
  assumes "member_texts m t" "blank ws"
  shows "member_texts m (ws @ t)"
  using assms(1)
proof cases
  case (one_member v x u w k)
  then show ?thesis using assms(2) layout_element_texts_member_texts.one_member [of v x "ws @ u" w k] by simp
next
  case (more_members v x m' t' u w u' k)
  then show ?thesis using assms(2) layout_element_texts_member_texts.more_members [of v x m' t' "ws @ u" w u' k] by simp
qed

text \<open>Elements and members joined by commas.\<close>

lemma elements_join:
  assumes "m \<noteq> []" "\<forall>(k, v) \<in> set m. layout v (f v)" "blank ws"
  shows "element_texts m (join (CHR '','' # ws) (map (\<lambda>(k, v). f v) m))"
  using assms
proof (induction m)
  case (Cons e m)
  obtain k v where e: "e = (k, v)" by force
  show ?case
  proof (cases m)
    case Nil
    then show ?thesis using Cons.prems by (simp add: e one_element)
  next
    case (Cons e' m')
    then have "element_texts m (ws @ join (CHR '','' # ws) (map (\<lambda>(k, v). f v) m))"
      by (intro elements_blank Cons.IH) (use Cons.prems Cons in auto)
    then show ?thesis
      using more_elements [of v "f v" m _ "[]" k] Cons.prems Cons by (simp add: e join_Cons)
  qed
qed simp

lemma members_join:
  assumes "m \<noteq> []" "\<forall>(k, v) \<in> set m. layout v (f v)" "blank ws" "blank u" "blank w"
  shows "member_texts m (join (CHR '','' # ws) (map (\<lambda>(k, v). valueToQuotedStringN (Some k) @ u @ CHR '':'' # w @ f v) m))"
  using assms
proof (induction m)
  case (Cons e m)
  obtain k v where e: "e = (k, v)" by force
  have v: "layout v (w @ f v)" using Cons.prems by (auto simp: e intro: layout_blank)
  show ?case
  proof (cases m)
    case Nil
    then show ?thesis using one_member [OF v, of "[]" u k] Cons.prems by (simp add: e)
  next
    case (Cons e' m')
    then have "member_texts m (ws @ join (CHR '','' # ws) (map (\<lambda>(k, v). valueToQuotedStringN (Some k) @ u @ CHR '':'' # w @ f v) m))"
      by (intro members_blank Cons.IH) (use Cons.prems Cons in auto)
    then show ?thesis
      using more_members [OF v, of m _ "[]" u "[]" k] Cons.prems Cons by (simp add: e join_Cons)
  qed
qed simp

text \<open>Every configuration of \<open>FastWriter\<close> that writes nulls.\<close>

lemma fast_array:
  assumes "writable (JArr m)"
  shows "fast_writeValue w (JArr m) = ''['' @ join '','' (map (\<lambda>(k, v). fast_writeValue w v) m) @ '']''"
proof -
  have d: "map fst m = map word_of_nat [0 ..< length m]" and l: "length m < 2 ^ 31" using assms by simp_all
  have i: "int_indices (arr_size m) = map fst m"
    using int_indices_eq [OF l] dense_size [OF d] d by simp
  have "distinct (map fst m)" unfolding d using l by (intro distinct_words) simp
  from looked_up_all [OF this, of _ "fast_writeValue w"] show ?thesis
    by (simp add: i Let_def del: map_map)
qed

lemma fast_object:
  assumes "writable (JObj m)"
  shows "fast_writeValue w (JObj m) = ''{'' @ join '','' (map (\<lambda>(k, v). valueToQuotedStringN (Some k) @
    [] @ CHR '':'' # (if yamlCompatiblityEnabled w then '' '' else []) @ fast_writeValue w v) m) @ ''}''"
proof -
  have d: "distinct (map fst m)" using assms by (simp add: omap_inv_def strict_sorted_iff)
  have "map (\<lambda>name. valueToQuotedStringN (Some name) @ colon @ looked_up x (map (\<lambda>(k, v). (k, fast_writeValue w v)) m) name) (map fst m) =
     map (\<lambda>(k, v). valueToQuotedStringN (Some k) @ colon @ fast_writeValue w v) m" for x colon
    using looked_up_all [OF d, of x "fast_writeValue w"] by (auto simp: comp_def)
  then show ?thesis by (simp add: Let_def del: map_map)
qed

lemma fast_layout: "writable v \<Longrightarrow> \<not> dropNullPlaceholders w \<Longrightarrow> layout v (fast_writeValue w v)"
proof (induction v)
  case (JStr s)
  then show ?case using layout_token [of "JStr s" _ "[]"] by (cases s) auto
next
  case (JArr m)
  have l: "\<forall>(k, v) \<in> set m. layout v (fast_writeValue w v)" using JArr by (auto simp: snds.simps)
  show ?case
  proof (cases "m = []")
    case True
    show ?thesis unfolding fast_array [OF JArr.prems(1)] using True layout_no_elements [of "[]" "[]"] by simp
  next
    case False
    show ?thesis
      unfolding fast_array [OF JArr.prems(1)] using layout_elements [OF elements_join [OF False l, of "[]"], of "[]" "[]"] by simp
  qed
next
  case (JObj m)
  have l: "\<forall>(k, v) \<in> set m. layout v (fast_writeValue w v)" using JObj by (auto simp: snds.simps)
  show ?case
  proof (cases "m = []")
    case True
    show ?thesis unfolding fast_object [OF JObj.prems(1)] using True layout_no_members [of "[]" "[]"] by simp
  next
    case False
    show ?thesis
      unfolding fast_object [OF JObj.prems(1)]
      using layout_members [OF members_join [OF False l, of "[]" "[]" "if yamlCompatiblityEnabled w then '' '' else []"], of "[]" "[]"]
      by simp
  qed
qed (use layout_token [where ws = "[]"] in auto)

text \<open>What \<open>FastWriter\<close> writes is read back, under every configuration that writes nulls and every set of features
  that accepts the root.\<close>

lemma fast_writes_read_back:
  assumes "writable v" "depth v \<le> stackLimit" "\<not> dropNullPlaceholders w" "strictRoot f \<longrightarrow> isArray v \<or> isObject v"
  shows "\<exists>r. parse f (fast_write w v) root = Some (Inr (True, normalised v, r)) \<and> good r"
  using parse_layout [OF fast_layout [OF assms(1,3)] assms(1,2) _ assms(4), of "if omitEndingLineFeed w then [] else [LF]"]
  by (simp add: fast_write_def)

lemma fast_write_read_back:
  assumes "writable v" "depth v \<le> stackLimit"
  shows "\<exists>r. parse Features (fast_write FastWriter v) root = Some (Inr (True, normalised v, r)) \<and> good r"
  using assms by (intro fast_writes_read_back) (simp_all add: FastWriter_def Features_def)


definition sample :: json where
  "sample = JObj [(''a'', JArr [(0, JInt (- 7)), (1, JString [LF, QUOTE, NUL])]), (''b'', JUInt 5), (''c'', JNull)]"


subsection \<open>The writer and the reader as a codec\<close>

definition read_document :: "string \<Rightarrow> json option" where
  "read_document doc = (case parse Features doc JNull of
       Some (Inr (ok, v, r)) \<Rightarrow> if ok \<and> good r then Some v else None
     | _ \<Rightarrow> None)"

definition canonical_value :: "json \<Rightarrow> bool" where
  "canonical_value v \<longleftrightarrow> writable v \<and> depth v \<le> stackLimit \<and> normalised v = v"

interpretation document: codec "fast_write FastWriter" read_document canonical_value
proof
  fix v
  assume "canonical_value v"
  then have v: "writable v" "depth v \<le> stackLimit" "normalised v = v" by (simp_all add: canonical_value_def)
  obtain r where "parse Features (fast_write FastWriter v) JNull = Some (Inr (True, normalised v, r))" "good r"
    using fast_write_read_back [OF v(1,2)] by blast
  then show "read_document (fast_write FastWriter v) = Some v" by (simp add: read_document_def v(3))
qed

text \<open>
  Two values in the form the reader produces that \<open>FastWriter\<close> writes to the same document are
  the same value: no information is lost in a frame on the wire.
\<close>

theorem fast_write_injective:
  "canonical_value v \<Longrightarrow> canonical_value w \<Longrightarrow> fast_write FastWriter v = fast_write FastWriter w \<Longrightarrow> v = w"
  by (rule document.encode_injective)

theorem fast_write_injective_witness:
  "canonical_value (JArr [(0, JBool True)]) \<and> JArr [(0, JBool True)] = JArr [(0, JBool True)]"
proof -
  have c: "canonical_value (JArr [(0, JBool True)])"
    by (simp add: canonical_value_def stackLimit_def)
  show ?thesis using fast_write_injective [OF c c refl] c by blast
qed

section \<open>The stack limit\<close>

lemma continue_Inl [simp]: "continue (Some (Inl e)) f = Some (Inl e)"
  by (simp add: continue_def)

lemma readValue_deep:
  "current r = replicate k (CHR ''['') \<Longrightarrow> stackLimit \<le> stackDepth r + k \<Longrightarrow> 2 * k < n \<Longrightarrow>
   readValue Features n cur r = Some (Inl limit_exn)"
proof (induction k arbitrary: r n cur)
  case 0
  then obtain n' where "n = Suc n'" by (cases n) auto
  with 0 show ?case by (simp add: readValue.simps limit_exn_def)
next
  case (Suc k)
  then obtain n' where n: "n = Suc (Suc n')" by (cases n; cases "n - 1") auto
  have sk: "skipCommentTokens Features (current r) = tok tokenArrayBegin ''['' (replicate k (CHR ''[''))"
    by (rule skip_tok) (simp_all add: Suc.prems(1))
  have sp: "skipSpaces (replicate k (CHR ''['')) = replicate k (CHR ''['')" "deref (replicate k (CHR ''['')) \<noteq> CHR '']''"
    by (cases k; simp add: skipSpaces_def is_space_def char_consts)+
  have deeper: "readValue Features n' v (r\<lparr>stackDepth := Suc (stackDepth r), current := replicate k (CHR ''['')\<rparr>) =
      Some (Inl limit_exn)" for v
    using Suc.prems n by (intro Suc.IH) auto
  then show ?case
    using deeper by (simp add: n readValue.simps readArray.simps sk sp limit_exn_def [symmetric])
qed

lemma parse_deep: "stackLimit \<le> k \<Longrightarrow> parse Features (replicate k (CHR ''['')) root = Some (Inl limit_exn)"
  using readValue_deep [of "\<lparr>current = replicate k (CHR ''[''), errors = [], stackDepth = 0\<rparr>" k]
  by (simp add: parse_def parse_fuel_def continue_def)

text \<open>
  Nesting is bounded by the stack limit: a document of a thousand or more opening brackets, which
  would recurse as deep, makes \<open>Reader::parse\<close> throw its exception.
\<close>

theorem deep_nesting_throws:
  "stackLimit \<le> k \<Longrightarrow> parse Features (replicate k (CHR ''['')) root =
     Some (Inl (RuntimeError ''Exceeded stackLimit in readValue().''))"
  using parse_deep by (simp add: limit_exn_def)

theorem deep_nesting_throws_witness:
  "parse Features (replicate 1000 (CHR ''['')) JNull =
     Some (Inl (RuntimeError ''Exceeded stackLimit in readValue().''))"
  by (rule deep_nesting_throws) (simp add: stackLimit_def)



end
