(* ===== verification/Vertx_Bus.thy ===== *)
theory Vertx_Bus
  imports Json_Roundtrip
begin

text \<open>
  The event-bus client (Client/cpp/VertxBus.h and VertxBus.cpp, the build without TLS). The state is
  the object's members; what the bus does to its surroundings (frames on the connection, calls of
  user callbacks, log lines) is appended to \<open>trace\<close>. What comes from outside is an argument: \<open>ec\<close>, whether
  the websocket library reported an error, and \<open>uuid\<close>, the result of \<open>MakeUUID\<close>. An operation returns a
  value, throws, or blocks for ever on a mutex that its holder never released.

  User callbacks run inside \<open>OnMessage\<close>, \<open>OnOpen\<close>, \<open>OnClose\<close> and \<open>OnFail\<close>, but always after the last access
  of these to the members; what a callback does to the bus is the operations it calls, which follow
  in the sequence of steps.
\<close>

section \<open>State\<close>

datatype VertxBusState = kConnecting | kOpen | kClosing | kClosed

record VertxBusOptions =
  ping_interval :: nat

definition DefaultVertxBusOptions :: VertxBusOptions where
  "DefaultVertxBusOptions = \<lparr>ping_interval = 5000\<rparr>"

text \<open>A non-empty \<open>std::function\<close> holds a plain function pointer, which \<open>target\<close> recovers, or some other
  callable; an empty one is \<open>None\<close>.\<close>

datatype callback = FnPtr nat | Closure nat

fun fn_target :: "callback \<Rightarrow> nat option" where
  "fn_target (FnPtr p) = Some p"
| "fn_target (Closure _) = None"

record VertxReplyHandlers =
  reply_handler :: callback
  failure_handler :: "callback option"

text \<open>A thread object whose thread was joined can not be joined again.\<close>

datatype thread = Joinable | Joined

datatype event =
    Frame string
  | Call_open callback
  | Call_close callback
  | Call_fail callback json
  | Call_reply callback json string
  | Call_failure callback json
  | Log string

record bus =
  asio_thread :: "thread option"
  ping_thread :: bool
  state :: VertxBusState
  do_ping :: bool
  options :: VertxBusOptions
  reply_handlers :: "(string \<times> VertxReplyHandlers) list"
  handler_map :: "(string \<times> VertxReplyHandlers list) list"
  rh_lock :: bool
  hm_lock :: bool
  on_open :: "callback option"
  on_close :: "callback option"
  on_fail :: "callback option"
  default_headers :: json
  perpetual :: bool
  io_running :: bool
  url :: string
  trace :: "event list"

definition VertxBus :: bus where
  "VertxBus = \<lparr>asio_thread = None, ping_thread = False, state = kClosed, do_ping = False,
     options = \<lparr>ping_interval = 0\<rparr>, reply_handlers = [], handler_map = [], rh_lock = False,
     hm_lock = False, on_open = None, on_close = None, on_fail = None, default_headers = JNull,
     perpetual = False, io_running = False, url = [], trace = []\<rparr>"

datatype 'a outcome = Returns 'a | Throws exn | Blocks

definition emit :: "event \<Rightarrow> bus \<Rightarrow> bus" where
  "emit e b = b\<lparr>trace := trace b @ [e]\<rparr>"

text \<open>Calling an \<open>std::function\<close> guarded by \<open>if (f)\<close>.\<close>

definition call_if :: "callback option \<Rightarrow> (callback \<Rightarrow> event) \<Rightarrow> bus \<Rightarrow> bus" where
  "call_if f e b = (case f of None \<Rightarrow> b | Some c \<Rightarrow> emit (e c) b)"

text \<open>\<open>client_.send\<close>: a frame leaves when the library reports no error.\<close>

definition client_send :: "bool \<Rightarrow> string \<Rightarrow> bus \<Rightarrow> bool \<times> bus" where
  "client_send ec payload b = (\<not> ec, if ec then b else emit (Frame payload) b)"

section \<open>Addresses and headers\<close>

definition startsWith :: "string \<Rightarrow> string \<Rightarrow> bool" where
  "startsWith str start \<longleftrightarrow> length str \<ge> length start \<and> take (length start) str = start"

definition endsWith :: "string \<Rightarrow> string \<Rightarrow> bool" where
  "endsWith str end_part \<longleftrightarrow> length str \<ge> length end_part \<and>
     take (length end_part) (drop (length str - length end_part) str) = end_part"

definition final_url :: "string \<Rightarrow> string" where
  "final_url u =
     (let lowered = map tolower u
      in if \<not> endsWith lowered ''/websocket'' then lowered @ ''/websocket'' else lowered)"

fun merge_loop :: "json \<Rightarrow> string list \<Rightarrow> json \<Rightarrow> exn + json" where
  "merge_loop defaults [] headers = Inr headers"
| "merge_loop defaults (header_name # names) headers =
     and_then (isMember headers header_name) (\<lambda>present.
       if \<not> present then
         and_then (member defaults header_name) (\<lambda>x.
           and_then (set_member headers header_name x) (merge_loop defaults names))
       else merge_loop defaults names headers)"

definition MergeHeaders :: "json \<Rightarrow> json \<Rightarrow> exn + json" where
  "MergeHeaders defaults headers =
     (if isObject defaults then
        if \<not> isObject headers then Inr defaults
        else and_then (getMemberNames defaults) (\<lambda>names.
          and_then (merge_loop defaults names headers) (\<lambda>merged.
            Inr (if isObject merged then merged else JNull)))
      else Inr (if isObject headers then headers else JNull))"

text \<open>\<open>Json::Value val; val[name] = x; \<dots>\<close>\<close>

fun assign_members :: "(string \<times> json) list \<Rightarrow> json \<Rightarrow> exn + json" where
  "assign_members [] v = Inr v"
| "assign_members ((name, x) # rest) v = and_then (set_member v name x) (assign_members rest)"

section \<open>Sending\<close>

text \<open>The frame of \<open>RegisterHandler\<close> and \<open>UnregisterHandler\<close>.\<close>

definition registration :: "string \<Rightarrow> string \<Rightarrow> json \<Rightarrow> bus \<Rightarrow> exn + json" where
  "registration kind address headers b =
     and_then (MergeHeaders (default_headers b) headers) (\<lambda>merged.
       assign_members [(''type'', Value_cstr kind), (''address'', JString address),
         (''headers'', merged)] JNull)"

definition write_frame :: "bool \<Rightarrow> exn + json \<Rightarrow> bus \<Rightarrow> bool outcome \<times> bus" where
  "write_frame ec frame b =
     (case frame of
        Inl e \<Rightarrow> (Throws e, b)
      | Inr v \<Rightarrow> (let (ok, b') = client_send ec (fast_write FastWriter v) b in (Returns ok, b')))"

definition envelope :: "string \<Rightarrow> string \<Rightarrow> json \<Rightarrow> json \<Rightarrow> string option \<Rightarrow> bus \<Rightarrow> exn + json" where
  "envelope send_or_pub address message headers reply_address b =
     and_then (MergeHeaders (default_headers b) headers) (\<lambda>merged.
       assign_members ([(''type'', JString send_or_pub), (''address'', JString address),
         (''headers'', merged), (''body'', message)] @
         (case reply_address of None \<Rightarrow> [] | Some a \<Rightarrow> [(''replyAddress'', JString a)])) JNull)"

definition SendOrPub :: "string \<Rightarrow> string \<Rightarrow> json \<Rightarrow> json \<Rightarrow> callback option \<Rightarrow> callback option \<Rightarrow>
    string \<Rightarrow> bool \<Rightarrow> bus \<Rightarrow> bool outcome \<times> bus" where
  "SendOrPub send_or_pub address message headers rh fh uuid ec b =
     (if state b \<noteq> kOpen then (Returns False, b)
      else case rh of
          None \<Rightarrow> write_frame ec (envelope send_or_pub address message headers None b) b
        | Some h \<Rightarrow>
            if rh_lock b then (Blocks, b)
            else
              let b' = b\<lparr>reply_handlers := omap_insert uuid
                    \<lparr>reply_handler = h, failure_handler = fh\<rparr> (reply_handlers b)\<rparr>
              in write_frame ec (envelope send_or_pub address message headers (Some uuid) b) b')"

definition Send :: "string \<Rightarrow> json \<Rightarrow> json \<Rightarrow> callback option \<Rightarrow> callback option \<Rightarrow>
    string \<Rightarrow> bool \<Rightarrow> bus \<Rightarrow> bool outcome \<times> bus" where
  "Send address message headers rh fh uuid ec =
     SendOrPub ''send'' address message headers rh fh uuid ec"

definition Publish :: "string \<Rightarrow> json \<Rightarrow> json \<Rightarrow> bool \<Rightarrow> bus \<Rightarrow> bool outcome \<times> bus" where
  "Publish address message headers ec = SendOrPub ''publish'' address message headers None None '''' ec"

text \<open>\<open>VertxBusReplier::operator()\<close> of a replier for \<open>address\<close>.\<close>

definition Replier :: "string \<Rightarrow> json \<Rightarrow> callback option \<Rightarrow> callback option \<Rightarrow>
    string \<Rightarrow> bool \<Rightarrow> bus \<Rightarrow> bool outcome \<times> bus" where
  "Replier address reply rh fh uuid ec b =
     (if address \<noteq> [] then Send address reply JNull rh fh uuid ec b else (Returns False, b))"

definition SendPing :: "bool \<Rightarrow> bus \<Rightarrow> bool \<times> bus" where
  "SendPing ec b =
     (if state b \<noteq> kOpen then (False, b)
      else client_send ec (CHR ''{'' # QUOTE # ''type'' @ QUOTE # '': '' @ QUOTE # ''ping'' @ QUOTE # ''}'') b)"

section \<open>Handlers\<close>

text \<open>\<open>handler_map_[address]\<close>.\<close>

definition handlers_at :: "string \<Rightarrow> bus \<Rightarrow> VertxReplyHandlers list" where
  "handlers_at address b = (case omap_find (handler_map b) address of None \<Rightarrow> [] | Some l \<Rightarrow> l)"

definition set_handlers :: "string \<Rightarrow> VertxReplyHandlers list \<Rightarrow> bus \<Rightarrow> bus" where
  "set_handlers address l b = b\<lparr>handler_map := omap_insert address l (handler_map b)\<rparr>"

definition RegisterHandler :: "string \<Rightarrow> json \<Rightarrow> callback option \<Rightarrow> callback option \<Rightarrow>
    bool \<Rightarrow> bus \<Rightarrow> bool outcome \<times> bus" where
  "RegisterHandler address headers rh fh ec b =
     (case rh of
        None \<Rightarrow> (Returns False, b)
      | Some h \<Rightarrow>
          if state b \<noteq> kOpen then (Returns False, b)
          else if hm_lock b then (Blocks, b)
          else
            let handlers = handlers_at address b;
                do_reg = (handlers = []);
                b' = set_handlers address (handlers @ [\<lparr>reply_handler = h, failure_handler = fh\<rparr>]) b
            in if do_reg then write_frame ec (registration ''register'' address headers b) b'
               else (Returns True, b'))"

fun erase_target :: "nat \<Rightarrow> VertxReplyHandlers list \<Rightarrow> VertxReplyHandlers list" where
  "erase_target p [] = []"
| "erase_target p (h # hs) =
     (if fn_target (reply_handler h) = Some p then hs else h # erase_target p hs)"

definition removed_handlers :: "callback option \<Rightarrow> VertxReplyHandlers list \<Rightarrow> VertxReplyHandlers list" where
  "removed_handlers rh handlers =
     (case rh of
        None \<Rightarrow> []
      | Some h \<Rightarrow> (case fn_target h of None \<Rightarrow> handlers | Some p \<Rightarrow> erase_target p handlers))"

definition UnregisterHandler :: "string \<Rightarrow> json \<Rightarrow> callback option \<Rightarrow> bool \<Rightarrow> bus \<Rightarrow>
    bool outcome \<times> bus" where
  "UnregisterHandler address headers rh ec b =
     (if state b \<noteq> kOpen then (Returns False, b)
      else if hm_lock b then (Blocks, b)
      else
        let handlers = handlers_at address b;
            handlers' = (if handlers \<noteq> [] then removed_handlers rh handlers else []);
            b' = set_handlers address handlers' b
        in if handlers \<noteq> [] \<and> handlers' = []
           then write_frame ec (registration ''unregister'' address headers b) b'
           else (Returns True, b'))"

section \<open>Connecting and closing\<close>

text \<open>\<open>asio_thread_->join()\<close>: waits for the event loop, throws on a thread already joined.\<close>

definition join_asio :: "bus \<Rightarrow> unit outcome \<times> bus" where
  "join_asio b = (case asio_thread b of
       None \<Rightarrow> (Returns (), b)
     | Some Joined \<Rightarrow> (Throws (SystemError ''Invalid argument''), b)
     | Some Joinable \<Rightarrow>
         if io_running b then (Blocks, b) else (Returns (), b\<lparr>asio_thread := Some Joined\<rparr>))"

definition Connect :: "string \<Rightarrow> callback option \<Rightarrow> callback option \<Rightarrow> callback option \<Rightarrow>
    VertxBusOptions \<Rightarrow> bool \<Rightarrow> bus \<Rightarrow> bool outcome \<times> bus" where
  "Connect address open_cb close_cb fail_cb opts ec b =
     (if state b \<noteq> kClosed then
        (Returns False, emit (Log ''Connection Error: not in CLOSE state'') b)
      else case join_asio b of
          (Throws e, b1) \<Rightarrow> (Throws e, b1)
        | (Blocks, b1) \<Rightarrow> (Blocks, b1)
        | (Returns _, b1) \<Rightarrow>
            let b2 = b1\<lparr>on_open := open_cb, on_close := close_cb, on_fail := fail_cb,
                  options := opts, state := kConnecting\<rparr>
            in if ec then (Returns False, emit (Log ''Connection Error: '') b2)
               else (Returns True, b2\<lparr>url := final_url address, perpetual := True,
                       asio_thread := Some Joinable, io_running := True\<rparr>))"

text \<open>\<open>Close\<close> reads the state and asks the library to close, and then stores the new state: other
  threads can run in between.\<close>

definition Close_request :: "bool \<Rightarrow> bus \<Rightarrow> bool" where
  "Close_request ec b \<longleftrightarrow> state b = kOpen \<and> \<not> ec"

definition Close_commit :: "bus \<Rightarrow> bus" where
  "Close_commit b = b\<lparr>state := kClosing\<rparr>"

definition Close :: "bool \<Rightarrow> bus \<Rightarrow> bool \<times> bus" where
  "Close ec b = (if Close_request ec b then (True, Close_commit b) else (False, b))"

definition WaitClosed :: "bus \<Rightarrow> unit outcome \<times> bus" where
  "WaitClosed b = (case asio_thread b of
       None \<Rightarrow> (Returns (), b)
     | Some _ \<Rightarrow> (case join_asio b of
           (Returns _, b') \<Rightarrow> (Returns (), b'\<lparr>asio_thread := None\<rparr>)
         | r \<Rightarrow> r))"

definition destroy :: "bool \<Rightarrow> bus \<Rightarrow> unit outcome \<times> bus" where
  "destroy ec b = WaitClosed (if state b = kOpen then snd (Close ec b) else b)"

definition StartPingInterval :: "bus \<Rightarrow> bus" where
  "StartPingInterval b = (if do_ping b then b else b\<lparr>do_ping := True, ping_thread := True\<rparr>)"

definition StopPingInterval :: "bus \<Rightarrow> bus" where
  "StopPingInterval b =
     (if \<not> do_ping b then b
      else
        let b' = b\<lparr>do_ping := False\<rparr>
        in if ping_thread b' then b'\<lparr>ping_thread := False\<rparr> else b')"

text \<open>One turn of the loop of the ping thread, when the wait times out.\<close>

definition ping_timeout :: "bool \<Rightarrow> bus \<Rightarrow> bus" where
  "ping_timeout ec b = (if do_ping b then snd (SendPing ec b) else b)"

definition OnOpen :: "bool \<Rightarrow> bus \<Rightarrow> bus" where
  "OnOpen ec b =
     (let b1 = snd (SendPing ec b);
          b2 = StartPingInterval (b1\<lparr>state := kOpen\<rparr>)
      in call_if (on_open b2) Call_open b2)"

definition OnClose :: "bus \<Rightarrow> bus" where
  "OnClose b =
     (let b1 = StopPingInterval (b\<lparr>state := kClosed\<rparr>);
          b2 = b1\<lparr>reply_handlers := [], handler_map := [], perpetual := False\<rparr>
      in call_if (on_close b2) Call_close b2)"

definition OnFail :: "bus \<Rightarrow> bus" where
  "OnFail b =
     (let b1 = b\<lparr>state := kClosed, perpetual := False\<rparr>
      in call_if (on_fail b1) (\<lambda>c. Call_fail c JNull) b1)"

section \<open>Receiving\<close>

definition is_err :: "json \<Rightarrow> exn + bool" where
  "is_err v =
     and_then (isMember v ''type'') (\<lambda>present.
       if \<not> present then Inr False
       else and_then (member v ''type'') (\<lambda>t.
         if \<not> isString t then Inr False
         else and_then (asString t) (\<lambda>s. Inr (s = ''err''))))"

definition failure_of :: "json \<Rightarrow> exn + json" where
  "failure_of v =
     and_then (get v ''failureCode'' (Value_Int (- 1))) (\<lambda>failureCode.
     and_then (get v ''failureType'' (Value_cstr ''UNKNOWN'')) (\<lambda>failureType.
     and_then (get v ''message'' (Value_cstr '''')) (\<lambda>message.
       assign_members [(''failureCode'', failureCode), (''failureType'', failureType),
         (''message'', message)] JNull)))"

text \<open>The calls of one pair of handlers for a message, or what is thrown.\<close>

definition handler_call :: "json \<Rightarrow> json \<Rightarrow> VertxReplyHandlers \<Rightarrow> exn + event list" where
  "handler_call v replyAddress h =
     and_then (is_err v) (\<lambda>err.
       if err then
         (case failure_handler h of
            None \<Rightarrow> Inr []
          | Some f \<Rightarrow> and_then (failure_of v) (\<lambda>failure. Inr [Call_failure f failure]))
       else and_then (asString replyAddress) (\<lambda>a. Inr [Call_reply (reply_handler h) v a]))"

fun call_handlers :: "json \<Rightarrow> json \<Rightarrow> VertxReplyHandlers list \<Rightarrow> bus \<Rightarrow> unit outcome \<times> bus" where
  "call_handlers v replyAddress [] b = (Returns (), b)"
| "call_handlers v replyAddress (h # hs) b =
     (case handler_call v replyAddress h of
        Inl e \<Rightarrow> (Throws e, b)
      | Inr events \<Rightarrow> call_handlers v replyAddress hs (b\<lparr>trace := trace b @ events\<rparr>))"

text \<open>The handlers of the address come first, then a reply handler, then the failure callback.\<close>

definition deliver_reply :: "json \<Rightarrow> json \<Rightarrow> string \<Rightarrow> bus \<Rightarrow> unit outcome \<times> bus" where
  "deliver_reply v replyAddress addr b =
     (if rh_lock b then (Blocks, b)
      else case omap_find (reply_handlers b) addr of
          Some h \<Rightarrow>
            call_handlers v replyAddress [h] (b\<lparr>reply_handlers := omap_erase addr (reply_handlers b)\<rparr>)
        | None \<Rightarrow>
            (case is_err v of
               Inl e \<Rightarrow> (Throws e, b)
             | Inr True \<Rightarrow> (Returns (), call_if (on_fail b) (\<lambda>c. Call_fail c v) b)
             | Inr False \<Rightarrow> (Returns (),
                 emit (Log (''No handler found for message: '' @ styled_write v)) b)))"

definition deliver :: "json \<Rightarrow> bus \<Rightarrow> unit outcome \<times> bus" where
  "deliver v b =
     (case and_then (get v ''replyAddress'' JNull) (\<lambda>replyAddress.
             and_then (get v ''address'' JNull) (\<lambda>address. Inr (replyAddress, address))) of
        Inl e \<Rightarrow> (Throws e, b)
      | Inr (replyAddress0, address) \<Rightarrow>
          let replyAddress = (if is_empty replyAddress0 then Value_cstr '''' else replyAddress0)
          in if hm_lock b then (Blocks, b)
             else case asString address of
                 Inl e \<Rightarrow> (Throws e, b\<lparr>hm_lock := True\<rparr>)
               | Inr addr \<Rightarrow>
                   let handlers = handlers_at addr b; b' = set_handlers addr handlers b
                   in if handlers \<noteq> [] then call_handlers v replyAddress handlers b'
                      else deliver_reply v replyAddress addr b')"

definition OnMessage :: "string \<Rightarrow> bus \<Rightarrow> unit outcome \<times> bus" where
  "OnMessage payload b =
     (case parse Features payload JNull of
        None \<Rightarrow> (Blocks, b)
      | Some (Inl e) \<Rightarrow> (Throws e, b)
      | Some (Inr (ok, v, _)) \<Rightarrow> if ok then deliver v b else (Returns (), b))"

lemmas bus_ops [bus_simps] = emit_def call_if_def client_send_def write_frame_def
  SendOrPub_def SendPing_def RegisterHandler_def UnregisterHandler_def join_asio_def Connect_def
  Close_request_def Close_commit_def Close_def WaitClosed_def StartPingInterval_def
  StopPingInterval_def ping_timeout_def OnOpen_def OnClose_def OnFail_def set_handlers_def

end
