(* ===== verification/Vertx_Bus_Laws.thy ===== *)
theory Vertx_Bus_Laws
  imports Vertx_Bus
begin

text \<open>
  Laws of the operations of the event bus: the merging of headers, the frames it writes as the reader
  at the other end sees them, and which callbacks a message reaches.
\<close>

section \<open>Headers\<close>

lemma omap_find_assign:
  "find (JObj m) k = Inr (omap_find m k)" "isMember (JObj m) k = Inr (omap_find m k \<noteq> None)"
  "member (JObj m) k = Inr (case omap_find m k of None \<Rightarrow> JNull | Some x \<Rightarrow> x)"
  "get (JObj m) k d = Inr (case omap_find m k of None \<Rightarrow> d | Some x \<Rightarrow> x)"
  by (auto simp: isMember_def member_def get_def split: option.splits)

lemma set_member_object: "set_member (JObj m) k x = Inr (JObj (omap_insert k x m))"
  by (auto simp: set_member_def omap_insert_insert split: option.split)

lemma set_member_null: "set_member JNull k x = Inr (JObj [(k, x)])"
  by (simp add: set_member_def)

lemmas object_ops = omap_find_assign set_member_object set_member_null

lemma merge_loop_lookup:
  assumes "omap_inv hm" "set names \<subseteq> dom (omap_find dm)"
  shows "\<exists>m. merge_loop (JObj dm) names (JObj hm) = Inr (JObj m) \<and> omap_inv m \<and>
     omap_find m = (omap_find dm |` set names) ++ omap_find hm"
  using assms
proof (induction names arbitrary: hm)
  case Nil
  then show ?case by simp
next
  case (Cons n ns)
  obtain x where x: "omap_find dm n = Some x" using Cons.prems(2) by auto
  show ?case
  proof (cases "omap_find hm n")
    case (Some y)
    have "(omap_find dm |` set (n # ns)) ++ omap_find hm = (omap_find dm |` set ns) ++ omap_find hm"
      using Some by (auto simp: fun_eq_iff map_add_def restrict_map_def split: option.splits)
    with Cons Some show ?thesis by (auto simp: object_ops)
  next
    case None
    have "(omap_find dm |` set (n # ns)) ++ omap_find hm =
        (omap_find dm |` set ns) ++ omap_find (omap_insert n x hm)"
      using None x Cons.prems(1) 
      by (auto simp: fun_eq_iff map_add_def restrict_map_def om.find_insert split: option.splits)
    moreover have "omap_inv (omap_insert n x hm)" using Cons.prems(1) by (rule om.invar_insert)
    ultimately show ?thesis using Cons.IH [of "omap_insert n x hm"] Cons.prems None x
      by (auto simp: object_ops)
  qed
qed

lemma dom_omap_find: "dom (omap_find m) = set (map fst m)"
  using omap_find_eq_None [of m] by (auto simp: dom_def simp del: set_map)

lemma MergeHeaders_objects:
  assumes "omap_inv hm"
  shows "\<exists>m. MergeHeaders (JObj dm) (JObj hm) = Inr (JObj m) \<and> omap_inv m \<and>
     omap_find m = omap_find dm ++ omap_find hm"
proof -
  have "omap_find dm |` set (map fst dm) = omap_find dm"
    by (rule ext) (metis dom_omap_find domIff restrict_map_def)
  then show ?thesis
    using merge_loop_lookup [OF assms, of "map fst dm" dm] dom_omap_find [of dm]
    by (auto simp: MergeHeaders_def isObject_def)
qed

lemma MergeHeaders_total: 
  assumes "case headers of JObj hm \<Rightarrow> omap_inv hm | _ \<Rightarrow> True"
  shows "\<exists>v. MergeHeaders defaults headers = Inr v \<and> (v = JNull \<or> isObject v)"
  using assms MergeHeaders_objects
  by (cases defaults; cases headers) (fastforce simp: MergeHeaders_def isObject_def)+

section \<open>Frames\<close>

lemma envelope_members:
  assumes "MergeHeaders (default_headers b) headers = Inr merged"
  shows "envelope kind address message headers None b =
      Inr (JObj [(''address'', JString address), (''body'', message), (''headers'', merged), (''type'', JString kind)])"
    "envelope kind address message headers (Some a) b =
      Inr (JObj [(''address'', JString address), (''body'', message), (''headers'', merged),
        (''replyAddress'', JString a), (''type'', JString kind)])"
  using assms by (simp_all add: envelope_def object_ops)

lemma registration_members:
  assumes "MergeHeaders (default_headers b) headers = Inr merged"
  shows "registration kind address headers b =
      Inr (JObj [(''address'', JString address), (''headers'', merged), (''type'', Value_cstr kind)])"
  using assms by (simp add: registration_def object_ops)

lemma write_frame_sends:
  "frame = Inr v \<Longrightarrow> write_frame False frame b =
     (Returns True, b\<lparr>trace := trace b @ [Frame (fast_write FastWriter v)]\<rparr>)"
  "frame = Inr v \<Longrightarrow> write_frame True frame b = (Returns False, b)"
  by (simp_all add: write_frame_def client_send_def emit_def)

lemma write_frame_trace: "\<exists>t. snd (write_frame ec f b) = b\<lparr>trace := trace b @ t\<rparr>"
proof (cases "ec \<or> (\<exists>e. f = Inl e)")
  case True
  then have "snd (write_frame ec f b) = b\<lparr>trace := trace b @ []\<rparr>"
    by (auto simp: write_frame_def client_send_def split: sum.splits)
  then show ?thesis by blast
next
  case False
  then show ?thesis by (cases f) (auto simp: write_frame_sends)
qed

lemma read_written:
  "writable v \<Longrightarrow> depth v \<le> stackLimit \<Longrightarrow> read_document (fast_write FastWriter v) = Some (normalised v)"
  using fast_write_read_back [of v JNull] by (auto simp: read_document_def)

lemma Send_frame:
  assumes "state b = kOpen" "rh_lock b = False"
    and "MergeHeaders (default_headers b) headers = Inr merged"
    and "writable message" "writable merged" "depth message < stackLimit" "depth merged < stackLimit"
  shows "\<exists>payload. 
     Send address message headers (Some h) fh uuid False b =
       (Returns True, b\<lparr>reply_handlers := omap_insert uuid \<lparr>reply_handler = h, failure_handler = fh\<rparr> (reply_handlers b),
          trace := trace b @ [Frame payload]\<rparr>) \<and>
     read_document payload = Some (JObj [(''address'', JString address), (''body'', normalised message),
        (''headers'', normalised merged), (''replyAddress'', JString uuid), (''type'', JString ''send'')])"
proof -
  define v where "v = JObj [(''address'', JString address), (''body'', message),
        (''headers'', merged), (''replyAddress'', JString uuid), (''type'', JString ''send'')]"
  have "writable v" using assms(4,5) by (simp add: v_def omap_inv_def)
  moreover have "depth v \<le> stackLimit" using assms(6,7) by (simp add: v_def stackLimit_def)
  ultimately have "read_document (fast_write FastWriter v) = Some (normalised v)" by (rule read_written)
  moreover have "envelope ''send'' address message headers (Some uuid) b = Inr v"
    using envelope_members(2) [OF assms(3)] by (simp add: v_def)
  ultimately show ?thesis
    using assms(1,2) by (auto simp: Send_def SendOrPub_def write_frame_sends v_def Let_def)
qed

section \<open>Delivery\<close>

text \<open>The address and the reply address of a message, as \<open>OnMessage\<close> reads them.\<close>

definition addressed_to :: "json \<Rightarrow> string \<Rightarrow> bool" where
  "addressed_to v a \<longleftrightarrow> get v ''address'' JNull = Inr (JString a)"

definition replies_to :: "json \<Rightarrow> string \<Rightarrow> bool" where
  "replies_to v a \<longleftrightarrow> (\<exists>r. get v ''replyAddress'' JNull = Inr r \<and>
     asString (if is_empty r then Value_cstr [] else r) = Inr a)"

lemma call_handlers_replies:
  "is_err v = Inr False \<Longrightarrow> asString ra = Inr a \<Longrightarrow>
   call_handlers v ra hs b = (Returns (), b\<lparr>trace := trace b @ map (\<lambda>h. Call_reply (reply_handler h) v a) hs\<rparr>)"
proof (induction hs arbitrary: b)
  case (Cons h hs)
  then show ?case by (simp add: handler_call_def)
qed simp

lemma deliver_to_handlers:
  assumes "addressed_to v addr" "replies_to v a" "is_err v = Inr False"
    and "hm_lock b = False" "handlers_at addr b \<noteq> []"
  shows "deliver v b = (Returns (), (set_handlers addr (handlers_at addr b) b)\<lparr>trace :=
     trace b @ map (\<lambda>h. Call_reply (reply_handler h) v a) (handlers_at addr b)\<rparr>)"
  using assms by (auto simp: deliver_def addressed_to_def replies_to_def Let_def 
      call_handlers_replies set_handlers_def)

lemma deliver_to_reply_handler:
  assumes "addressed_to v addr" "replies_to v a" "is_err v = Inr False"
    and "hm_lock b = False" "rh_lock b = False" "handlers_at addr b = []"
    and "omap_find (reply_handlers b) addr = Some h"
  shows "deliver v b = (Returns (), (set_handlers addr [] b)\<lparr>
     reply_handlers := omap_erase addr (reply_handlers b),
     trace := trace b @ [Call_reply (reply_handler h) v a]\<rparr>)"
  using assms by (auto simp: deliver_def deliver_reply_def addressed_to_def replies_to_def Let_def 
      handler_call_def set_handlers_def)

lemma deliver_to_nobody:
  assumes "addressed_to v addr" "replies_to v a" "is_err v = Inr False"
    and "hm_lock b = False" "rh_lock b = False" "handlers_at addr b = []"
    and "omap_find (reply_handlers b) addr = None"
  shows "\<exists>line. deliver v b = (Returns (), (set_handlers addr [] b)\<lparr>trace := trace b @ [Log line]\<rparr>)"
  using assms by (auto simp: deliver_def deliver_reply_def addressed_to_def replies_to_def Let_def 
      emit_def set_handlers_def)

lemma OnMessage_written:
  assumes "writable v" "depth v \<le> stackLimit"
  shows "OnMessage (fast_write FastWriter v) b = deliver (normalised v) b"
  using fast_write_read_back [OF assms, of JNull] by (auto simp: OnMessage_def)

lemma handlers_at_set [simp]: "handlers_at a (set_handlers c l b) = (if a = c then l else handlers_at a b)"
  by (simp add: handlers_at_def set_handlers_def omap_find_insert)

lemma set_handlers_simps [simp]:
  "reply_handlers (set_handlers a l b) = reply_handlers b" "hm_lock (set_handlers a l b) = hm_lock b"
  "rh_lock (set_handlers a l b) = rh_lock b" "trace (set_handlers a l b) = trace b"
  by (simp_all add: set_handlers_def)

lemma handlers_at_update [simp]:
  "handlers_at a (b\<lparr>reply_handlers := x\<rparr>) = handlers_at a b" "handlers_at a (b\<lparr>trace := t\<rparr>) = handlers_at a b"
  by (simp_all add: handlers_at_def)

section \<open>Properties\<close>

text \<open>
  \<open>MergeHeaders\<close> of two objects is the union of their members, and the headers of the call take
  precedence over the default headers of the bus; it never throws.
\<close>

theorem MergeHeaders_union:
  "omap_inv hm \<Longrightarrow> \<exists>m. MergeHeaders (JObj dm) (JObj hm) = Inr (JObj m) \<and> omap_inv m \<and>
     omap_find m = omap_find dm ++ omap_find hm"
  by (rule MergeHeaders_objects)

theorem MergeHeaders_union_witness:
  "\<exists>m. MergeHeaders (JObj [(''a'', JBool True), (''b'', JNull)]) (JObj [(''a'', JBool False)]) = Inr (JObj m) \<and>
     omap_find m ''a'' = Some (JBool False) \<and> omap_find m ''b'' = Some JNull"
  using MergeHeaders_union [of "[(''a'', JBool False)]" "[(''a'', JBool True), (''b'', JNull)]"]
  by (auto simp: omap_inv_def map_add_def)

text \<open>
  C4: \<open>Send\<close> on an open bus records the reply handler under the fresh address, writes exactly one frame,
  and the JSON reader recovers from that frame the address, the body, the merged headers, the reply
  address and the type.
\<close>

theorem Send_on_the_wire:
  assumes "state b = kOpen" "rh_lock b = False"
    and "MergeHeaders (default_headers b) headers = Inr merged"
    and "writable message" "writable merged" "depth message < stackLimit" "depth merged < stackLimit"
  shows "\<exists>payload. 
     Send address message headers (Some h) fh uuid False b =
       (Returns True, b\<lparr>reply_handlers := omap_insert uuid \<lparr>reply_handler = h, failure_handler = fh\<rparr> (reply_handlers b),
          trace := trace b @ [Frame payload]\<rparr>) \<and>
     read_document payload = Some (JObj [(''address'', JString address), (''body'', normalised message),
        (''headers'', normalised merged), (''replyAddress'', JString uuid), (''type'', JString ''send'')])"
  using assms by (rule Send_frame)

lemma empty_bus: "state (VertxBus\<lparr>state := kOpen\<rparr>) = kOpen" "rh_lock (VertxBus\<lparr>state := kOpen\<rparr>) = False"
  "hm_lock (VertxBus\<lparr>state := kOpen\<rparr>) = False" "default_headers (VertxBus\<lparr>state := kOpen\<rparr>) = JNull"
  "reply_handlers (VertxBus\<lparr>state := kOpen\<rparr>) = []" "handlers_at a (VertxBus\<lparr>state := kOpen\<rparr>) = []"
  by (simp_all add: VertxBus_def handlers_at_def)

theorem Send_on_the_wire_witness:
  "\<exists>payload. fst (Send ''kvdnsvc'' (JString ''x'') JNull (Some (FnPtr 1)) None ''u'' False (VertxBus\<lparr>state := kOpen\<rparr>)) =
       Returns True \<and>
     read_document payload = Some (JObj [(''address'', JString ''kvdnsvc''), (''body'', JString ''x''),
        (''headers'', JNull), (''replyAddress'', JString ''u''), (''type'', JString ''send'')])"
proof -
  have "MergeHeaders (default_headers (VertxBus\<lparr>state := kOpen\<rparr>)) JNull = Inr JNull"
    by (simp add: empty_bus MergeHeaders_def isObject_def)
  from Send_on_the_wire [OF empty_bus(1,2) this, of "JString ''x''" "''kvdnsvc''" "FnPtr 1" None "''u''"]
  show ?thesis by (auto simp: stackLimit_def)
qed

text \<open>
  C3: a reply handler is called exactly once. When the reply addressed to the fresh address of a sent
  message arrives, the handler is called with the reply as the reader delivers it; when the same
  reply arrives again, nobody is called and the message is only logged.
\<close>

theorem reply_once:
  assumes "writable reply" "depth reply \<le> stackLimit" and v: "v = normalised reply"
    and v: "addressed_to v uuid" "replies_to v a" "is_err v = Inr False"
    and b: "hm_lock b = False" "rh_lock b = False" "handlers_at uuid b = []" "omap_inv (reply_handlers b)"
    and sent: "SendOrPub kind address message headers (Some h) fh uuid ec b = (Returns True, b1)"
  shows "\<exists>b2 b3 line.
     OnMessage (fast_write FastWriter reply) b1 = (Returns (), b2) \<and>
     trace b2 = trace b1 @ [Call_reply h v a] \<and>
     OnMessage (fast_write FastWriter reply) b2 = (Returns (), b3) \<and>
     trace b3 = trace b2 @ [Log line]"
proof -
  obtain t where b1: "b1 = b\<lparr>reply_handlers := omap_insert uuid \<lparr>reply_handler = h, failure_handler = fh\<rparr>
      (reply_handlers b), trace := t\<rparr>"
    using sent b(2) write_frame_trace [of ec "envelope kind address message headers (Some uuid) b"
        "b\<lparr>reply_handlers := omap_insert uuid \<lparr>reply_handler = h, failure_handler = fh\<rparr> (reply_handlers b)\<rparr>"]
    by (auto simp: SendOrPub_def Let_def split: if_splits)
  define b2 where "b2 = (set_handlers uuid [] b1)\<lparr>
     reply_handlers := omap_erase uuid (reply_handlers b1),
     trace := trace b1 @ [Call_reply h v a]\<rparr>"
  have "deliver v b1 = (Returns (), b2)"
    using deliver_to_reply_handler [OF v, of b1] b
    by (simp add: b1 b2_def om.find_insert)
  moreover obtain line where "deliver v b2 = (Returns (), (set_handlers uuid [] b2)\<lparr>trace := trace b2 @ [Log line]\<rparr>)"
    using deliver_to_nobody [OF v, of b2] b
    by (auto simp: b1 b2_def om.find_erase om.invar_insert)
  ultimately show ?thesis
    using OnMessage_written [OF assms(1,2)] by (auto simp: assms(3) b2_def)
qed

definition sample_reply :: json where
  "sample_reply = JObj [(''address'', JString ''u''), (''body'', JInt 3)]"

theorem reply_once_witness:
  "\<exists>b1 b2 b3 line.
     SendOrPub ''send'' ''kvdnsvc'' JNull JNull (Some (FnPtr 1)) None ''u'' False (VertxBus\<lparr>state := kOpen\<rparr>) = (Returns True, b1) \<and>
     OnMessage (fast_write FastWriter sample_reply) b1 = (Returns (), b2) \<and>
     trace b2 = trace b1 @ [Call_reply (FnPtr 1) sample_reply []] \<and>
     OnMessage (fast_write FastWriter sample_reply) b2 = (Returns (), b3) \<and>
     trace b3 = trace b2 @ [Log line]"
proof -
  define b1 where "b1 = snd (SendOrPub ''send'' ''kvdnsvc'' JNull JNull (Some (FnPtr 1)) None ''u'' False (VertxBus\<lparr>state := kOpen\<rparr>))"
  have "MergeHeaders (default_headers (VertxBus\<lparr>state := kOpen\<rparr>)) JNull = Inr JNull"
    by (simp add: empty_bus MergeHeaders_def isObject_def)
  then have sent: "SendOrPub ''send'' ''kvdnsvc'' JNull JNull (Some (FnPtr 1)) None ''u'' False (VertxBus\<lparr>state := kOpen\<rparr>) = (Returns True, b1)"
    using envelope_members(2) by (simp add: b1_def SendOrPub_def empty_bus write_frame_sends Let_def)
  have "writable sample_reply" "depth sample_reply \<le> stackLimit"
    by (simp_all add: sample_reply_def omap_inv_def stackLimit_def)
  moreover have n: "sample_reply = normalised sample_reply"
    by (simp add: sample_reply_def norm_int_def maxInt_def)
  moreover have "addressed_to sample_reply ''u''" "replies_to sample_reply []" "is_err sample_reply = Inr False"
    by (simp_all add: sample_reply_def addressed_to_def replies_to_def is_err_def object_ops value_simps
        is_empty_def Value_cstr_def c_str_def)
  ultimately show ?thesis
    using reply_once [OF _ _ n _ _ _ empty_bus(3,2) _ _ sent] sent by (fastforce simp: empty_bus)
qed

end
