(* ===== verification/Vertx_Bus_Machine.thy ===== *)
theory Vertx_Bus_Machine
  imports Vertx_Bus_Laws
begin

text \<open>
  The event bus as a state machine. A step is a call of one of the public operations, a callback of
  the websocket library (which reports open or failure on a pending connection, messages and closing
  on an established one), a turn of the ping thread or the end of the event loop. Operations are
  atomic, except \<open>Close\<close>, whose request and whose store of the new state are two steps. A handler that
  throws ends the process (\<open>crashed\<close>): nothing catches the exception in the event loop's thread.
\<close>

section \<open>The steps\<close>

datatype connection = Idle | Pending | Established

record world =
  the_bus :: bus
  connection :: connection
  close_accepted :: bool
  crashed :: bool

definition initial_world :: world where
  "initial_world = \<lparr>the_bus = VertxBus, connection = Idle, close_accepted = False, crashed = False\<rparr>"

datatype user_op =
    Op_Send string json json "callback option" "callback option" string bool
  | Op_Publish string json json bool
  | Op_Reply string json "callback option" "callback option" string bool
  | Op_Register string json "callback option" "callback option" bool
  | Op_Unregister string json "callback option" bool
  | Op_SetDefaultHeaders json

fun run_op :: "user_op \<Rightarrow> bus \<Rightarrow> bool outcome \<times> bus" where
  "run_op (Op_Send a m h rh fh uuid ec) b = Send a m h rh fh uuid ec b"
| "run_op (Op_Publish a m h ec) b = Publish a m h ec b"
| "run_op (Op_Reply a m rh fh uuid ec) b = Replier a m rh fh uuid ec b"
| "run_op (Op_Register a h rh fh ec) b = RegisterHandler a h rh fh ec b"
| "run_op (Op_Unregister a h rh ec) b = UnregisterHandler a h rh ec b"
| "run_op (Op_SetDefaultHeaders h) b = (Returns True, b\<lparr>default_headers := h\<rparr>)"

datatype label =
    L_op user_op "bool outcome"
  | L_connect string "callback option" "callback option" "callback option" VertxBusOptions bool
      "bool outcome"
  | L_open bool
  | L_fail
  | L_closed
  | L_message string "unit outcome"
  | L_ping bool
  | L_close_request
  | L_close_commit
  | L_loop_ends
  | L_wait_closed

inductive bus_step :: "world \<Rightarrow> label \<Rightarrow> world \<Rightarrow> bool" where
  step_op: "\<not> crashed w \<Longrightarrow> run_op op (the_bus w) = (r, b) \<Longrightarrow> r \<noteq> Blocks \<Longrightarrow>
    bus_step w (L_op op r) (w\<lparr>the_bus := b\<rparr>)"
| step_connect: "\<not> crashed w \<Longrightarrow> Connect u f g h opts ec (the_bus w) = (r, b) \<Longrightarrow> r \<noteq> Blocks \<Longrightarrow>
    bus_step w (L_connect u f g h opts ec r)
      (w\<lparr>the_bus := b, connection := (if r = Returns True then Pending else connection w)\<rparr>)"
| step_open: "\<not> crashed w \<Longrightarrow> connection w = Pending \<Longrightarrow>
    bus_step w (L_open ec) (w\<lparr>the_bus := OnOpen ec (the_bus w), connection := Established\<rparr>)"
| step_fail: "\<not> crashed w \<Longrightarrow> connection w = Pending \<Longrightarrow>
    bus_step w L_fail (w\<lparr>the_bus := OnFail (the_bus w), connection := Idle\<rparr>)"
| step_closed: "\<not> crashed w \<Longrightarrow> connection w = Established \<Longrightarrow>
    bus_step w L_closed (w\<lparr>the_bus := OnClose (the_bus w), connection := Idle\<rparr>)"
| step_message: "\<not> crashed w \<Longrightarrow> connection w = Established \<Longrightarrow>
    OnMessage payload (the_bus w) = (r, b) \<Longrightarrow> r \<noteq> Blocks \<Longrightarrow>
    bus_step w (L_message payload r) (w\<lparr>the_bus := b, crashed := (\<exists>e. r = Throws e)\<rparr>)"
| step_ping: "\<not> crashed w \<Longrightarrow> ping_thread (the_bus w) \<Longrightarrow>
    bus_step w (L_ping ec) (w\<lparr>the_bus := ping_timeout ec (the_bus w)\<rparr>)"
| step_close_request: "\<not> crashed w \<Longrightarrow> \<not> close_accepted w \<Longrightarrow> Close_request False (the_bus w) \<Longrightarrow>
    bus_step w L_close_request (w\<lparr>close_accepted := True\<rparr>)"
| step_close_commit: "\<not> crashed w \<Longrightarrow> close_accepted w \<Longrightarrow>
    bus_step w L_close_commit (w\<lparr>the_bus := Close_commit (the_bus w), close_accepted := False\<rparr>)"
| step_loop_ends: "\<not> crashed w \<Longrightarrow> connection w = Idle \<Longrightarrow> \<not> perpetual (the_bus w) \<Longrightarrow>
    bus_step w L_loop_ends (w\<lparr>the_bus := (the_bus w)\<lparr>io_running := False\<rparr>\<rparr>)"
| step_wait_closed: "\<not> crashed w \<Longrightarrow> WaitClosed (the_bus w) = (r, b) \<Longrightarrow> r \<noteq> Blocks \<Longrightarrow>
    bus_step w L_wait_closed (w\<lparr>the_bus := b\<rparr>)"

definition lifecycle :: "connection \<Rightarrow> bus \<Rightarrow> bool" where
  "lifecycle c b \<longleftrightarrow>
     (c = Established \<longrightarrow> state b \<in> {kOpen, kClosing}) \<and>
     (c = Pending \<longrightarrow> state b \<in> {kConnecting, kClosing}) \<and>
     (c = Idle \<longrightarrow> state b \<noteq> kOpen) \<and>
     (do_ping b \<longleftrightarrow> c = Established) \<and> (ping_thread b \<longleftrightarrow> c = Established) \<and>
     (c \<noteq> Idle \<longrightarrow> io_running b \<and> perpetual b) \<and>
     (io_running b \<longrightarrow> asio_thread b = Some Joinable)"

definition registries :: "connection \<Rightarrow> bus \<Rightarrow> bool" where
  "registries c b \<longleftrightarrow> omap_inv (reply_handlers b) \<and> omap_inv (handler_map b) \<and>
     (c \<noteq> Established \<longrightarrow> reply_handlers b = [] \<and> handler_map b = [])"

definition unlocked :: "bus \<Rightarrow> bool" where
  "unlocked b \<longleftrightarrow> \<not> hm_lock b \<and> \<not> rh_lock b"

definition bus_inv :: "world \<Rightarrow> bool" where
  "bus_inv w \<longleftrightarrow> lifecycle (connection w) (the_bus w) \<and> registries (connection w) (the_bus w) \<and>
     (\<not> crashed w \<longrightarrow> unlocked (the_bus w))"

text \<open>What an operation leaves alone.\<close>

definition same_core :: "bus \<Rightarrow> bus \<Rightarrow> bool" where
  "same_core b c \<longleftrightarrow> asio_thread c = asio_thread b \<and> ping_thread c = ping_thread b \<and> state c = state b \<and>
     do_ping c = do_ping b \<and> perpetual c = perpetual b \<and> io_running c = io_running b \<and>
     rh_lock c = rh_lock b"

lemma same_core_lifecycle: "same_core b c \<Longrightarrow> lifecycle x b \<Longrightarrow> lifecycle x c"
  by (auto simp: same_core_def lifecycle_def)

lemma same_core_trans [trans]: "same_core a b \<Longrightarrow> same_core b c \<Longrightarrow> same_core a c"
  by (auto simp: same_core_def)

definition op_effect :: "bus \<Rightarrow> bus \<Rightarrow> bool" where
  "op_effect b c \<longleftrightarrow> same_core b c \<and> hm_lock c = hm_lock b \<and>
     (omap_inv (reply_handlers b) \<longrightarrow> omap_inv (reply_handlers c)) \<and>
     (omap_inv (handler_map b) \<longrightarrow> omap_inv (handler_map c)) \<and>
     (state b \<noteq> kOpen \<longrightarrow> reply_handlers c = reply_handlers b \<and> handler_map c = handler_map b)"

lemma op_effect_refl: "op_effect b b"
  by (auto simp: op_effect_def same_core_def)

lemma op_effect_trace: "op_effect b c \<Longrightarrow> op_effect b (c\<lparr>trace := t\<rparr>)"
  by (simp add: op_effect_def same_core_def)

lemma op_effect_write: "op_effect b c \<Longrightarrow> op_effect b (snd (write_frame ec f c))"
  using write_frame_trace [of ec f c] by (auto intro: op_effect_trace)

lemma op_effect_updates:
  "state b = kOpen \<Longrightarrow> op_effect b (b\<lparr>reply_handlers := omap_insert k x (reply_handlers b)\<rparr>)"
  "state b = kOpen \<Longrightarrow> op_effect b (set_handlers a l b)"
  "op_effect b (b\<lparr>default_headers := h\<rparr>)"
  by (simp_all add: op_effect_def same_core_def om.invar_insert set_handlers_def)

lemmas op_effects = op_effect_refl op_effect_write op_effect_updates

lemma SendOrPub_effect: "op_effect b (snd (SendOrPub k a m h rh fh uuid ec b))"
  by (auto simp: SendOrPub_def Let_def op_effects split: option.split)

lemma run_op_effect: "run_op op b = (r, c) \<Longrightarrow> op_effect b c"
proof -
  have "op_effect b (snd (run_op op b))"
    by (cases op) (auto simp: Send_def Publish_def Replier_def SendOrPub_effect RegisterHandler_def
        UnregisterHandler_def Let_def op_effects split: option.split)
  then show "run_op op b = (r, c) \<Longrightarrow> op_effect b c" by simp
qed

lemma op_effect_registries:
  "op_effect b c \<Longrightarrow> registries x b \<Longrightarrow> lifecycle x b \<Longrightarrow> registries x c"
  by (cases x) (auto simp: op_effect_def registries_def lifecycle_def)

lemma call_handlers_effect: "\<exists>t. snd (call_handlers v ra hs b) = b\<lparr>trace := t\<rparr>"
proof (induction v ra hs b rule: call_handlers.induct)
  case (1 v ra b)
  show ?case by (rule exI [of _ "trace b"]) simp
next
  case (2 v ra h hs b)
  show ?case
  proof (cases "handler_call v ra h")
    case (Inl e)
    then show ?thesis by (intro exI [of _ "trace b"]) simp
  next
    case (Inr events)
    with "2.IH" [OF Inr] show ?thesis by simp
  qed
qed

text \<open>What a message does, unless it throws.\<close>

definition message_effect :: "bus \<Rightarrow> bus \<Rightarrow> bool" where
  "message_effect b c \<longleftrightarrow> same_core b c \<and>
     (omap_inv (reply_handlers b) \<longrightarrow> omap_inv (reply_handlers c)) \<and>
     (omap_inv (handler_map b) \<longrightarrow> omap_inv (handler_map c))"

lemma message_effect_trace: "message_effect b c \<Longrightarrow> message_effect b (c\<lparr>trace := t\<rparr>)"
  by (simp add: message_effect_def same_core_def)

lemma message_effect_updates:
  "message_effect b b" "message_effect b (set_handlers a l b)" "message_effect b (b\<lparr>hm_lock := True\<rparr>)"
  "message_effect b c \<Longrightarrow> message_effect b (c\<lparr>reply_handlers := omap_erase k (reply_handlers c)\<rparr>)"
  by (simp_all add: message_effect_def same_core_def om.invar_insert om.invar_erase set_handlers_def)

lemma message_effect_calls: "message_effect b c \<Longrightarrow> message_effect b (snd (call_handlers v ra hs c))"
  using call_handlers_effect [of v ra hs c] by (auto intro: message_effect_trace)

lemma deliver_reply_effect: "message_effect b c \<Longrightarrow> message_effect b (snd (deliver_reply v ra a c))"
  by (auto simp: deliver_reply_def emit_def call_if_def message_effect_calls message_effect_updates
      simp del: call_handlers.simps
      split: option.split sum.split bool.split intro: message_effect_trace)

lemma OnMessage_effect: "message_effect b (snd (OnMessage payload b))"
  by (auto simp: OnMessage_def deliver_def Let_def message_effect_updates
      message_effect_calls deliver_reply_effect simp del: call_handlers.simps
      split: option.split sum.split prod.split)

text \<open>A mutex stays locked only when the message throws.\<close>

lemma call_handlers_lock: "hm_lock (snd (call_handlers v ra hs b)) = hm_lock b"
  using call_handlers_effect [of v ra hs b] by auto

lemma deliver_reply_lock: "hm_lock (snd (deliver_reply v ra a b)) = hm_lock b"
  by (auto simp: deliver_reply_def emit_def call_if_def call_handlers_lock simp del: call_handlers.simps
      split: option.split sum.split bool.split)

lemma OnMessage_lock:
  "OnMessage payload b = (Returns (), c) \<Longrightarrow> hm_lock b = False \<Longrightarrow> hm_lock c = False"
  using call_handlers_lock deliver_reply_lock
  by (auto simp: OnMessage_def deliver_def Let_def simp del: call_handlers.simps
      split: option.splits sum.splits prod.splits if_splits) (metis snd_conv set_handlers_simps(2))+

text \<open>How \<open>Connect\<close> ends, when it does.\<close>

lemma join_asio_cases:
  "join_asio b = (Returns (), b) \<or> (\<exists>e. join_asio b = (Throws e, b)) \<or> join_asio b = (Blocks, b) \<or>
   io_running b = False \<and> join_asio b = (Returns (), b\<lparr>asio_thread := Some Joined\<rparr>)"
  by (cases "asio_thread b") (auto simp: join_asio_def split: thread.split)

definition same_rest :: "bus \<Rightarrow> bus \<Rightarrow> bool" where
  "same_rest b c \<longleftrightarrow> ping_thread c = ping_thread b \<and> do_ping c = do_ping b \<and>
     reply_handlers c = reply_handlers b \<and> handler_map c = handler_map b \<and>
     rh_lock c = rh_lock b \<and> hm_lock c = hm_lock b"

lemma Connect_cases:
  assumes "Connect u f g h opts ec b = (r, c)" "r \<noteq> Blocks"
  shows "same_rest b c \<and> (
    r \<noteq> Returns True \<and> same_core b c \<or>
    state b = kClosed \<and> state c = kConnecting \<and>
      (r = Returns True \<and> perpetual c \<and> io_running c \<and> asio_thread c = Some Joinable \<or>
       r = Returns False \<and> perpetual c = perpetual b \<and> io_running c = io_running b \<and>
         (io_running b \<longrightarrow> asio_thread c = asio_thread b)))"
proof (cases "state b = kClosed")
  case True
  from join_asio_cases [of b] show ?thesis
  proof (elim disjE exE conjE)
    fix e
    assume "join_asio b = (Throws e, b)"
    with assms True have "r = Throws e" "c = b" by (simp_all add: Connect_def)
    then show ?thesis by (simp add: same_rest_def same_core_def)
  qed (cases ec; use assms True in \<open>auto simp: Connect_def emit_def Let_def same_rest_def\<close>)+
next
  case False
  with assms have "r = Returns False" "c = emit (Log ''Connection Error: not in CLOSE state'') b"
    by (simp_all add: Connect_def)
  then show ?thesis by (simp add: emit_def same_rest_def same_core_def)
qed

subsection \<open>The invariant\<close>

lemma OnMessage_registries:
  "message_effect b c \<Longrightarrow> registries Established b \<Longrightarrow> registries Established c"
  by (auto simp: message_effect_def registries_def)

lemma bus_step_inv: "bus_step w l w' \<Longrightarrow> bus_inv w \<Longrightarrow> bus_inv w'"
proof (induction rule: bus_step.induct)
  case (step_op w op r b)
  then have "op_effect (the_bus w) b" by (simp add: run_op_effect)
  with step_op show ?case
    using op_effect_registries [of "the_bus w" b "connection w"] same_core_lifecycle [of "the_bus w" b]
    by (auto simp: bus_inv_def op_effect_def unlocked_def same_core_def)
next
  case (step_message w payload r b)
  then have e: "message_effect (the_bus w) b" using OnMessage_effect [of "the_bus w" payload] by simp
  have "\<not> hm_lock b" if "\<not> (\<exists>e. r = Throws e)"
    using step_message that OnMessage_lock [of payload "the_bus w" b]
    by (cases r) (auto simp: bus_inv_def unlocked_def)
  with e step_message show ?case
    using OnMessage_registries [OF e] same_core_lifecycle [of "the_bus w" b Established]
    by (auto simp: bus_inv_def message_effect_def unlocked_def same_core_def)
next
  case (step_connect w u f g h opts ec r b)
  from Connect_cases [OF step_connect(2,3)] step_connect(1,4) show ?case
    by (elim disjE conjE) (simp_all add: bus_inv_def lifecycle_def registries_def unlocked_def
      same_core_def same_rest_def)
next
  case (step_open w ec)
  then show ?case
    by (auto simp: bus_inv_def bus_simps Let_def lifecycle_def registries_def unlocked_def split: option.splits)
next
  case (step_fail w)
  then show ?case
    by (auto simp: bus_inv_def bus_simps Let_def lifecycle_def registries_def unlocked_def split: option.splits)
next
  case (step_closed w)
  then show ?case
    by (auto simp: bus_inv_def bus_simps Let_def lifecycle_def registries_def unlocked_def split: option.splits)
next
  case (step_ping w ec)
  then show ?case
    by (auto simp: bus_inv_def bus_simps Let_def lifecycle_def registries_def unlocked_def split: option.splits)
next
  case (step_close_request w)
  then show ?case by (auto simp: bus_inv_def)
next
  case (step_close_commit w)
  then show ?case by (auto simp: bus_inv_def bus_simps lifecycle_def registries_def unlocked_def)
next
  case (step_loop_ends w)
  then show ?case by (auto simp: bus_inv_def lifecycle_def registries_def unlocked_def)
next
  case (step_wait_closed w r b)
  then show ?case
    by (auto simp: bus_inv_def bus_simps lifecycle_def registries_def unlocked_def 
      split: option.splits thread.splits if_splits)
qed

interpretation machine: invariant_machine bus_step "\<lambda>w. w = initial_world" bus_inv
proof
  fix w
  assume "w = initial_world"
  then show "bus_inv w"
    by (simp add: initial_world_def bus_inv_def lifecycle_def registries_def unlocked_def VertxBus_def)
qed (rule bus_step_inv)

subsection \<open>Nothing blocks\<close>

lemma write_frame_not_Blocks: "fst (write_frame ec f b) \<noteq> Blocks"
  by (cases f) (auto simp: write_frame_def client_send_def)

lemma run_op_not_Blocks: "unlocked b \<Longrightarrow> fst (run_op op b) \<noteq> Blocks"
  by (cases op) (auto simp: Send_def Publish_def Replier_def SendOrPub_def RegisterHandler_def
      UnregisterHandler_def Let_def unlocked_def write_frame_not_Blocks split: option.split)

lemma call_handlers_not_Blocks: "fst (call_handlers v ra hs b) \<noteq> Blocks"
  by (induction v ra hs b rule: call_handlers.induct) (auto split: sum.split)

lemma OnMessage_not_Blocks: "unlocked b \<Longrightarrow> fst (OnMessage payload b) \<noteq> Blocks"
proof -
  assume u: "unlocked b"
  have "fst (deliver_reply v ra a (set_handlers a l b)) \<noteq> Blocks" for v ra a l
    using u call_handlers_not_Blocks
    by (auto simp: deliver_reply_def unlocked_def simp del: call_handlers.simps
      split: option.split sum.split bool.split)
  then have "fst (deliver v b) \<noteq> Blocks" for v
    using u call_handlers_not_Blocks
    by (auto simp: deliver_def unlocked_def Let_def simp del: call_handlers.simps split: sum.split)
  then show ?thesis
    using parse_returns [of Features payload JNull]
    by (auto simp: OnMessage_def split: option.split sum.split)
qed

lemmas reachable_bus = machine.reachable_inv [OF refl]

section \<open>Properties\<close>


text \<open>A connection opened, used and closed by the peer.\<close>

definition opened_bus :: bus where
  "opened_bus = OnOpen False (snd (Connect ''ws://h'' None None None DefaultVertxBusOptions False VertxBus))"

definition opened_world :: world where
  "opened_world = \<lparr>the_bus = opened_bus, connection = Established, close_accepted = False, crashed = False\<rparr>"

lemma opened_run:
  "runs bus_step initial_world
     [L_connect ''ws://h'' None None None DefaultVertxBusOptions False (Returns True), L_open False] opened_world"
proof -
  define b1 where "b1 = snd (Connect ''ws://h'' None None None DefaultVertxBusOptions False VertxBus)"
  have c: "Connect ''ws://h'' None None None DefaultVertxBusOptions False VertxBus = (Returns True, b1)"
    by (simp add: b1_def Connect_def join_asio_def VertxBus_def)
  have "bus_step initial_world (L_connect ''ws://h'' None None None DefaultVertxBusOptions False (Returns True))
      (initial_world\<lparr>the_bus := b1, connection := Pending\<rparr>)"
    using step_connect [of initial_world "''ws://h''" None None None DefaultVertxBusOptions False "Returns True" b1] c
    by (simp add: initial_world_def)
  moreover have "bus_step (initial_world\<lparr>the_bus := b1, connection := Pending\<rparr>) (L_open False) opened_world"
    using step_open [of "initial_world\<lparr>the_bus := b1, connection := Pending\<rparr>" False]
    by (simp add: initial_world_def opened_world_def opened_bus_def b1_def)
  ultimately show ?thesis by (auto intro: runs.intros)
qed




text \<open>
  The ping that \<open>OnOpen\<close> sends before it starts the ping interval never leaves: \<open>SendPing\<close> refuses
  because the state becomes open only after it. All \<open>OnOpen\<close> does to the outside is the open callback.
\<close>

theorem OnOpen_sends_no_ping:
  assumes "runs bus_step initial_world es w" "bus_step w (L_open ec) w'"
  shows "trace (the_bus w') = trace (the_bus w) @
    (case on_open (the_bus w) of None \<Rightarrow> [] | Some f \<Rightarrow> [Call_open f])"
proof -
  have "state (the_bus w) \<noteq> kOpen" and w': "the_bus w' = OnOpen ec (the_bus w)"
    using reachable_bus [OF assms(1)] assms(2)
    by (auto simp: bus_inv_def lifecycle_def elim: bus_step.cases)
  then show ?thesis
    by (auto simp: bus_simps Let_def split: option.split)
qed

theorem OnOpen_sends_no_ping_witness:
  "trace opened_bus = []"
proof -
  define b1 where "b1 = snd (Connect ''ws://h'' None None None DefaultVertxBusOptions False VertxBus)"
  have c: "Connect ''ws://h'' None None None DefaultVertxBusOptions False VertxBus = (Returns True, b1)"
    by (simp add: b1_def Connect_def join_asio_def VertxBus_def)
  define w1 where "w1 = initial_world\<lparr>the_bus := b1, connection := Pending\<rparr>"
  have "bus_step initial_world (L_connect ''ws://h'' None None None DefaultVertxBusOptions False (Returns True)) w1"
    using step_connect [of initial_world "''ws://h''" None None None DefaultVertxBusOptions False "Returns True" b1] c
    by (simp add: initial_world_def w1_def)
  then have "runs bus_step initial_world
      [L_connect ''ws://h'' None None None DefaultVertxBusOptions False (Returns True)] w1"
    by (auto intro: runs.intros)
  moreover have "bus_step w1 (L_open False) opened_world"
    using step_open [of w1 False]
    by (simp add: initial_world_def opened_world_def opened_bus_def b1_def w1_def)
  ultimately show ?thesis using OnOpen_sends_no_ping
    by (fastforce simp: opened_world_def w1_def b1_def Connect_def join_asio_def VertxBus_def)
qed

subsection \<open>States that can not be left\<close>

definition stuck :: "VertxBusState \<Rightarrow> world \<Rightarrow> bool" where
  "stuck s w \<longleftrightarrow> state (the_bus w) = s \<and> s \<noteq> kOpen \<and> s \<noteq> kClosed \<and> connection w = Idle \<and>
     \<not> close_accepted w \<and> \<not> ping_thread (the_bus w)"

lemma stuck_step: "bus_step w l w' \<Longrightarrow> stuck s w \<Longrightarrow> stuck s w'"
proof (induction rule: bus_step.induct)
  case (step_op w op r b)
  then show ?case using run_op_effect [of op "the_bus w" r b]
    by (auto simp: stuck_def op_effect_def same_core_def)
next
  case (step_connect w u f g h opts ec r b)
  then have "b = emit (Log ''Connection Error: not in CLOSE state'') (the_bus w)" "r = Returns False"
    by (auto simp: stuck_def Connect_def)
  with step_connect show ?case by (auto simp: stuck_def emit_def)
next
  case (step_wait_closed w r b)
  then show ?case
    by (auto simp: stuck_def bus_simps split: option.splits thread.splits if_splits)
qed (auto simp: stuck_def Close_request_def)

interpretation stuck_bus: invariant_machine bus_step "stuck s" "stuck s" for s
  by unfold_locales (auto intro: stuck_step)

lemma stuck_refuses:
  "stuck s w \<Longrightarrow> fst (Connect u f g h opts ec (the_bus w)) = Returns False"
  by (auto simp: stuck_def Connect_def)

lemma rejected_connect_stays:
  assumes "runs bus_step initial_world es w" "state (the_bus w) = kClosed" "\<not> close_accepted w"
    and "bus_step w (L_connect u f g h opts True (Returns False)) w1"
    and "runs bus_step w1 fs w2"
  shows "state (the_bus w2) = kConnecting \<and>
    fst (Connect u' f' g' h' opts' ec' (the_bus w2)) = Returns False"
proof -
  have inv: "lifecycle (connection w) (the_bus w)" 
    using reachable_bus [OF assms(1)] by (simp add: bus_inv_def)
  then have idle: "connection w = Idle" using assms(2) by (cases "connection w") (auto simp: lifecycle_def)
  obtain b where b: "Connect u f g h opts True (the_bus w) = (Returns False, b)" "w1 = w\<lparr>the_bus := b\<rparr>"
    using assms(4) by (auto elim: bus_step.cases)
  have "state b = kConnecting"
    using b(1) assms(2) by (auto simp: Connect_def emit_def Let_def split: prod.splits outcome.splits)
  moreover have "ping_thread b = ping_thread (the_bus w)"
    using Connect_cases [OF b(1)] by (simp add: same_rest_def)
  ultimately have "stuck kConnecting w1"
    using idle inv assms(3) by (simp add: stuck_def b(2) lifecycle_def)
  then have "stuck kConnecting w2" using stuck_bus.reachable_inv assms(5) by blast
  then show ?thesis using stuck_refuses by (simp add: stuck_def)
qed

text \<open>
  When the library rejects the URL, \<open>Connect\<close> returns false but leaves the state at \<open>kConnecting\<close>, and
  from then on no sequence of events brings the bus back: every later \<open>Connect\<close>, with any URL, is
  refused for ever.
\<close>

theorem rejected_connect_is_final:
  assumes "runs bus_step initial_world es w" "state (the_bus w) = kClosed" "\<not> close_accepted w"
    and "bus_step w (L_connect u f g h opts True (Returns False)) w1"
    and "runs bus_step w1 fs w2"
  shows "state (the_bus w2) = kConnecting \<and>
    fst (Connect u' f' g' h' opts' ec' (the_bus w2)) = Returns False"
  by (rule rejected_connect_stays [OF assms])

theorem rejected_connect_is_final_witness:
  "fst (Connect ''ws://good'' None None None DefaultVertxBusOptions False
     (snd (Connect ''bad'' None None None DefaultVertxBusOptions True VertxBus))) = Returns False"
proof -
  define b where "b = snd (Connect ''bad'' None None None DefaultVertxBusOptions True VertxBus)"
  have c: "Connect ''bad'' None None None DefaultVertxBusOptions True VertxBus = (Returns False, b)"
    by (simp add: b_def Connect_def join_asio_def VertxBus_def emit_def)
  define w1 where "w1 = initial_world\<lparr>the_bus := b\<rparr>"
  have "bus_step initial_world (L_connect ''bad'' None None None DefaultVertxBusOptions True (Returns False)) w1"
    using step_connect [of initial_world "''bad''" None None None DefaultVertxBusOptions True "Returns False" b] c
    by (simp add: initial_world_def w1_def)
  from rejected_connect_is_final [OF runs_Nil _ _ this runs_Nil]
  show ?thesis by (simp add: initial_world_def VertxBus_def w1_def b_def)
qed

text \<open>
  C23: \<open>Close\<close> is not atomic. When the peer's closing handshake completes between its request to the
  library and its store of \<open>kClosing\<close>, the bus ends up closed but in state \<open>kClosing\<close>, where no later
  event brings it back and every \<open>Connect\<close> is refused.
\<close>

theorem close_race:
  "\<exists>es w. runs bus_step initial_world es w \<and> connection w = Idle \<and> state (the_bus w) = kClosing \<and>
     (\<forall>fs w' u f g h opts ec. runs bus_step w fs w' \<longrightarrow>
        fst (Connect u f g h opts ec (the_bus w')) = Returns False)"
proof -
  define w1 where "w1 = opened_world\<lparr>close_accepted := True\<rparr>"
  define w2 where "w2 = w1\<lparr>the_bus := OnClose opened_bus, connection := Idle\<rparr>"
  define w3 where "w3 = w2\<lparr>the_bus := Close_commit (OnClose opened_bus), close_accepted := False\<rparr>"
  have o: "state opened_bus = kOpen" "\<not> ping_thread (OnClose opened_bus)"
    by (simp_all add: opened_bus_def bus_simps VertxBus_def Let_def)
  have "bus_step opened_world L_close_request w1"
    using step_close_request [of opened_world] o by (simp add: opened_world_def w1_def Close_request_def)
  moreover have "bus_step w1 L_closed w2"
    using step_closed [of w1] by (simp add: w1_def w2_def opened_world_def)
  moreover have "bus_step w2 L_close_commit w3"
    using step_close_commit [of w2] by (simp add: w1_def w2_def w3_def opened_world_def)
  ultimately have "runs bus_step opened_world [L_close_request, L_closed, L_close_commit] w3"
    by (auto intro: runs.intros)
  with opened_run have r: "\<exists>es. runs bus_step initial_world es w3" using runs_append by metis
  have "stuck kClosing w3" using o by (simp add: stuck_def w3_def w2_def w1_def Close_commit_def)
  then have "\<forall>fs w' u f g h opts ec. runs bus_step w3 fs w' \<longrightarrow>
      fst (Connect u f g h opts ec (the_bus w')) = Returns False"
    using stuck_bus.reachable_inv stuck_refuses by blast
  moreover have "connection w3 = Idle" "state (the_bus w3) = kClosing"
    by (simp_all add: w3_def w2_def Close_commit_def)
  ultimately show ?thesis using r by blast
qed

theorem close_race_witness:
  "\<exists>es w. runs bus_step initial_world es w \<and> state (the_bus w) = kClosing \<and>
     fst (Connect ''ws://h'' None None None DefaultVertxBusOptions False (the_bus w)) = Returns False"
proof -
  obtain es w where w: "runs bus_step initial_world es w" "state (the_bus w) = kClosing"
    and r: "\<forall>fs w' u f g h opts ec. runs bus_step w fs w' \<longrightarrow>
        fst (Connect u f g h opts ec (the_bus w')) = Returns False"
    using close_race by blast
  have "runs bus_step w [] w" by (rule runs_Nil)
  with r w show ?thesis by blast
qed

text \<open>
  A JSON document that is neither an object nor null makes \<open>OnMessage\<close> throw: any peer can send one,
  and nothing between the event loop and \<open>OnMessage\<close> catches the exception.
\<close>

theorem non_object_message_throws:
  assumes "writable v" "depth v \<le> stackLimit" "\<not> isObject v" "\<not> isNull v"
  shows "\<exists>msg. OnMessage (fast_write FastWriter v) b = (Throws (LogicError msg), b)"
proof -
  have "\<not> isObject (normalised v)" "\<not> isNull (normalised v)"
    using assms(3,4) by (cases v; simp add: value_simps norm_int_def norm_uint_def)+
  then have "\<exists>msg. get (normalised v) ''replyAddress'' JNull = Inl (LogicError msg)"
    by (cases "normalised v") (auto simp: get_def value_simps)
  then show ?thesis by (auto simp: OnMessage_written [OF assms(1,2)] deliver_def)
qed

theorem non_object_message_throws_witness:
  "\<exists>msg. OnMessage (fast_write FastWriter (JArr [])) VertxBus = (Throws (LogicError msg), VertxBus)"
  using non_object_message_throws [of "JArr []" VertxBus] by (simp add: stackLimit_def value_simps)

text \<open>
  A message whose address is an array or an object makes \<open>OnMessage\<close> throw with the mutex of the
  handler map locked, and every later registration blocks for ever.
\<close>

theorem bad_address_keeps_lock:
  assumes "writable v" "depth v \<le> stackLimit" "hm_lock b = False" "state b = kOpen"
    and "normalised v = JObj m" "omap_find m ''address'' = Some x" "isArray x \<or> isObject x"
  shows "\<exists>e b'. OnMessage (fast_write FastWriter v) b = (Throws e, b') \<and>
    fst (RegisterHandler a h (Some cb) fh ec b') = Blocks"
proof -
  obtain e where "asString x = Inl e" using assms(7) by (cases x) (auto simp: value_simps)
  then have "deliver (JObj m) b = (Throws e, b\<lparr>hm_lock := True\<rparr>)"
    using assms(3,6) by (auto simp: deliver_def object_ops Let_def)
  then show ?thesis using assms(4,5) by (simp add: OnMessage_written [OF assms(1,2)] RegisterHandler_def)
qed

theorem bad_address_keeps_lock_witness:
  "\<exists>e b'. OnMessage (fast_write FastWriter (JObj [(''address'', JArr [])])) opened_bus = (Throws e, b') \<and>
    fst (RegisterHandler ''a'' JNull (Some (FnPtr 1)) None False b') = Blocks"
proof -
  have "state opened_bus = kOpen" "hm_lock opened_bus = False"
    by (simp_all add: opened_bus_def bus_simps VertxBus_def Let_def)
  then show ?thesis
    using bad_address_keeps_lock [of "JObj [(''address'', JArr [])]" opened_bus "[(''address'', JArr [])]" "JArr []"]
    by (simp add: omap_inv_def stackLimit_def value_simps)
qed

text \<open>
  Every message to an address nobody listens on leaves an entry in the handler map that only the
  closing of the connection removes: the map grows with each new address.
\<close>

theorem unknown_address_leaks:
  assumes "addressed_to v addr" "replies_to v a" "is_err v = Inr False"
    and "hm_lock b = False" "rh_lock b = False"
    and "omap_find (handler_map b) addr = None" "omap_find (reply_handlers b) addr = None"
  shows "\<exists>b'. deliver v b = (Returns (), b') \<and> omap_find (handler_map b') = (omap_find (handler_map b))(addr \<mapsto> [])"
proof -
  have h: "handlers_at addr b = []" using assms(6) by (simp add: handlers_at_def)
  then obtain line where "deliver v b = (Returns (), (set_handlers addr [] b)\<lparr>trace := trace b @ [Log line]\<rparr>)"
    using deliver_to_nobody [OF assms(1-5) h assms(7)] by blast
  then show ?thesis by (simp add: set_handlers_def omap_find_insert)
qed

theorem unknown_address_leaks_witness:
  "\<exists>b'. deliver (JObj [(''address'', JString ''x'')]) VertxBus = (Returns (), b') \<and>
     omap_find (handler_map b') ''x'' = Some []"
proof -
  have "addressed_to (JObj [(''address'', JString ''x'')]) ''x''" "replies_to (JObj [(''address'', JString ''x'')]) []"
    "is_err (JObj [(''address'', JString ''x'')]) = Inr False"
    by (simp_all add: addressed_to_def replies_to_def is_err_def object_ops value_simps is_empty_def
        Value_cstr_def c_str_def)
  from unknown_address_leaks [OF this, of VertxBus] show ?thesis by (auto simp: VertxBus_def)
qed

end
