(* ===== verification/Kvdn_Client.thy ===== *)
theory Kvdn_Client
  imports Vertx_Bus_Machine
begin

text \<open>
  The KVDN client (Client/cpp/KvdnClient.hpp and KvdnClient.cpp): every operation builds the headers
  and the body of a request as a JSON value, prints it in styled form on the standard output, and
  sends it on the event bus to the service address. \<open>eb\<close> is the bus behind the client's pointer.
  Ownership (the destructor deletes the bus) is not modelled.
\<close>

section \<open>Operations\<close>

text \<open>What an operation prints and what it makes of the bus.\<close>

type_synonym kvdn = "(exn + string) \<times> bus"

definition kvdnOP :: "json \<Rightarrow> callback option \<Rightarrow> string \<Rightarrow> bool \<Rightarrow> bus \<Rightarrow> kvdn" where
  "kvdnOP opdata handler uuid ec eb =
     (case and_then (member opdata ''jval'') (\<lambda>jval.
             and_then (member opdata ''hdrs'') (\<lambda>hdrs. Inr (jval, hdrs))) of
        Inl e \<Rightarrow> (Inl e, eb)
      | Inr (jval, hdrs) \<Rightarrow>
          (Inr (''issuing kvdn operation'' @ toStyledString opdata),
           snd (Send ''kvdnsvc'' jval hdrs handler None uuid ec eb)))"

text \<open>The part the operations share: \<open>members\<close> are the members of the body before the options.\<close>

definition request :: "string \<Rightarrow> (string \<times> string) list \<Rightarrow> string \<Rightarrow> exn + json" where
  "request action members options_arg =
     and_then (assign_members [(''action'', Value_cstr action)] JNull) (\<lambda>hdrs.
     and_then (assign_members (map (\<lambda>(name, x). (name, JString x)) members @
       [(''options'', JString options_arg)]) JNull) (\<lambda>jval.
     and_then (assign_members [(''NOT'', Value_cstr ''EMPTY'')] JNull) (\<lambda>opts.
     and_then (set_member jval ''options'' opts) (\<lambda>jval'.
       assign_members [(''hdrs'', hdrs), (''jval'', jval')] JNull))))"

definition issue :: "exn + json \<Rightarrow> callback option \<Rightarrow> string \<Rightarrow> bool \<Rightarrow> bus \<Rightarrow> kvdn" where
  "issue opdata handler uuid ec eb =
     (case opdata of Inl e \<Rightarrow> (Inl e, eb) | Inr v \<Rightarrow> kvdnOP v handler uuid ec eb)"

definition kvdn_set :: "string \<Rightarrow> string \<Rightarrow> string \<Rightarrow> string \<Rightarrow> callback option \<Rightarrow> string \<Rightarrow> bool \<Rightarrow>
    bus \<Rightarrow> kvdn" where
  "kvdn_set straddr key v options_arg =
     issue (request ''set'' [(''straddr'', straddr), (''key'', key), (''value'', v)] options_arg)"

definition kvdn_get :: "string \<Rightarrow> string \<Rightarrow> string \<Rightarrow> callback option \<Rightarrow> string \<Rightarrow> bool \<Rightarrow>
    bus \<Rightarrow> kvdn" where
  "kvdn_get straddr key options_arg =
     issue (request ''get'' [(''straddr'', straddr), (''key'', key)] options_arg)"

definition kvdn_submit :: "string \<Rightarrow> string \<Rightarrow> string \<Rightarrow> callback option \<Rightarrow> string \<Rightarrow> bool \<Rightarrow>
    bus \<Rightarrow> kvdn" where
  "kvdn_submit straddr v options_arg =
     issue (request ''submit'' [(''straddr'', straddr), (''value'', v)] options_arg)"

definition kvdn_getKeys :: "string \<Rightarrow> string \<Rightarrow> callback option \<Rightarrow> string \<Rightarrow> bool \<Rightarrow> bus \<Rightarrow> kvdn" where
  "kvdn_getKeys straddr options_arg = issue (request ''getKeys'' [(''straddr'', straddr)] options_arg)"

definition kvdn_del :: "string \<Rightarrow> string \<Rightarrow> string \<Rightarrow> callback option \<Rightarrow> string \<Rightarrow> bool \<Rightarrow>
    bus \<Rightarrow> kvdn" where
  "kvdn_del straddr key options_arg =
     issue (request ''del'' [(''straddr'', straddr), (''key'', key)] options_arg)"

definition kvdn_query :: "string \<Rightarrow> string \<Rightarrow> string \<Rightarrow> callback option \<Rightarrow> string \<Rightarrow> bool \<Rightarrow>
    bus \<Rightarrow> kvdn" where
  "kvdn_query straddr query_arg options_arg =
     issue (request ''query'' [(''straddr'', straddr), (''query'', query_arg)] options_arg)"

definition kvdn_size :: "string \<Rightarrow> string \<Rightarrow> callback option \<Rightarrow> string \<Rightarrow> bool \<Rightarrow> bus \<Rightarrow> kvdn" where
  "kvdn_size straddr options_arg = issue (request ''size'' [(''straddr'', straddr)] options_arg)"

section \<open>Lemmas\<close>

definition not_empty :: json where
  "not_empty = JObj [(''NOT'', JString ''EMPTY'')]"

lemma c_str_literals:
  "c_str ''EMPTY'' = ''EMPTY''" "c_str ''set'' = ''set''" "c_str ''get'' = ''get''"
  "c_str ''submit'' = ''submit''" "c_str ''getKeys'' = ''getKeys''" "c_str ''del'' = ''del''"
  "c_str ''query'' = ''query''" "c_str ''size'' = ''size''"
  by (simp_all add: c_str_def NUL_def)

text \<open>The options a caller passes are overwritten before the request is sent.\<close>

lemma request_members:
  "request action [(''straddr'', a), (''key'', k), (''value'', v)] o1 =
     Inr (JObj [(''hdrs'', JObj [(''action'', Value_cstr action)]),
       (''jval'', JObj [(''key'', JString k), (''options'', not_empty), (''straddr'', JString a), (''value'', JString v)])])"
  "request action [(''straddr'', a), (''key'', k)] o2 =
     Inr (JObj [(''hdrs'', JObj [(''action'', Value_cstr action)]),
       (''jval'', JObj [(''key'', JString k), (''options'', not_empty), (''straddr'', JString a)])])"
  "request action [(''straddr'', a), (''value'', v)] o3 =
     Inr (JObj [(''hdrs'', JObj [(''action'', Value_cstr action)]),
       (''jval'', JObj [(''options'', not_empty), (''straddr'', JString a), (''value'', JString v)])])"
  "request action [(''straddr'', a), (''query'', q)] o4 =
     Inr (JObj [(''hdrs'', JObj [(''action'', Value_cstr action)]),
       (''jval'', JObj [(''options'', not_empty), (''query'', JString q), (''straddr'', JString a)])])"
  "request action [(''straddr'', a)] o5 =
     Inr (JObj [(''hdrs'', JObj [(''action'', Value_cstr action)]),
       (''jval'', JObj [(''options'', not_empty), (''straddr'', JString a)])])"
  by (simp_all add: request_def object_ops not_empty_def Value_cstr_def c_str_literals)

section \<open>Properties\<close>

lemma issue_sends:
  assumes "opdata = Inr (JObj [(''hdrs'', hdrs), (''jval'', jval)])" "state b = kOpen" "rh_lock b = False"
    and "MergeHeaders (default_headers b) hdrs = Inr merged" "writable merged" "depth merged < stackLimit"
    and "writable jval" "depth jval < stackLimit"
  shows "\<exists>out payload. issue opdata (Some h) uuid False b =
      (Inr out, b\<lparr>reply_handlers := omap_insert uuid \<lparr>reply_handler = h, failure_handler = None\<rparr> (reply_handlers b),
         trace := trace b @ [Frame payload]\<rparr>) \<and>
    read_document payload = Some (JObj [(''address'', JString ''kvdnsvc''), (''body'', normalised jval),
        (''headers'', normalised merged), (''replyAddress'', JString uuid), (''type'', JString ''send'')])"
proof -
  obtain payload where p: "Send ''kvdnsvc'' jval hdrs (Some h) None uuid False b =
       (Returns True, b\<lparr>reply_handlers := omap_insert uuid \<lparr>reply_handler = h, failure_handler = None\<rparr> (reply_handlers b),
          trace := trace b @ [Frame payload]\<rparr>)"
     "read_document payload = Some (JObj [(''address'', JString ''kvdnsvc''), (''body'', normalised jval),
        (''headers'', normalised merged), (''replyAddress'', JString uuid), (''type'', JString ''send'')])"
    using Send_frame [OF assms(2-4,7,5,8,6)] by blast
  from p(1) have "issue opdata (Some h) uuid False b =
      (Inr (''issuing kvdn operation'' @ toStyledString (JObj [(''hdrs'', hdrs), (''jval'', jval)])),
       b\<lparr>reply_handlers := omap_insert uuid \<lparr>reply_handler = h, failure_handler = None\<rparr> (reply_handlers b),
         trace := trace b @ [Frame payload]\<rparr>)"
    by (simp add: issue_def kvdnOP_def assms(1) object_ops)
  with p(2) show ?thesis by blast
qed



text \<open>
  The \<open>options\<close> argument of every operation of the client has no effect: the request carries the
  fixed object \<open>{"NOT": "EMPTY"}\<close> in its place.
\<close>

theorem options_have_no_effect:
  "kvdn_set a k v o1 h u ec b = kvdn_set a k v o2 h u ec b \<and>
   kvdn_get a k o1 h u ec b = kvdn_get a k o2 h u ec b \<and>
   kvdn_submit a v o1 h u ec b = kvdn_submit a v o2 h u ec b \<and>
   kvdn_getKeys a o1 h u ec b = kvdn_getKeys a o2 h u ec b \<and>
   kvdn_del a k o1 h u ec b = kvdn_del a k o2 h u ec b \<and>
   kvdn_query a q o1 h u ec b = kvdn_query a q o2 h u ec b \<and>
   kvdn_size a o1 h u ec b = kvdn_size a o2 h u ec b"
  by (simp add: kvdn_set_def kvdn_get_def kvdn_submit_def kvdn_getKeys_def kvdn_del_def kvdn_query_def
      kvdn_size_def request_members)

end
