(* ===== verification/Ws_Utf8.thy ===== *)
theory Ws_Utf8
  imports Prelude
begin

text \<open>
  The streaming UTF-8 validator (Client/cpp/websocketpp/websocketpp/utf8_validator.hpp): the table of
  the state machine, the step, the validator object, and the well-formed byte sequences of the Unicode
  standard (table 3-7) as the specification it implements.
\<close>

unbundle bit_operations_syntax

section \<open>The state machine\<close>

definition utf8_accept :: nat where "utf8_accept = 0"
definition utf8_reject :: nat where "utf8_reject = 1"

definition utf8d :: "nat list" where
  "utf8d =
     replicate 128 0 @
     replicate 16 1 @ replicate 16 9 @
     replicate 32 7 @
     [8, 8] @ replicate 30 2 @
     [0xa, 0x3, 0x3, 0x3, 0x3, 0x3, 0x3, 0x3, 0x3, 0x3, 0x3, 0x3, 0x3, 0x4, 0x3, 0x3] @
     [0xb, 0x6, 0x6, 0x6, 0x5, 0x8, 0x8, 0x8, 0x8, 0x8, 0x8, 0x8, 0x8, 0x8, 0x8, 0x8] @
     [0x0, 0x1, 0x2, 0x3, 0x5, 0x8, 0x7, 0x1, 0x1, 0x1, 0x4, 0x6, 0x1, 0x1, 0x1, 0x1] @
     [1,1,1,1,1,1,1,1,1,1,1,1,1,1,1,1, 1,0,1,1,1,1,1,0,1,0,1,1,1,1,1,1] @
     [1,2,1,1,1,1,1,2,1,2,1,1,1,1,1,1, 1,1,1,1,1,1,1,2,1,1,1,1,1,1,1,1] @
     [1,2,1,1,1,1,1,1,1,2,1,1,1,1,1,1, 1,1,1,1,1,1,1,3,1,3,1,1,1,1,1,1] @
     [1,3,1,1,1,1,1,3,1,3,1,1,1,1,1,1, 1,3,1,1,1,1,1,1,1,1,1,1,1,1,1,1]"

text \<open>\<open>decode\<close>: the next state and the code point so far.\<close>

definition decode_step :: "nat \<times> u32 \<Rightarrow> u8 \<Rightarrow> nat \<times> u32" where
  "decode_step = (\<lambda>(state, codep) b.
     let type = utf8d ! unat b
     in (utf8d ! (256 + state * 16 + type),
         if state \<noteq> utf8_accept then (ucast b AND 0x3f) OR push_bit 6 codep
         else drop_bit type 0xff AND ucast b))"

record validator =
  m_state :: nat
  m_codepoint :: u32

definition validator :: validator where
  "validator = \<lparr>m_state = utf8_accept, m_codepoint = 0\<rparr>"

definition consume :: "u8 \<Rightarrow> validator \<Rightarrow> bool \<times> validator" where
  "consume b v =
     (let (s, cp) = decode_step (m_state v, m_codepoint v) b;
          v' = v\<lparr>m_state := s, m_codepoint := cp\<rparr>
      in (s \<noteq> utf8_reject, v'))"

fun decode_bytes :: "u8 list \<Rightarrow> validator \<Rightarrow> bool \<times> validator" where
  "decode_bytes [] v = (True, v)"
| "decode_bytes (b # bytes) v =
     (let (ok, v') = consume b v in if \<not> ok then (False, v') else decode_bytes bytes v')"

definition complete :: "validator \<Rightarrow> bool" where
  "complete v \<longleftrightarrow> m_state v = utf8_accept"

definition reset :: "validator \<Rightarrow> validator" where
  "reset v = v\<lparr>m_state := utf8_accept, m_codepoint := 0\<rparr>"

definition validate :: "u8 list \<Rightarrow> bool" where
  "validate s = (let (ok, v) = decode_bytes s validator in if \<not> ok then False else complete v)"

section \<open>The specification\<close>

definition tail_byte :: "u8 \<Rightarrow> bool" where
  "tail_byte b \<longleftrightarrow> 0x80 \<le> b \<and> b \<le> 0xBF"

text \<open>Well-formed UTF-8 by the length and the range of each sequence.\<close>

fun well_formed :: "u8 list \<Rightarrow> bool" where
  "well_formed [] = True"
| "well_formed (a # s) =
     (if a \<le> 0x7F then well_formed s
      else if 0xC2 \<le> a \<and> a \<le> 0xDF then
        (case s of b # s' \<Rightarrow> tail_byte b \<and> well_formed s' | _ \<Rightarrow> False)
      else if 0xE0 \<le> a \<and> a \<le> 0xEF then
        (case s of
           b # c # s' \<Rightarrow> tail_byte b \<and> (a = 0xE0 \<longrightarrow> 0xA0 \<le> b) \<and> (a = 0xED \<longrightarrow> b \<le> 0x9F) \<and>
             tail_byte c \<and> well_formed s'
         | _ \<Rightarrow> False)
      else if 0xF0 \<le> a \<and> a \<le> 0xF4 then
        (case s of
           b # c # d # s' \<Rightarrow> tail_byte b \<and> (a = 0xF0 \<longrightarrow> 0x90 \<le> b) \<and> (a = 0xF4 \<longrightarrow> b \<le> 0x8F) \<and>
             tail_byte c \<and> tail_byte d \<and> well_formed s'
         | _ \<Rightarrow> False)
      else False)"

section \<open>The transitions\<close>

text \<open>What each state waits for: the first byte of a sequence (0), a last byte (2), two bytes (3), three
  bytes (6), and the restricted second bytes after E0 (4), ED (5), F0 (7) and F4 (8).\<close>

definition byte_class :: "nat \<Rightarrow> nat" where
  "byte_class n =
     (if n < 0x80 then 0
      else if n < 0x90 then 1
      else if n < 0xA0 then 9
      else if n < 0xC0 then 7
      else if n < 0xC2 then 8
      else if n < 0xE0 then 2
      else if n = 0xE0 then 10
      else if n = 0xED then 4
      else if n < 0xF0 then 3
      else if n = 0xF0 then 11
      else if n < 0xF4 then 6
      else if n = 0xF4 then 5
      else 8)"

text \<open>The row of each state, by the class of the byte.\<close>

definition class_next :: "nat \<Rightarrow> nat \<Rightarrow> nat" where
  "class_next state t =
     (if state = 0 then
        (if t = 0 then 0 else if t = 2 then 2 else if t = 10 then 4 else if t = 4 then 5
         else if t = 3 then 3 else if t = 11 then 6 else if t = 6 then 7 else if t = 5 then 8 else 1)
      else if state = 2 then (if t \<in> {1, 7, 9} then 0 else 1)
      else if state = 3 then (if t \<in> {1, 7, 9} then 2 else 1)
      else if state = 4 then (if t = 7 then 2 else 1)
      else if state = 5 then (if t \<in> {1, 9} then 2 else 1)
      else if state = 6 then (if t \<in> {7, 9} then 3 else 1)
      else if state = 7 then (if t \<in> {1, 7, 9} then 3 else 1)
      else if state = 8 then (if t = 1 then 3 else 1)
      else 1)"

lemma classes: "take 256 utf8d = map byte_class [0 ..< 256]"
  by code_simp

lemma rows: "drop 256 utf8d =
    map (\<lambda>k. if k mod 16 < 12 then class_next (k div 16) (k mod 16) else 1) [0 ..< 144]"
  by code_simp

lemma utf8d_class: "n < 256 \<Longrightarrow> utf8d ! n = byte_class n"
proof -
  assume n: "n < 256"
  then have "utf8d ! n = take 256 utf8d ! n" by simp
  also have "\<dots> = byte_class n" using n by (simp only: classes) simp
  finally show ?thesis .
qed

lemma length_utf8d: "length utf8d = 400"
  by (simp add: utf8d_def)

lemma utf8d_row: "state < 9 \<Longrightarrow> t < 12 \<Longrightarrow> utf8d ! (256 + state * 16 + t) = class_next state t"
proof -
  assume b: "state < 9" "t < 12"
  then have k: "state * 16 + t < 144" "(state * 16 + t) div 16 = state" "(state * 16 + t) mod 16 = t" by simp_all
  have "utf8d ! (256 + state * 16 + t) = drop 256 utf8d ! (state * 16 + t)"
    by (simp add: length_utf8d add.assoc)
  also have "\<dots> = class_next state t" unfolding rows using k b by simp
  finally show ?thesis .
qed

definition next_state :: "nat \<Rightarrow> u8 \<Rightarrow> nat" where
  "next_state state b = utf8d ! (256 + state * 16 + utf8d ! unat b)"

lemma byte_class_less: "byte_class n < 12"
  by (simp add: byte_class_def)

lemma next_state_class: "state < 9 \<Longrightarrow> next_state state b = class_next state (byte_class (unat b))"
  using unsigned_less [of b, where ?'a = nat]
  by (simp add: next_state_def utf8d_class utf8d_row byte_class_less)

text \<open>The language of a state.\<close>

fun accepts :: "nat \<Rightarrow> u8 list \<Rightarrow> bool" where
  "accepts state [] = (state = 0)"
| "accepts state (b # s) = (next_state state b \<noteq> 1 \<and> accepts (next_state state b) s)"

lemma validate_accepts: "validate s = accepts 0 s"
proof -
  have "(let (ok, v') = decode_bytes s v in if \<not> ok then False else complete v') = accepts (m_state v) s" for v
    by (induction s v rule: decode_bytes.induct)
      (auto simp: complete_def utf8_accept_def utf8_reject_def consume_def decode_step_def next_state_def
        Let_def split: prod.splits if_splits)
  from this [of validator] show ?thesis by (simp add: validate_def validator_def utf8_accept_def)
qed

lemma byte_nat:
  "(b :: u8) = 0xE0 \<longleftrightarrow> unat b = 0xE0" "b = 0xED \<longleftrightarrow> unat b = 0xED" "b = 0xF0 \<longleftrightarrow> unat b = 0xF0"
  "b = 0xF4 \<longleftrightarrow> unat b = 0xF4"
  by (simp_all add: word_unat_eq_iff)

lemma tail_byte_nat: "tail_byte b \<longleftrightarrow> 0x80 \<le> unat b \<and> unat b \<le> 0xBF"
  by (simp add: tail_byte_def word_le_nat_alt)

lemmas transition = next_state_class class_next_def byte_class_def tail_byte_nat word_le_nat_alt byte_nat

lemma accepts_tail:
  "accepts 2 s = (case s of [] \<Rightarrow> False | b # s' \<Rightarrow> tail_byte b \<and> accepts 0 s')"
  "accepts 3 s = (case s of [] \<Rightarrow> False | b # s' \<Rightarrow> tail_byte b \<and> accepts 2 s')"
  "accepts 7 s = (case s of [] \<Rightarrow> False | b # s' \<Rightarrow> tail_byte b \<and> accepts 3 s')"
  by (cases s; auto simp: transition)+

lemma accepts_second:
  "accepts 4 s = (case s of [] \<Rightarrow> False | b # s' \<Rightarrow> tail_byte b \<and> 0xA0 \<le> b \<and> accepts 2 s')"
  "accepts 5 s = (case s of [] \<Rightarrow> False | b # s' \<Rightarrow> tail_byte b \<and> b \<le> 0x9F \<and> accepts 2 s')"
  "accepts 6 s = (case s of [] \<Rightarrow> False | b # s' \<Rightarrow> tail_byte b \<and> 0x90 \<le> b \<and> accepts 3 s')"
  "accepts 8 s = (case s of [] \<Rightarrow> False | b # s' \<Rightarrow> tail_byte b \<and> b \<le> 0x8F \<and> accepts 3 s')"
  by (cases s; auto simp: transition)+

lemma accepts_first:
  "accepts 0 (a # s) =
     (if a \<le> 0x7F then accepts 0 s
      else if 0xC2 \<le> a \<and> a \<le> 0xDF then accepts 2 s
      else if a = 0xE0 then accepts 4 s
      else if a = 0xED then accepts 5 s
      else if 0xE1 \<le> a \<and> a \<le> 0xEF then accepts 3 s
      else if a = 0xF0 then accepts 6 s
      else if 0xF1 \<le> a \<and> a \<le> 0xF3 then accepts 7 s
      else if a = 0xF4 then accepts 8 s
      else False)"
  by (simp add: transition)

declare accepts.simps(2) [simp del]

lemma accepts_well_formed: "accepts 0 s = well_formed s"
proof (induction s rule: well_formed.induct)
  case (2 a s)
  then show ?case
    by (auto simp: accepts_first accepts_tail accepts_second word_le_nat_alt byte_nat split: list.splits)
qed simp

section \<open>Streams\<close>

text \<open>A validator fed in chunks is one fed at once.\<close>

lemma decode_bytes_append:
  "decode_bytes (s @ t) v = (let (ok, v') = decode_bytes s v in if \<not> ok then (False, v') else decode_bytes t v')"
  by (induction s v rule: decode_bytes.induct) (auto simp: Let_def split: prod.splits)

text \<open>The bytes a validator in a state still accepts.\<close>

lemma decode_bytes_accepts:
  "(let (ok, v') = decode_bytes s v in ok \<and> complete v') = accepts (m_state v) s"
  by (induction s v rule: decode_bytes.induct)
    (auto simp: complete_def utf8_accept_def utf8_reject_def consume_def decode_step_def next_state_def
      accepts.simps Let_def split: prod.splits if_splits)

section \<open>Properties\<close>

text \<open>C14: The table-driven validator accepts exactly the well-formed UTF-8 of the Unicode standard: no
  overlong form, no surrogate, nothing above U+10FFFF, no truncated sequence.\<close>

theorem utf8_validates: "validate s = well_formed s"
  by (simp add: validate_accepts accepts_well_formed)

end
