(* ===== verification/Text_Encoding.thy ===== *)
theory Text_Encoding
  imports Ws_Utf8 Json_Text
begin

text \<open>
  Where two libraries of the client meet: the code points the JSON library encodes
  (\<open>codePointToUTF8\<close> of Client/cpp/json/jsoncpp.cpp) against the validator every text message passes
  in Client/cpp/websocketpp/websocketpp/utf8_validator.hpp.
\<close>

unbundle bit_operations_syntax

section \<open>The bytes of a code point\<close>

lemma byte_char_cast: "byte (char_cast w) = ucast w"
  by (simp add: char_cast_def)

lemma unat_ucast_u8: "unat (ucast (w :: u32) :: u8) = unat w mod 256"
  by (simp add: unsigned_ucast_eq take_bit_eq_mod)

lemma low_nat: "0x3F AND n = n mod 64" "0x1F AND n = n mod 32" "0xF AND n = n mod 16" "0x7 AND n = n mod 8" for n :: nat
  using take_bit_eq_mask [of 6 n] take_bit_eq_mask [of 5 n] take_bit_eq_mask [of 4 n] take_bit_eq_mask [of 3 n]
  by (simp_all add: mask_eq_exp_minus_1 take_bit_eq_mod and.commute)

lemma or_low: "k < 2 ^ n \<Longrightarrow> push_bit n m OR k = push_bit n m + k" for k m :: nat
proof -
  assume "k < 2 ^ n"
  then have "take_bit n k = k" by (simp add: take_bit_nat_eq_self)
  then have "\<not> bit k j" if "n \<le> j" for j
    using that bit_take_bit_iff [of n k j] by simp
  then have "push_bit n m AND k = 0"
    by (auto simp: bit_eq_iff bit_and_iff bit_push_bit_iff)
  then show ?thesis by (simp add: disjunctive_add_eq_or)
qed

lemma lead_nat: "k < 64 \<Longrightarrow> 0x80 OR k = 0x80 + k" "k < 32 \<Longrightarrow> 0xC0 OR k = 0xC0 + k"
  "k < 16 \<Longrightarrow> 0xE0 OR k = 0xE0 + k" "k < 8 \<Longrightarrow> 0xF0 OR k = 0xF0 + k" for k :: nat
  using or_low [of k 6 2] or_low [of k 5 6] or_low [of k 4 14] or_low [of k 3 30]
  by (simp_all add: push_bit_eq_mult)

lemma lead_bytes:
  "unat (ucast (0x80 OR (0x3F AND w :: u32)) :: u8) = 0x80 + unat w mod 64"
  "unat (ucast (0xC0 OR (0x1F AND w :: u32)) :: u8) = 0xC0 + unat w mod 32"
  "unat (ucast (0xE0 OR (0xF AND w :: u32)) :: u8) = 0xE0 + unat w mod 16"
  "unat (ucast (0xF0 OR (0x7 AND w :: u32)) :: u8) = 0xF0 + unat w mod 8"
  by (simp_all add: unat_ucast_u8 unsigned_or_eq unsigned_and_eq low_nat lead_nat mod_mod_cancel)

lemma unat_drop: "unat (drop_bit n (w :: u32)) = unat w div 2 ^ n"
  by (simp add: unat_drop_bit_eq drop_bit_eq_div [where 'a = nat])

lemmas well_formed_nat = tail_byte_nat word_le_nat_alt byte_nat

lemma digits_64:
  obtains q r t where "n = 4096 * q + 64 * r + t" "r < 64" "t < (64 :: nat)"
proof -
  have "n = 4096 * (n div 64 div 64) + 64 * (n div 64 mod 64) + n mod 64"
    using mult_div_mod_eq [of 64 n] mult_div_mod_eq [of 64 "n div 64"] by linarith
  then show ?thesis by (rule that) simp_all
qed

lemma div_mod_digits:
  assumes "r < 64" "t < (64 :: nat)"
  shows "(4096 * q + 64 * r + t) div 4096 = q" "(4096 * q + 64 * r + t) div 64 = 64 * q + r"
    "(4096 * q + 64 * r + t) mod 64 = t" "(4096 * q + 64 * r + t) div 262144 = q div 64"
proof -
  have "4096 * q + 64 * r + t = t + 64 * (64 * q + r)" by simp
  then show "(4096 * q + 64 * r + t) mod 64 = t" using assms by (metis mod_less mod_mult_self2)
  show d: "(4096 * q + 64 * r + t) div 4096 = q" using assms by linarith
  show "(4096 * q + 64 * r + t) div 64 = 64 * q + r" using assms by linarith
  show "(4096 * q + 64 * r + t) div 262144 = q div 64"
    using div_mult2_eq [of "4096 * q + 64 * r + t" 4096 64] d by simp
qed

lemma well_formed_codePoint:
  "well_formed (map byte (codePointToUTF8 cp)) \<longleftrightarrow> \<not> (0xD800 \<le> unat cp \<and> unat cp \<le> 0xDFFF)"
proof -
  consider "unat cp \<le> 0x7F" | "0x7F < unat cp" "unat cp \<le> 0x7FF" | "0x7FF < unat cp" "unat cp \<le> 0xFFFF"
    | "0xFFFF < unat cp" "unat cp \<le> 0x10FFFF" | "0x10FFFF < unat cp" by linarith
  then show ?thesis
  proof cases
    case 1
    then show ?thesis by (simp add: codePointToUTF8_def word_le_nat_alt byte_char_cast unat_ucast_u8)
  next
    case 2
    then have "2 \<le> unat cp div 64" "unat cp div 64 < 32" by linarith+
    moreover have "unat cp mod 64 \<le> 63" by linarith
    ultimately show ?thesis using 2
      by (simp add: codePointToUTF8_def byte_char_cast well_formed_nat lead_bytes unat_drop)
  next
    case 3
    obtain q r t where N: "unat cp = 4096 * q + 64 * r + t" "r < 64" "t < 64" by (rule digits_64)
    have "q < 16" using 3 N by linarith
    moreover have "(53248 + 64 * r + t) div 64 mod 64 = r"
      using div_mod_digits(2) [OF N(2,3), of 13] N(2) mod_mult_self2 [of r 64 13] by (simp add: add.commute)
    moreover have "0xD800 \<le> 4096 * q + 64 * r + t \<and> 4096 * q + 64 * r + t \<le> 0xDFFF \<longleftrightarrow> q = 13 \<and> 32 \<le> r"
      (is "?l \<longleftrightarrow> ?r")
    proof
      assume ?l
      then have "4096 * q + 64 * r + t \<ge> 0xD800" "4096 * q + 64 * r + t \<le> 0xDFFF" by simp_all
      moreover from this have "q = 13" using N(2,3) by linarith
      ultimately show ?r using N(2,3) by simp
    qed (use N(2,3) in simp)
    ultimately show ?thesis using 3 N(2,3)
      by (simp add: codePointToUTF8_def byte_char_cast well_formed_nat lead_bytes unat_drop N(1) div_mod_digits)
        auto
  next
    case 4
    obtain q r t where N: "unat cp = 4096 * q + 64 * r + t" "r < 64" "t < 64" by (rule digits_64)
    have "16 \<le> q" "q < 272" using 4 N by linarith+
    then have "q div 64 < 8" "q div 64 = 0 \<longrightarrow> 16 \<le> q mod 64" "q div 64 \<le> 4"
      using mult_div_mod_eq [of 64 q] mod_less_divisor [of 64 q] by auto
    moreover have "q div 64 = 4 \<longrightarrow> q mod 64 \<le> 15"
      using mult_div_mod_eq [of 64 q] \<open>q < 272\<close> by linarith
    ultimately show ?thesis using 4 N(2,3)
      by (simp add: codePointToUTF8_def byte_char_cast well_formed_nat lead_bytes unat_drop N(1) div_mod_digits)
  next
    case 5
    then show ?thesis by (simp add: codePointToUTF8_def word_le_nat_alt)
  qed
qed

section \<open>Properties\<close>

text \<open>The UTF-8 the JSON library writes for a code point passes the websocket's validator exactly when
  the code point is not a surrogate; above U+10FFFF it writes nothing.\<close>

theorem codePoint_validates:
  "validate (map byte (codePointToUTF8 cp)) \<longleftrightarrow> \<not> (0xD800 \<le> unat cp \<and> unat cp \<le> 0xDFFF)"
  by (simp add: validate_accepts accepts_well_formed well_formed_codePoint)

end
