(* ===== verification/Ws_Frame.thy ===== *)
theory Ws_Frame
  imports Prelude
begin

text \<open>
  WebSocket frames (Client/cpp/websocketpp/websocketpp/frame.hpp): opcodes, the two bytes of the
  basic header, the twelve bytes of the extended header, and the masking routines, byte by byte and
  word by word. The host is a 64-bit little endian one, as \<open>sizeof(size_t)\<close> and
  \<open>is_little_endian\<close> find it. A conversion union is its integer; \<open>le_bytes\<close> are its bytes.
\<close>

unbundle bit_operations_syntax

section \<open>Integers as bytes\<close>

fun le_word :: "u8 list \<Rightarrow> 'a::len word" where
  "le_word [] = 0"
| "le_word (b # c) = ucast b OR push_bit 8 (le_word c)"

definition swap :: "nat \<Rightarrow> nat \<Rightarrow> u8 list \<Rightarrow> u8 list" where
  "swap i j c = c[i := c ! j, j := c ! i]"

definition htonll :: "u64 \<Rightarrow> u64" where
  "htonll src = le_word (swap 3 4 (swap 2 5 (swap 1 6 (swap 0 7 (le_bytes 8 src)))))"

definition ntohll :: "u64 \<Rightarrow> u64" where
  "ntohll src = htonll src"

text \<open>\<open>ntohs\<close> and \<open>htons\<close> of the C library.\<close>

definition ntohs :: "u16 \<Rightarrow> u16" where
  "ntohs w = le_word (rev (le_bytes 2 w))"

text \<open>\<open>std::copy\<close> of \<open>xs\<close> over the elements of \<open>ys\<close> from \<open>offset\<close>.\<close>

definition copy_to :: "nat \<Rightarrow> 'a list \<Rightarrow> 'a list \<Rightarrow> 'a list" where
  "copy_to offset xs ys = take offset ys @ xs @ drop (offset + length xs) ys"

section \<open>Opcodes and limits\<close>

type_synonym opcode = int

definition op_continuation :: opcode where "op_continuation = 0x0"
definition op_text :: opcode where "op_text = 0x1"
definition op_binary :: opcode where "op_binary = 0x2"
definition op_rsv3 :: opcode where "op_rsv3 = 0x3"
definition op_rsv7 :: opcode where "op_rsv7 = 0x7"
definition op_close :: opcode where "op_close = 0x8"
definition op_ping :: opcode where "op_ping = 0x9"
definition op_pong :: opcode where "op_pong = 0xA"
definition op_control_rsvb :: opcode where "op_control_rsvb = 0xB"
definition op_control_rsvf :: opcode where "op_control_rsvf = 0xF"

lemmas op_defs = op_continuation_def op_text_def op_binary_def op_rsv3_def op_rsv7_def op_close_def
  op_ping_def op_pong_def op_control_rsvb_def op_control_rsvf_def

definition op_reserved :: "opcode \<Rightarrow> bool" where
  "op_reserved v \<longleftrightarrow> v \<ge> op_rsv3 \<and> v \<le> op_rsv7 \<or> v \<ge> op_control_rsvb \<and> v \<le> op_control_rsvf"

definition op_invalid :: "opcode \<Rightarrow> bool" where
  "op_invalid v \<longleftrightarrow> v > 0xF \<or> v < 0"

definition is_control :: "opcode \<Rightarrow> bool" where
  "is_control v \<longleftrightarrow> v \<ge> 0x8"

definition BASIC_HEADER_LENGTH :: nat where "BASIC_HEADER_LENGTH = 2"
definition MAX_HEADER_LENGTH :: nat where "MAX_HEADER_LENGTH = 14"
definition MAX_EXTENDED_HEADER_LENGTH :: nat where "MAX_EXTENDED_HEADER_LENGTH = 12"

definition payload_size_basic :: u64 where "payload_size_basic = 125"
definition payload_size_extended :: u64 where "payload_size_extended = 0xFFFF"
definition payload_size_jumbo :: u64 where "payload_size_jumbo = 0x7FFFFFFFFFFFFFFF"
definition close_reason_size :: nat where "close_reason_size = 123"

definition BHB0_OPCODE :: u8 where "BHB0_OPCODE = 0x0F"
definition BHB0_RSV3 :: u8 where "BHB0_RSV3 = 0x10"
definition BHB0_RSV2 :: u8 where "BHB0_RSV2 = 0x20"
definition BHB0_RSV1 :: u8 where "BHB0_RSV1 = 0x40"
definition BHB0_FIN :: u8 where "BHB0_FIN = 0x80"
definition BHB1_PAYLOAD :: u8 where "BHB1_PAYLOAD = 0x7F"
definition BHB1_MASK :: u8 where "BHB1_MASK = 0x80"
definition payload_size_code_16bit :: u8 where "payload_size_code_16bit = 0x7E"
definition payload_size_code_64bit :: u8 where "payload_size_code_64bit = 0x7F"

lemmas frame_consts = BASIC_HEADER_LENGTH_def MAX_HEADER_LENGTH_def MAX_EXTENDED_HEADER_LENGTH_def
  payload_size_basic_def payload_size_extended_def payload_size_jumbo_def close_reason_size_def
  BHB0_OPCODE_def BHB0_RSV3_def BHB0_RSV2_def BHB0_RSV1_def BHB0_FIN_def BHB1_PAYLOAD_def
  BHB1_MASK_def payload_size_code_16bit_def payload_size_code_64bit_def

section \<open>The basic header\<close>

record basic_header =
  b0 :: u8
  b1 :: u8

definition set_bit_if :: "bool \<Rightarrow> u8 \<Rightarrow> u8 \<Rightarrow> u8" where
  "set_bit_if c m b = (if c then b OR m else b)"

text \<open>The code of a payload size in the basic header.\<close>

definition basic_value :: "u64 \<Rightarrow> u8" where
  "basic_value sz =
     (if sz \<le> payload_size_basic then ucast sz
      else if sz \<le> payload_size_extended then payload_size_code_16bit
      else payload_size_code_64bit)"

definition basic_header :: "opcode \<Rightarrow> u64 \<Rightarrow> bool \<Rightarrow> bool \<Rightarrow> bool \<Rightarrow> bool \<Rightarrow> bool \<Rightarrow> basic_header" where
  "basic_header oc sz fin masked rsv1 rsv2 rsv3 =
     \<lparr>b0 = set_bit_if rsv3 BHB0_RSV3 (set_bit_if rsv2 BHB0_RSV2
             (set_bit_if rsv1 BHB0_RSV1 (set_bit_if fin BHB0_FIN 0x00)))
           OR (word_of_int oc AND BHB0_OPCODE),
      b1 = set_bit_if masked BHB1_MASK 0x00 OR basic_value sz\<rparr>"

definition get_fin :: "basic_header \<Rightarrow> bool" where
  "get_fin h \<longleftrightarrow> b0 h AND BHB0_FIN = BHB0_FIN"

definition set_fin :: "bool \<Rightarrow> basic_header \<Rightarrow> basic_header" where
  "set_fin v h = h\<lparr>b0 := if v then b0 h OR BHB0_FIN else b0 h AND NOT BHB0_FIN\<rparr>"

definition get_rsv1 :: "basic_header \<Rightarrow> bool" where
  "get_rsv1 h \<longleftrightarrow> b0 h AND BHB0_RSV1 = BHB0_RSV1"

definition set_rsv1 :: "bool \<Rightarrow> basic_header \<Rightarrow> basic_header" where
  "set_rsv1 v h = h\<lparr>b0 := if v then b0 h OR BHB0_RSV1 else b0 h AND NOT BHB0_RSV1\<rparr>"

definition get_rsv2 :: "basic_header \<Rightarrow> bool" where
  "get_rsv2 h \<longleftrightarrow> b0 h AND BHB0_RSV2 = BHB0_RSV2"

definition set_rsv2 :: "bool \<Rightarrow> basic_header \<Rightarrow> basic_header" where
  "set_rsv2 v h = h\<lparr>b0 := if v then b0 h OR BHB0_RSV2 else b0 h AND NOT BHB0_RSV2\<rparr>"

definition get_rsv3 :: "basic_header \<Rightarrow> bool" where
  "get_rsv3 h \<longleftrightarrow> b0 h AND BHB0_RSV3 = BHB0_RSV3"

definition set_rsv3 :: "bool \<Rightarrow> basic_header \<Rightarrow> basic_header" where
  "set_rsv3 v h = h\<lparr>b0 := if v then b0 h OR BHB0_RSV3 else b0 h AND NOT BHB0_RSV3\<rparr>"

definition get_opcode :: "basic_header \<Rightarrow> opcode" where
  "get_opcode h = uint (b0 h AND BHB0_OPCODE)"

definition get_masked :: "basic_header \<Rightarrow> bool" where
  "get_masked h \<longleftrightarrow> b1 h AND BHB1_MASK = BHB1_MASK"

definition set_masked :: "bool \<Rightarrow> basic_header \<Rightarrow> basic_header" where
  "set_masked v h = h\<lparr>b1 := if v then b1 h OR BHB1_MASK else b1 h AND NOT BHB1_MASK\<rparr>"

definition get_basic_size :: "basic_header \<Rightarrow> u8" where
  "get_basic_size h = b1 h AND BHB1_PAYLOAD"

definition get_masking_key_offset :: "basic_header \<Rightarrow> nat" where
  "get_masking_key_offset h =
     (if get_basic_size h = payload_size_code_16bit then 2
      else if get_basic_size h = payload_size_code_64bit then 8
      else 0)"

definition get_header_len :: "basic_header \<Rightarrow> nat" where
  "get_header_len h =
     (let sz = BASIC_HEADER_LENGTH + get_masking_key_offset h
      in if get_masked h then sz + 4 else sz)"

section \<open>The extended header\<close>

type_synonym extended_header = "u8 list"
type_synonym masking_key = u32

definition no_bytes :: extended_header where
  "no_bytes = replicate MAX_EXTENDED_HEADER_LENGTH 0x00"

definition copy_payload :: "u64 \<Rightarrow> extended_header \<Rightarrow> nat \<times> extended_header" where
  "copy_payload sz e =
     (let payload_offset =
        (if sz \<le> payload_size_basic then 8 else if sz \<le> payload_size_extended then 6 else 0)
      in (8 - payload_offset, copy_to 0 (drop payload_offset (le_bytes 8 (htonll sz))) e))"

definition extended_header :: "u64 \<Rightarrow> extended_header" where
  "extended_header sz = snd (copy_payload sz no_bytes)"

definition extended_header_with_key :: "u64 \<Rightarrow> masking_key \<Rightarrow> extended_header" where
  "extended_header_with_key sz key =
     (let (offset, e) = copy_payload sz no_bytes in copy_to offset (le_bytes 4 key) e)"

definition prepare_header :: "basic_header \<Rightarrow> extended_header \<Rightarrow> u8 list" where
  "prepare_header h e = [b0 h, b1 h] @ take (get_header_len h - BASIC_HEADER_LENGTH) e"

definition get_masking_key :: "basic_header \<Rightarrow> extended_header \<Rightarrow> masking_key" where
  "get_masking_key h e =
     (if \<not> get_masked h then 0
      else let offset = get_masking_key_offset h in le_word (take 4 (drop offset e)))"

definition get_extended_size :: "extended_header \<Rightarrow> u16" where
  "get_extended_size e = ntohs (le_word (take 2 e))"

definition get_jumbo_size :: "extended_header \<Rightarrow> u64" where
  "get_jumbo_size e = ntohll (le_word (take 8 e))"

definition get_payload_size :: "basic_header \<Rightarrow> extended_header \<Rightarrow> u64" where
  "get_payload_size h e =
     (let val = get_basic_size h
      in if ucast val \<le> payload_size_basic then ucast val
         else if val = payload_size_code_16bit then ucast (get_extended_size e)
         else get_jumbo_size e)"

section \<open>Masking\<close>

definition prepare_masking_key :: "masking_key \<Rightarrow> u64" where
  "prepare_masking_key key = push_bit 32 (ucast key) OR ucast key"

text \<open>A shift by all 64 bits, at offset 0, is undefined in C++; the word it gives here is 0, and a
  processor that leaves the operand as it is returns the same key.\<close>

definition circshift_prepared_key :: "u64 \<Rightarrow> nat \<Rightarrow> u64" where
  "circshift_prepared_key prepared_key offset =
     drop_bit (offset * 8) prepared_key OR push_bit ((8 - offset) * 8) prepared_key"

fun byte_mask_loop :: "masking_key \<Rightarrow> nat \<Rightarrow> u8 list \<Rightarrow> u8 list" where
  "byte_mask_loop key key_index [] = []"
| "byte_mask_loop key key_index (b # input) =
     (b XOR le_bytes 4 key ! key_index) # byte_mask_loop key ((key_index + 1) mod 4) input"

definition byte_mask :: "u8 list \<Rightarrow> masking_key \<Rightarrow> nat \<Rightarrow> u8 list" where
  "byte_mask input key key_offset = byte_mask_loop key (key_offset mod 4) input"

text \<open>The words \<open>i, \<dots>, n - 1\<close> of a buffer, masked with a prepared key.\<close>

definition mask_words :: "u64 \<Rightarrow> nat \<Rightarrow> u8 list \<Rightarrow> u8 list" where
  "mask_words prepared_key n input =
     concat (map (\<lambda>i. le_bytes 8 (le_word (take 8 (drop (8 * i) input)) XOR prepared_key)) [0 ..< n])"

definition word_mask_exact :: "u8 list \<Rightarrow> masking_key \<Rightarrow> u8 list" where
  "word_mask_exact input key =
     (let prepared_key = prepare_masking_key key;
          n = length input div 8
      in mask_words prepared_key n input @
         map (\<lambda>i. input ! i XOR le_bytes 4 key ! (i mod 4)) [n * 8 ..< length input])"

definition word_mask_circ :: "u8 list \<Rightarrow> u64 \<Rightarrow> u8 list \<times> u64" where
  "word_mask_circ input prepared_key =
     (let n = length input div 8;
          l = length input - n * 8;
          start = length input - l
      in (mask_words prepared_key n input @
            map (\<lambda>i. input ! (start + i) XOR le_bytes 8 prepared_key ! i) [0 ..< l],
          circshift_prepared_key prepared_key l))"

definition byte_mask_circ :: "u8 list \<Rightarrow> u64 \<Rightarrow> u8 list \<times> u64" where
  "byte_mask_circ input prepared_key =
     (let key = (ucast prepared_key :: masking_key)
      in (map (\<lambda>i. input ! i XOR le_bytes 4 key ! (i mod 4)) [0 ..< length input],
          circshift_prepared_key prepared_key (length input mod 4)))"

section \<open>Bytes of an integer\<close>

lemma length_le_bytes [simp]: "length (le_bytes n w) = n"
  by (simp add: le_bytes_def)

lemma nth_le_bytes: "i < n \<Longrightarrow> le_bytes n w ! i = ucast (drop_bit (8 * i) w)"
  by (simp add: le_bytes_def)

lemma bit_le_word:
  "bit (le_word bs :: 'a::len word) k \<longleftrightarrow> k < LENGTH('a) \<and> k div 8 < length bs \<and> bit (bs ! (k div 8)) (k mod 8)"
proof (induction bs arbitrary: k)
  case (Cons b bs)
  show ?case
  proof (cases "k < 8")
    case True
    then show ?thesis by (auto simp: bit_simps)
  next
    case False
    then have "k div 8 = Suc ((k - 8) div 8)" "k mod 8 = (k - 8) mod 8"
      using div_add_self2 [of 8 "k - 8"] mod_add_self2 [of "k - 8" 8] by simp_all
    then show ?thesis using False by (auto simp: bit_simps Cons.IH dest: bit_imp_le_length)
  qed
qed simp

lemma bit_nth_le_bytes:
  "i < n \<Longrightarrow> bit (le_bytes n w ! i) j \<longleftrightarrow> j < 8 \<and> bit w (8 * i + j)"
  by (auto simp: nth_le_bytes bit_simps)

lemma le_word_le_bytes: "LENGTH('a) = 8 * n \<Longrightarrow> le_word (le_bytes n w) = (w :: 'a::len word)"
  by (rule bit_word_eqI) (auto simp: bit_le_word bit_nth_le_bytes)

lemma le_bytes_le_word: "LENGTH('a) = 8 * n \<Longrightarrow> length bs = n \<Longrightarrow> le_bytes n (le_word bs :: 'a::len word) = bs"
  by (rule nth_equalityI)
    (auto intro!: bit_word_eqI simp: bit_nth_le_bytes bit_le_word)

lemma le_bytes_xor: "le_bytes n (v XOR w) = map2 (XOR) (le_bytes n v) (le_bytes n w)"
  by (rule nth_equalityI) (auto intro!: bit_word_eqI simp: nth_le_bytes bit_simps)

lemma reverse_swaps:
  "length c = 8 \<Longrightarrow> swap 3 4 (swap 2 5 (swap 1 6 (swap 0 7 c))) = rev c"
  by (auto simp: swap_def numeral_eq_Suc length_Suc_conv)

lemma htonll_bytes: "le_bytes 8 (htonll w) = rev (le_bytes 8 w)"
  by (simp add: htonll_def reverse_swaps le_bytes_le_word del: One_nat_def)

lemma ntohll_rev: "length bs = 8 \<Longrightarrow> ntohll (le_word bs) = le_word (rev bs)"
  by (simp add: ntohll_def htonll_def reverse_swaps le_bytes_le_word del: One_nat_def)

lemma ntohs_rev: "length bs = 2 \<Longrightarrow> ntohs (le_word bs) = le_word (rev bs)"
  by (simp add: ntohs_def le_bytes_le_word)

section \<open>The fields of the basic header\<close>

text \<open>The flags and the fields, as the simplifier meets their bits: on words and on integers.\<close>

lemma bit_flag:
  "bit (0x80 :: 'a::semiring_bit_operations) j \<longleftrightarrow> possible_bit TYPE('a) j \<and> j = 7"
  "bit (0x40 :: 'a) j \<longleftrightarrow> possible_bit TYPE('a) j \<and> j = 6"
  "bit (0x20 :: 'a) j \<longleftrightarrow> possible_bit TYPE('a) j \<and> j = 5"
  "bit (0x10 :: 'a) j \<longleftrightarrow> possible_bit TYPE('a) j \<and> j = 4"
  using bit_exp_iff [where 'a = 'a, of 7 j] bit_exp_iff [where 'a = 'a, of 6 j]
    bit_exp_iff [where 'a = 'a, of 5 j] bit_exp_iff [where 'a = 'a, of 4 j]
  by auto

lemma bit_low: "bit (0x0F :: int) j \<longleftrightarrow> j < 4" "bit (0x7F :: int) j \<longleftrightarrow> j < 7"
  using bit_mask_iff [where 'a = int, of 4 j] bit_mask_iff [where 'a = int, of 7 j]
  by (simp_all add: mask_eq_exp_minus_1)

lemma flag_test: 
  "(b :: u8) AND 0x80 = 0x80 \<longleftrightarrow> bit b 7" "b AND 0x40 = 0x40 \<longleftrightarrow> bit b 6"
  "b AND 0x20 = 0x20 \<longleftrightarrow> bit b 5" "b AND 0x10 = 0x10 \<longleftrightarrow> bit b 4"
  by (auto simp: bit_eq_iff [where 'a = u8] bit_and_iff bit_flag
      dest: spec [of _ 7] spec [of _ 6] spec [of _ 5] spec [of _ 4])

lemma bit_set_bit_if: "bit (set_bit_if c m b) j \<longleftrightarrow> c \<and> bit m j \<or> bit b j"
  by (auto simp: set_bit_if_def bit_or_iff)

lemmas header_bits = bit_flag bit_low bit_set_bit_if bit_or_iff bit_and_iff

lemma get_flags_basic_header:
  "get_fin (basic_header oc sz fin masked rsv1 rsv2 rsv3) = fin"
  "get_rsv1 (basic_header oc sz fin masked rsv1 rsv2 rsv3) = rsv1"
  "get_rsv2 (basic_header oc sz fin masked rsv1 rsv2 rsv3) = rsv2"
  "get_rsv3 (basic_header oc sz fin masked rsv1 rsv2 rsv3) = rsv3"
  unfolding get_fin_def get_rsv1_def get_rsv2_def get_rsv3_def frame_consts flag_test
  by (simp_all add: basic_header_def frame_consts header_bits)

lemma get_opcode_basic_header:
  "get_opcode (basic_header oc sz fin masked rsv1 rsv2 rsv3) = take_bit 4 oc"
proof -
  have "b0 (basic_header oc sz fin masked rsv1 rsv2 rsv3) AND BHB0_OPCODE = word_of_int (take_bit 4 oc)"
    by (rule bit_word_eqI) (auto simp: basic_header_def frame_consts header_bits bit_word_of_int_iff bit_take_bit_iff)
  moreover have "uint (word_of_int (take_bit 4 oc) :: u8) = take_bit 4 oc"
    by (simp add: uint_word_of_int take_bit_eq_mod mod_mod_cancel)
  ultimately show ?thesis by (simp add: get_opcode_def)
qed

lemma basic_value_small: "\<not> bit (basic_value sz) 7"
proof (cases "sz \<le> 125")
  case True
  have "\<not> bit (ucast sz :: u8) 7"
  proof -
    have "unat sz < 2 ^ 7" using True by (simp add: word_le_nat_alt)
    then have "take_bit 7 (unat sz) = unat sz" by (simp add: take_bit_nat_eq_self)
    then have "\<not> bit (unat sz) 7" by (metis bit_take_bit_iff less_irrefl)
    then show ?thesis by (simp add: bit_simps)
  qed
  then show ?thesis using True by (simp add: basic_value_def frame_consts)
qed (auto simp: basic_value_def frame_consts header_bits)

lemma get_masked_basic_header:
  "get_masked (basic_header oc sz fin masked rsv1 rsv2 rsv3) = masked"
  unfolding get_masked_def frame_consts flag_test
  using basic_value_small [of sz] by (simp add: basic_header_def frame_consts header_bits)

lemma get_basic_size_basic_header:
  "get_basic_size (basic_header oc sz fin masked rsv1 rsv2 rsv3) = basic_value sz"
proof (rule bit_word_eqI)
  fix n assume "n < LENGTH(8)"
  then have "n < 7 \<or> n = 7" by auto
  then show "bit (get_basic_size (basic_header oc sz fin masked rsv1 rsv2 rsv3)) n = bit (basic_value sz) n"
    using basic_value_small [of sz]
    by (auto simp: get_basic_size_def basic_header_def frame_consts header_bits)
qed

text \<open>A setter changes its flag and no other field.\<close>

lemma get_set:
  "get_fin (set_fin v h) = v" "get_rsv1 (set_rsv1 v h) = v" "get_rsv2 (set_rsv2 v h) = v"
  "get_rsv3 (set_rsv3 v h) = v" "get_masked (set_masked v h) = v"
  unfolding get_fin_def get_rsv1_def get_rsv2_def get_rsv3_def get_masked_def frame_consts flag_test
  by (simp_all add: set_fin_def set_rsv1_def set_rsv2_def set_rsv3_def set_masked_def frame_consts
      header_bits bit_not_iff)

section \<open>The extended header\<close>

definition size_len :: "u64 \<Rightarrow> nat" where
  "size_len sz = (if sz \<le> payload_size_basic then 0 else if sz \<le> payload_size_extended then 2 else 8)"

definition size_bytes :: "u64 \<Rightarrow> u8 list" where
  "size_bytes sz = drop (8 - size_len sz) (rev (le_bytes 8 sz))"

lemma length_size_bytes [simp]: "length (size_bytes sz) = size_len sz"
  by (simp add: size_bytes_def size_len_def)

lemma size_len_le: "size_len sz \<le> 8"
  by (simp add: size_len_def)

lemma copy_payload_bytes:
  "copy_payload sz e = (size_len sz, copy_to 0 (size_bytes sz) e)"
  by (simp add: copy_payload_def size_len_def size_bytes_def htonll_bytes)

lemma extended_header_bytes: "extended_header sz = size_bytes sz @ replicate (12 - size_len sz) 0"
  by (simp add: extended_header_def copy_payload_bytes copy_to_def no_bytes_def frame_consts)

lemma extended_header_with_key_bytes:
  "extended_header_with_key sz key = size_bytes sz @ le_bytes 4 key @ replicate (8 - size_len sz) 0"
  using size_len_le [of sz]
  by (simp add: extended_header_with_key_def copy_payload_bytes copy_to_def no_bytes_def frame_consts)

lemma get_masking_key_offset_basic_header:
  "get_masking_key_offset (basic_header oc sz fin masked rsv1 rsv2 rsv3) = size_len sz"
proof -
  have "sz \<le> 125 \<Longrightarrow> (ucast sz :: u8) \<noteq> 0x7E \<and> (ucast sz :: u8) \<noteq> 0x7F"
  proof -
    assume "sz \<le> 125"
    then have "unat sz \<le> 125" by (simp add: word_le_nat_alt)
    then have "unat (ucast sz :: u8) \<le> 125" by (simp add: unsigned_ucast_eq take_bit_nat_eq_self)
    then show ?thesis by auto
  qed
  then show ?thesis
    by (auto simp: get_masking_key_offset_def get_basic_size_basic_header basic_value_def size_len_def frame_consts)
qed

lemma get_header_len_basic_header:
  "get_header_len (basic_header oc sz fin masked rsv1 rsv2 rsv3) = 2 + size_len sz + (if masked then 4 else 0)"
  by (simp add: get_header_len_def get_masking_key_offset_basic_header get_masked_basic_header frame_consts)

lemma get_masking_key_extended:
  "get_masking_key (basic_header oc sz fin True rsv1 rsv2 rsv3) (extended_header_with_key sz key) = key"
  by (simp add: get_masking_key_def get_masked_basic_header get_masking_key_offset_basic_header
      extended_header_with_key_bytes le_word_le_bytes)

lemma jumbo_size_bytes: "size_len sz = 8 \<Longrightarrow> get_jumbo_size (size_bytes sz @ r) = sz"
  by (simp add: get_jumbo_size_def ntohll_rev size_bytes_def le_word_le_bytes)

lemma extended_size_bytes:
  assumes "size_len sz = 2"
  shows "ucast (get_extended_size (size_bytes sz @ r)) = sz"
proof -
  have "sz \<le> 0xFFFF" using assms by (auto simp: size_len_def frame_consts split: if_splits)
  then have u: "unat sz < 2 ^ 16" by (simp add: word_le_nat_alt)
  have "size_bytes sz = rev (le_bytes 2 (ucast sz :: u16))"
    using assms
    by (auto simp: size_bytes_def rev_drop intro!: nth_equalityI bit_word_eqI)
       (auto simp: bit_simps bit_nth_le_bytes rev_nth)
  then have "get_extended_size (size_bytes sz @ r) = ucast sz"
    by (simp add: get_extended_size_def ntohs_rev le_word_le_bytes)
  then show ?thesis using u by (simp add: word_unat_eq_iff unsigned_ucast_eq take_bit_nat_eq_self)
qed

lemma get_payload_size_extended:
  assumes "size_bytes sz = take (size_len sz) e"
  shows "get_payload_size (basic_header oc sz fin masked rsv1 rsv2 rsv3) e = sz"
proof -
  have e: "e = size_bytes sz @ drop (size_len sz) e" using assms by simp
  consider "size_len sz = 0" "sz \<le> 125" | "size_len sz = 2" "basic_value sz = 0x7E" | "size_len sz = 8" "basic_value sz = 0x7F"
    by (cases "sz \<le> 125"; cases "sz \<le> 0xFFFF") (auto simp: size_len_def basic_value_def frame_consts)
  then show ?thesis
  proof cases
    case 1
    then have "unat sz < 2 ^ 7" by (simp add: word_le_nat_alt)
    then have "ucast (ucast sz :: u8) = sz"
      by (simp add: word_unat_eq_iff unsigned_take_bit_eq unsigned_ucast_eq take_bit_nat_eq_self)
    then show ?thesis using 1
      by (simp add: get_payload_size_def get_basic_size_basic_header basic_value_def frame_consts)
  next
    case 2
    then show ?thesis using extended_size_bytes [of sz "drop (size_len sz) e"] e
      by (simp add: get_payload_size_def get_basic_size_basic_header frame_consts)
  next
    case 3
    then show ?thesis using jumbo_size_bytes [of sz "drop (size_len sz) e"] e
      by (simp add: get_payload_size_def get_basic_size_basic_header frame_consts)
  qed
qed

section \<open>A header on the wire\<close>

lemma get_header_len_le: "get_header_len h \<le> MAX_HEADER_LENGTH"
  by (simp add: get_header_len_def get_masking_key_offset_def frame_consts)

lemma get_header_len_ge: "BASIC_HEADER_LENGTH \<le> get_header_len h"
  by (simp add: get_header_len_def Let_def)

lemma prepare_header_masked:
  "prepare_header (basic_header oc sz fin True rsv1 rsv2 rsv3) (extended_header_with_key sz key) =
     (let h = basic_header oc sz fin True rsv1 rsv2 rsv3 in [b0 h, b1 h] @ size_bytes sz @ le_bytes 4 key)"
  by (simp add: prepare_header_def get_header_len_basic_header extended_header_with_key_bytes frame_consts Let_def)

lemma prepare_header_unmasked:
  "prepare_header (basic_header oc sz fin False rsv1 rsv2 rsv3) (extended_header sz) =
     (let h = basic_header oc sz fin False rsv1 rsv2 rsv3 in [b0 h, b1 h] @ size_bytes sz)"
  by (simp add: prepare_header_def get_header_len_basic_header extended_header_bytes frame_consts Let_def)

lemma header_fields:
  assumes "0 \<le> oc" "oc \<le> 15"
  shows "get_opcode (basic_header oc sz fin masked rsv1 rsv2 rsv3) = oc"
proof -
  have "take_bit 4 oc = oc" using assms by (simp add: take_bit_int_eq_self)
  then show ?thesis by (simp add: get_opcode_basic_header)
qed

text \<open>The extended header a receiver fills from the bytes after the first two.\<close>

definition received :: "u8 list \<Rightarrow> extended_header" where
  "received s = copy_to 0 (drop 2 s) no_bytes"

section \<open>The masking routines\<close>

definition key_at :: "masking_key \<Rightarrow> nat \<Rightarrow> u8" where
  "key_at key i = le_bytes 4 key ! (i mod 4)"

lemma key_at_add_4 [simp]: "key_at key (i + 4) = key_at key i" "key_at key (i mod 4 + j) = key_at key (i + j)"
  by (simp_all add: key_at_def mod_simps)

lemma byte_mask_loop_at:
  "k < 4 \<Longrightarrow> byte_mask_loop key k input = map (\<lambda>i. input ! i XOR key_at key (k + i)) [0 ..< length input]"
proof (induction key k input rule: byte_mask_loop.induct)
  case (2 key k b input)
  then show ?case
    by (simp add: key_at_def upt_conv_Cons map_Suc_upt [symmetric] mod_simps del: upt_Suc map_Suc_upt)
qed simp

lemma byte_mask_at: "byte_mask input key off = map (\<lambda>i. input ! i XOR key_at key (off + i)) [0 ..< length input]"
  by (simp add: byte_mask_def byte_mask_loop_at)

lemma length_byte_mask [simp]: "length (byte_mask input key off) = length input"
  by (simp add: byte_mask_at)

lemma byte_mask_append:
  "byte_mask (s @ t) key off = byte_mask s key off @ byte_mask t key (off + length s)"
  by (rule nth_equalityI) (auto simp: byte_mask_at nth_append add.assoc)

lemma byte_mask_twice: "byte_mask (byte_mask input key off) key off = input"
  by (rule nth_equalityI) (simp_all add: byte_mask_at xor.assoc)

lemma xor_le_word:
  "length c = 8 \<Longrightarrow> le_bytes 8 (le_word c XOR p) = map (\<lambda>i. c ! i XOR le_bytes 8 (p :: u64) ! i) [0 ..< 8]"
  by (rule nth_equalityI) (simp_all add: le_bytes_xor le_bytes_le_word)

lemma mask_words_Suc:
  "mask_words p (Suc n) input = mask_words p n input @ le_bytes 8 (le_word (take 8 (drop (8 * n) input)) XOR p)"
  by (simp add: mask_words_def)

lemma mask_words_at:
  "8 * n \<le> length input \<Longrightarrow>
    mask_words p n input = map (\<lambda>i. input ! i XOR le_bytes 8 p ! (i mod 8)) [0 ..< 8 * n]"
proof (induction n)
  case (Suc n)
  have "le_bytes 8 (le_word (take 8 (drop (8 * n) input)) XOR p) =
      map (\<lambda>i. input ! i XOR le_bytes 8 p ! (i mod 8)) [8 * n ..< 8 * n + 8]"
    using Suc.prems by (subst xor_le_word) (auto intro!: nth_equalityI)
  moreover have "[0 ..< 8 * Suc n] = [0 ..< 8 * n] @ [8 * n ..< 8 * n + 8]"
    using upt_add_eq_append [of 0 "8 * n" 8] by (simp add: add.commute del: upt_Suc)
  ultimately show ?case using Suc by (simp add: mask_words_Suc)
qed (simp add: mask_words_def)

text \<open>A prepared key, rotated by \<open>r\<close> bytes of its key.\<close>

definition keyed :: "masking_key \<Rightarrow> nat \<Rightarrow> u64 \<Rightarrow> bool" where
  "keyed key r p \<longleftrightarrow> (\<forall>j < 8. le_bytes 8 p ! j = key_at key (r + j))"

lemma keyedD: "keyed key r p \<Longrightarrow> j < 8 \<Longrightarrow> le_bytes 8 p ! j = key_at key (r + j)"
  by (simp add: keyed_def)

lemma keyed_prepare: "keyed key 0 (prepare_masking_key key)"
  unfolding keyed_def
proof (intro allI impI bit_word_eqI)
  fix j n :: nat assume j: "j < 8" and n: "n < LENGTH(8)"
  have "bit (prepare_masking_key key) (8 * j + n) \<longleftrightarrow> bit key (8 * (j mod 4) + n)"
  proof (cases "j < 4")
    case True
    then show ?thesis using n by (auto simp: prepare_masking_key_def bit_simps)
  next
    case False
    then have "j mod 4 = j - 4" using j mod_if [of j 4] by simp
    then show ?thesis using n j False
      by (auto simp: prepare_masking_key_def bit_simps algebra_simps dest: bit_imp_le_length)
  qed
  then show "bit (le_bytes 8 (prepare_masking_key key) ! j) n = bit (key_at key (0 + j)) n"
    using j n by (simp add: key_at_def bit_nth_le_bytes)
qed

lemma circshift_at:
  assumes "off < 8" "j < 8"
  shows "le_bytes 8 (circshift_prepared_key p off) ! j = le_bytes 8 p ! ((off + j) mod 8)"
proof (rule bit_word_eqI)
  fix n assume n: "n < LENGTH(8)"
  have "bit (circshift_prepared_key p off) (8 * j + n) \<longleftrightarrow> bit p (8 * ((off + j) mod 8) + n)"
  proof (cases "off + j < 8")
    case True
    then show ?thesis using n
      by (auto simp: circshift_prepared_key_def bit_simps algebra_simps)
  next
    case False
    then have "(off + j) mod 8 = off + j - 8" using assms mod_if [of "off + j" 8] by simp
    then show ?thesis using n assms False
      by (auto simp: circshift_prepared_key_def bit_simps algebra_simps dest: bit_imp_le_length)
  qed
  then show "bit (le_bytes 8 (circshift_prepared_key p off) ! j) n = bit (le_bytes 8 p ! ((off + j) mod 8)) n"
    using assms n by (simp add: bit_nth_le_bytes)
qed

lemma keyed_circshift:
  assumes "keyed key r p" "off < 8"
  shows "keyed key (r + off) (circshift_prepared_key p off)"
  unfolding keyed_def
proof (intro allI impI)
  fix j :: nat assume j: "j < 8"
  have "(r + (off + j) mod 8) mod 4 = (r + off + j) mod 4"
    by (metis add.assoc mod_add_right_eq mod_mod_cancel dvd_def mult_2_right numeral_Bit0 mult_numeral_1_right)
  then show "le_bytes 8 (circshift_prepared_key p off) ! j = key_at key (r + off + j)"
    using assms j by (simp add: circshift_at keyedD key_at_def)
qed

lemma keyed_mod_4: "keyed key (r + k mod 4) p \<longleftrightarrow> keyed key (r + k) p"
proof -
  have "key_at key (r + k mod 4 + j) = key_at key (r + k + j)" for j
    unfolding key_at_def by (metis mod_add_left_eq mod_add_right_eq)
  then show ?thesis by (simp add: keyed_def)
qed

lemma byte_mask_circ_keyed:
  assumes "keyed key r p"
  shows "fst (byte_mask_circ input p) = byte_mask input key r"
    "keyed key (r + length input) (snd (byte_mask_circ input p))"
proof -
  have "le_bytes 4 (ucast p :: u32) ! (i mod 4) = key_at key (r + i)" for i
  proof -
    have "le_bytes 4 (ucast p :: u32) ! (i mod 4) = le_bytes 8 p ! (i mod 4)"
      by (rule bit_word_eqI) (auto simp: nth_le_bytes bit_simps)
    also have "\<dots> = key_at key (r + i mod 4)"
      by (rule keyedD [OF assms]) (rule less_trans [OF mod_less_divisor], simp_all)
    finally show ?thesis by (simp add: key_at_def mod_simps)
  qed
  then show "fst (byte_mask_circ input p) = byte_mask input key r"
    by (simp add: byte_mask_circ_def byte_mask_at)
  show "keyed key (r + length input) (snd (byte_mask_circ input p))"
    using keyed_circshift [OF assms, of "length input mod 4"] less_trans [of "length input mod 4" 4 8]
    by (simp add: byte_mask_circ_def keyed_mod_4)
qed


lemma word_mask_circ_keyed:
  assumes "keyed key r p"
  shows "fst (word_mask_circ input p) = byte_mask input key r"
    "keyed key (r + length input) (snd (word_mask_circ input p))"
proof -
  define n where "n = length input div 8"
  define l where "l = length input mod 8"
  have len: "length input = 8 * n + l" and l: "l < 8" by (simp_all add: n_def l_def)
  have key: "le_bytes 8 p ! (i mod 8) = key_at key (r + i)" for i
  proof -
    have "(r + i mod 8) mod 4 = (r + i) mod 4"
      using mod_mod_cancel [of 4 8 i] mod_add_right_eq [of r "i mod 8" 4] mod_add_right_eq [of r i 4] by simp
    then show ?thesis using keyedD [OF assms, of "i mod 8"] by (simp add: key_at_def)
  qed
  have words: "mask_words p n input = map (\<lambda>i. input ! i XOR key_at key (r + i)) [0 ..< 8 * n]"
    using len by (simp add: mask_words_at key)
  have rest: "map (\<lambda>i. input ! (8 * n + i) XOR le_bytes 8 p ! i) [0 ..< l] =
      map (\<lambda>i. input ! i XOR key_at key (r + i)) [8 * n ..< 8 * n + l]"
  proof (rule nth_equalityI)
    fix i assume "i < length (map (\<lambda>i. input ! (8 * n + i) XOR le_bytes 8 p ! i) [0 ..< l])"
    then show "map (\<lambda>i. input ! (8 * n + i) XOR le_bytes 8 p ! i) [0 ..< l] ! i =
        map (\<lambda>i. input ! i XOR key_at key (r + i)) [8 * n ..< 8 * n + l] ! i"
      using l key [of "8 * n + i"] by simp
  qed simp
  have out: "word_mask_circ input p =
      (mask_words p n input @ map (\<lambda>i. input ! (8 * n + i) XOR le_bytes 8 p ! i) [0 ..< l],
       circshift_prepared_key p l)"
    using len l by (simp add: word_mask_circ_def Let_def mult.commute flip: n_def)
  show "fst (word_mask_circ input p) = byte_mask input key r"
    unfolding out byte_mask_at
    using upt_add_eq_append [of 0 "8 * n" l] by (simp add: words rest len)
  have "keyed key (r + l) (circshift_prepared_key p l)"
    using assms l by (rule keyed_circshift)
  moreover have "(r + l) mod 4 = (r + length input) mod 4"
  proof -
    have "r + length input = r + l + n * 2 * 4" using len by simp
    then show ?thesis by (metis mod_mult_self1)
  qed
  ultimately show "keyed key (r + length input) (snd (word_mask_circ input p))"
    by (simp add: out keyed_def key_at_def) (metis mod_add_left_eq)
qed

lemma word_mask_exact_byte_mask: "word_mask_exact input key = byte_mask input key 0"
proof -
  define n where "n = length input div 8"
  have len: "8 * n \<le> length input" by (simp add: n_def)
  have key: "le_bytes 8 (prepare_masking_key key) ! (i mod 8) = key_at key i" for i
    using keyedD [OF keyed_prepare, of "i mod 8" key] mod_mod_cancel [of 4 8 i] by (simp add: key_at_def)
  show ?thesis
    using upt_add_eq_append [of 0 "8 * n" "length input - 8 * n"] len
    by (simp add: word_mask_exact_def byte_mask_at mask_words_at key Let_def mult.commute key_at_def flip: n_def)
qed

text \<open>A stream of chunks, each masked with the key the one before returned.\<close>

fun mask_stream :: "(u8 list \<Rightarrow> u64 \<Rightarrow> u8 list \<times> u64) \<Rightarrow> u64 \<Rightarrow> u8 list list \<Rightarrow> u8 list" where
  "mask_stream f p [] = []"
| "mask_stream f p (c # cs) = (let (out, p') = f c p in out @ mask_stream f p' cs)"

text \<open>What the two streaming routines promise, and what follows for a stream.\<close>

locale masker =
  fixes mask_circ :: "u8 list \<Rightarrow> u64 \<Rightarrow> u8 list \<times> u64"
  assumes masks: "keyed key r p \<Longrightarrow> fst (mask_circ input p) = byte_mask input key r"
    and returns_key: "keyed key r p \<Longrightarrow> keyed key (r + length input) (snd (mask_circ input p))"
begin

lemma stream: "keyed key r p \<Longrightarrow> mask_stream mask_circ p cs = byte_mask (concat cs) key r"
proof (induction cs arbitrary: p r)
  case Nil
  show ?case by (simp add: byte_mask_at)
next
  case (Cons c cs)
  obtain out p' where f: "mask_circ c p = (out, p')" by force
  then have "out = byte_mask c key r" "keyed key (r + length c) p'"
    using masks [OF Cons.prems, of c] returns_key [OF Cons.prems, of c] by simp_all
  then show ?case using Cons.IH by (simp add: f byte_mask_append)
qed

lemma mask_unmask:
  "keyed key r p \<Longrightarrow> fst (mask_circ (byte_mask input key r) p) = input"
  by (simp add: masks byte_mask_twice)

end

interpretation by_bytes: masker byte_mask_circ
  by unfold_locales (rule byte_mask_circ_keyed, assumption)+

interpretation by_words: masker word_mask_circ
  by unfold_locales (rule word_mask_circ_keyed, assumption)+

section \<open>Properties\<close>

text \<open>The word by word masking of a whole buffer is the byte by byte masking.\<close>

theorem word_mask_exact_equiv: "word_mask_exact input key = byte_mask input key 0"
  by (rule word_mask_exact_byte_mask)

text \<open>C33: However a payload is cut into chunks, masking chunk after chunk with the returned key, by bytes
  or by words, is masking the whole payload byte by byte.\<close>

theorem mask_stream_chunks:
  "mask_stream byte_mask_circ (prepare_masking_key key) chunks = byte_mask (concat chunks) key 0 \<and>
   mask_stream word_mask_circ (prepare_masking_key key) chunks = byte_mask (concat chunks) key 0"
  by (simp add: keyed_prepare by_bytes.stream by_words.stream)

text \<open>A header is read back from its bytes on the wire: the flags, the opcode, the payload size at
  every one of the three encodings, and the masking key; the bytes are as many as the first two
  announce, and never more than 14.\<close>

theorem header_roundtrip:
  assumes "0 \<le> oc" "oc \<le> 15"
  shows "let h = basic_header oc sz fin True rsv1 rsv2 rsv3;
             s = prepare_header h (extended_header_with_key sz key);
             h' = \<lparr>b0 = s ! 0, b1 = s ! 1\<rparr>
         in get_fin h' = fin \<and> get_rsv1 h' = rsv1 \<and> get_rsv2 h' = rsv2 \<and> get_rsv3 h' = rsv3 \<and>
            get_opcode h' = oc \<and> get_masked h' \<and>
            get_payload_size h' (received s) = sz \<and> get_masking_key h' (received s) = key \<and>
            length s = get_header_len h' \<and> length s \<le> MAX_HEADER_LENGTH"
proof -
  define h where "h = basic_header oc sz fin True rsv1 rsv2 rsv3"
  define s where "s = prepare_header h (extended_header_with_key sz key)"
  have s: "s = [b0 h, b1 h] @ size_bytes sz @ le_bytes 4 key"
    using prepare_header_masked [of oc sz fin rsv1 rsv2 rsv3 key] by (simp add: s_def h_def Let_def)
  then have h': "\<lparr>b0 = s ! 0, b1 = s ! 1\<rparr> = h" by simp
  have r: "received s = extended_header_with_key sz key"
    by (simp add: received_def s copy_to_def no_bytes_def extended_header_with_key_bytes frame_consts)
  have "get_payload_size h (received s) = sz"
    unfolding h_def r by (rule get_payload_size_extended) (simp add: extended_header_with_key_bytes)
  moreover have "length s = get_header_len h" by (simp add: s h_def get_header_len_basic_header)
  moreover have "length s \<le> MAX_HEADER_LENGTH" using calculation(2) get_header_len_le [of h] by simp
  moreover have "get_masking_key h (received s) = key" by (simp add: r h_def get_masking_key_extended)
  moreover have "get_fin h = fin" "get_rsv1 h = rsv1" "get_rsv2 h = rsv2" "get_rsv3 h = rsv3"
      "get_opcode h = oc" "get_masked h"
    using assms by (simp_all add: h_def get_flags_basic_header header_fields get_masked_basic_header)
  ultimately show ?thesis
    unfolding Let_def h_def [symmetric] unfolding s_def [symmetric] unfolding h' by simp
qed

text \<open>A text frame of 300 bytes, masked with \<open>0x01020304\<close>.\<close>

lemma header_roundtrip_witness:
  "prepare_header (basic_header 1 300 True True False False False) (extended_header_with_key 300 0x01020304) =
     [0x81, 0xFE, 0x01, 0x2C, 0x04, 0x03, 0x02, 0x01] \<and>
   get_payload_size \<lparr>b0 = 0x81, b1 = 0xFE\<rparr> (received [0x81, 0xFE, 0x01, 0x2C, 0x04, 0x03, 0x02, 0x01]) = 300"
proof -
  have s: "prepare_header (basic_header 1 300 True True False False False) (extended_header_with_key 300 0x01020304) =
     [0x81, 0xFE, 0x01, 0x2C, 0x04, 0x03, 0x02, 0x01]"
    by code_simp
  show ?thesis
    using header_roundtrip [of 1 300 True False False False "0x01020304"] by (simp add: s Let_def)
qed

end
