(* ===== verification/Ws_Error.thy ===== *)
theory Ws_Error
  imports Prelude
begin

text \<open>
  The error codes of the websocket library and their messages, which end up in close frames and in the
  close reason of a connection: the processor's category
  (Client/cpp/websocketpp/websocketpp/processors/base.hpp), the library's own (error.hpp) and the
  transport's (transport/base/connection.hpp).
\<close>

section \<open>Categories\<close>

datatype processor_error =
    general | bad_request | protocol_violation | message_too_big | invalid_payload | invalid_arguments
  | invalid_opcode | control_too_big | invalid_rsv_bit | fragmented_control | invalid_continuation
  | masking_required | masking_forbidden | non_minimal_encoding | requires_64bit | invalid_utf8
  | not_implemented | invalid_http_method | invalid_http_version | invalid_http_status
  | missing_required_header | sha1_library | no_protocol_support | reserved_close_code
  | invalid_close_code | reason_requires_code | subprotocol_parse_error | extension_parse_error
  | extensions_disabled | short_key3

text \<open>The library's own codes, with a prefix where the categories share a name.\<close>

datatype library_error =
    lib_general | send_queue_full | payload_violation | endpoint_not_secure | endpoint_unavailable
  | invalid_uri | no_outgoing_buffers | no_incoming_buffers | invalid_state | bad_close_code
  | lib_reserved_close_code | lib_invalid_close_code | lib_invalid_utf8 | invalid_subprotocol
  | bad_connection | lib_test | con_creation_failed | unrequested_subprotocol | client_only | server_only
  | http_connection_ended | open_handshake_timeout | close_handshake_timeout | invalid_port
  | async_accept_not_listening | operation_canceled | rejected | upgrade_required | invalid_version
  | unsupported_version | http_parse_error | extension_neg_failed

datatype transport_error =
    transport_general | pass_through | invalid_num_bytes | double_read | operation_aborted
  | operation_not_supported | eof | tls_short_read | transport_timeout | action_after_shutdown | tls_error

text \<open>\<open>lib::error_code\<close>: no error, or a value with its category; the class \<open>disabled\<close> of the compression
  extension has a category of its own.\<close>

datatype error_code =
  No_error | Processor processor_error | Library library_error | Transport transport_error | Deflate_disabled

section \<open>Messages\<close>

fun processor_message :: "processor_error \<Rightarrow> string" where
  "processor_message general = ''Generic processor error''"
| "processor_message bad_request = ''invalid user input''"
| "processor_message protocol_violation = ''Generic protocol violation''"
| "processor_message message_too_big = ''A message was too large''"
| "processor_message invalid_payload = ''A payload contained invalid data''"
| "processor_message invalid_arguments = ''invalid function arguments''"
| "processor_message invalid_opcode = ''invalid opcode''"
| "processor_message control_too_big = ''Control messages are limited to fewer than 125 characters''"
| "processor_message invalid_rsv_bit = ''Invalid use of reserved bits''"
| "processor_message fragmented_control = ''Control messages cannot be fragmented''"
| "processor_message invalid_continuation = ''Invalid message continuation''"
| "processor_message masking_required = ''Clients may not send unmasked frames''"
| "processor_message masking_forbidden = ''Servers may not send masked frames''"
| "processor_message non_minimal_encoding = ''Payload length was not minimally encoded''"
| "processor_message requires_64bit = ''64 bit frames are not supported on 32 bit systems''"
| "processor_message invalid_utf8 = ''Invalid UTF8 encoding''"
| "processor_message not_implemented = ''Operation required not implemented functionality''"
| "processor_message invalid_http_method = ''Invalid HTTP method.''"
| "processor_message invalid_http_version = ''Invalid HTTP version.''"
| "processor_message invalid_http_status = ''Invalid HTTP status.''"
| "processor_message missing_required_header = ''A required HTTP header is missing''"
| "processor_message sha1_library = ''SHA-1 library error''"
| "processor_message no_protocol_support = ''The WebSocket protocol version in use does not support this feature''"
| "processor_message reserved_close_code = ''Reserved close code used''"
| "processor_message invalid_close_code = ''Invalid close code used''"
| "processor_message reason_requires_code = ''Using a close reason requires a valid close code''"
| "processor_message subprotocol_parse_error = ''Error parsing subprotocol header''"
| "processor_message extension_parse_error = ''Error parsing extension header''"
| "processor_message extensions_disabled = ''Extensions are disabled''"
| "processor_message short_key3 = ''Short Hybi00 Key 3 read''"

fun library_message :: "library_error \<Rightarrow> string" where
  "library_message lib_general = ''Generic error''"
| "library_message send_queue_full = ''send queue full''"
| "library_message payload_violation = ''payload violation''"
| "library_message endpoint_not_secure = ''endpoint not secure''"
| "library_message endpoint_unavailable = ''endpoint not available''"
| "library_message invalid_uri = ''invalid uri''"
| "library_message no_outgoing_buffers = ''no outgoing message buffers''"
| "library_message no_incoming_buffers = ''no incoming message buffers''"
| "library_message invalid_state = ''invalid state''"
| "library_message bad_close_code = ''Unable to extract close code''"
| "library_message lib_invalid_close_code = ''Extracted close code is in an invalid range''"
| "library_message lib_reserved_close_code = ''Extracted close code is in a reserved range''"
| "library_message lib_invalid_utf8 = ''Invalid UTF-8''"
| "library_message invalid_subprotocol = ''Invalid subprotocol''"
| "library_message bad_connection = ''Bad Connection''"
| "library_message lib_test = ''Test Error''"
| "library_message con_creation_failed = ''Connection creation attempt failed''"
| "library_message unrequested_subprotocol = ''Selected subprotocol was not requested by the client''"
| "library_message client_only = ''Feature not available on server endpoints''"
| "library_message server_only = ''Feature not available on client endpoints''"
| "library_message http_connection_ended = ''HTTP connection ended''"
| "library_message open_handshake_timeout = ''The opening handshake timed out''"
| "library_message close_handshake_timeout = ''The closing handshake timed out''"
| "library_message invalid_port = ''Invalid URI port''"
| "library_message async_accept_not_listening = ''Async Accept not listening''"
| "library_message operation_canceled = ''Operation canceled''"
| "library_message rejected = ''Connection rejected''"
| "library_message upgrade_required = ''Upgrade required''"
| "library_message invalid_version = ''Invalid version''"
| "library_message unsupported_version = ''Unsupported version''"
| "library_message http_parse_error = ''HTTP parse error''"
| "library_message extension_neg_failed = ''Extension negotiation failed''"

fun transport_message :: "transport_error \<Rightarrow> string" where
  "transport_message transport_general = ''Generic transport policy error''"
| "transport_message pass_through = ''Underlying Transport Error''"
| "transport_message invalid_num_bytes = ''async_read_at_least call requested more bytes than buffer can store''"
| "transport_message double_read = ''Unknown''"
| "transport_message operation_aborted = ''The operation was aborted''"
| "transport_message operation_not_supported = ''The operation is not supported by this transport''"
| "transport_message eof = ''End of File''"
| "transport_message tls_short_read = ''TLS Short Read''"
| "transport_message transport_timeout = ''Timer Expired''"
| "transport_message action_after_shutdown = ''A transport action was requested after shutdown''"
| "transport_message tls_error = ''Generic TLS related error''"

text \<open>\<open>ec.message()\<close>, as the bytes a close frame takes. The default error code is that of the system
  category, whose text the code here never asks for.\<close>

definition ec_message :: "error_code \<Rightarrow> u8 list" where
  "ec_message ec = map byte
     (case ec of
        Processor e \<Rightarrow> processor_message e
      | Library e \<Rightarrow> library_message e
      | Transport e \<Rightarrow> transport_message e
      | Deflate_disabled \<Rightarrow> ''Use of methods from disabled extension''
      | No_error \<Rightarrow> ''Success'')"

end
