(* ===== verification/Ws_Close.thy ===== *)
theory Ws_Close
  imports Ws_Frame Ws_Utf8 Ws_Error
begin

text \<open>
  The close codes of the websocket library, the code that answers an error
  (Client/cpp/websocketpp/websocketpp/processors/base.hpp) and the reading of a close payload (close.hpp).
\<close>

section \<open>Close codes\<close>

type_synonym close_code = u16

definition close_blank :: close_code where "close_blank = 0"
definition close_normal :: close_code where "close_normal = 1000"
definition close_going_away :: close_code where "close_going_away = 1001"
definition close_protocol_error :: close_code where "close_protocol_error = 1002"
definition close_unsupported_data :: close_code where "close_unsupported_data = 1003"
definition close_no_status :: close_code where "close_no_status = 1005"
definition close_abnormal_close :: close_code where "close_abnormal_close = 1006"
definition close_invalid_payload :: close_code where "close_invalid_payload = 1007"
definition close_policy_violation :: close_code where "close_policy_violation = 1008"
definition close_message_too_big :: close_code where "close_message_too_big = 1009"
definition close_extension_required :: close_code where "close_extension_required = 1010"
definition close_internal_endpoint_error :: close_code where "close_internal_endpoint_error = 1011"
definition close_service_restart :: close_code where "close_service_restart = 1012"
definition close_try_again_later :: close_code where "close_try_again_later = 1013"
definition close_tls_handshake :: close_code where "close_tls_handshake = 1015"
definition close_subprotocol_error :: close_code where "close_subprotocol_error = 3000"
definition close_invalid_subprotocol_data :: close_code where "close_invalid_subprotocol_data = 3001"
definition close_rsv_start :: close_code where "close_rsv_start = 1016"
definition close_rsv_end :: close_code where "close_rsv_end = 2999"
definition close_invalid_low :: close_code where "close_invalid_low = 999"
definition close_invalid_high :: close_code where "close_invalid_high = 5000"

lemmas close_consts = close_blank_def close_normal_def close_going_away_def close_protocol_error_def
  close_unsupported_data_def close_no_status_def close_abnormal_close_def close_invalid_payload_def
  close_policy_violation_def close_message_too_big_def close_extension_required_def
  close_internal_endpoint_error_def close_service_restart_def close_try_again_later_def
  close_tls_handshake_def close_subprotocol_error_def close_invalid_subprotocol_data_def
  close_rsv_start_def close_rsv_end_def close_invalid_low_def close_invalid_high_def

definition close_reserved :: "close_code \<Rightarrow> bool" where
  "close_reserved cc \<longleftrightarrow> (cc \<ge> close_rsv_start \<and> cc \<le> close_rsv_end) \<or> cc = 1004 \<or> cc = 1014"

definition close_invalid :: "close_code \<Rightarrow> bool" where
  "close_invalid cc \<longleftrightarrow>
     cc \<le> close_invalid_low \<or> cc \<ge> close_invalid_high \<or>
     cc = close_no_status \<or> cc = close_abnormal_close \<or> cc = close_tls_handshake"

definition close_terminal :: "close_code \<Rightarrow> bool" where
  "close_terminal cc \<longleftrightarrow>
     cc = close_protocol_error \<or> cc = close_invalid_payload \<or> cc = close_policy_violation \<or>
     cc = close_message_too_big \<or> cc = close_internal_endpoint_error"

definition close_get_string :: "close_code \<Rightarrow> string" where
  "close_get_string cc =
     (if cc = close_normal then ''Normal close''
      else if cc = close_going_away then ''Going away''
      else if cc = close_protocol_error then ''Protocol error''
      else if cc = close_unsupported_data then ''Unsupported data''
      else if cc = close_no_status then ''No status set''
      else if cc = close_abnormal_close then ''Abnormal close''
      else if cc = close_invalid_payload then ''Invalid payload''
      else if cc = close_policy_violation then ''Policy violoation''
      else if cc = close_message_too_big then ''Message too big''
      else if cc = close_extension_required then ''Extension required''
      else if cc = close_internal_endpoint_error then ''Internal endpoint error''
      else if cc = close_tls_handshake then ''TLS handshake failure''
      else if cc = close_subprotocol_error then ''Generic subprotocol error''
      else if cc = close_invalid_subprotocol_data then ''Invalid subprotocol data''
      else ''Unknown'')"

text \<open>\<open>to_ws\<close>: the close code that answers an error of the processor.\<close>

definition to_ws :: "error_code \<Rightarrow> close_code" where
  "to_ws ec =
     (case ec of
        Processor e \<Rightarrow>
          (if e \<in> {protocol_violation, control_too_big, invalid_opcode, invalid_rsv_bit, fragmented_control,
                    invalid_continuation, masking_required, masking_forbidden, reserved_close_code,
                    invalid_close_code}
           then close_protocol_error
           else if e \<in> {invalid_payload, invalid_utf8} then close_invalid_payload
           else if e = message_too_big then close_message_too_big
           else close_internal_endpoint_error)
      | _ \<Rightarrow> close_blank)"

section \<open>Reading a close payload\<close>

definition extract_code :: "u8 list \<Rightarrow> close_code \<times> error_code" where
  "extract_code payload =
     (if length payload = 0 then (close_no_status, No_error)
      else if length payload = 1 then (close_protocol_error, Library bad_close_code)
      else
        (let cc = ntohs (le_word [payload ! 0, payload ! 1]);
             ec = (if close_invalid cc then Library lib_invalid_close_code else No_error);
             ec' = (if close_reserved cc then Library lib_reserved_close_code else ec)
         in (cc, ec')))"

definition extract_reason :: "u8 list \<Rightarrow> u8 list \<times> error_code" where
  "extract_reason payload =
     (let reason = (if length payload > 2 then drop 2 payload else [])
      in (reason, if \<not> validate reason then Library lib_invalid_utf8 else No_error))"

end
