(* ===== verification/Ws_Hybi13.thy ===== *)
theory Ws_Hybi13
  imports Ws_Close
begin

text \<open>
  The RFC 6455 processor (Client/cpp/websocketpp/websocketpp/processors/hybi13.hpp) on messages
  (message_buffer/message.hpp): the state machine that reads frames from a byte stream (\<open>consume\<close>), and
  the preparation of data and control frames. The extension \<open>permessage_deflate\<close> is the class
  \<open>disabled\<close> of the client's configuration: never enabled, its \<open>compress\<close> and \<open>decompress\<close> return an
  error. A \<open>std::string\<close> of payload is its bytes; \<open>size_t\<close> is 64 bits wide. \<open>consume\<close> unmasks the
  caller's buffer in place; the caller does not read those bytes again, and they are no part of the state.
\<close>

unbundle bit_operations_syntax

section \<open>Messages\<close>

record message =
  msg_header :: "u8 list"
  msg_payload :: "u8 list"
  msg_opcode :: opcode
  msg_prepared :: bool
  msg_fin :: bool
  msg_terminal :: bool
  msg_compressed :: bool

text \<open>A message with an opcode; its size is only reserved.\<close>

definition message :: "opcode \<Rightarrow> message" where
  "message oc = \<lparr>msg_header = [], msg_payload = [], msg_opcode = oc, msg_prepared = False, msg_fin = True,
     msg_terminal = False, msg_compressed = False\<rparr>"

section \<open>The processor\<close>

datatype hybi_state = HEADER_BASIC | HEADER_EXTENDED | EXTENSION | APPLICATION | READY | FATAL_ERROR

record msg_metadata =
  msg_ptr :: "message option"
  prepared_key :: u64
  utf8 :: validator

definition no_msg :: msg_metadata where
  "no_msg = \<lparr>msg_ptr = None, prepared_key = 0, utf8 = validator\<rparr>"

definition msg_metadata :: "message \<Rightarrow> masking_key \<Rightarrow> msg_metadata" where
  "msg_metadata m key = \<lparr>msg_ptr = Some m, prepared_key = prepare_masking_key key, utf8 = validator\<rparr>"

text \<open>\<open>m_current_msg\<close> points to one of the two messages.\<close>

datatype msg_kind = Data_msg | Control_msg

record hybi13 =
  m_server :: bool
  m_max_message_size :: u64
  m_proc_state :: hybi_state
  m_bytes_needed :: u64
  m_cursor :: nat
  m_data_msg :: msg_metadata
  m_control_msg :: msg_metadata
  m_current_msg :: msg_kind
  m_basic_header :: basic_header
  m_extended_header :: extended_header

definition current_msg :: "hybi13 \<Rightarrow> msg_metadata" where
  "current_msg h = (case m_current_msg h of Data_msg \<Rightarrow> m_data_msg h | Control_msg \<Rightarrow> m_control_msg h)"

definition set_current_msg :: "msg_metadata \<Rightarrow> hybi13 \<Rightarrow> hybi13" where
  "set_current_msg m h =
     (case m_current_msg h of Data_msg \<Rightarrow> h\<lparr>m_data_msg := m\<rparr> | Control_msg \<Rightarrow> h\<lparr>m_control_msg := m\<rparr>)"

definition reset_headers :: "hybi13 \<Rightarrow> hybi13" where
  "reset_headers h = h\<lparr>
     m_proc_state := HEADER_BASIC,
     m_bytes_needed := of_nat BASIC_HEADER_LENGTH,
     m_basic_header := \<lparr>b0 = 0x00, b1 = 0x00\<rparr>,
     m_extended_header := no_bytes\<rparr>"

text \<open>The constructor leaves \<open>m_cursor\<close> and \<open>m_current_msg\<close> to be set before their first use.\<close>

definition hybi13 :: "bool \<Rightarrow> u64 \<Rightarrow> hybi13" where
  "hybi13 server max_size = reset_headers \<lparr>
     m_server = server, m_max_message_size = max_size, m_proc_state = HEADER_BASIC, m_bytes_needed = 0,
     m_cursor = 0, m_data_msg = no_msg, m_control_msg = no_msg, m_current_msg = Data_msg,
     m_basic_header = \<lparr>b0 = 0x00, b1 = 0x00\<rparr>, m_extended_header = no_bytes\<rparr>"

definition ready :: "hybi13 \<Rightarrow> bool" where
  "ready h \<longleftrightarrow> m_proc_state h = READY"

definition get_error :: "hybi13 \<Rightarrow> bool" where
  "get_error h \<longleftrightarrow> m_proc_state h = FATAL_ERROR"

text \<open>The class \<open>disabled\<close>.\<close>

definition deflate_is_enabled :: bool where "deflate_is_enabled = False"

definition deflate_decompress :: "u8 list \<Rightarrow> error_code" where "deflate_decompress buf = Deflate_disabled"

section \<open>Reading frames\<close>

definition validate_incoming_basic_header :: "basic_header \<Rightarrow> bool \<Rightarrow> bool \<Rightarrow> error_code" where
  "validate_incoming_basic_header h is_server new_msg =
     (let oc = get_opcode h in
      if is_control oc \<and> ucast (get_basic_size h) > payload_size_basic then Processor control_too_big
      else if get_rsv1 h \<and> (\<not> deflate_is_enabled \<or> is_control oc) then Processor invalid_rsv_bit
      else if get_rsv2 h \<or> get_rsv3 h then Processor invalid_rsv_bit
      else if op_reserved oc then Processor invalid_opcode
      else if op_invalid oc then Processor invalid_opcode
      else if is_control oc \<and> \<not> get_fin h then Processor fragmented_control
      else if new_msg \<and> oc = op_continuation then Processor invalid_continuation
      else if \<not> new_msg \<and> \<not> is_control oc \<and> oc \<noteq> op_continuation then Processor invalid_continuation
      else if is_server \<and> \<not> get_masked h then Processor masking_required
      else if \<not> is_server \<and> get_masked h then Processor masking_forbidden
      else No_error)"

definition validate_incoming_extended_header :: "basic_header \<Rightarrow> extended_header \<Rightarrow> error_code" where
  "validate_incoming_extended_header h e =
     (let basic_size = get_basic_size h; payload_size = get_payload_size h e in
      if basic_size = payload_size_code_16bit \<and> payload_size \<le> payload_size_basic
      then Processor non_minimal_encoding
      else if basic_size = payload_size_code_64bit \<and> payload_size \<le> payload_size_extended
      then Processor non_minimal_encoding
      else No_error)"

text \<open>The copying routines return the number of bytes they took.\<close>

definition copy_basic_header_bytes :: "u8 list \<Rightarrow> hybi13 \<Rightarrow> nat \<times> hybi13" where
  "copy_basic_header_bytes buf h =
     (if length buf = 0 \<or> m_bytes_needed h = 0 then (0, h)
      else if length buf > 1 then
        (if m_bytes_needed h = 2
         then (2, h\<lparr>m_basic_header := \<lparr>b0 = buf ! 0, b1 = buf ! 1\<rparr>, m_bytes_needed := m_bytes_needed h - 2\<rparr>)
         else (1, h\<lparr>m_basic_header := (m_basic_header h)\<lparr>b1 := buf ! 0\<rparr>, m_bytes_needed := m_bytes_needed h - 1\<rparr>))
      else
        (if m_bytes_needed h = 2
         then (1, h\<lparr>m_basic_header := (m_basic_header h)\<lparr>b0 := buf ! 0\<rparr>, m_bytes_needed := m_bytes_needed h - 1\<rparr>)
         else (1, h\<lparr>m_basic_header := (m_basic_header h)\<lparr>b1 := buf ! 0\<rparr>, m_bytes_needed := m_bytes_needed h - 1\<rparr>)))"

definition copy_extended_header_bytes :: "u8 list \<Rightarrow> hybi13 \<Rightarrow> nat \<times> hybi13" where
  "copy_extended_header_bytes buf h =
     (let bytes_to_read = min (unat (m_bytes_needed h)) (length buf)
      in (bytes_to_read,
          h\<lparr>m_extended_header := copy_to (m_cursor h) (take bytes_to_read buf) (m_extended_header h),
            m_cursor := m_cursor h + bytes_to_read,
            m_bytes_needed := m_bytes_needed h - of_nat bytes_to_read\<rparr>))"

text \<open>All of \<open>buf\<close> is payload of the current frame.\<close>

definition process_payload_bytes :: "u8 list \<Rightarrow> hybi13 \<Rightarrow> nat \<times> error_code \<times> hybi13" where
  "process_payload_bytes buf h =
     (let (buf1, cur1) =
        (if get_masked (m_basic_header h)
         then let (out, key) = byte_mask_circ buf (prepared_key (current_msg h))
              in (out, (current_msg h)\<lparr>prepared_key := key\<rparr>)
         else (buf, current_msg h));
          m = the (msg_ptr cur1)
      in if deflate_is_enabled \<and> msg_compressed m
         then (0, deflate_decompress buf1, set_current_msg cur1 h)
         else
           (let m2 = m\<lparr>msg_payload := msg_payload m @ buf1\<rparr>; cur2 = cur1\<lparr>msg_ptr := Some m2\<rparr> in
            if msg_opcode m2 = op_text then
              (let (ok, v) = decode_bytes buf1 (utf8 cur2); cur3 = cur2\<lparr>utf8 := v\<rparr> in
               if \<not> ok then (0, Processor invalid_utf8, set_current_msg cur3 h)
               else (length buf, No_error,
                 (set_current_msg cur3 h)\<lparr>m_bytes_needed := m_bytes_needed h - of_nat (length buf)\<rparr>))
            else (length buf, No_error,
                 (set_current_msg cur2 h)\<lparr>m_bytes_needed := m_bytes_needed h - of_nat (length buf)\<rparr>)))"

definition finalize_message :: "hybi13 \<Rightarrow> error_code \<times> hybi13" where
  "finalize_message h =
     (if deflate_is_enabled \<and> msg_compressed (the (msg_ptr (current_msg h)))
      then (deflate_decompress [0x00, 0x00, 0xff, 0xff], h)
      else if get_opcode (m_basic_header h) = op_text \<and> \<not> complete (utf8 (current_msg h))
      then (Processor invalid_utf8, h)
      else (No_error, h\<lparr>m_proc_state := READY\<rparr>))"

text \<open>What \<open>consume\<close> does with a complete header: the message it belongs to.\<close>

definition begin_payload :: "hybi13 \<Rightarrow> error_code \<times> hybi13" where
  "begin_payload h =
     (let key = get_masking_key (m_basic_header h) (m_extended_header h);
          needed = get_payload_size (m_basic_header h) (m_extended_header h);
          h = h\<lparr>m_proc_state := APPLICATION, m_bytes_needed := needed\<rparr>;
          oc = get_opcode (m_basic_header h)
      in if is_control oc
         then (No_error, h\<lparr>m_control_msg := msg_metadata (message oc) key, m_current_msg := Control_msg\<rparr>)
         else case msg_ptr (m_data_msg h) of
           None \<Rightarrow>
             (if needed > m_max_message_size h then (Processor message_too_big, h)
              else let m = message oc;
                       m = (if deflate_is_enabled then m\<lparr>msg_compressed := get_rsv1 (m_basic_header h)\<rparr> else m)
                   in (No_error, h\<lparr>m_data_msg := msg_metadata m key, m_current_msg := Data_msg\<rparr>))
         | Some m \<Rightarrow>
             (if of_nat (length (msg_payload m)) + needed > m_max_message_size h
              then (Processor message_too_big, h)
              else (No_error, h\<lparr>m_data_msg := (m_data_msg h)\<lparr>prepared_key := prepare_masking_key key\<rparr>,
                                m_current_msg := Data_msg\<rparr>)))"

text \<open>One iteration of the loop: the error that ends it, if any, the processor, the bytes left.\<close>

definition consume_step :: "hybi13 \<Rightarrow> u8 list \<Rightarrow> error_code \<times> hybi13 \<times> u8 list" where
  "consume_step h buf =
     (case m_proc_state h of
        HEADER_BASIC \<Rightarrow>
          (let (n, h) = copy_basic_header_bytes buf h; rest = drop n buf in
           if m_bytes_needed h > 0 then (No_error, h, rest)
           else
             (let ec = validate_incoming_basic_header (m_basic_header h) (m_server h)
                         (msg_ptr (m_data_msg h) = None) in
              if ec \<noteq> No_error then (ec, h, rest)
              else (No_error, h\<lparr>m_proc_state := HEADER_EXTENDED, m_cursor := 0,
                      m_bytes_needed := of_nat (get_header_len (m_basic_header h) - BASIC_HEADER_LENGTH)\<rparr>, rest)))
      | HEADER_EXTENDED \<Rightarrow>
          (let (n, h) = copy_extended_header_bytes buf h; rest = drop n buf in
           if m_bytes_needed h > 0 then (No_error, h, rest)
           else
             (let ec = validate_incoming_extended_header (m_basic_header h) (m_extended_header h) in
              if ec \<noteq> No_error then (ec, h, rest)
              else let (ec, h) = begin_payload h in (ec, h, rest)))
      | EXTENSION \<Rightarrow> (No_error, h\<lparr>m_proc_state := APPLICATION\<rparr>, buf)
      | APPLICATION \<Rightarrow>
          (let bytes_to_process = min (unat (m_bytes_needed h)) (length buf);
               (n, ec, h) = (if bytes_to_process > 0 then process_payload_bytes (take bytes_to_process buf) h
                             else (0, No_error, h));
               rest = drop n buf
           in if ec \<noteq> No_error then (ec, h, rest)
              else if m_bytes_needed h > 0 then (No_error, h, rest)
              else if get_fin (m_basic_header h) then let (ec, h) = finalize_message h in (ec, h, rest)
              else (No_error, reset_headers h, rest))
      | _ \<Rightarrow> (Processor general, h, buf))"

definition consuming :: "hybi13 \<Rightarrow> u8 list \<Rightarrow> bool" where
  "consuming h buf \<longleftrightarrow>
     m_proc_state h \<noteq> READY \<and> m_proc_state h \<noteq> FATAL_ERROR \<and> (0 < length buf \<or> m_bytes_needed h = 0)"

text \<open>The states an iteration can leave without taking a byte, in the order it passes them.\<close>

definition consume_rank :: "hybi13 \<Rightarrow> nat" where
  "consume_rank h =
     (case m_proc_state h of
        HEADER_BASIC \<Rightarrow> (if m_bytes_needed h = 0 then 4 else 0)
      | HEADER_EXTENDED \<Rightarrow> (if m_bytes_needed h = 0 then 3 else 0)
      | EXTENSION \<Rightarrow> 2
      | APPLICATION \<Rightarrow> (if m_bytes_needed h = 0 then 1 else 0)
      | _ \<Rightarrow> 0)"

text \<open>\<open>get_message\<close> hands the message out and forgets it.\<close>

definition get_message :: "hybi13 \<Rightarrow> message option \<times> hybi13" where
  "get_message h =
     (if \<not> ready h then (None, h)
      else
        (let ret = the (msg_ptr (current_msg h));
             h1 = set_current_msg ((current_msg h)\<lparr>msg_ptr := None\<rparr>) h;
             h2 = (if is_control (msg_opcode ret)
                   then h1\<lparr>m_control_msg := (m_control_msg h1)\<lparr>msg_ptr := None\<rparr>\<rparr>
                   else h1\<lparr>m_data_msg := (m_data_msg h1)\<lparr>msg_ptr := None\<rparr>\<rparr>)
         in (Some ret, reset_headers h2)))"

section \<open>Preparing frames\<close>

definition masked_copy :: "u8 list \<Rightarrow> masking_key \<Rightarrow> u8 list" where
  "masked_copy i key = byte_mask i key 0"

text \<open>\<open>m_rng()\<close> is the argument \<open>rng\<close>, drawn only by a client. \<open>compress\<close> of the class \<open>disabled\<close> leaves its
  output as it was, and its error is not looked at.\<close>

definition prepare_data_frame ::
    "bool \<Rightarrow> masking_key \<Rightarrow> message option \<Rightarrow> message option \<Rightarrow> error_code \<times> message option" where
  "prepare_data_frame server rng i_ptr o_ptr =
     (case (i_ptr, o_ptr) of
        (Some i, Some out) \<Rightarrow>
          (let oc = msg_opcode i in
           if is_control oc then (Processor invalid_opcode, Some out)
           else if oc = op_text \<and> \<not> validate (msg_payload i) then (Processor invalid_payload, Some out)
           else
             (let masked = \<not> server;
                  compressed = (deflate_is_enabled \<and> msg_compressed i);
                  fin = msg_fin i;
                  key = (if masked then rng else 0)
              in if compressed \<and> length (msg_payload out) < 4 then (Processor general, Some out)
                 else
                   (let payload =
                      (if compressed
                       then let p = take (length (msg_payload out) - 4) (msg_payload out)
                            in if masked then masked_copy p key else p
                       else if masked then masked_copy (msg_payload i) key else msg_payload i);
                        len = of_nat (length payload);
                        h = basic_header oc len fin masked compressed False False;
                        e = (if masked then extended_header_with_key len key else extended_header len)
                    in (No_error, Some (out\<lparr>msg_payload := payload, msg_header := prepare_header h e,
                          msg_prepared := True, msg_opcode := oc\<rparr>)))))
      | _ \<Rightarrow> (Processor invalid_arguments, o_ptr))"

definition prepare_control ::
    "bool \<Rightarrow> masking_key \<Rightarrow> opcode \<Rightarrow> u8 list \<Rightarrow> message option \<Rightarrow> error_code \<times> message option" where
  "prepare_control server rng oc payload o_ptr =
     (case o_ptr of
        None \<Rightarrow> (Processor invalid_arguments, None)
      | Some out \<Rightarrow>
          if \<not> is_control oc then (Processor invalid_opcode, Some out)
          else if of_nat (length payload) > payload_size_basic then (Processor control_too_big, Some out)
          else
            (let masked = \<not> server;
                 len = of_nat (length payload);
                 h = basic_header oc len True masked False False False
             in if masked
                then (No_error, Some (out\<lparr>msg_header := prepare_header h (extended_header_with_key len rng),
                       msg_payload := masked_copy payload rng, msg_opcode := oc, msg_prepared := True\<rparr>))
                else (No_error, Some (out\<lparr>msg_header := prepare_header h (extended_header len),
                       msg_payload := payload, msg_opcode := oc, msg_prepared := True\<rparr>))))"

definition prepare_ping :: "bool \<Rightarrow> masking_key \<Rightarrow> u8 list \<Rightarrow> message option \<Rightarrow> error_code \<times> message option" where
  "prepare_ping server rng payload o_ptr = prepare_control server rng op_ping payload o_ptr"

definition prepare_pong :: "bool \<Rightarrow> masking_key \<Rightarrow> u8 list \<Rightarrow> message option \<Rightarrow> error_code \<times> message option" where
  "prepare_pong server rng payload o_ptr = prepare_control server rng op_pong payload o_ptr"

text \<open>\<open>htons\<close>, as \<open>ntohs\<close>, swaps the two bytes.\<close>

definition prepare_close ::
    "bool \<Rightarrow> masking_key \<Rightarrow> close_code \<Rightarrow> u8 list \<Rightarrow> message option \<Rightarrow> error_code \<times> message option" where
  "prepare_close server rng cc reason o_ptr =
     (if close_reserved cc then (Processor reserved_close_code, o_ptr)
      else if close_invalid cc \<and> cc \<noteq> close_no_status then (Processor invalid_close_code, o_ptr)
      else if cc = close_no_status \<and> length reason > 0 then (Processor reason_requires_code, o_ptr)
      else if of_nat (length reason) > payload_size_basic - 2 then (Processor control_too_big, o_ptr)
      else
        (let payload = (if cc \<noteq> close_no_status then le_bytes 2 (ntohs cc) @ reason else [])
         in prepare_control server rng op_close payload o_ptr))"

section \<open>Steps\<close>

lemma copy_basic_header_facts:
  "fst (copy_basic_header_bytes buf h) \<le> length buf"
  "m_proc_state (snd (copy_basic_header_bytes buf h)) = m_proc_state h"
  "buf \<noteq> [] \<Longrightarrow> m_bytes_needed h \<noteq> 0 \<Longrightarrow> 0 < fst (copy_basic_header_bytes buf h)"
  "m_bytes_needed (snd (copy_basic_header_bytes buf h)) = m_bytes_needed h - of_nat (fst (copy_basic_header_bytes buf h))"
  by (auto simp: copy_basic_header_bytes_def Suc_le_eq)

lemma copy_basic_header_takes:
  assumes "copy_basic_header_bytes buf h = (n, h')"
  shows "n \<le> length buf" "m_proc_state h' = m_proc_state h" "buf \<noteq> [] \<Longrightarrow> m_bytes_needed h \<noteq> 0 \<Longrightarrow> 0 < n"
    "m_bytes_needed h' = m_bytes_needed h - of_nat n"
  using copy_basic_header_facts [of buf h] unfolding assms by simp_all

lemma copy_extended_header_facts:
  "fst (copy_extended_header_bytes buf h) = min (unat (m_bytes_needed h)) (length buf)"
  "m_proc_state (snd (copy_extended_header_bytes buf h)) = m_proc_state h"
  "m_bytes_needed (snd (copy_extended_header_bytes buf h)) =
     m_bytes_needed h - of_nat (fst (copy_extended_header_bytes buf h))"
  by (simp_all add: copy_extended_header_bytes_def Let_def)

lemma copy_extended_header_takes:
  assumes "copy_extended_header_bytes buf h = (n, h')"
  shows "n \<le> length buf" "m_proc_state h' = m_proc_state h" "buf \<noteq> [] \<Longrightarrow> m_bytes_needed h \<noteq> 0 \<Longrightarrow> 0 < n"
    "m_bytes_needed h' = m_bytes_needed h - of_nat n"
  using copy_extended_header_facts [of buf h] unfolding assms by (simp_all add: unat_gt_0)

lemma set_current_msg_frame [simp]:
  "m_proc_state (set_current_msg m h) = m_proc_state h" "m_bytes_needed (set_current_msg m h) = m_bytes_needed h"
  "m_basic_header (set_current_msg m h) = m_basic_header h" "m_current_msg (set_current_msg m h) = m_current_msg h"
  "m_server (set_current_msg m h) = m_server h" "m_max_message_size (set_current_msg m h) = m_max_message_size h"
  "m_cursor (set_current_msg m h) = m_cursor h" "m_extended_header (set_current_msg m h) = m_extended_header h"
  "current_msg (set_current_msg m h) = m"
  by (simp_all add: set_current_msg_def current_msg_def split: msg_kind.split)

lemma process_payload_takes:
  assumes "process_payload_bytes buf h = (n, ec, h')"
  shows "m_proc_state h' = m_proc_state h" "ec = No_error \<Longrightarrow> n = length buf"
    "ec = No_error \<Longrightarrow> m_bytes_needed h' = m_bytes_needed h - of_nat (length buf)"
    "m_basic_header h' = m_basic_header h" "n \<le> length buf"
  using assms by (auto simp: process_payload_bytes_def deflate_is_enabled_def Let_def split: if_splits prod.splits)

lemma begin_payload_state: "begin_payload h = (ec, h') \<Longrightarrow> m_proc_state h' = APPLICATION"
  by (auto simp: begin_payload_def Let_def split: if_splits option.splits)

lemma finalize_state: "finalize_message h = (No_error, h') \<Longrightarrow> m_proc_state h' = READY"
  by (auto simp: finalize_message_def deflate_is_enabled_def split: if_splits)

lemma reset_headers_fields [simp]:
  "m_proc_state (reset_headers h) = HEADER_BASIC" "m_bytes_needed (reset_headers h) = 2"
  "m_server (reset_headers h) = m_server h" "m_max_message_size (reset_headers h) = m_max_message_size h"
  "m_data_msg (reset_headers h) = m_data_msg h" "m_control_msg (reset_headers h) = m_control_msg h"
  "m_current_msg (reset_headers h) = m_current_msg h" "m_cursor (reset_headers h) = m_cursor h"
  "m_basic_header (reset_headers h) = \<lparr>b0 = 0, b1 = 0\<rparr>" "m_extended_header (reset_headers h) = no_bytes"
  by (simp_all add: reset_headers_def frame_consts)

lemma consume_step_decreases:
  assumes c: "consuming h buf" and s: "consume_step h buf = (No_error, h', rest)"
  shows "length rest < length buf \<or> length rest = length buf \<and> consume_rank h' < consume_rank h"
proof (cases "m_proc_state h")
  case HEADER_BASIC
  obtain n h1 where k: "copy_basic_header_bytes buf h = (n, h1)" by force
  show ?thesis
    using s HEADER_BASIC c copy_basic_header_takes [OF k]
    by (cases "m_bytes_needed h = 0")
      (auto simp: consume_step_def k Let_def consume_rank_def consuming_def word_gt_0 split: if_splits)
next
  case HEADER_EXTENDED
  obtain n h1 where k: "copy_extended_header_bytes buf h = (n, h1)" by force
  obtain ec h2 where b: "begin_payload h1 = (ec, h2)" by force
  show ?thesis
    using s HEADER_EXTENDED c copy_extended_header_takes [OF k] begin_payload_state [OF b]
    by (cases "m_bytes_needed h = 0")
      (auto simp: consume_step_def k b Let_def consume_rank_def consuming_def word_gt_0 split: if_splits)
next
  case EXTENSION
  then show ?thesis using s by (auto simp: consume_step_def consume_rank_def)
next
  case APPLICATION
  show ?thesis
  proof (cases "min (unat (m_bytes_needed h)) (length buf) = 0")
    case True
    then have n0: "m_bytes_needed h = 0" using APPLICATION c by (auto simp: consuming_def min_def unat_eq_0 split: if_splits)
    obtain ec h2 where f: "finalize_message h = (ec, h2)" by force
    show ?thesis using s APPLICATION n0 finalize_state [of h h2]
      by (auto simp: consume_step_def f Let_def consume_rank_def split: if_splits)
  next
    case False
    define k where "k = min (unat (m_bytes_needed h)) (length buf)"
    obtain n ec h1 where p: "process_payload_bytes (take k buf) h = (n, ec, h1)" by (metis prod_cases3)
    have k: "0 < k" "k \<le> length buf" using False by (auto simp: k_def)
    have "ec = No_error" using s APPLICATION k p
      by (auto simp: consume_step_def k_def [symmetric] Let_def split: if_splits)
    then have "n = k" using process_payload_takes(2) [OF p] k by simp
    then have "rest = drop k buf" using s APPLICATION k p
      by (auto simp: consume_step_def k_def [symmetric] Let_def split: if_splits prod.splits)
    then show ?thesis using k by auto
  qed
qed (use s in \<open>auto simp: consume_step_def\<close>)

function consume_loop :: "hybi13 \<Rightarrow> u8 list \<Rightarrow> error_code \<times> hybi13 \<times> u8 list" where
  "consume_loop h buf =
     (if consuming h buf
      then let (ec, h', rest) = consume_step h buf
           in if ec \<noteq> No_error then (ec, h', rest) else consume_loop h' rest
      else (No_error, h, buf))"
  by pat_completeness auto
termination
proof (relation "inv_image (less_than <*lex*> less_than) (\<lambda>(h, buf). (length buf, consume_rank h))")
  fix h buf x ec y h' rest
  assume "consuming h buf" "x = consume_step h buf" "(ec, y) = x" "(h', rest) = y" "\<not> ec \<noteq> No_error"
  then have "consuming h buf" "consume_step h buf = (No_error, h', rest)" by simp_all
  from consume_step_decreases [OF this]
  show "((h', rest), h, buf) \<in> inv_image (less_than <*lex*> less_than) (\<lambda>(h, buf). (length buf, consume_rank h))"
    by auto
qed (intro wf_inv_image wf_lex_prod wf_less_than)

declare consume_loop.simps [simp del]

definition consume :: "u8 list \<Rightarrow> hybi13 \<Rightarrow> nat \<times> error_code \<times> hybi13" where
  "consume buf h = (let (ec, h', rest) = consume_loop h buf in (length buf - length rest, ec, h'))"

section \<open>The invariant\<close>

definition data_ok :: "hybi13 \<Rightarrow> bool" where
  "data_ok h \<longleftrightarrow> (\<forall>m. msg_ptr (m_data_msg h) = Some m \<longrightarrow> msg_opcode m \<in> {op_text, op_binary})"

definition control_ok :: "hybi13 \<Rightarrow> nat \<Rightarrow> bool" where
  "control_ok h left \<longleftrightarrow>
     (case msg_ptr (m_control_msg h) of None \<Rightarrow> False
      | Some m \<Rightarrow> msg_opcode m \<in> {op_close, op_ping, op_pong} \<and> length (msg_payload m) + left \<le> 125)"

text \<open>The current message exists, and is of the kind its frame says.\<close>

definition current_ok :: "hybi13 \<Rightarrow> nat \<Rightarrow> bool" where
  "current_ok h left \<longleftrightarrow>
     (case m_current_msg h of
        Data_msg \<Rightarrow> msg_ptr (m_data_msg h) \<noteq> None
      | Control_msg \<Rightarrow> control_ok h left)"

definition key_ok :: "u64 \<Rightarrow> bool" where
  "key_ok p \<longleftrightarrow> (\<exists>key r. keyed key r p)"

definition header_valid :: "hybi13 \<Rightarrow> bool" where
  "header_valid h \<longleftrightarrow>
     validate_incoming_basic_header (m_basic_header h) (m_server h) (msg_ptr (m_data_msg h) = None) = No_error"

text \<open>The well-formed processor: what every state needs for the memory accesses of the code. The room for
  the extended header suffices, the message that receives payload exists, and the prepared key is a
  rotation of a masking key.\<close>

definition hybi_wf :: "hybi13 \<Rightarrow> bool" where
  "hybi_wf h \<longleftrightarrow>
     length (m_extended_header h) = MAX_EXTENDED_HEADER_LENGTH \<and> data_ok h \<and>
     (case m_proc_state h of
        HEADER_BASIC \<Rightarrow> m_bytes_needed h \<in> {1, 2}
      | HEADER_EXTENDED \<Rightarrow> header_valid h \<and>
          m_cursor h + unat (m_bytes_needed h) = get_header_len (m_basic_header h) - BASIC_HEADER_LENGTH
      | APPLICATION \<Rightarrow> current_ok h (unat (m_bytes_needed h)) \<and> key_ok (prepared_key (current_msg h)) \<and>
          (m_current_msg h = Control_msg \<longrightarrow> get_fin (m_basic_header h))
      | READY \<Rightarrow> current_ok h 0
      | _ \<Rightarrow> False)"

lemma hybi_wf_init: "hybi_wf (hybi13 server max_size)"
  by (simp add: hybi_wf_def hybi13_def data_ok_def no_msg_def no_bytes_def)

lemma hybi_wf_reset: "data_ok h \<Longrightarrow> hybi_wf (reset_headers h)"
  by (simp add: hybi_wf_def data_ok_def no_bytes_def)

lemma word_2_cases: "(w :: u64) \<in> {1, 2} \<Longrightarrow> w - 1 \<noteq> 0 \<Longrightarrow> w = 2"
  by auto

lemma copy_basic_header_needed:
  "m_bytes_needed (snd (copy_basic_header_bytes buf h)) =
     (if buf = [] \<or> m_bytes_needed h = 0 then m_bytes_needed h
      else if 1 < length buf \<and> m_bytes_needed h = 2 then 0 else m_bytes_needed h - 1)"
  by (simp add: copy_basic_header_bytes_def)

lemma unat_minus_of_nat: "k \<le> unat (w :: u64) \<Longrightarrow> unat (w - of_nat k) = unat w - k"
proof -
  assume k: "k \<le> unat w"
  then have "k < 2 ^ 64" using unsigned_less [of w, where ?'a = nat] by simp
  then have "unat (of_nat k :: u64) = k" by (simp add: unat_of_nat take_bit_nat_eq_self)
  then show ?thesis using k by (simp add: unat_sub word_le_nat_alt)
qed

lemma wf_copy_basic:
  assumes "hybi_wf h" "m_proc_state h = HEADER_BASIC" "copy_basic_header_bytes buf h = (n, h')" "m_bytes_needed h' > 0"
  shows "hybi_wf h'"
proof -
  have h': "h' = snd (copy_basic_header_bytes buf h)" using assms(3) by simp
  have st: "m_proc_state h' = HEADER_BASIC" "m_data_msg h' = m_data_msg h" "m_extended_header h' = m_extended_header h"
    using assms(2) by (simp_all add: h' copy_basic_header_bytes_def)
  have "m_bytes_needed h \<in> {1, 2}" using assms(1,2) by (simp add: hybi_wf_def)
  then have "m_bytes_needed h' \<in> {1, 2}"
    using assms(4) unfolding h' copy_basic_header_needed by (auto split: if_splits)
  then show ?thesis using assms(1) st by (simp add: hybi_wf_def data_ok_def)
qed

lemma get_header_len_le_12: "get_header_len h - BASIC_HEADER_LENGTH \<le> 12"
  using get_header_len_le [of h] by (simp add: frame_consts)

lemma wf_copy_extended:
  assumes "hybi_wf h" "m_proc_state h = HEADER_EXTENDED" "copy_extended_header_bytes buf h = (n, h')"
  shows "hybi_wf h'"
proof -
  have h': "h' = snd (copy_extended_header_bytes buf h)" using assms(3) by simp
  have c: "m_cursor h + unat (m_bytes_needed h) = get_header_len (m_basic_header h) - BASIC_HEADER_LENGTH"
      "header_valid h" "data_ok h" "length (m_extended_header h) = 12"
    using assms(1,2) by (simp_all add: hybi_wf_def frame_consts)
  define k where "k = min (unat (m_bytes_needed h)) (length buf)"
  have k: "k \<le> unat (m_bytes_needed h)" "m_cursor h + k \<le> 12" "length (take k buf) = k"
    using c(1) get_header_len_le_12 [of "m_basic_header h"] by (simp_all add: k_def)
  have "unat (m_bytes_needed h - of_nat k) = unat (m_bytes_needed h) - k"
    using k(1) by (rule unat_minus_of_nat)
  then show ?thesis using k c assms(2)
    unfolding hybi_wf_def h' copy_extended_header_bytes_def Let_def k_def [symmetric]
    by (simp add: copy_to_def frame_consts header_valid_def data_ok_def)
qed

lemma validate_basic_header:
  assumes "validate_incoming_basic_header h server new_msg = No_error"
  shows "is_control (get_opcode h) \<Longrightarrow> get_opcode h \<in> {op_close, op_ping, op_pong}"
    "is_control (get_opcode h) \<Longrightarrow> get_fin h"
    "is_control (get_opcode h) \<Longrightarrow> ucast (get_basic_size h) \<le> payload_size_basic"
    "\<not> is_control (get_opcode h) \<Longrightarrow> new_msg \<Longrightarrow> get_opcode h \<in> {op_text, op_binary}"
    "\<not> is_control (get_opcode h) \<Longrightarrow> \<not> new_msg \<Longrightarrow> get_opcode h = op_continuation"
  using assms
  by (auto simp: validate_incoming_basic_header_def Let_def op_reserved_def op_invalid_def is_control_def op_defs
      split: if_splits)

lemma key_ok_prepare: "key_ok (prepare_masking_key key)"
  unfolding key_ok_def using keyed_prepare by blast

lemma wf_begin_payload:
  assumes wf: "hybi_wf h" and st: "m_proc_state h = HEADER_EXTENDED" and b: "begin_payload h = (No_error, h')"
  shows "hybi_wf h'"
proof -
  have v: "header_valid h" and d: "data_ok h" and l: "length (m_extended_header h) = 12"
    using wf st by (simp_all add: hybi_wf_def frame_consts)
  have h': "h' = snd (begin_payload h)" using b by simp
  note valid = validate_basic_header [OF v [unfolded header_valid_def]]
  show ?thesis
  proof (cases "is_control (get_opcode (m_basic_header h))")
    case True
    have "ucast (get_basic_size (m_basic_header h)) \<le> (125 :: u64)" using valid(3) True by (simp add: frame_consts)
    moreover from this have "get_payload_size (m_basic_header h) (m_extended_header h) = ucast (get_basic_size (m_basic_header h))"
      by (simp add: get_payload_size_def frame_consts)
    ultimately have "unat (get_payload_size (m_basic_header h) (m_extended_header h)) \<le> 125"
      by (simp add: word_le_nat_alt)
    then show ?thesis using True valid(1,2) d l b
      by (auto simp: begin_payload_def Let_def hybi_wf_def data_ok_def current_ok_def control_ok_def current_msg_def
          msg_metadata_def message_def key_ok_prepare frame_consts)
  next
    case False
    show ?thesis
    proof (cases "msg_ptr (m_data_msg h)")
      case None
      then show ?thesis using False valid(4) d l b
        by (auto simp: begin_payload_def Let_def hybi_wf_def data_ok_def current_ok_def current_msg_def
            msg_metadata_def message_def key_ok_prepare frame_consts deflate_is_enabled_def split: if_splits)
    next
      case (Some m)
      then show ?thesis using False d l b
        by (auto simp: begin_payload_def Let_def hybi_wf_def data_ok_def current_ok_def current_msg_def
            key_ok_prepare frame_consts split: if_splits)
    qed
  qed
qed

lemma key_ok_circ: "key_ok p \<Longrightarrow> key_ok (snd (byte_mask_circ buf p))"
  unfolding key_ok_def using by_bytes.returns_key by blast

lemma length_byte_mask_circ: "length (fst (byte_mask_circ buf p)) = length buf"
  by (simp add: byte_mask_circ_def Let_def)

text \<open>The payload the processor adds, and the key after it.\<close>

definition unmask :: "hybi13 \<Rightarrow> u8 list \<Rightarrow> u8 list" where
  "unmask h buf = (if get_masked (m_basic_header h) then fst (byte_mask_circ buf (prepared_key (current_msg h))) else buf)"

definition key_after :: "hybi13 \<Rightarrow> u8 list \<Rightarrow> u64" where
  "key_after h buf =
     (if get_masked (m_basic_header h) then snd (byte_mask_circ buf (prepared_key (current_msg h)))
      else prepared_key (current_msg h))"

definition utf8_after :: "hybi13 \<Rightarrow> u8 list \<Rightarrow> bool \<times> validator" where
  "utf8_after h buf =
     (if msg_opcode (the (msg_ptr (current_msg h))) = op_text then decode_bytes (unmask h buf) (utf8 (current_msg h))
      else (True, utf8 (current_msg h)))"

definition extended_msg :: "hybi13 \<Rightarrow> u8 list \<Rightarrow> msg_metadata" where
  "extended_msg h buf =
     (let m = the (msg_ptr (current_msg h)) in
      \<lparr>msg_ptr = Some (m\<lparr>msg_payload := msg_payload m @ unmask h buf\<rparr>), prepared_key = key_after h buf,
       utf8 = snd (utf8_after h buf)\<rparr>)"

lemma process_payload_eq:
  "process_payload_bytes buf h =
     (if fst (utf8_after h buf)
      then (length buf, No_error,
            (set_current_msg (extended_msg h buf) h)\<lparr>m_bytes_needed := m_bytes_needed h - of_nat (length buf)\<rparr>)
      else (0, Processor invalid_utf8, set_current_msg (extended_msg h buf) h))"
  by (cases "current_msg h")
    (simp add: process_payload_bytes_def utf8_after_def extended_msg_def key_after_def unmask_def
      deflate_is_enabled_def Let_def case_prod_unfold)

lemma length_unmask [simp]: "length (unmask h buf) = length buf"
  by (simp add: unmask_def length_byte_mask_circ)

lemma extended_msg_fields [simp]:
  "msg_ptr (extended_msg h buf) =
     Some ((the (msg_ptr (current_msg h)))\<lparr>msg_payload := msg_payload (the (msg_ptr (current_msg h))) @ unmask h buf\<rparr>)"
  "prepared_key (extended_msg h buf) = key_after h buf"
  "utf8 (extended_msg h buf) = snd (utf8_after h buf)"
  by (simp_all add: extended_msg_def Let_def)

lemma key_ok_after: "key_ok (prepared_key (current_msg h)) \<Longrightarrow> key_ok (key_after h buf)"
  by (simp add: key_after_def key_ok_circ)

lemma wf_process_payload:
  assumes wf: "hybi_wf h" and st: "m_proc_state h = APPLICATION" and n: "length buf \<le> unat (m_bytes_needed h)"
    and p: "process_payload_bytes buf h = (n, No_error, h')"
  shows "hybi_wf h'"
proof -
  have h': "h' = (set_current_msg (extended_msg h buf) h)\<lparr>m_bytes_needed := m_bytes_needed h - of_nat (length buf)\<rparr>"
    using p by (auto simp: process_payload_eq split: if_splits)
  have key: "key_ok (key_after h buf)" using wf st by (simp add: hybi_wf_def key_ok_after)
  have needed: "unat (m_bytes_needed h - of_nat (length buf)) = unat (m_bytes_needed h) - length buf"
    using n by (rule unat_minus_of_nat)
  show ?thesis
  proof (cases "m_current_msg h")
    case Data_msg
    then show ?thesis using wf st key
      by (auto simp: h' hybi_wf_def set_current_msg_def current_msg_def current_ok_def data_ok_def)
  next
    case Control_msg
    then show ?thesis using wf st key n
      by (auto simp: h' hybi_wf_def set_current_msg_def current_msg_def current_ok_def data_ok_def control_ok_def
          needed split: option.splits)
  qed
qed

lemma wf_finalize:
  assumes "hybi_wf h" "m_proc_state h = APPLICATION" "finalize_message h = (No_error, h')" "m_bytes_needed h = 0"
  shows "hybi_wf h'"
proof -
  have "h' = h\<lparr>m_proc_state := READY\<rparr>"
    using assms(3) by (auto simp: finalize_message_def deflate_is_enabled_def split: if_splits)
  then show ?thesis using assms(1,2,4)
    by (simp add: hybi_wf_def data_ok_def current_ok_def control_ok_def split: msg_kind.splits)
qed

lemma wf_header_complete:
  assumes "hybi_wf h" "m_proc_state h = HEADER_BASIC" "header_valid h"
  shows "hybi_wf (h\<lparr>m_proc_state := HEADER_EXTENDED, m_cursor := 0,
    m_bytes_needed := of_nat (get_header_len (m_basic_header h) - BASIC_HEADER_LENGTH)\<rparr>)"
proof -
  have "unat (of_nat (get_header_len (m_basic_header h) - BASIC_HEADER_LENGTH) :: u64) =
      get_header_len (m_basic_header h) - BASIC_HEADER_LENGTH"
    using get_header_len_le_12 [of "m_basic_header h"]
    by (simp add: unat_of_nat take_bit_nat_eq_self)
  then show ?thesis using assms by (simp add: hybi_wf_def data_ok_def header_valid_def)
qed

lemma wf_consume_step:
  assumes wf: "hybi_wf h" and c: "consuming h buf" and s: "consume_step h buf = (No_error, h', rest)"
  shows "hybi_wf h'"
proof (cases "m_proc_state h")
  case HEADER_BASIC
  obtain n h1 where k: "copy_basic_header_bytes buf h = (n, h1)" by force
  show ?thesis
  proof (cases "m_bytes_needed h1 > 0")
    case True
    then show ?thesis using s HEADER_BASIC wf_copy_basic [OF wf HEADER_BASIC k] by (simp add: consume_step_def k)
  next
    case False
    have h1: "h1 = snd (copy_basic_header_bytes buf h)" using k by simp
    have "hybi_wf (h1\<lparr>m_bytes_needed := 2\<rparr>)" "m_proc_state h1 = HEADER_BASIC"
      using wf HEADER_BASIC unfolding h1
      by (auto simp: hybi_wf_def copy_basic_header_bytes_def data_ok_def)
    moreover have "header_valid h1"
      using s HEADER_BASIC False by (auto simp: consume_step_def k header_valid_def Let_def split: if_splits)
    ultimately have "hybi_wf (h1\<lparr>m_bytes_needed := 2, m_proc_state := HEADER_EXTENDED, m_cursor := 0,
        m_bytes_needed := of_nat (get_header_len (m_basic_header h1) - BASIC_HEADER_LENGTH)\<rparr>)"
      using wf_header_complete [of "h1\<lparr>m_bytes_needed := 2\<rparr>"] by (simp add: header_valid_def)
    then show ?thesis using s HEADER_BASIC False by (auto simp: consume_step_def k Let_def split: if_splits)
  qed
next
  case HEADER_EXTENDED
  obtain n h1 where k: "copy_extended_header_bytes buf h = (n, h1)" by force
  have wf1: "hybi_wf h1" using wf HEADER_EXTENDED k by (rule wf_copy_extended)
  have st: "m_proc_state h1 = HEADER_EXTENDED" using copy_extended_header_takes(2) [OF k] HEADER_EXTENDED by simp
  obtain ec h2 where b: "begin_payload h1 = (ec, h2)" by force
  show ?thesis using s HEADER_EXTENDED wf1 wf_begin_payload [OF wf1 st, of h2] b
    by (auto simp: consume_step_def k Let_def split: if_splits)
next
  case APPLICATION
  define k where "k = min (unat (m_bytes_needed h)) (length buf)"
  define p where "p = (if k > 0 then process_payload_bytes (take k buf) h else (0, No_error, h))"
  obtain n ec h1 where p1: "p = (n, ec, h1)" by (metis prod_cases3)
  have step: "consume_step h buf =
      (if ec \<noteq> No_error then (ec, h1, drop n buf)
       else if m_bytes_needed h1 > 0 then (No_error, h1, drop n buf)
       else if get_fin (m_basic_header h1) then let (ec, h) = finalize_message h1 in (ec, h, drop n buf)
       else (No_error, reset_headers h1, drop n buf))"
    using APPLICATION p1 unfolding p_def k_def consume_step_def Let_def by simp
  have ok: "ec = No_error" using s step by (auto split: if_splits)
  have wf1: "hybi_wf h1"
  proof (cases "k > 0")
    case True
    then have "process_payload_bytes (take k buf) h = (n, No_error, h1)" using p1 ok by (simp add: p_def)
    then show ?thesis using wf_process_payload [OF wf APPLICATION, of "take k buf"] by (simp add: k_def)
  qed (use p1 wf in \<open>simp add: p_def\<close>)
  have st1: "m_proc_state h1 = APPLICATION"
    using p1 APPLICATION process_payload_takes(1) [of "take k buf" h n ec h1] by (auto simp: p_def split: if_splits)
  have d1: "data_ok h1" using wf1 by (simp add: hybi_wf_def)
  obtain ec2 h2 where f: "finalize_message h1 = (ec2, h2)" by force
  show ?thesis
    using s wf1 ok f wf_finalize [OF wf1 st1, of h2] hybi_wf_reset [of h1] d1
    by (auto simp: step word_gt_0 split: if_splits)
qed (use wf s in \<open>auto simp: hybi_wf_def consume_step_def\<close>)

lemma wf_consume_loop: "hybi_wf h \<Longrightarrow> consume_loop h buf = (No_error, h', rest) \<Longrightarrow> hybi_wf h'"
proof (induction h buf rule: consume_loop.induct)
  case (1 h buf)
  show ?case
  proof (cases "consuming h buf")
    case True
    obtain ec h1 r where s: "consume_step h buf = (ec, h1, r)" by (metis prod_cases3)
    then have "ec = No_error" "consume_loop h1 r = (No_error, h', rest)"
      using "1.prems"(2) True by (auto simp: consume_loop.simps [of h buf] split: if_splits)
    moreover from this have "hybi_wf h1" using wf_consume_step "1.prems"(1) True s by blast
    ultimately show ?thesis using "1.IH" True s by auto
  qed (use "1.prems" in \<open>simp add: consume_loop.simps [of h buf]\<close>)
qed

lemma wf_get_message:
  assumes wf: "hybi_wf h"
  shows "hybi_wf (snd (get_message h))"
proof (cases "ready h")
  case True
  then have c: "current_ok h 0" and d: "data_ok h" using wf by (simp_all add: ready_def hybi_wf_def)
  show ?thesis unfolding get_message_def Let_def using True
    by (simp, intro conjI impI hybi_wf_reset)
      (use d in \<open>auto simp: data_ok_def set_current_msg_def split: msg_kind.splits\<close>)
qed (use wf in \<open>simp add: get_message_def\<close>)

end
