(* ===== verification/Ws_Connection.thy ===== *)
theory Ws_Connection
  imports Ws_Hybi13
begin

text \<open>
  An established websocket connection (Client/cpp/websocketpp/websocketpp/impl/connection_impl.hpp and
  connection.hpp): sending, the queue of outgoing messages and its single writer, reading frames,
  control frames, the closing handshake and termination. The transport is the trace \<open>calls\<close> of what the
  connection asks of it, and the calls of the user's handlers; their completions are the arguments of the
  \<open>handle_\<dots>\<close> operations. The user's message handler is what it does on the connection, a list of calls of
  its operations; the close, fail and termination handlers are set (VertxBus sets the first two, the endpoint
  the third), the ping, pong and pong timeout handlers may be.
  \<open>drop_on_protocol_error\<close> and \<open>silent_close\<close> are false (config/core_client.hpp). Logging is left out.
\<close>

unbundle bit_operations_syntax

section \<open>State\<close>

datatype session_state = connecting | session_open | closing | session_closed

datatype istate = USER_INIT | TRANSPORT_INIT | READ_HTTP_REQUEST | WRITE_HTTP_REQUEST | READ_HTTP_RESPONSE
  | WRITE_HTTP_RESPONSE | PROCESS_HTTP_REQUEST | PROCESS_CONNECTION

datatype terminate_status = failed | closed | unknown

text \<open>What the connection asks of the transport, and the handlers it calls; the last of them are those of the
  opening handshake.\<close>

datatype con_call =
    Dispatch_write_frame
  | Async_write "u8 list"
  | Async_read_at_least
  | Async_shutdown terminate_status
  | Set_close_timer int
  | Cancel_timer
  | Set_ping_timer int "u8 list"
  | Cancel_ping_timer
  | Message_handler message
  | Pong_handler "u8 list"
  | Pong_timeout_handler "u8 list"
  | Close_handler
  | Fail_handler
  | Termination_handler
  | Transport_init
  | Set_open_timer int
  | Send_http_request "u8 list"
  | Read_http_response
  | Read_http_request
  | Write_http_response "u8 list"
  | Open_handler
  | Validate_handler
  | Http_handler

text \<open>What a user does on a connection.\<close>

datatype con_api = Api_send "u8 list" opcode | Api_ping "u8 list" | Api_pong "u8 list" | Api_close close_code "u8 list"

record connection =
  m_is_server :: bool
  session :: session_state
  m_internal_state :: istate
  m_processor :: hybi13
  m_send_queue :: "message list"
  m_send_buffer_size :: u64
  m_current_msgs :: "message list"
  m_write_flag :: bool
  m_read_flag :: bool
  m_was_clean :: bool
  m_ec :: error_code
  m_local_close_code :: close_code
  m_local_close_reason :: "u8 list"
  m_remote_close_code :: close_code
  m_remote_close_reason :: "u8 list"
  m_handshake_timer :: bool
  m_close_handshake_timeout_dur :: int
  m_rng :: "nat \<Rightarrow> masking_key"
  m_ping_timer :: bool
  m_pong_timeout_dur :: int
  m_ping_handler :: "(u8 list \<Rightarrow> bool) option"
  m_pong_handler :: bool
  m_pong_timeout_handler :: bool
  m_message_handler :: "message \<Rightarrow> con_api list"
  calls :: "con_call list"

definition emit :: "con_call \<Rightarrow> connection \<Rightarrow> connection" where
  "emit c con = con\<lparr>calls := calls con @ [c]\<rparr>"

text \<open>A connection whose opening handshake is over.\<close>

definition established ::
    "bool \<Rightarrow> u64 \<Rightarrow> (nat \<Rightarrow> masking_key) \<Rightarrow> (message \<Rightarrow> con_api list) \<Rightarrow> connection" where
  "established server max_size rng handler =
     \<lparr>m_is_server = server, session = session_open, m_internal_state = PROCESS_CONNECTION,
      m_processor = hybi13 server max_size, m_send_queue = [], m_send_buffer_size = 0, m_current_msgs = [],
      m_write_flag = False, m_read_flag = True, m_was_clean = False, m_ec = No_error,
      m_local_close_code = close_abnormal_close, m_local_close_reason = [],
      m_remote_close_code = close_abnormal_close, m_remote_close_reason = [],
      m_handshake_timer = False, m_close_handshake_timeout_dur = 5000, m_rng = rng,
      m_ping_timer = False, m_pong_timeout_dur = 5000, m_ping_handler = None, m_pong_handler = False,
      m_pong_timeout_handler = False, m_message_handler = handler, calls = []\<rparr>"

text \<open>\<open>get_message()\<close> of the manager: a message whose opcode is set when it is prepared.\<close>

definition new_message :: message where
  "new_message = message op_continuation"

text \<open>A client that prepared a frame has drawn one masking key.\<close>

definition drew :: "error_code \<Rightarrow> connection \<Rightarrow> connection" where
  "drew ec con = (if ec = No_error \<and> \<not> m_is_server con then con\<lparr>m_rng := (\<lambda>n. m_rng con (Suc n))\<rparr> else con)"

section \<open>Termination\<close>

definition terminate :: "error_code \<Rightarrow> connection \<Rightarrow> connection" where
  "terminate ec con =
     (let con = (if m_handshake_timer con then (emit Cancel_timer con)\<lparr>m_handshake_timer := False\<rparr> else con);
          con = (if ec \<noteq> No_error
                 then con\<lparr>m_ec := ec, m_local_close_code := close_abnormal_close, m_local_close_reason := ec_message ec\<rparr>
                 else con)
      in if session con = connecting then emit (Async_shutdown failed) (con\<lparr>session := session_closed\<rparr>)
         else if session con \<noteq> session_closed then emit (Async_shutdown closed) (con\<lparr>session := session_closed\<rparr>)
         else con)"

definition handle_terminate :: "terminate_status \<Rightarrow> error_code \<Rightarrow> connection \<Rightarrow> connection" where
  "handle_terminate tstat ec con =
     (let con =
        (case tstat of
           failed \<Rightarrow> if m_ec con \<noteq> Library http_connection_ended then emit Fail_handler con else con
         | closed \<Rightarrow> emit Close_handler con
         | unknown \<Rightarrow> con)
      in emit Termination_handler con)"

definition handle_close_handshake_timeout :: "error_code \<Rightarrow> connection \<Rightarrow> connection" where
  "handle_close_handshake_timeout ec con =
     (if ec = Transport operation_aborted then con
      else if ec \<noteq> No_error then con
      else terminate (Library close_handshake_timeout) con)"

section \<open>Writing\<close>

definition write_push :: "message \<Rightarrow> connection \<Rightarrow> connection" where
  "write_push msg con = con\<lparr>
     m_send_buffer_size := m_send_buffer_size con + of_nat (length (msg_payload msg)),
     m_send_queue := m_send_queue con @ [msg]\<rparr>"

definition write_pop :: "connection \<Rightarrow> message option \<times> connection" where
  "write_pop con =
     (case m_send_queue con of
        [] \<Rightarrow> (None, con)
      | msg # rest \<Rightarrow> (Some msg, con\<lparr>
          m_send_buffer_size := m_send_buffer_size con - of_nat (length (msg_payload msg)),
          m_send_queue := rest\<rparr>))"

text \<open>The end of every operation that sends: the message is queued, and the writer started unless it runs.\<close>

definition push_and_dispatch :: "message \<Rightarrow> connection \<Rightarrow> connection" where
  "push_and_dispatch msg con =
     (let con = write_push msg con;
          needs_writing = (\<not> m_write_flag con \<and> m_send_queue con \<noteq> [])
      in if needs_writing then emit Dispatch_write_frame con else con)"

text \<open>The loop of \<open>write_frame\<close>: everything queued, up to a message marked terminal.\<close>

function pop_all :: "connection \<Rightarrow> connection" where
  "pop_all con =
     (case write_pop con of
        (None, con') \<Rightarrow> con'
      | (Some msg, con') \<Rightarrow>
          let con'' = con'\<lparr>m_current_msgs := m_current_msgs con' @ [msg]\<rparr>
          in if \<not> msg_terminal msg then pop_all con'' else con'')"
  by pat_completeness auto
termination
  by (relation "measure (\<lambda>con. length (m_send_queue con))") (auto simp: write_pop_def split: list.splits)

declare pop_all.simps [simp del]

definition write_frame :: "connection \<Rightarrow> connection" where
  "write_frame con =
     (if m_write_flag con then con
      else
        (let con = pop_all con in
         if m_current_msgs con = [] then con
         else emit (Async_write (concat (map (\<lambda>m. msg_header m @ msg_payload m) (m_current_msgs con))))
                (con\<lparr>m_write_flag := True\<rparr>)))"

definition handle_write_frame :: "error_code \<Rightarrow> connection \<Rightarrow> connection" where
  "handle_write_frame ec con =
     (let terminal = msg_terminal (last (m_current_msgs con));
          con = con\<lparr>m_current_msgs := []\<rparr>
      in if ec \<noteq> No_error then terminate ec con
         else if terminal then terminate No_error con
         else
           (let con = con\<lparr>m_write_flag := False\<rparr>;
                needs_writing = (m_send_queue con \<noteq> [])
            in if needs_writing then emit Dispatch_write_frame con else con))"

section \<open>Sending\<close>

text \<open>A prepared frame is queued; an error of the preparation is returned.\<close>

definition push_prepared :: "error_code \<times> message option \<Rightarrow> connection \<Rightarrow> error_code \<times> connection" where
  "push_prepared prepared con =
     (let (ec, out) = prepared
      in if ec \<noteq> No_error then (ec, con) else (No_error, push_and_dispatch (the out) (drew ec con)))"

definition send_msg :: "message \<Rightarrow> connection \<Rightarrow> error_code \<times> connection" where
  "send_msg msg con =
     (if session con \<noteq> session_open then (Library invalid_state, con)
      else if msg_prepared msg then (No_error, push_and_dispatch msg con)
      else push_prepared (prepare_data_frame (m_is_server con) (m_rng con 0) (Some msg) (Some new_message)) con)"

definition con_send :: "u8 list \<Rightarrow> opcode \<Rightarrow> connection \<Rightarrow> error_code \<times> connection" where
  "con_send payload oc con = send_msg ((message oc)\<lparr>msg_payload := payload, msg_compressed := True\<rparr>) con"

text \<open>A ping starts the timer of its pong, when somebody listens for it.\<close>

definition start_ping_timer :: "u8 list \<Rightarrow> connection \<Rightarrow> connection" where
  "start_ping_timer payload con =
     (if m_pong_timeout_handler con then
        (let con = (if m_ping_timer con then emit Cancel_ping_timer con else con)
         in if m_pong_timeout_dur con > 0
            then (emit (Set_ping_timer (m_pong_timeout_dur con) payload) con)\<lparr>m_ping_timer := True\<rparr>
            else con)
      else con)"

definition con_ping :: "u8 list \<Rightarrow> connection \<Rightarrow> error_code \<times> connection" where
  "con_ping payload con =
     (if session con \<noteq> session_open then (Library invalid_state, con)
      else
        (let (ec, out) = prepare_ping (m_is_server con) (m_rng con 0) payload (Some new_message)
         in if ec \<noteq> No_error then (ec, con)
            else (No_error, push_and_dispatch (the out) (start_ping_timer payload (drew ec con)))))"

definition handle_pong_timeout :: "u8 list \<Rightarrow> error_code \<Rightarrow> connection \<Rightarrow> connection" where
  "handle_pong_timeout payload ec con =
     (if ec \<noteq> No_error then con
      else if m_pong_timeout_handler con then emit (Pong_timeout_handler payload) con
      else con)"

definition con_pong :: "u8 list \<Rightarrow> connection \<Rightarrow> error_code \<times> connection" where
  "con_pong payload con =
     (if session con \<noteq> session_open then (Library invalid_state, con)
      else push_prepared (prepare_pong (m_is_server con) (m_rng con 0) payload (Some new_message)) con)"

text \<open>The codes a close frame is sent with.\<close>

definition close_codes :: "close_code \<Rightarrow> u8 list \<Rightarrow> bool \<Rightarrow> connection \<Rightarrow> close_code \<times> u8 list" where
  "close_codes cc reason ack con =
     (if cc \<noteq> close_blank then (cc, reason)
      else if \<not> ack then (close_no_status, [])
      else if m_remote_close_code con = close_no_status then (close_normal, [])
      else (m_remote_close_code con, m_remote_close_reason con))"

definition send_close_frame :: "close_code \<Rightarrow> u8 list \<Rightarrow> bool \<Rightarrow> bool \<Rightarrow> connection \<Rightarrow> error_code \<times> connection" where
  "send_close_frame cc reason ack terminal con =
     (let (lcc, lreason) = close_codes cc reason ack con;
          con = con\<lparr>m_local_close_code := lcc, m_local_close_reason := lreason\<rparr>;
          (ec, out) = prepare_close (m_is_server con) (m_rng con 0) lcc lreason (Some new_message)
      in if ec \<noteq> No_error then (ec, con)
         else
           (let con = drew ec con;
                msg = (if terminal then (the out)\<lparr>msg_terminal := True\<rparr> else the out);
                con = con\<lparr>session := closing\<rparr>;
                con = (if ack then con\<lparr>m_was_clean := True\<rparr> else con);
                con = (if m_close_handshake_timeout_dur con > 0
                       then (emit (Set_close_timer (m_close_handshake_timeout_dur con)) con)\<lparr>m_handshake_timer := True\<rparr>
                       else con)
            in (No_error, push_and_dispatch msg con)))"

definition send_close_ack :: "close_code \<Rightarrow> u8 list \<Rightarrow> connection \<Rightarrow> error_code \<times> connection" where
  "send_close_ack cc reason con = send_close_frame cc reason True (m_is_server con) con"

definition con_close :: "close_code \<Rightarrow> u8 list \<Rightarrow> connection \<Rightarrow> error_code \<times> connection" where
  "con_close cc reason con =
     (let tr = take (min (length reason) close_reason_size) reason
      in if session con \<noteq> session_open then (Library invalid_state, con)
         else send_close_frame cc tr False (close_terminal cc) con)"

fun run_api :: "con_api \<Rightarrow> connection \<Rightarrow> connection" where
  "run_api (Api_send payload oc) con = snd (con_send payload oc con)"
| "run_api (Api_ping payload) con = snd (con_ping payload con)"
| "run_api (Api_pong payload) con = snd (con_pong payload con)"
| "run_api (Api_close cc reason) con = snd (con_close cc reason con)"

section \<open>Reading\<close>

definition read_frame :: "connection \<Rightarrow> connection" where
  "read_frame con = (if \<not> m_read_flag con then con else emit Async_read_at_least con)"

definition process_control_frame :: "message \<Rightarrow> connection \<Rightarrow> connection" where
  "process_control_frame msg con =
     (let oc = msg_opcode msg in
      if session con = session_closed then con
      else if oc \<noteq> op_close \<and> session con \<noteq> session_open then con
      else if oc = op_ping then
        (let should_reply = (case m_ping_handler con of None \<Rightarrow> True | Some f \<Rightarrow> f (msg_payload msg))
         in if should_reply then snd (con_pong (msg_payload msg) con) else con)
      else if oc = op_pong then
        (let con = (if m_pong_handler con then emit (Pong_handler (msg_payload msg)) con else con)
         in if m_ping_timer con then emit Cancel_ping_timer con else con)
      else if oc = op_close then
        (let (cc, ec) = extract_code (msg_payload msg);
             con = con\<lparr>m_remote_close_code := cc\<rparr>
         in if ec \<noteq> No_error
            then snd (send_close_ack close_protocol_error (map byte ''Invalid close code'') con)
            else
              (let (reason, ec) = extract_reason (msg_payload msg);
                   con = con\<lparr>m_remote_close_reason := reason\<rparr>
               in if ec \<noteq> No_error
                  then snd (send_close_ack close_protocol_error (map byte ''Invalid close reason'') con)
                  else if session con = session_open then snd (send_close_ack close_blank [] con)
                  else if session con = closing \<and> \<not> m_was_clean con then
                    (let con = con\<lparr>m_was_clean := True\<rparr>
                     in if m_is_server con then terminate No_error con else con)
                  else con))
      else con)"

text \<open>A complete message: data for the user, or a control frame.\<close>

definition dispatch_message :: "message \<Rightarrow> connection \<Rightarrow> connection" where
  "dispatch_message msg con =
     (if \<not> is_control (msg_opcode msg) then
        (if session con \<noteq> session_open then con
         else fold run_api (m_message_handler con msg) (emit (Message_handler msg) con))
      else process_control_frame msg con)"

text \<open>An error of the processor: the connection is closed with the code that answers it.\<close>

definition consume_failed :: "error_code \<Rightarrow> connection \<Rightarrow> connection" where
  "consume_failed ec con =
     (let (close_ec, con) = con_close (to_ws ec) (ec_message ec) con
      in if close_ec \<noteq> No_error then terminate close_ec con else con)"

text \<open>The loop of \<open>handle_read_frame\<close>. A processor in its fatal state would keep it from returning.\<close>

partial_function (option) read_loop :: "u8 list \<Rightarrow> connection \<Rightarrow> connection option" where
  "read_loop buf con =
     (if buf = [] then Some (read_frame con)
      else
        (let (n, ec, h) = consume buf (m_processor con);
             con = con\<lparr>m_processor := h\<rparr>
         in if ec \<noteq> No_error then Some (consume_failed ec con)
            else if ready h then
              (let (m, h) = get_message h;
                   con = con\<lparr>m_processor := h\<rparr>
               in case m of
                    None \<Rightarrow> read_loop (drop n buf) con
                  | Some msg \<Rightarrow> read_loop (drop n buf) (dispatch_message msg con))
            else read_loop (drop n buf) con))"

declare read_loop.simps [code]

definition handle_read_frame :: "error_code \<Rightarrow> u8 list \<Rightarrow> connection \<Rightarrow> connection option" where
  "handle_read_frame ec buf con =
     (let ecm = (if ec = No_error \<and> m_internal_state con \<noteq> PROCESS_CONNECTION then Library invalid_state else ec)
      in if ecm \<noteq> No_error then
           (if ecm = Transport eof \<and> session con = session_closed then Some con
            else if ecm = Transport eof \<and> session con = closing \<and> \<not> m_is_server con then Some (terminate No_error con)
            else if ecm = Library invalid_state \<and> session con = session_closed then Some con
            else if ecm = Transport tls_short_read \<and> session con = session_closed then Some (terminate No_error con)
            else Some (terminate ecm con))
         else read_loop buf con)"

definition handle_pause_reading :: "connection \<Rightarrow> connection" where
  "handle_pause_reading con = con\<lparr>m_read_flag := False\<rparr>"

definition handle_resume_reading :: "connection \<Rightarrow> connection" where
  "handle_resume_reading con = read_frame (con\<lparr>m_read_flag := True\<rparr>)"

end
