(* ===== verification/Ws_Http.thy ===== *)
theory Ws_Http
  imports Prelude
begin

text \<open>
  HTTP messages as the opening handshake reads and writes them
  (Client/cpp/websocketpp/websocketpp/http): tokens, quoted strings, parameter lists, headers, requests and
  responses that arrive in parts. Iterators into a string are the rest of the string. An \<open>http::exception\<close> is
  its message and status code. Sizes are sizes of strings in memory, which no sum of them wraps around.
\<close>

section \<open>Characters and tokens (http/constants.hpp)\<close>

type_synonym 'a http = "(string \<times> nat) + 'a"

definition max_header_size :: nat where "max_header_size = 16000"
definition max_body_size :: nat where "max_body_size = 32000000"

definition header_token :: "nat list" where
  "header_token =
    [0,0,0,0,0,0,0,0,0,0,0,0,0,0,0,0,
     0,0,0,0,0,0,0,0,0,0,0,0,0,0,0,0,
     0,1,0,1,1,1,1,1,0,0,1,1,0,1,1,0,
     1,1,1,1,1,1,1,1,1,1,0,0,0,0,0,0,
     0,1,1,1,1,1,1,1,1,1,1,1,1,1,1,1,
     1,1,1,1,1,1,1,1,1,1,1,0,0,0,1,1,
     1,1,1,1,1,1,1,1,1,1,1,1,1,1,1,1,
     1,1,1,1,1,1,1,1,1,1,1,0,1,0,1,0] @ replicate 128 0"

definition is_token_char :: "char \<Rightarrow> bool" where
  "is_token_char c \<longleftrightarrow> header_token ! code c = 1"

definition is_whitespace_char :: "char \<Rightarrow> bool" where
  "is_whitespace_char c \<longleftrightarrow> code c = 9 \<or> code c = 32"

section \<open>Reading (http/parser.hpp)\<close>

definition extract_token :: "string \<Rightarrow> string \<times> string" where
  "extract_token s = (takeWhile is_token_char s, dropWhile is_token_char s)"

text \<open>From after the opening quote: the parts between escaped quotes.\<close>

function quoted_loop :: "string \<Rightarrow> string \<Rightarrow> (string \<times> string) option" where
  "quoted_loop s marker =
     (case dropWhile (\<lambda>c. c \<noteq> QUOTE) marker of
        [] \<Rightarrow> None
      | _ # r \<Rightarrow>
          (let part = takeWhile (\<lambda>c. c \<noteq> QUOTE) marker
           in if part \<noteq> [] \<and> last part = BACKSLASH then quoted_loop (s @ butlast part @ [QUOTE]) r
              else Some (s @ part, r)))"
  by pat_completeness auto
termination
proof (relation "measure (\<lambda>(s, marker). length marker)")
  fix s marker x r and part :: string
  assume d: "dropWhile (\<lambda>c. c \<noteq> QUOTE) marker = x # r"
  then show "((s @ butlast part @ [QUOTE], r), (s, marker)) \<in> measure (\<lambda>(s, marker). length marker)"
    using length_dropWhile_le [of "\<lambda>c. c \<noteq> QUOTE" marker] by simp
qed simp

definition extract_quoted_string :: "string \<Rightarrow> string \<times> string" where
  "extract_quoted_string s =
     (case s of
        [] \<Rightarrow> ([], s)
      | c # r \<Rightarrow>
          if c \<noteq> QUOTE then ([], s)
          else (case quoted_loop [] r of None \<Rightarrow> ([], s) | Some res \<Rightarrow> res))"

definition extract_lws :: "string \<Rightarrow> string" where
  "extract_lws s =
     dropWhile is_whitespace_char
       (if length s > 2 \<and> s ! 0 = CR \<and> s ! 1 = LF \<and> is_whitespace_char (s ! 2) then drop 3 s else s)"

lemma extract_lws_le: "length (extract_lws s) \<le> length s"
  unfolding extract_lws_def by (rule le_trans [OF length_dropWhile_le]) simp

function extract_all_lws :: "string \<Rightarrow> string" where
  "extract_all_lws old_it =
     (let new_it = extract_lws old_it
      in if new_it \<noteq> [] \<and> length new_it \<noteq> length old_it then extract_all_lws new_it else new_it)"
  by pat_completeness auto
termination
  by (relation "measure length") (use extract_lws_le in \<open>auto intro: le_neq_implies_less\<close>)

declare quoted_loop.simps [simp del] extract_all_lws.simps [simp del]

lemma extract_all_lws_le: "length (extract_all_lws s) \<le> length s"
proof (induction s rule: extract_all_lws.induct)
  case (1 s)
  show ?case
    using 1 extract_lws_le [of s] by (subst extract_all_lws.simps) (auto simp: Let_def intro: le_trans)
qed

lemma quoted_loop_le: "quoted_loop s m = Some (q, r) \<Longrightarrow> length r < length m"
proof (induction s m rule: quoted_loop.induct)
  case (1 s m)
  then show ?case
    using length_dropWhile_le [of "\<lambda>c. c \<noteq> QUOTE" m]
    by (subst (asm) (2) quoted_loop.simps) (fastforce simp: Let_def split: list.splits if_splits)
qed

lemma extract_quoted_le: "length (snd (extract_quoted_string s)) \<le> length s"
proof (cases s)
  case (Cons c r)
  then show ?thesis
    using quoted_loop_le [of "[]" r] by (cases "quoted_loop [] r") (auto simp: extract_quoted_string_def less_Suc_eq_le intro: less_imp_le)
qed (simp add: extract_quoted_string_def)

lemma extract_token_less: "fst (extract_token s) \<noteq> [] \<Longrightarrow> length (snd (extract_token s)) < length s"
  by (cases s) (auto simp: extract_token_def less_Suc_eq_le length_dropWhile_le split: if_splits)

lemma tl_le: "length (tl s) \<le> length s"
  by (cases s) simp_all

text \<open>The attributes of a parameter: \<open>None\<close> is the syntax error, which the code reports by returning where it
  began.\<close>

function attribute_loop :: "bool \<Rightarrow> string \<Rightarrow> (string \<times> string) list \<Rightarrow> string option \<times> (string \<times> string) list" where
  "attribute_loop first cursor attributes =
     (if cursor = [] then (Some [], attributes)
      else
        (let cursor = extract_all_lws cursor in
         if cursor = [] then (Some [], attributes)
         else if \<not> first \<and> cursor ! 0 \<noteq> CHR '';'' then (Some cursor, attributes)
         else
           (let cursor = extract_all_lws (if first then cursor else tl cursor);
                name = fst (extract_token cursor)
            in if name = [] then (None, attributes)
               else
                 (let cursor = extract_all_lws (snd (extract_token cursor)) in
                  if cursor = [] \<or> cursor ! 0 \<noteq> CHR ''=''
                  then attribute_loop False cursor (omap_insert name [] attributes)
                  else
                    (let cursor = extract_all_lws (tl cursor) in
                     if cursor = [] then (None, attributes)
                     else
                       (let q = extract_quoted_string cursor in
                        if length (snd q) \<noteq> length cursor
                        then attribute_loop False (snd q) (omap_insert name (fst q) attributes)
                        else
                          (let v = extract_token cursor in
                           if fst v = [] then (None, attributes)
                           else attribute_loop False (snd v) (omap_insert name (fst v) attributes))))))))"
  by pat_completeness auto
termination
proof (relation "measure (\<lambda>(first, cursor, attributes). length cursor)")
  note le = extract_all_lws_le tl_le extract_quoted_le
  fix first :: bool and cursor c1 c2 name c3 :: string and attributes :: "(string \<times> string) list"
  assume c: "c1 = extract_all_lws cursor" "c2 = extract_all_lws (if first then c1 else tl c1)" "name = fst (extract_token c2)"
    "name \<noteq> []" "c3 = extract_all_lws (snd (extract_token c2))"
  have "length c3 \<le> length (snd (extract_token c2))" using le(1) c(5) by simp
  also have "\<dots> < length c2" using extract_token_less c(3,4) by simp
  also have "\<dots> \<le> length c1" using c(2) le(1) [of c1] le(1) [of "tl c1"] le(2) [of c1] by (auto intro: le_trans)
  also have "\<dots> \<le> length cursor" using c(1) le(1) by simp
  finally have c3: "length c3 < length cursor" .
  show "((False, c3, omap_insert name [] attributes), (first, cursor, attributes)) \<in>
      measure (\<lambda>(first, cursor, attributes). length cursor)" using c3 by simp
  fix c4 q v
  assume c4: "c4 = extract_all_lws (tl c3)"
  have "length c4 \<le> length (tl c3)" unfolding c4 by (rule le(1))
  also have "\<dots> \<le> length c3" by (rule le(2))
  finally have c4': "length c4 < length cursor" using c3 by simp
  show "((False, snd q, omap_insert name (fst q) attributes), (first, cursor, attributes)) \<in>
      measure (\<lambda>(first, cursor, attributes). length cursor)" if "q = extract_quoted_string c4"
    using c4' le(3) [of c4] that by simp
  show "((False, snd v, omap_insert name (fst v) attributes), (first, cursor, attributes)) \<in>
      measure (\<lambda>(first, cursor, attributes). length cursor)" if "v = extract_token c4" "\<not> fst v = []"
    using c4' extract_token_less [of c4] that by simp
qed auto

declare attribute_loop.simps [simp del]

definition extract_attributes :: "string \<Rightarrow> (string \<times> string) list \<Rightarrow> string \<times> (string \<times> string) list" where
  "extract_attributes begin attributes =
     (if begin = [] then (begin, attributes)
      else (case attribute_loop True begin attributes of (None, attributes) \<Rightarrow> (begin, attributes)
        | (Some cursor, attributes) \<Rightarrow> (cursor, attributes)))"

lemma attribute_loop_le:
  "attribute_loop first cursor attributes = (Some c, attributes') \<Longrightarrow> length c \<le> length cursor"
proof (induction first cursor attributes rule: attribute_loop.induct)
  case (1 first cursor attributes)
  define c1 where "c1 = extract_all_lws cursor"
  define c2 where "c2 = extract_all_lws (if first then c1 else tl c1)"
  define name where "name = fst (extract_token c2)"
  define c3 where "c3 = extract_all_lws (snd (extract_token c2))"
  define c4 where "c4 = extract_all_lws (tl c3)"
  have c1: "length c1 \<le> length cursor" unfolding c1_def by (rule extract_all_lws_le)
  have "length c2 \<le> length c1"
    unfolding c2_def by (rule le_trans [OF extract_all_lws_le]) (simp add: tl_le)
  moreover have "length c3 \<le> length c2"
    unfolding c3_def by (rule le_trans [OF extract_all_lws_le]) (simp add: extract_token_def length_dropWhile_le)
  moreover have "length c4 \<le> length c3"
    unfolding c4_def by (rule le_trans [OF extract_all_lws_le tl_le])
  moreover have "length (snd (extract_quoted_string c4)) \<le> length c4" "length (snd (extract_token c4)) \<le> length c4"
    using extract_quoted_le by (simp_all add: extract_token_def length_dropWhile_le)
  ultimately have le: "length c3 \<le> length cursor" "length (snd (extract_quoted_string c4)) \<le> length cursor"
      "length (snd (extract_token c4)) \<le> length cursor" using c1 by linarith+
  note IH = "1.IH" [OF _ c1_def _ _ c2_def name_def _ c3_def]
  show ?case
    using "1.prems" le c1
      IH(1) IH(2) [OF _ _ _ _ _ c4_def _ refl] IH(3) [OF _ _ _ _ _ c4_def _ refl _ refl]
    by (subst (asm) attribute_loop.simps)
      (simp add: Let_def c1_def [symmetric] c2_def [symmetric] name_def [symmetric] c3_def [symmetric] c4_def [symmetric] split: if_splits)
qed

lemma extract_attributes_le: "length (fst (extract_attributes s attributes)) \<le> length s"
  using attribute_loop_le [of True s attributes] by (auto simp: extract_attributes_def split: prod.splits option.splits)

text \<open>The parameters of a header: \<open>None\<close> is the syntax error.\<close>

type_synonym parameter_list = "(string \<times> (string \<times> string) list) list"

function parameter_loop :: "string \<Rightarrow> parameter_list \<Rightarrow> string option \<times> parameter_list" where
  "parameter_loop cursor parameters =
     (if cursor = [] then (Some [], parameters)
      else
        (let cursor = extract_all_lws cursor in
         if cursor = [] then (Some [], parameters)
         else
           (let name = fst (extract_token cursor) in
            if name = [] then (None, parameters)
            else
              (let cursor = extract_all_lws (snd (extract_token cursor)) in
               if cursor = [] then (Some [], parameters @ [(name, [])])
               else
                 (let semi = (cursor ! 0 = CHR '';'');
                      cursor = (if semi then tl cursor else cursor);
                      a = (if semi then extract_attributes cursor [] else (cursor, []))
                  in if semi \<and> length (fst a) = length cursor then (None, parameters)
                     else
                       (let parameters = parameters @ [(name, snd a)];
                            cursor = extract_all_lws (fst a)
                        in if cursor = [] then (Some [], parameters)
                           else if cursor ! 0 \<noteq> CHR '','' then (Some cursor, parameters)
                           else
                             (let cursor = tl cursor
                              in if cursor = [] then (None, parameters) else parameter_loop cursor parameters)))))))"
  by pat_completeness auto
termination
proof (relation "measure (\<lambda>(cursor, parameters). length cursor)")
  fix cursor c1 name c2 c3 c4 c5 :: string and semi :: bool and parameters ps :: parameter_list
    and a :: "string \<times> (string \<times> string) list"
  assume c: "c1 = extract_all_lws cursor" "name = fst (extract_token c1)" "name \<noteq> []"
    "c2 = extract_all_lws (snd (extract_token c1))" "c3 = (if semi then tl c2 else c2)"
    "a = (if semi then extract_attributes c3 [] else (c3, []))" "c4 = extract_all_lws (fst a)" "c5 = tl c4"
  have "length c5 \<le> length c4" unfolding c(8) by (rule tl_le)
  also have "\<dots> \<le> length (fst a)" unfolding c(7) by (rule extract_all_lws_le)
  also have "\<dots> \<le> length c3" using c(6) extract_attributes_le by simp
  also have "\<dots> \<le> length c2" using c(5) tl_le by simp
  also have "\<dots> \<le> length (snd (extract_token c1))" unfolding c(4) by (rule extract_all_lws_le)
  also have "\<dots> < length c1" using extract_token_less c(2,3) by simp
  also have "\<dots> \<le> length cursor" unfolding c(1) by (rule extract_all_lws_le)
  finally show "((c5, ps), (cursor, parameters)) \<in> measure (\<lambda>(cursor, parameters). length cursor)" by simp
qed auto

declare parameter_loop.simps [simp del]

definition extract_parameters :: "string \<Rightarrow> parameter_list \<Rightarrow> string \<times> parameter_list" where
  "extract_parameters begin parameters =
     (if begin = [] then (begin, parameters)
      else (case parameter_loop begin parameters of (None, parameters) \<Rightarrow> (begin, parameters)
        | (Some cursor, parameters) \<Rightarrow> (cursor, parameters)))"

text \<open>Whether there is a syntax error, and the parameters read before it.\<close>

definition parse_parameter_list :: "string \<Rightarrow> parameter_list \<Rightarrow> bool \<times> parameter_list" where
  "parse_parameter_list s out =
     (if s = [] then (False, out)
      else (let (it, out) = extract_parameters s out in (length it = length s, out)))"

text \<open>The second iterator runs backwards.\<close>

definition strip_lws :: "string \<Rightarrow> string" where
  "strip_lws input =
     (let begin = extract_all_lws input in
      if begin = [] then []
      else
        (let rbegin = extract_all_lws (rev input) in
         if rbegin = [] then []
         else take (length rbegin - (length input - length begin)) begin))"

section \<open>Case-insensitive texts (utilities.hpp)\<close>

definition to_lower :: "string \<Rightarrow> string" where
  "to_lower s = map tolower s"

definition toupper :: "char \<Rightarrow> char" where
  "toupper c = (if CHR ''a'' \<le> c \<and> c \<le> CHR ''z'' then chr (code c - 32) else c)"

text \<open>Whether \<open>needle\<close> is found: \<open>std::search\<close> with characters compared in upper case.\<close>

fun ci_find_substr :: "string \<Rightarrow> string \<Rightarrow> bool" where
  "ci_find_substr [] needle \<longleftrightarrow> needle = []"
| "ci_find_substr (c # haystack) needle \<longleftrightarrow>
     map toupper (take (length needle) (c # haystack)) = map toupper needle \<or> ci_find_substr haystack needle"

section \<open>Messages (http/impl/parser.hpp)\<close>

text \<open>\<open>std::map\<close> with \<open>ci_less\<close>: sorted by the key in lower case, with the key it was first entered under.\<close>

type_synonym header_list = "(string \<times> string \<times> string) list"

datatype body_encoding = body_unknown | body_plain | body_chunked

record http_parser =
  m_version :: string
  m_headers :: header_list
  m_header_bytes :: nat
  m_body :: string
  m_body_bytes_needed :: nat
  m_body_bytes_max :: nat
  m_body_encoding :: body_encoding

definition parser :: http_parser where
  "parser = \<lparr>m_version = [], m_headers = [], m_header_bytes = 0, m_body = [], m_body_bytes_needed = 0,
     m_body_bytes_max = max_body_size, m_body_encoding = body_unknown\<rparr>"

definition get_header :: "string \<Rightarrow> header_list \<Rightarrow> string" where
  "get_header key hs = (case omap_find hs (to_lower key) of None \<Rightarrow> [] | Some (_, v) \<Rightarrow> v)"

definition get_header_as_plist :: "string \<Rightarrow> header_list \<Rightarrow> parameter_list \<Rightarrow> bool \<times> parameter_list" where
  "get_header_as_plist key hs out =
     (case omap_find hs (to_lower key) of
        None \<Rightarrow> (False, out)
      | Some (_, v) \<Rightarrow> if v = [] then (False, out) else parse_parameter_list v out)"

definition replace_header :: "string \<Rightarrow> string \<Rightarrow> header_list \<Rightarrow> header_list" where
  "replace_header key val hs =
     (let stored = (case omap_find hs (to_lower key) of None \<Rightarrow> key | Some (k, _) \<Rightarrow> k)
      in omap_insert (to_lower key) (stored, val) hs)"

definition append_header :: "string \<Rightarrow> string \<Rightarrow> header_list \<Rightarrow> header_list http" where
  "append_header key val hs =
     (if \<not> list_all is_token_char key then Inl (''Invalid header name'', 400)
      else if get_header key hs = [] then Inr (replace_header key val hs)
      else Inr (replace_header key (get_header key hs @ '', '' @ val) hs))"

definition remove_header :: "string \<Rightarrow> header_list \<Rightarrow> header_list" where
  "remove_header key hs = omap_erase (to_lower key) hs"

definition set_body :: "string \<Rightarrow> 'a http_parser_scheme \<Rightarrow> 'a http_parser_scheme" where
  "set_body val p =
     (if val = [] then p\<lparr>m_headers := remove_header ''Content-Length'' (m_headers p), m_body := []\<rparr>
      else p\<lparr>m_headers := replace_header ''Content-Length'' (nat_digits (length val)) (m_headers p), m_body := val\<rparr>)"

text \<open>\<open>strtoul\<close>, base 10: a negative number wraps around, one that is too large is the largest.\<close>

definition strtoul :: "string \<Rightarrow> nat" where
  "strtoul s =
     (let (neg, ds) = scan_number s; n = decimal_value ds
      in if n > 2 ^ 64 - 1 then 2 ^ 64 - 1 else if neg \<and> n \<noteq> 0 then 2 ^ 64 - n else n)"

definition prepare_body :: "'a http_parser_scheme \<Rightarrow> (bool \<times> 'a http_parser_scheme) http" where
  "prepare_body p =
     (if get_header ''Content-Length'' (m_headers p) \<noteq> [] then
        (let p = p\<lparr>m_body_bytes_needed := strtoul (get_header ''Content-Length'' (m_headers p))\<rparr>
         in if m_body_bytes_needed p > m_body_bytes_max p then Inl (''HTTP message body too large'', 413)
            else Inr (True, p\<lparr>m_body_encoding := body_plain\<rparr>))
      else Inr (False, p))"

definition process_body :: "string \<Rightarrow> 'a http_parser_scheme \<Rightarrow> (nat \<times> 'a http_parser_scheme) http" where
  "process_body buf p =
     (if m_body_encoding p = body_plain then
        (let processed = min (m_body_bytes_needed p) (length buf)
         in Inr (processed, p\<lparr>m_body := m_body p @ take processed buf, m_body_bytes_needed := m_body_bytes_needed p - processed\<rparr>))
      else Inl (''Unexpected body encoding'', 500))"

definition process_header :: "string \<Rightarrow> header_list \<Rightarrow> header_list http" where
  "process_header line hs =
     (case dropWhile (\<lambda>c. c \<noteq> CHR '':'') line of
        [] \<Rightarrow> Inl (''Invalid header line'', 400)
      | _ # val \<Rightarrow> append_header (strip_lws (takeWhile (\<lambda>c. c \<noteq> CHR '':'') line)) (strip_lws val) hs)"

definition raw_headers :: "header_list \<Rightarrow> string" where
  "raw_headers hs = concat (map (\<lambda>(_, k, v). k @ '': '' @ v @ [CR, LF]) hs)"

text \<open>A step that may throw.\<close>

definition http_then :: "'a http \<Rightarrow> ('a \<Rightarrow> 'b http) \<Rightarrow> 'b http" where
  "http_then m f = (case m of Inl e \<Rightarrow> Inl e | Inr x \<Rightarrow> f x)"

lemma http_then_simps [simp]: "http_then (Inl e) f = Inl e" "http_then (Inr x) f = f x"
  by (simp_all add: http_then_def)

lemma http_then_Inr: "http_then m f = Inr y \<longleftrightarrow> (\<exists>x. m = Inr x \<and> f x = Inr y)"
  by (cases m) auto

text \<open>The next line, and what follows its end.\<close>

fun split_line :: "string \<Rightarrow> (string \<times> string) option" where
  "split_line [] = None"
| "split_line (c # s) =
     (if c = CR \<and> s \<noteq> [] \<and> s ! 0 = LF then Some ([], tl s)
      else map_option (\<lambda>(line, rest). (c # line, rest)) (split_line s))"

lemma split_line_less: "split_line s = Some (line, rest) \<Longrightarrow> length rest < length s"
  by (induction s arbitrary: line rest) (auto split: if_splits)

section \<open>Requests (http/impl/request.hpp)\<close>

record request = http_parser +
  m_buf :: string
  m_method :: string
  m_uri :: string
  m_ready :: bool

definition request :: request where
  "request = \<lparr>m_version = [], m_headers = [], m_header_bytes = 0, m_body = [], m_body_bytes_needed = 0,
     m_body_bytes_max = max_body_size, m_body_encoding = body_unknown, m_buf = [], m_method = [], m_uri = [],
     m_ready = False\<rparr>"

definition set_method :: "string \<Rightarrow> request \<Rightarrow> request http" where
  "set_method meth r = (if \<not> list_all is_token_char meth then Inl (''Invalid method token.'', 400) else Inr (r\<lparr>m_method := meth\<rparr>))"

text \<open>The parts of a line before and after its first space.\<close>

definition split_space :: "string \<Rightarrow> (string \<times> string) option" where
  "split_space line =
     (case dropWhile (\<lambda>c. c \<noteq> CHR '' '') line of [] \<Rightarrow> None
      | _ # r \<Rightarrow> Some (takeWhile (\<lambda>c. c \<noteq> CHR '' '') line, r))"

definition request_process :: "string \<Rightarrow> request \<Rightarrow> request http" where
  "request_process line r =
     (case split_space line of
        None \<Rightarrow> Inl (''Invalid request line1'', 400)
      | Some (meth, line) \<Rightarrow>
          http_then (set_method meth r) (\<lambda>r.
            case split_space line of
              None \<Rightarrow> Inl (''Invalid request line2'', 400)
            | Some (uri, line) \<Rightarrow> Inr (r\<lparr>m_uri := uri, m_version := line\<rparr>)))"

text \<open>The blank line: the body begins, of what is left of the chunk.\<close>

definition request_blank :: "string \<Rightarrow> string \<Rightarrow> request \<Rightarrow> (nat \<times> request) http" where
  "request_blank chunk rest r =
     (if m_method r = [] \<or> get_header ''Host'' (m_headers r) = [] then Inl (''Incomplete Request'', 400)
      else
        (let bytes_processed = length chunk - length rest
         in http_then (prepare_body (r\<lparr>m_buf := []\<rparr>)) (\<lambda>(more, r).
              if more then
                http_then (process_body (drop bytes_processed chunk) r) (\<lambda>(n, r).
                  Inr (bytes_processed + n, if m_body_bytes_needed r = 0 then r\<lparr>m_ready := True\<rparr> else r))
              else Inr (bytes_processed, r\<lparr>m_ready := True\<rparr>))))"

text \<open>The loop over lines. Every pass counts the size of the delimiter with its terminating zero, three bytes.\<close>

function request_lines :: "string \<Rightarrow> string \<Rightarrow> request \<Rightarrow> (nat \<times> request) http" where
  "request_lines chunk begin r =
     (case split_line begin of
        None \<Rightarrow>
          (let r = r\<lparr>m_header_bytes := m_header_bytes r + length begin + 3\<rparr>
           in if m_header_bytes r > max_header_size then Inl (''Maximum header size exceeded.'', 431)
              else Inr (length chunk, r\<lparr>m_buf := begin, m_header_bytes := m_header_bytes r - length begin\<rparr>))
      | Some (line, rest) \<Rightarrow>
          (let r = r\<lparr>m_header_bytes := m_header_bytes r + length line + 3\<rparr>
           in if m_header_bytes r > max_header_size then Inl (''Maximum header size exceeded.'', 431)
              else if line = [] then request_blank chunk rest r
              else
                (case (if m_method r = [] then request_process line r
                       else http_then (process_header line (m_headers r)) (\<lambda>hs. Inr (r\<lparr>m_headers := hs\<rparr>))) of
                   Inl e \<Rightarrow> Inl e
                 | Inr r \<Rightarrow> request_lines chunk rest r)))"
  by pat_completeness auto
termination
  by (relation "measure (\<lambda>(chunk, begin, r). length begin)") (auto dest: split_line_less)

declare request_lines.simps [simp del]

definition request_consume :: "string \<Rightarrow> request \<Rightarrow> (nat \<times> request) http" where
  "request_consume buf r =
     (if m_ready r then Inr (0, r)
      else if m_body_bytes_needed r > 0 then
        http_then (process_body buf r) (\<lambda>(n, r). Inr (n, if m_body_bytes_needed r = 0 then r\<lparr>m_ready := True\<rparr> else r))
      else request_lines buf (m_buf r @ buf) r)"

definition request_raw_head :: "request \<Rightarrow> string" where
  "request_raw_head r = m_method r @ '' '' @ m_uri r @ '' '' @ m_version r @ [CR, LF] @ raw_headers (m_headers r) @ [CR, LF]"

definition request_raw :: "request \<Rightarrow> string" where
  "request_raw r =
     m_method r @ '' '' @ m_uri r @ '' '' @ m_version r @ [CR, LF] @ raw_headers (m_headers r) @ [CR, LF] @ m_body r"

section \<open>Responses (http/impl/response.hpp)\<close>

datatype response_state = RESPONSE_LINE | HEADERS | BODY | DONE

record response = http_parser +
  m_status_msg :: string
  m_read :: nat
  m_rbuf :: string
  m_status_code :: int
  m_rstate :: response_state

definition response :: response where
  "response = \<lparr>m_version = [], m_headers = [], m_header_bytes = 0, m_body = [], m_body_bytes_needed = 0,
     m_body_bytes_max = max_body_size, m_body_encoding = body_unknown, m_status_msg = [], m_read = 0, m_rbuf = [],
     m_status_code = 0, m_rstate = RESPONSE_LINE\<rparr>"

definition headers_ready :: "response \<Rightarrow> bool" where
  "headers_ready r \<longleftrightarrow> m_rstate r = BODY \<or> m_rstate r = DONE"

text \<open>The texts of the codes.\<close>

definition status_strings :: "(int \<times> string) list" where
  "status_strings =
     [(0, ''Uninitialized''), (100, ''Continue''), (101, ''Switching Protocols''), (200, ''OK''), (201, ''Created''),
      (202, ''Accepted''), (203, ''Non Authoritative Information''), (204, ''No Content''), (205, ''Reset Content''),
      (206, ''Partial Content''), (300, ''Multiple Choices''), (301, ''Moved Permanently''), (302, ''Found''),
      (303, ''See Other''), (304, ''Not Modified''), (305, ''Use Proxy''), (307, ''Temporary Redirect''),
      (400, ''Bad Request''), (401, ''Unauthorized''), (402, ''Payment Required''), (403, ''Forbidden''),
      (404, ''Not Found''), (405, ''Method Not Allowed''), (406, ''Not Acceptable''),
      (407, ''Proxy Authentication Required''), (408, ''Request Timeout''), (409, ''Conflict''), (410, ''Gone''),
      (411, ''Length Required''), (412, ''Precondition Failed''), (413, ''Request Entity Too Large''),
      (414, ''Request-URI Too Long''), (415, ''Unsupported Media Type''), (416, ''Requested Range Not Satisfiable''),
      (417, ''Expectation Failed''), (418, ''I'' @ CHR 0x27 # ''m a teapot''), (426, ''Upgrade Required''),
      (428, ''Precondition Required''), (429, ''Too Many Requests''), (431, ''Request Header Fields Too Large''),
      (500, ''Internal Server Error''), (501, ''Not Implemented''), (502, ''Bad Gateway''), (503, ''Service Unavailable''),
      (504, ''Gateway Timeout''), (505, ''HTTP Version Not Supported''), (510, ''Not Extended''),
      (511, ''Network Authentication Required'')]"

definition status_string :: "int \<Rightarrow> string" where
  "status_string c = (case map_of status_strings c of None \<Rightarrow> ''Unknown'' | Some s \<Rightarrow> s)"

definition set_status :: "int \<Rightarrow> response \<Rightarrow> response" where
  "set_status c r = r\<lparr>m_status_code := c, m_status_msg := status_string c\<rparr>"

definition set_status_msg :: "int \<Rightarrow> string \<Rightarrow> response \<Rightarrow> response" where
  "set_status_msg c msg r = r\<lparr>m_status_code := c, m_status_msg := msg\<rparr>"

text \<open>Reading a number from a stream: blanks, a sign, digits; no digits, or a number that does not fit, is a
  failure. A negative number for an unsigned type wraps around.\<close>

definition stream_number :: "string \<Rightarrow> (bool \<times> nat) option" where
  "stream_number s = (let (neg, ds) = scan_number s in if ds = [] then None else Some (neg, decimal_value ds))"

definition stream_unsigned :: "string \<Rightarrow> nat option" where
  "stream_unsigned s =
     (case stream_number s of None \<Rightarrow> None
      | Some (neg, n) \<Rightarrow> if n > 2 ^ 64 - 1 then None else Some (if neg \<and> n \<noteq> 0 then 2 ^ 64 - n else n))"

definition stream_int :: "string \<Rightarrow> int option" where
  "stream_int s =
     (case stream_number s of None \<Rightarrow> None
      | Some (neg, n) \<Rightarrow>
          let v = (if neg then - int n else int n) in if v < - (2 ^ 31) \<or> v > 2 ^ 31 - 1 then None else Some v)"

definition response_process :: "string \<Rightarrow> response \<Rightarrow> response http" where
  "response_process line r =
     (case split_space line of
        None \<Rightarrow> Inl (''Invalid response line'', 400)
      | Some (version, line) \<Rightarrow>
          (let r = r\<lparr>m_version := version\<rparr>
           in case split_space line of
                None \<Rightarrow> Inl (''Invalid request line'', 400)
              | Some (num, msg) \<Rightarrow>
                  (case stream_int num of
                     None \<Rightarrow> Inl (''Unable to parse response code'', 400)
                   | Some c \<Rightarrow> Inr (set_status_msg c msg r))))"

definition response_process_body :: "string \<Rightarrow> response \<Rightarrow> nat \<times> response" where
  "response_process_body buf r =
     (if m_read r = 0 then (0, r\<lparr>m_rstate := DONE\<rparr>)
      else
        (let to_read = (if length buf \<ge> m_read r then m_read r else length buf);
             r = (if length buf \<ge> m_read r then r\<lparr>m_rstate := DONE\<rparr> else r)
         in (to_read, r\<lparr>m_body := m_body r @ take to_read buf, m_read := m_read r - to_read\<rparr>)))"

definition response_blank :: "string \<Rightarrow> string \<Rightarrow> response \<Rightarrow> (nat \<times> response) http" where
  "response_blank chunk rest r =
     (if m_rstate r = RESPONSE_LINE then Inl (''Incomplete Request'', 400)
      else
        (let len = get_header ''Content-Length'' (m_headers r) in
         case (if len = [] then Some 0 else stream_unsigned len) of
           None \<Rightarrow> Inl (''Unable to parse Content-Length header'', 400)
         | Some n \<Rightarrow>
             (let r = r\<lparr>m_read := n, m_rstate := BODY\<rparr>;
                  k = length chunk - length rest;
                  (k, r) = (if k < length chunk
                    then (let (j, r) = response_process_body (drop k chunk) r in (k + j, r))
                    else (k, r))
              in Inr (k, r\<lparr>m_rbuf := []\<rparr>))))"

function response_lines :: "string \<Rightarrow> string \<Rightarrow> response \<Rightarrow> (nat \<times> response) http" where
  "response_lines chunk begin r =
     (case split_line begin of
        None \<Rightarrow>
          (let r = r\<lparr>m_header_bytes := m_header_bytes r + length begin + 3\<rparr>
           in if m_header_bytes r > max_header_size then Inl (''Maximum header size exceeded.'', 431)
              else Inr (length chunk, r\<lparr>m_rbuf := begin, m_read := m_read r + length chunk,
                m_header_bytes := m_header_bytes r - length begin\<rparr>))
      | Some (line, rest) \<Rightarrow>
          (let r = r\<lparr>m_header_bytes := m_header_bytes r + length line + 3\<rparr>
           in if m_header_bytes r > max_header_size then Inl (''Maximum header size exceeded.'', 431)
              else if line = [] then response_blank chunk rest r
              else
                (case (if m_rstate r = RESPONSE_LINE
                       then http_then (response_process line r) (\<lambda>r. Inr (r\<lparr>m_rstate := HEADERS\<rparr>))
                       else http_then (process_header line (m_headers r)) (\<lambda>hs. Inr (r\<lparr>m_headers := hs\<rparr>))) of
                   Inl e \<Rightarrow> Inl e
                 | Inr r \<Rightarrow> response_lines chunk rest r)))"
  by pat_completeness auto
termination
  by (relation "measure (\<lambda>(chunk, begin, r). length begin)") (auto dest: split_line_less)

declare response_lines.simps [simp del]

definition response_consume :: "string \<Rightarrow> response \<Rightarrow> (nat \<times> response) http" where
  "response_consume buf r =
     (if m_rstate r = DONE then Inr (0, r)
      else if m_rstate r = BODY then Inr (response_process_body buf r)
      else response_lines buf (m_rbuf r @ buf) r)"

text \<open>The output of a number.\<close>

definition show_int :: "int \<Rightarrow> string" where
  "show_int n = (if n < 0 then CHR ''-'' # nat_digits (nat (- n)) else nat_digits (nat n))"

definition response_raw :: "response \<Rightarrow> string" where
  "response_raw r =
     m_version r @ '' '' @ show_int (m_status_code r) @ '' '' @ m_status_msg r @ [CR, LF] @ raw_headers (m_headers r) @
     [CR, LF] @ m_body r"

end
