(* ===== verification/Ws_Http_Laws.thy ===== *)
theory Ws_Http_Laws
  imports Ws_Http
begin

text \<open>
  What HTTP messages promise: a request or response written by \<open>raw\<close> is read back by \<open>consume\<close>, whatever
  follows it, and the size of the headers is counted too high when they arrive in small parts.
\<close>

section \<open>Characters\<close>

lemma token_chars: "is_token_char c \<Longrightarrow> \<not> is_whitespace_char c \<and> c \<noteq> CR \<and> c \<noteq> CHR '':'' \<and> c \<noteq> CHR '' ''"
proof -
  have "header_token ! 9 \<noteq> 1" "header_token ! 32 \<noteq> 1" "header_token ! 13 \<noteq> 1" "header_token ! 58 \<noteq> 1"
    by (simp_all add: header_token_def)
  moreover have "code CR = 13" "code (CHR '':'') = 58" "code (CHR '' '') = 32" by (simp_all add: CR_def)
  ultimately show "is_token_char c \<Longrightarrow> ?thesis"
    by (metis is_token_char_def is_whitespace_char_def)
qed

definition header_name :: "string \<Rightarrow> bool" where
  "header_name k \<longleftrightarrow> k \<noteq> [] \<and> list_all is_token_char k"

text \<open>A text of one line that does not begin or end with a blank.\<close>

definition header_value :: "string \<Rightarrow> bool" where
  "header_value v \<longleftrightarrow> CR \<notin> set v \<and> (v \<noteq> [] \<longrightarrow> \<not> is_whitespace_char (v ! 0) \<and> \<not> is_whitespace_char (last v))"

lemma name_value: "header_name k \<Longrightarrow> header_value k"
  using token_chars by (auto simp: header_name_def header_value_def list_all_length in_set_conv_nth last_conv_nth)

lemma lws_stops: "s = [] \<or> \<not> is_whitespace_char (s ! 0) \<and> s ! 0 \<noteq> CR \<Longrightarrow> extract_all_lws s = s"
  by (subst extract_all_lws.simps) (cases s; auto simp: extract_lws_def)

lemma lws_space: "v = [] \<or> \<not> is_whitespace_char (v ! 0) \<and> v ! 0 \<noteq> CR \<Longrightarrow> extract_all_lws (CHR '' '' # v) = v"
proof -
  assume v: "v = [] \<or> \<not> is_whitespace_char (v ! 0) \<and> v ! 0 \<noteq> CR"
  then have "extract_lws (CHR '' '' # v) = v"
    by (cases v) (auto simp: extract_lws_def is_whitespace_char_def CR_def)
  then show ?thesis using lws_stops [OF v] by (subst extract_all_lws.simps) (simp add: Let_def)
qed

lemma strip_value:
  assumes "header_value v"
  shows "strip_lws v = v" "strip_lws (CHR '' '' # v) = v"
proof -
  have v: "v = [] \<or> \<not> is_whitespace_char (v ! 0) \<and> v ! 0 \<noteq> CR"
    using assms by (cases v) (auto simp: header_value_def)
  have r: "rev v @ w = [] \<or> \<not> is_whitespace_char ((rev v @ w) ! 0) \<and> (rev v @ w) ! 0 \<noteq> CR" if "v \<noteq> []" for w
    using assms that last_in_set [of v] by (cases v rule: rev_cases) (auto simp: header_value_def nth_append)
  show "strip_lws v = v"
    using lws_stops [OF v] lws_stops [OF r [of "[]"]] by (cases "v = []") (simp_all add: strip_lws_def)
  show "strip_lws (CHR '' '' # v) = v"
    using lws_space [OF v] lws_stops [OF r [of "'' ''"]] by (cases "v = []") (simp_all add: strip_lws_def)
qed

section \<open>Lines\<close>

lemma split_line_line: "CR \<notin> set line \<Longrightarrow> split_line (line @ CR # LF # rest) = Some (line, rest)"
  by (induction line) auto

lemma find_first:
  assumes "x \<notin> set w"
  shows "dropWhile (\<lambda>c. c \<noteq> x) (w @ x # r) = x # r" "takeWhile (\<lambda>c. c \<noteq> x) (w @ x # r) = w"
  using assms by (induction w) auto

lemma split_space_part: "CHR '' '' \<notin> set w \<Longrightarrow> split_space (w @ CHR '' '' # r) = Some (w, r)"
  by (simp add: split_space_def find_first)

text \<open>A header line enters its name and value at the end, when the name comes after the others.\<close>

lemma omap_find_later: "\<forall>a \<in> set (map fst m). a < (k :: string) \<Longrightarrow> omap_find m k = None"
  by (auto simp: omap_find_eq_None)

lemma process_header_line:
  assumes "header_name k" "header_value v" "\<forall>a \<in> set (map fst hs). a < to_lower k"
  shows "process_header (k @ '': '' @ v) hs = Inr (hs @ [(to_lower k, k, v)])"
proof -
  have "CHR '':'' \<notin> set k" using assms(1) token_chars by (auto simp: header_name_def list_all_iff)
  then have d: "dropWhile (\<lambda>c. c \<noteq> CHR '':'') (k @ CHR '':'' # CHR '' '' # v) = CHR '':'' # CHR '' '' # v"
    "takeWhile (\<lambda>c. c \<noteq> CHR '':'') (k @ CHR '':'' # CHR '' '' # v) = k"
    by (rule find_first)+
  show ?thesis
    using assms strip_value [OF name_value [OF assms(1)]] strip_value [OF assms(2)] omap_find_later [OF assms(3)]
      omap_insert_last [OF assms(3), of "(k, v)"]
    by (simp add: process_header_def d append_header_def header_name_def get_header_def replace_header_def)
qed

section \<open>Headers\<close>

definition headers_ok :: "header_list \<Rightarrow> bool" where
  "headers_ok hs \<longleftrightarrow> omap_inv hs \<and> (\<forall>(l, k, v) \<in> set hs. l = to_lower k \<and> header_name k \<and> header_value v)"

lemma headers_ok_Cons:
  "headers_ok ((l, k, v) # hs) \<longleftrightarrow>
   l = to_lower k \<and> header_name k \<and> header_value v \<and> (\<forall>a \<in> set (map fst hs). to_lower k < a) \<and> headers_ok hs"
  by (auto simp: headers_ok_def omap_inv_Cons)

text \<open>What the readers count for the headers.\<close>

definition headers_count :: "header_list \<Rightarrow> nat" where
  "headers_count hs = sum_list (map (\<lambda>(_, k, v). length k + length v + 5) hs)"

lemma headers_count_Cons: "headers_count ((l, k, v) # hs) = length k + length v + 5 + headers_count hs"
  by (simp add: headers_count_def)

lemma header_line: "header_name k \<Longrightarrow> header_value v \<Longrightarrow> CR \<notin> set (k @ '': '' @ v) \<and> k @ '': '' @ v \<noteq> []"
  using token_chars by (auto simp: header_name_def header_value_def list_all_iff CR_def)

lemma request_headers:
  assumes "headers_ok hs" "m_method r \<noteq> []" "\<forall>a \<in> set (map fst (m_headers r)). \<forall>b \<in> set (map fst hs). a < b"
    and "m_header_bytes r + headers_count hs \<le> max_header_size"
  shows "request_lines chunk (raw_headers hs @ rest) r =
    request_lines chunk rest (r\<lparr>m_headers := m_headers r @ hs, m_header_bytes := m_header_bytes r + headers_count hs\<rparr>)"
  using assms
proof (induction hs arbitrary: r)
  case Nil
  then show ?case by (simp add: raw_headers_def headers_count_def)
next
  case (Cons e hs)
  obtain l k v where e: "e = (l, k, v)" by (metis prod_cases3)
  have ok: "l = to_lower k" "header_name k" "header_value v" "headers_ok hs"
    using Cons.prems(1) by (auto simp: e headers_ok_Cons)
  define s where "s = raw_headers hs @ rest"
  have s: "raw_headers (e # hs) @ rest = (k @ '': '' @ v) @ CR # LF # s" by (simp add: e raw_headers_def s_def)
  define r1 where "r1 = r\<lparr>m_header_bytes := m_header_bytes r + length k + length v + 5, m_headers := m_headers r @ [(l, k, v)]\<rparr>"
  have p: "process_header (k @ '': '' @ v) (m_headers r) = Inr (m_headers r @ [(to_lower k, k, v)])"
    using Cons.prems(3) ok by (intro process_header_line) (auto simp: e)
  have "request_lines chunk (raw_headers (e # hs) @ rest) r = request_lines chunk s r1"
    unfolding s using split_line_line [of "k @ '': '' @ v" s] header_line [OF ok(2,3)] p Cons.prems(2,4) ok(1)
    by (subst request_lines.simps) (simp add: r1_def e headers_count_Cons Let_def ac_simps)
  also have "\<dots> = request_lines chunk rest
      (r1\<lparr>m_headers := m_headers r1 @ hs, m_header_bytes := m_header_bytes r1 + headers_count hs\<rparr>)"
    unfolding s_def using Cons.prems ok(4)
    by (intro Cons.IH) (auto simp: r1_def e headers_ok_Cons headers_count_Cons)
  finally show ?case by (simp add: r1_def e headers_count_Cons ac_simps)
qed

lemma response_headers:
  assumes "headers_ok hs" "m_rstate r \<noteq> RESPONSE_LINE" "\<forall>a \<in> set (map fst (m_headers r)). \<forall>b \<in> set (map fst hs). a < b"
    and "m_header_bytes r + headers_count hs \<le> max_header_size"
  shows "response_lines chunk (raw_headers hs @ rest) r =
    response_lines chunk rest (r\<lparr>m_headers := m_headers r @ hs, m_header_bytes := m_header_bytes r + headers_count hs\<rparr>)"
  using assms
proof (induction hs arbitrary: r)
  case Nil
  then show ?case by (simp add: raw_headers_def headers_count_def)
next
  case (Cons e hs)
  obtain l k v where e: "e = (l, k, v)" by (metis prod_cases3)
  have ok: "l = to_lower k" "header_name k" "header_value v" "headers_ok hs"
    using Cons.prems(1) by (auto simp: e headers_ok_Cons)
  define s where "s = raw_headers hs @ rest"
  have s: "raw_headers (e # hs) @ rest = (k @ '': '' @ v) @ CR # LF # s" by (simp add: e raw_headers_def s_def)
  define r1 where "r1 = r\<lparr>m_header_bytes := m_header_bytes r + length k + length v + 5, m_headers := m_headers r @ [(l, k, v)]\<rparr>"
  have p: "process_header (k @ '': '' @ v) (m_headers r) = Inr (m_headers r @ [(to_lower k, k, v)])"
    using Cons.prems(3) ok by (intro process_header_line) (auto simp: e)
  have "response_lines chunk (raw_headers (e # hs) @ rest) r = response_lines chunk s r1"
    unfolding s using split_line_line [of "k @ '': '' @ v" s] header_line [OF ok(2,3)] p Cons.prems(2,4) ok(1)
    by (subst response_lines.simps) (simp add: r1_def e headers_count_Cons Let_def ac_simps)
  also have "\<dots> = response_lines chunk rest
      (r1\<lparr>m_headers := m_headers r1 @ hs, m_header_bytes := m_header_bytes r1 + headers_count hs\<rparr>)"
    unfolding s_def using Cons.prems ok(4)
    by (intro Cons.IH) (auto simp: r1_def e headers_ok_Cons headers_count_Cons)
  finally show ?case by (simp add: r1_def e headers_count_Cons ac_simps)
qed

section \<open>Round trips\<close>

lemma strtoul_digits: "n < 2 ^ 64 \<Longrightarrow> strtoul (nat_digits n) = n"
  using scan_digits [OF nat_digits_digits [of n] nat_digits_not_Nil, of "[]"]
  by (simp add: strtoul_def decimal_value_nat_digits Let_def)

lemma stream_unsigned_digits: "n < 2 ^ 64 \<Longrightarrow> stream_unsigned (nat_digits n) = Some n"
  using scan_digits [OF nat_digits_digits [of n] nat_digits_not_Nil, of "[]"]
  by (simp add: stream_unsigned_def stream_number_def decimal_value_nat_digits Let_def)

text \<open>The length header is that of the body, as \<open>set_body\<close> leaves it.\<close>

definition body_ok :: "header_list \<Rightarrow> string \<Rightarrow> bool" where
  "body_ok hs b \<longleftrightarrow> get_header ''Content-Length'' hs = (if b = [] then [] else nat_digits (length b)) \<and> length b \<le> max_body_size"

text \<open>A request that can be written: a method of token characters, one line, headers, and room for them.\<close>

definition request_ok :: "request \<Rightarrow> bool" where
  "request_ok r \<longleftrightarrow>
     header_name (m_method r) \<and> CHR '' '' \<notin> set (m_uri r) \<and> CR \<notin> set (m_uri r) \<and> CR \<notin> set (m_version r) \<and>
     headers_ok (m_headers r) \<and> get_header ''Host'' (m_headers r) \<noteq> [] \<and> body_ok (m_headers r) (m_body r) \<and>
     length (m_method r) + length (m_uri r) + length (m_version r) + 8 + headers_count (m_headers r) \<le> max_header_size"

lemma request_body:
  assumes "body_ok hs b" "get_header ''Host'' hs \<noteq> []" "m_method r \<noteq> []" "m_headers r = hs" "m_body r = []" "m_body_bytes_needed r = 0"
    and "m_body_bytes_max r = max_body_size"
  shows "\<exists>r'. request_blank (pre @ b @ extra) (b @ extra) r = Inr (length pre + length b, r') \<and> m_ready r' \<and>
    m_body r' = b \<and> m_headers r' = hs \<and> m_method r' = m_method r \<and> m_uri r' = m_uri r \<and> m_version r' = m_version r"
proof (cases "b = []")
  case True
  then show ?thesis using assms by (simp add: request_blank_def prepare_body_def body_ok_def)
next
  case False
  then have "strtoul (get_header ''Content-Length'' hs) = length b"
    using assms(1) by (simp add: body_ok_def strtoul_digits max_body_size_def)
  then show ?thesis
    using assms False by (simp add: request_blank_def prepare_body_def process_body_def body_ok_def)
qed

lemma request_line:
  assumes "header_name me" "CHR '' '' \<notin> set u" "m_method r = []"
  shows "request_process (me @ '' '' @ u @ '' '' @ v) r = Inr (r\<lparr>m_method := me, m_uri := u, m_version := v\<rparr>)"
proof -
  have "CHR '' '' \<notin> set me" using assms(1) token_chars by (auto simp: header_name_def list_all_iff)
  then show ?thesis using assms by (simp add: request_process_def split_space_part set_method_def header_name_def)
qed

lemma request_reads_back:
  assumes "request_ok r"
  shows "\<exists>r'. request_consume (request_raw r @ extra) request = Inr (length (request_raw r), r') \<and> m_ready r' \<and>
    m_method r' = m_method r \<and> m_uri r' = m_uri r \<and> m_version r' = m_version r \<and> m_headers r' = m_headers r \<and>
    m_body r' = m_body r"
proof -
  let ?line = "m_method r @ '' '' @ m_uri r @ '' '' @ m_version r"
  let ?hs = "raw_headers (m_headers r)"
  let ?tail = "CR # LF # m_body r @ extra"
  let ?chunk = "request_raw r @ extra"
  define r1 where "r1 = request\<lparr>m_method := m_method r, m_uri := m_uri r, m_version := m_version r,
    m_header_bytes := length ?line + 3\<rparr>"
  define r2 where "r2 = r1\<lparr>m_headers := m_headers r, m_header_bytes := length ?line + 3 + headers_count (m_headers r)\<rparr>"
  define r3 where "r3 = r2\<lparr>m_header_bytes := m_header_bytes r2 + 3\<rparr>"
  have ok: "header_name (m_method r)" "CHR '' '' \<notin> set (m_uri r)" "CR \<notin> set (m_uri r)" "CR \<notin> set (m_version r)"
    "headers_ok (m_headers r)" "get_header ''Host'' (m_headers r) \<noteq> []" "body_ok (m_headers r) (m_body r)"
    "length ?line + 6 + headers_count (m_headers r) \<le> max_header_size"
    using assms by (simp_all add: request_ok_def)
  have meth: "m_method r \<noteq> []" "CR \<notin> set (m_method r)"
    using ok(1) token_chars by (auto simp: header_name_def list_all_iff)
  have cr: "CR \<notin> set ?line" using ok meth by (auto simp: CR_def)
  have "request_consume ?chunk request = request_lines ?chunk (?line @ CR # LF # ?hs @ ?tail) request"
    by (simp add: request_consume_def request_def request_raw_def)
  also have "\<dots> = request_lines ?chunk (?hs @ ?tail) r1"
    using ok(8) request_line [OF ok(1,2), of "request\<lparr>m_header_bytes := length ?line + 3\<rparr>" "m_version r"] meth
    by (subst request_lines.simps) (simp add: split_line_line [OF cr, simplified] r1_def request_def Let_def)
  also have "\<dots> = request_lines ?chunk ?tail r2"
    using ok(8) request_headers [OF ok(5), of r1 ?chunk ?tail] meth by (simp add: r1_def r2_def request_def)
  also have "\<dots> = request_blank ?chunk (m_body r @ extra) r3"
    using ok(8) by (subst request_lines.simps) (simp add: r2_def r1_def r3_def request_def Let_def)
  also have "\<exists>r'. \<dots> = Inr (length (request_raw r), r') \<and> m_ready r' \<and> m_body r' = m_body r \<and> m_headers r' = m_headers r \<and>
    m_method r' = m_method r3 \<and> m_uri r' = m_uri r3 \<and> m_version r' = m_version r3"
    using request_body [OF ok(7,6), of r3 "?line @ CR # LF # ?hs @ [CR, LF]" extra] meth
    by (simp add: r1_def r2_def r3_def request_def request_raw_def ac_simps)
  finally show ?thesis by (auto simp: r1_def r2_def r3_def)
qed

text \<open>A response that can be written.\<close>

definition response_ok :: "response \<Rightarrow> bool" where
  "response_ok r \<longleftrightarrow>
     CHR '' '' \<notin> set (m_version r) \<and> CR \<notin> set (m_version r) \<and> CR \<notin> set (m_status_msg r) \<and>
     0 \<le> m_status_code r \<and> m_status_code r < 2 ^ 31 \<and> headers_ok (m_headers r) \<and> body_ok (m_headers r) (m_body r) \<and>
     length (m_version r) + length (nat_digits (nat (m_status_code r))) + length (m_status_msg r) + 8 +
       headers_count (m_headers r) \<le> max_header_size"

lemma digits_chars: "CR \<notin> set (nat_digits n)" "CHR '' '' \<notin> set (nat_digits n)"
  using nat_digits_digits [of n] digit_code by (force simp: list_all_iff CR_def)+

lemma stream_int_digits: "n < 2 ^ 31 \<Longrightarrow> stream_int (nat_digits n) = Some (int n)"
  using scan_digits [OF nat_digits_digits [of n] nat_digits_not_Nil, of "[]"]
  by (simp add: stream_int_def stream_number_def decimal_value_nat_digits Let_def)

lemma response_line:
  assumes "CHR '' '' \<notin> set v" "n < 2 ^ 31"
  shows "response_process (v @ '' '' @ nat_digits n @ '' '' @ msg) r =
    Inr (r\<lparr>m_version := v, m_status_code := int n, m_status_msg := msg\<rparr>)"
  using assms by (simp add: response_process_def split_space_part digits_chars stream_int_digits set_status_msg_def)

lemma response_body:
  assumes "body_ok hs b" "m_headers r = hs" "m_body r = []" "m_rstate r = HEADERS" "pre \<noteq> []"
  shows "\<exists>r'. response_blank (pre @ b @ extra) (b @ extra) r = Inr (length pre + length b, r') \<and> headers_ready r' \<and>
    m_body r' = b \<and> m_headers r' = hs \<and> m_status_code r' = m_status_code r \<and> m_status_msg r' = m_status_msg r \<and>
    m_version r' = m_version r"
proof (cases "b = []")
  case True
  then show ?thesis using assms
    by (simp add: response_blank_def response_process_body_def body_ok_def headers_ready_def Let_def)
next
  case False
  then have "stream_unsigned (get_header ''Content-Length'' hs) = Some (length b)"
    using assms(1) by (simp add: body_ok_def stream_unsigned_digits max_body_size_def)
  then show ?thesis
    using assms False by (simp add: response_blank_def response_process_body_def body_ok_def headers_ready_def)
qed

lemma response_reads_back:
  assumes "response_ok r"
  shows "\<exists>r'. response_consume (response_raw r @ extra) response = Inr (length (response_raw r), r') \<and> headers_ready r' \<and>
    m_version r' = m_version r \<and> m_status_code r' = m_status_code r \<and> m_status_msg r' = m_status_msg r \<and>
    m_headers r' = m_headers r \<and> m_body r' = m_body r"
proof -
  let ?code = "nat_digits (nat (m_status_code r))"
  let ?line = "m_version r @ '' '' @ ?code @ '' '' @ m_status_msg r"
  let ?hs = "raw_headers (m_headers r)"
  let ?tail = "CR # LF # m_body r @ extra"
  let ?chunk = "response_raw r @ extra"
  define r1 where "r1 = response\<lparr>m_version := m_version r, m_status_code := m_status_code r, m_status_msg := m_status_msg r,
    m_rstate := HEADERS, m_header_bytes := length ?line + 3\<rparr>"
  define r2 where "r2 = r1\<lparr>m_headers := m_headers r, m_header_bytes := length ?line + 3 + headers_count (m_headers r)\<rparr>"
  define r3 where "r3 = r2\<lparr>m_header_bytes := m_header_bytes r2 + 3\<rparr>"
  have ok: "CHR '' '' \<notin> set (m_version r)" "CR \<notin> set (m_version r)" "CR \<notin> set (m_status_msg r)"
    "0 \<le> m_status_code r" "nat (m_status_code r) < 2 ^ 31" "headers_ok (m_headers r)" "body_ok (m_headers r) (m_body r)"
    "length ?line + 6 + headers_count (m_headers r) \<le> max_header_size"
    using assms by (auto simp: response_ok_def nat_less_iff)
  have raw: "response_raw r = ?line @ CR # LF # ?hs @ CR # LF # m_body r"
    using ok(4) by (simp add: response_raw_def show_int_def)
  have cr: "CR \<notin> set ?line" using ok digits_chars by (auto simp: CR_def)
  have "response_consume ?chunk response = response_lines ?chunk (?line @ CR # LF # ?hs @ ?tail) response"
    by (simp add: response_consume_def response_def raw)
  also have "\<dots> = response_lines ?chunk (?hs @ ?tail) r1"
    using ok(4,8) response_line [OF ok(1,5), of "m_status_msg r" "response\<lparr>m_header_bytes := length ?line + 3\<rparr>"]
    by (subst response_lines.simps) (simp add: split_line_line [OF cr, simplified] r1_def response_def Let_def)
  also have "\<dots> = response_lines ?chunk ?tail r2"
    using ok(8) response_headers [OF ok(6), of r1 ?chunk ?tail] by (simp add: r1_def r2_def response_def)
  also have "\<dots> = response_blank ?chunk (m_body r @ extra) r3"
    using ok(8) by (subst response_lines.simps) (simp add: r2_def r1_def r3_def response_def Let_def)
  also have "\<exists>r'. \<dots> = Inr (length (response_raw r), r') \<and> headers_ready r' \<and> m_body r' = m_body r \<and> m_headers r' = m_headers r \<and>
    m_status_code r' = m_status_code r3 \<and> m_status_msg r' = m_status_msg r3 \<and> m_version r' = m_version r3"
    using response_body [OF ok(7), of r3 "?line @ CR # LF # ?hs @ [CR, LF]" extra]
    by (simp add: r1_def r2_def r3_def response_def raw ac_simps)
  finally show ?thesis by (auto simp: r1_def r2_def r3_def)
qed

section \<open>Requests that arrive in parts\<close>

text \<open>The parts of a request as they are read, one after another.\<close>

fun request_feed :: "string list \<Rightarrow> request \<Rightarrow> request http" where
  "request_feed [] r = Inr r"
| "request_feed (s # ss) r = http_then (request_consume s r) (\<lambda>(n, r). request_feed ss r)"

lemma split_line_none: "CR \<notin> set w \<Longrightarrow> split_line w = None"
  by (induction w) auto

lemma request_part:
  assumes "CR \<notin> set (m_buf r @ s)" "\<not> m_ready r" "m_body_bytes_needed r = 0"
  shows "request_consume s r =
    (if m_header_bytes r + length (m_buf r @ s) + 3 > max_header_size then Inl (''Maximum header size exceeded.'', 431)
     else Inr (length s, r\<lparr>m_buf := m_buf r @ s, m_header_bytes := m_header_bytes r + 3\<rparr>))"
  using assms by (subst request_consume_def) (simp add: request_lines.simps split_line_none Let_def)

lemma request_feed_bytes:
  assumes "CR \<notin> set (m_buf r @ w)" "\<not> m_ready r" "m_body_bytes_needed r = 0"
  shows "request_feed (map (\<lambda>c. [c]) w) r =
    (if w = [] \<or> m_header_bytes r + length (m_buf r) + 4 * length w \<le> max_header_size
     then Inr (r\<lparr>m_buf := m_buf r @ w, m_header_bytes := m_header_bytes r + 3 * length w\<rparr>)
     else Inl (''Maximum header size exceeded.'', 431))"
  using assms
proof (induction w arbitrary: r)
  case Nil
  then show ?case by simp
next
  case (Cons c w)
  have "CR \<notin> set (m_buf r @ [c])" using Cons.prems(1) by simp
  note part = request_part [OF this Cons.prems(2,3)]
  show ?case
    using Cons.IH [of "r\<lparr>m_buf := m_buf r @ [c], m_header_bytes := m_header_bytes r + 3\<rparr>"] Cons.prems
    by (cases "w = []") (auto simp: part)
qed

text \<open>The room for the headers of a request depends on how its bytes arrive. One part of up to 15997 bytes
  without a line end is kept, and the reader waits for the rest; the same bytes one at a time are refused with the
  status 431 from the 4001st on, since every call of \<open>consume\<close> counts three bytes again that are not there.\<close>

theorem header_room_by_arrival:
  assumes "CR \<notin> set w" "w \<noteq> []"
  shows "request_feed [w] request =
      (if length w \<le> 15997 then Inr (request\<lparr>m_buf := w, m_header_bytes := 3\<rparr>)
       else Inl (''Maximum header size exceeded.'', 431)) \<and>
    request_feed (map (\<lambda>c. [c]) w) request =
      (if length w \<le> 4000 then Inr (request\<lparr>m_buf := w, m_header_bytes := 3 * length w\<rparr>)
       else Inl (''Maximum header size exceeded.'', 431))"
proof -
  have "request_feed [w] request = (if length w \<le> 15997 then Inr (request\<lparr>m_buf := w, m_header_bytes := 3\<rparr>)
       else Inl (''Maximum header size exceeded.'', 431))"
    using assms request_part [of request w] by (simp add: request_def max_header_size_def)
  then show ?thesis
    using assms request_feed_bytes [of request w] by (auto simp: request_def max_header_size_def)
qed

theorem header_room_by_arrival_witness:
  "request_feed [replicate 5000 (CHR ''a'')] request = Inr (request\<lparr>m_buf := replicate 5000 (CHR ''a''), m_header_bytes := 3\<rparr>) \<and>
   request_feed (map (\<lambda>c. [c]) (replicate 5000 (CHR ''a''))) request = Inl (''Maximum header size exceeded.'', 431)"
  using header_room_by_arrival [of "replicate 5000 (CHR ''a'')"] by (simp add: CR_def del: request_feed.simps map_replicate)

section \<open>Headers that are set\<close>

lemma to_lower_length [simp]: "length (to_lower k) = length k"
  by (simp add: to_lower_def)

lemma get_header_replace:
  "get_header k (replace_header k' v hs) = (if to_lower k = to_lower k' then v else get_header k hs)"
  by (simp add: get_header_def replace_header_def omap_find_insert Let_def)

lemma stored_key:
  assumes "headers_ok hs" "omap_find hs l = Some (k, v)"
  shows "to_lower k = l \<and> header_name k"
proof -
  have "(l, k, v) \<in> set hs" using assms by (simp add: headers_ok_def omap_find_in_set)
  then show ?thesis using assms(1) by (auto simp: headers_ok_def)
qed

lemma set_omap_insert: "set (omap_insert k v m) \<subseteq> insert (k, v) (set m)"
  by (induction k v m rule: omap_insert.induct) auto

lemma headers_ok_insert:
  assumes "headers_ok hs" "header_name k" "header_value v"
  shows "headers_ok (omap_insert (to_lower k) (k, v) hs)"
  using assms set_omap_insert [of "to_lower k" "(k, v)" hs] by (fastforce simp: headers_ok_def omap_inv_insert)

lemma replace_header_insert:
  assumes "headers_ok hs" "header_name k"
  shows "\<exists>k'. to_lower k' = to_lower k \<and> header_name k' \<and> replace_header k v hs = omap_insert (to_lower k') (k', v) hs"
proof (cases "omap_find hs (to_lower k)")
  case None
  then show ?thesis using assms(2) by (auto simp: replace_header_def)
next
  case (Some e)
  obtain a b where e: "e = (a, b)" by (rule prod.exhaust)
  then show ?thesis
    using stored_key [OF assms(1), of "to_lower k" a b] Some by (intro exI [of _ a]) (simp add: replace_header_def)
qed

lemma headers_ok_replace: "headers_ok hs \<Longrightarrow> header_name k \<Longrightarrow> header_value v \<Longrightarrow> headers_ok (replace_header k v hs)"
  by (metis replace_header_insert headers_ok_insert)

lemma headers_count_insert: "headers_count (omap_insert l (k, v) hs) \<le> headers_count hs + length k + length v + 5"
proof (induction l "(k, v)" hs rule: omap_insert.induct)
  case (2 l a b m)
  then show ?case by (cases b) (auto simp: headers_count_Cons)
qed (simp add: headers_count_def)

lemma headers_count_replace:
  assumes "headers_ok hs" "header_name k"
  shows "headers_count (replace_header k v hs) \<le> headers_count hs + length k + length v + 5"
  using replace_header_insert [OF assms] headers_count_insert by (metis to_lower_length)

lemma append_header_new: "header_name k \<Longrightarrow> get_header k hs = [] \<Longrightarrow> append_header k v hs = Inr (replace_header k v hs)"
  by (simp add: append_header_def header_name_def)

lemma raw_headers_length: "length (raw_headers hs) \<le> headers_count hs"
  by (induction hs) (auto simp: raw_headers_def headers_count_def)

lemma request_raw_length:
  "request_ok r \<Longrightarrow> length (request_raw r) \<le> max_header_size + length (m_body r)"
  using raw_headers_length [of "m_headers r"] by (simp add: request_ok_def request_raw_def)

text \<open>C27: A request that can be written (a method of token characters, a target without blanks, one header of
  each name, a host, a length header that fits the body, room for the headers) is read back from what \<open>raw\<close> writes,
  every part of it, and its reader takes exactly those bytes and leaves what follows them; the same holds of a
  response.\<close>

theorem http_roundtrip:
  assumes "request_ok q" "response_ok a"
  shows "(\<exists>q'. request_consume (request_raw q @ extra) request = Inr (length (request_raw q), q') \<and> m_ready q' \<and>
      m_method q' = m_method q \<and> m_uri q' = m_uri q \<and> m_version q' = m_version q \<and> m_headers q' = m_headers q \<and>
      m_body q' = m_body q) \<and>
    (\<exists>a'. response_consume (response_raw a @ extra) response = Inr (length (response_raw a), a') \<and> headers_ready a' \<and>
      m_version a' = m_version a \<and> m_status_code a' = m_status_code a \<and> m_status_msg a' = m_status_msg a \<and>
      m_headers a' = m_headers a \<and> m_body a' = m_body a)"
  using request_reads_back [OF assms(1)] response_reads_back [OF assms(2)] by blast

definition sample_request :: request where
  "sample_request = request\<lparr>m_method := ''GET'', m_uri := ''/x'', m_version := ''HTTP/1.1'',
     m_headers := [(''host'', ''Host'', ''a.org'')]\<rparr>"

definition sample_response :: response where
  "sample_response = response\<lparr>m_version := ''HTTP/1.1'', m_status_code := 404, m_status_msg := ''Not Found'',
     m_headers := [(''content-length'', ''Content-Length'', ''2'')], m_body := ''no''\<rparr>"

lemma header_names:
  "to_lower ''Host'' = ''host''" "to_lower ''Content-Length'' = ''content-length''" "nat_digits (Suc (Suc 0)) = ''2''" "nat_digits 404 = ''404''"
  by code_simp+

lemma sample_messages_ok: "request_ok sample_request" "response_ok sample_response"
proof -
  have "headers_ok (m_headers sample_request)" "header_name (m_method sample_request)"
    by (simp_all add: sample_request_def headers_ok_def omap_inv_def header_names
      header_name_def header_value_def is_token_char_def header_token_def is_whitespace_char_def CR_def)
  then show "request_ok sample_request"
    by (simp add: request_ok_def sample_request_def request_def body_ok_def get_header_def header_names
      max_header_size_def max_body_size_def headers_count_def CR_def)
  have "headers_ok (m_headers sample_response)"
    by (simp add: sample_response_def headers_ok_def omap_inv_def header_names
      header_name_def header_value_def is_token_char_def header_token_def is_whitespace_char_def CR_def)
  then show "response_ok sample_response"
    by (simp add: response_ok_def sample_response_def response_def body_ok_def get_header_def header_names
      max_header_size_def max_body_size_def headers_count_def CR_def)
qed

theorem http_roundtrip_witness:
  "(\<exists>q'. request_consume (request_raw sample_request @ ''rest'') request = Inr (length (request_raw sample_request), q') \<and>
      m_ready q' \<and> m_uri q' = ''/x'') \<and>
   (\<exists>a'. response_consume (response_raw sample_response @ ''rest'') response = Inr (length (response_raw sample_response), a') \<and>
      headers_ready a' \<and> m_body a' = ''no'')"
proof -
  have "m_uri sample_request = ''/x''" "m_body sample_response = ''no''"
    by (simp_all add: sample_request_def sample_response_def)
  then show ?thesis using http_roundtrip [OF sample_messages_ok, of "''rest''"] by auto
qed

end
