(* ===== verification/Ws_Uri.thy ===== *)
theory Ws_Uri
  imports Ws_Error
begin

text \<open>
  The URIs of the websocket library (Client/cpp/websocketpp/websocketpp/uri.hpp): the parser of the constructor,
  the constructors from parts, and the texts made from a URI. A constructor that returns early leaves the
  fields it has not reached unset; they are \<open>0\<close>, \<open>False\<close> and empty here, and \<open>m_valid\<close> is false.
\<close>

section \<open>Data\<close>

record uri =
  m_scheme :: string
  m_host :: string
  m_resource :: string
  m_port :: u16
  m_secure :: bool
  m_valid :: bool

definition uri_default_port :: u16 where "uri_default_port = 80"
definition uri_default_secure_port :: u16 where "uri_default_secure_port = 443"

definition no_uri :: uri where
  "no_uri = \<lparr>m_scheme = [], m_host = [], m_resource = [], m_port = 0, m_secure = False, m_valid = False\<rparr>"

section \<open>Ports\<close>

text \<open>\<open>atoi\<close>: blanks, a sign, digits, up to the first other character. The value is read as a 64-bit \<open>long\<close>,
  which stops at its ends, and converted to \<open>int\<close>, as the C library does (the standard leaves numbers outside
  \<open>int\<close> open).\<close>

definition strtol :: "string \<Rightarrow> int" where
  "strtol s =
     (let (neg, ds) = scan_number s; n = int (decimal_value ds)
      in max (- (2 ^ 63)) (min (2 ^ 63 - 1) (if neg then - n else n)))"

definition get_port_from_string :: "bool \<Rightarrow> string \<Rightarrow> u16 \<times> error_code" where
  "get_port_from_string secure port =
     (if port = [] then (if secure then uri_default_secure_port else uri_default_port, No_error)
      else
        (let t_port = (word_of_int (strtol port) :: u32);
             ec = (if t_port > 65535 then Library invalid_port else No_error);
             ec = (if t_port = 0 then Library invalid_port else ec)
         in (ucast t_port, ec)))"

section \<open>Parsing\<close>

text \<open>The name or address of a host, up to a colon or slash: the next state and the rest.\<close>

fun host_loop :: "string \<Rightarrow> string \<Rightarrow> nat \<times> string \<times> string" where
  "host_loop host [] = (2, host, [])"
| "host_loop host (c # it) =
     (if c = CHR ''/'' then (2, host, it)
      else if c = CHR '':'' then (1, host, it)
      else host_loop (host @ [c]) it)"

fun port_loop :: "string \<Rightarrow> string \<Rightarrow> string \<times> string" where
  "port_loop port [] = (port, [])"
| "port_loop port (c # it) = (if c = CHR ''/'' then (port, it) else port_loop (port @ [c]) it)"

definition uri_scheme :: "string \<Rightarrow> (bool \<times> string \<times> string) option" where
  "uri_scheme s =
     (if length s \<ge> 7 \<and> take 6 s = ''wss://'' then Some (True, ''wss'', drop 6 s)
      else if length s \<ge> 6 \<and> take 5 s = ''ws://'' then Some (False, ''ws'', drop 5 s)
      else if length s \<ge> 8 \<and> take 7 s = ''http://'' then Some (False, ''http'', drop 7 s)
      else if length s \<ge> 9 \<and> take 8 s = ''https://'' then Some (True, ''https'', drop 8 s)
      else None)"

text \<open>The host in brackets or not.\<close>

definition uri_host :: "string \<Rightarrow> (nat \<times> string \<times> string) option" where
  "uri_host it =
     (case it of
        [] \<Rightarrow> None
      | c # it' \<Rightarrow>
          if c = CHR ''['' then
            (let temp = dropWhile (\<lambda>c. c \<noteq> CHR '']'') it'; host = takeWhile (\<lambda>c. c \<noteq> CHR '']'') it'
             in case temp of
                  [] \<Rightarrow> None
                | _ # r \<Rightarrow>
                    (case r of
                       [] \<Rightarrow> Some (2, host, [])
                     | d # r' \<Rightarrow>
                         if d = CHR ''/'' then Some (2, host, r')
                         else if d = CHR '':'' then Some (1, host, r')
                         else None))
          else Some (host_loop [] it))"

definition parse_uri :: "string \<Rightarrow> uri" where
  "parse_uri s =
     (case uri_scheme s of
        None \<Rightarrow> no_uri
      | Some (secure, scheme, it) \<Rightarrow>
          (let u = no_uri\<lparr>m_secure := secure, m_scheme := scheme\<rparr>
           in case uri_host it of
                None \<Rightarrow> u
              | Some (st, host, it) \<Rightarrow>
                  (let u = u\<lparr>m_host := host\<rparr>;
                       (port, it) = (if st = 1 then port_loop [] it else ([], it));
                       (p, ec) = get_port_from_string secure port;
                       u = u\<lparr>m_port := p\<rparr>
                   in if ec \<noteq> No_error then u
                      else u\<lparr>m_resource := ''/'' @ it, m_valid := True\<rparr>)))"

section \<open>From parts\<close>

definition uri_of_port :: "bool \<Rightarrow> string \<Rightarrow> u16 \<Rightarrow> string \<Rightarrow> uri" where
  "uri_of_port secure host port resource =
     \<lparr>m_scheme = (if secure then ''wss'' else ''ws''), m_host = host, m_resource = (if resource = [] then ''/'' else resource),
      m_port = port, m_secure = secure, m_valid = True\<rparr>"

definition uri_of_host :: "bool \<Rightarrow> string \<Rightarrow> string \<Rightarrow> uri" where
  "uri_of_host secure host resource =
     \<lparr>m_scheme = (if secure then ''wss'' else ''ws''), m_host = host, m_resource = (if resource = [] then ''/'' else resource),
      m_port = (if secure then uri_default_secure_port else uri_default_port), m_secure = secure, m_valid = True\<rparr>"

definition uri_of_port_text :: "bool \<Rightarrow> string \<Rightarrow> string \<Rightarrow> string \<Rightarrow> uri" where
  "uri_of_port_text secure host port resource =
     (let (p, ec) = get_port_from_string secure port
      in \<lparr>m_scheme = (if secure then ''wss'' else ''ws''), m_host = host, m_resource = (if resource = [] then ''/'' else resource),
          m_port = p, m_secure = secure, m_valid = (ec = No_error)\<rparr>)"

definition secure_scheme :: "string \<Rightarrow> bool" where
  "secure_scheme scheme \<longleftrightarrow> scheme = ''wss'' \<or> scheme = ''https''"

definition uri_with_port :: "string \<Rightarrow> string \<Rightarrow> u16 \<Rightarrow> string \<Rightarrow> uri" where
  "uri_with_port scheme host port resource =
     \<lparr>m_scheme = scheme, m_host = host, m_resource = (if resource = [] then ''/'' else resource), m_port = port,
      m_secure = secure_scheme scheme, m_valid = True\<rparr>"

definition uri_with_host :: "string \<Rightarrow> string \<Rightarrow> string \<Rightarrow> uri" where
  "uri_with_host scheme host resource =
     \<lparr>m_scheme = scheme, m_host = host, m_resource = (if resource = [] then ''/'' else resource),
      m_port = (if secure_scheme scheme then uri_default_secure_port else uri_default_port),
      m_secure = secure_scheme scheme, m_valid = True\<rparr>"

definition uri_with_port_text :: "string \<Rightarrow> string \<Rightarrow> string \<Rightarrow> string \<Rightarrow> uri" where
  "uri_with_port_text scheme host port resource =
     (let (p, ec) = get_port_from_string (secure_scheme scheme) port
      in \<lparr>m_scheme = scheme, m_host = host, m_resource = (if resource = [] then ''/'' else resource), m_port = p,
          m_secure = secure_scheme scheme, m_valid = (ec = No_error)\<rparr>)"

section \<open>Texts\<close>

definition default_port :: "uri \<Rightarrow> u16" where
  "default_port u = (if m_secure u then uri_default_secure_port else uri_default_port)"

definition get_port_str :: "uri \<Rightarrow> string" where
  "get_port_str u = nat_digits (unat (m_port u))"

definition get_host_port :: "uri \<Rightarrow> string" where
  "get_host_port u = (if m_port u = default_port u then m_host u else m_host u @ '':'' @ get_port_str u)"

definition get_authority :: "uri \<Rightarrow> string" where
  "get_authority u = m_host u @ '':'' @ get_port_str u"

definition uri_str :: "uri \<Rightarrow> string" where
  "uri_str u = m_scheme u @ ''://'' @ m_host u @ (if m_port u \<noteq> default_port u then '':'' @ get_port_str u else []) @ m_resource u"

definition get_query :: "uri \<Rightarrow> string" where
  "get_query u =
     (case dropWhile (\<lambda>c. c \<noteq> CHR ''?'') (m_resource u) of [] \<Rightarrow> [] | _ # q \<Rightarrow> q)"

section \<open>What is accepted\<close>

lemma host_loop_spec:
  "host_loop host s = (st, host', it) \<Longrightarrow>
   \<exists>h. host' = host @ h \<and> CHR ''/'' \<notin> set h \<and> CHR '':'' \<notin> set h \<and>
     (st = 2 \<and> (s = h \<and> it = [] \<or> s = h @ ''/'' @ it) \<or> st = 1 \<and> s = h @ '':'' @ it)"
proof (induction host s rule: host_loop.induct)
  case (2 host c s)
  show ?case
  proof (cases "c = CHR ''/'' \<or> c = CHR '':''")
    case True
    then show ?thesis using "2.prems" by (intro exI [of _ "[]"]) auto
  next
    case False
    then obtain h where "host' = (host @ [c]) @ h" "CHR ''/'' \<notin> set h \<and> CHR '':'' \<notin> set h"
        "st = 2 \<and> (s = h \<and> it = [] \<or> s = h @ ''/'' @ it) \<or> st = 1 \<and> s = h @ '':'' @ it"
      using 2 by auto
    then show ?thesis using False by (intro exI [of _ "c # h"]) auto
  qed
qed simp

lemma host_loop_host:
  assumes "CHR ''/'' \<notin> set h" "CHR '':'' \<notin> set h"
  shows "host_loop host (h @ CHR ''/'' # it) = (2, host @ h, it)" "host_loop host (h @ CHR '':'' # it) = (1, host @ h, it)"
  using assms by (induction h arbitrary: host) auto

lemma port_loop_port: "CHR ''/'' \<notin> set p \<Longrightarrow> port_loop q (p @ CHR ''/'' # it) = (q @ p, it)"
  by (induction p arbitrary: q) auto

lemma strtol_digits:
  assumes "list_all is_digit ds" "ds \<noteq> []" "decimal_value ds < 2 ^ 63"
  shows "strtol ds = int (decimal_value ds)"
  using scan_digits [OF assms(1,2), of "[]"] assms(3) by (simp add: strtol_def min_def max_def Let_def)

lemma port_nonzero:
  assumes "(t :: u32) \<noteq> 0" "\<not> t > 65535"
  shows "(ucast t :: u16) \<noteq> 0"
proof -
  have "unat t < 65536" "unat t \<noteq> 0" using assms by (simp_all add: word_less_nat_alt unat_eq_zero)
  then have "unat (ucast t :: u16) \<noteq> 0" by (simp add: unsigned_ucast_eq take_bit_nat_eq_self)
  then show ?thesis by auto
qed

lemma port_digits:
  assumes "p \<noteq> 0"
  shows "get_port_from_string secure (nat_digits (unat p)) = (p, No_error)"
proof -
  have v: "decimal_value (nat_digits (unat p)) = unat p" by (rule decimal_value_nat_digits)
  have "unat p < 2 ^ LENGTH(16)" by (rule unsigned_less)
  then have small: "unat p < 65536" by simp
  have s: "strtol (nat_digits (unat p)) = int (unat p)"
    using strtol_digits [OF nat_digits_digits nat_digits_not_Nil, of "unat p"] small unfolding v by simp
  define t :: u32 where "t = word_of_int (int (unat p))"
  have t: "t = word_of_nat (unat p)" by (simp add: t_def)
  have "unat t = unat p" unfolding t using small by (subst unsigned_of_nat) (simp add: take_bit_nat_eq_self)
  moreover from this have "unat t \<noteq> 0" using assms by (simp add: unat_eq_zero)
  ultimately have "t \<noteq> 0" "\<not> t > 65535" "ucast t = p"
    using small by (auto simp: word_less_nat_alt unsigned_ucast_eq take_bit_nat_eq_self word_unat_eq_iff)
  moreover have "ucast p = t" by (simp add: t_def)
  ultimately show ?thesis by (simp add: get_port_from_string_def s Let_def)
qed

section \<open>Round trip\<close>

text \<open>A URI as a URL can write it: a host without brackets, and a port.\<close>

definition printable :: "uri \<Rightarrow> bool" where
  "printable u \<longleftrightarrow> m_valid u \<and> m_scheme u \<in> {''ws'', ''wss'', ''http'', ''https''} \<and> m_secure u = secure_scheme (m_scheme u) \<and>
     CHR ''/'' \<notin> set (m_host u) \<and> CHR '':'' \<notin> set (m_host u) \<and> take 1 (m_host u) \<noteq> ''['' \<and> m_port u \<noteq> 0 \<and>
     take 1 (m_resource u) = ''/''"

lemma uri_scheme_scheme:
  assumes "sch \<in> {''ws'', ''wss'', ''http'', ''https''}" "s \<noteq> []"
  shows "uri_scheme (sch @ ''://'' @ s) = Some (secure_scheme sch, sch, s)"
proof -
  have "1 \<le> length s" using assms(2) by (cases s) auto
  then have l: "length (a @ s) \<ge> Suc (length a)" for a by simp
  show ?thesis
    using assms(1) l [of "''ws://''"] l [of "''wss://''"] l [of "''http://''"] l [of "''https://''"]
    by (elim insertE emptyE) (simp_all add: uri_scheme_def secure_scheme_def)
qed

lemma default_port_text: "get_port_from_string (m_secure u) [] = (default_port u, No_error)"
  by (simp add: get_port_from_string_def default_port_def)

lemma no_slash_digits: "CHR ''/'' \<notin> set (nat_digits n)"
  using nat_digits_digits [of n] by (auto simp: list_all_iff is_digit_def less_eq_char_def)

lemma parse_str:
  assumes "printable u"
  shows "parse_uri (uri_str u) = u"
proof -
  obtain r where r: "m_resource u = CHR ''/'' # r"
    using assms by (cases "m_resource u") (auto simp: printable_def)
  define port where "port = (if m_port u \<noteq> default_port u then '':'' @ get_port_str u else [])"
  define st where "st = (if m_port u \<noteq> default_port u then 1 else 2 :: nat)"
  define it where "it = (if m_port u \<noteq> default_port u then get_port_str u @ ''/'' @ r else r)"
  have host: "uri_host (m_host u @ port @ m_resource u) = Some (st, m_host u, it)"
  proof -
    have "host_loop [] (m_host u @ port @ m_resource u) = (st, m_host u, it)"
      using assms host_loop_host [of "m_host u" "[]"] by (simp add: printable_def port_def r st_def it_def)
    moreover obtain c q where "m_host u @ port @ m_resource u = c # q" "c \<noteq> CHR ''[''"
      using assms by (cases "m_host u"; cases "m_port u = default_port u") (simp_all add: printable_def port_def r)
    ultimately show ?thesis by (simp add: uri_host_def)
  qed
  have "(if st = 1 then port_loop [] it else ([], it)) = (if m_port u \<noteq> default_port u then get_port_str u else [], r)"
    using port_loop_port [OF no_slash_digits, of "[]"] by (simp add: st_def it_def get_port_str_def)
  moreover have "get_port_from_string (m_secure u) (if m_port u \<noteq> default_port u then get_port_str u else []) = (m_port u, No_error)"
    using assms port_digits default_port_text [of u] by (simp add: get_port_str_def printable_def)
  moreover have "uri_scheme (uri_str u) = Some (m_secure u, m_scheme u, m_host u @ port @ m_resource u)"
    using assms uri_scheme_scheme [of "m_scheme u" "m_host u @ port @ m_resource u"]
    by (simp add: uri_str_def printable_def port_def r)
  ultimately show ?thesis
    using assms by (simp add: parse_uri_def host no_uri_def r [symmetric] printable_def)
qed

lemma parsed_printable:
  assumes "m_valid (parse_uri s)" "CHR ''['' \<notin> set s"
  shows "printable (parse_uri s)"
proof -
  obtain secure scheme it where sch: "uri_scheme s = Some (secure, scheme, it)"
    using assms(1) by (cases "uri_scheme s") (auto simp: parse_uri_def no_uri_def)
  have scheme: "scheme \<in> {''ws'', ''wss'', ''http'', ''https''}" "secure = secure_scheme scheme" "set it \<subseteq> set s" "it \<noteq> []"
    using sch by (auto simp: uri_scheme_def secure_scheme_def dest: in_set_dropD split: if_splits)
  obtain c q where it: "it = c # q" "c \<noteq> CHR ''[''" using scheme(3,4) assms(2) by (cases it) auto
  obtain st host it2 where host: "host_loop [] it = (st, host, it2)" by (metis prod_cases3)
  have h: "CHR ''/'' \<notin> set host" "CHR '':'' \<notin> set host" "set host \<subseteq> set it"
    using host_loop_spec [OF host] by auto
  obtain port it3 where port: "(if st = 1 then port_loop [] it2 else ([], it2)) = (port, it3)" by force
  obtain p ec where p: "get_port_from_string secure port = (p, ec)" by force
  have u: "uri_host it = Some (st, host, it2)" 
    unfolding uri_host_def it(1) list.case using it(2) host [unfolded it(1)] by (simp del: host_loop.simps)
  define v where "v = no_uri\<lparr>m_secure := secure, m_scheme := scheme, m_host := host, m_port := p\<rparr>"
  have "parse_uri s = (if ec \<noteq> No_error then v else v\<lparr>m_resource := ''/'' @ it3, m_valid := True\<rparr>)"
    unfolding parse_uri_def sch option.case prod.case u Let_def port p v_def by (rule refl)
  then have ec: "ec = No_error" "parse_uri s = v\<lparr>m_resource := ''/'' @ it3, m_valid := True\<rparr>"
    using assms(1) by (auto simp: v_def no_uri_def split: if_splits)
  have "p \<noteq> 0"
    using p ec(1) port_nonzero by (auto simp: get_port_from_string_def uri_default_port_def uri_default_secure_port_def Let_def split: if_splits)
  then show ?thesis
    using scheme h assms(2) by (cases host) (auto simp: ec(2) v_def printable_def no_uri_def)
qed



text \<open>What the constructor accepts without brackets is a URI in normal form: a scheme of the four, its
  security, a host without slashes and colons, a port between 1 and 65535 and a resource that begins with a
  slash; printing it and reading it again changes nothing.\<close>

theorem parsed_uri_normal:
  assumes "m_valid (parse_uri s)" "CHR ''['' \<notin> set s"
  shows "printable (parse_uri s) \<and> parse_uri (uri_str (parse_uri s)) = parse_uri s"
  using parsed_printable [OF assms] parse_str by blast

lemma parsed_uri_normal_witness:
  "printable (parse_uri ''ws://localhost/eventbus/websocket'') \<and>
   uri_str (parse_uri ''http://localhost:80/a'') = ''http://localhost/a''"
proof
  have "m_valid (parse_uri ''ws://localhost/eventbus/websocket'')" by code_simp
  then show "printable (parse_uri ''ws://localhost/eventbus/websocket'')"
    using parsed_uri_normal by simp
  show "uri_str (parse_uri ''http://localhost:80/a'') = ''http://localhost/a''" by code_simp
qed

text \<open>The brackets of an IPv6 address are not part of the host, and are missing where the URI is printed.\<close>

theorem ipv6_loses_brackets:
  "m_valid (parse_uri ''ws://[::1]/'') \<and> get_host_port (parse_uri ''ws://[::1]/'') = ''::1'' \<and>
   \<not> m_valid (parse_uri (uri_str (parse_uri ''ws://[::1]/'')))"
  by code_simp

text \<open>A query without a path becomes part of the host.\<close>

theorem query_in_host: "m_host (parse_uri ''ws://h?x=1'') = ''h?x=1'' \<and> m_valid (parse_uri ''ws://h?x=1'')"
  by code_simp

end
