(* ===== verification/Ws_Sha1.thy ===== *)
theory Ws_Sha1
  imports Prelude
begin

text \<open>
  The hash of the opening handshake (Client/cpp/websocketpp/websocketpp/sha1/sha1.hpp), and SHA-1 as FIPS 180-4
  defines it: padding to blocks of 64 bytes, the message schedule, eighty rounds. The code keeps the length
  in one 32-bit word, so it computes the hash of messages shorter than 2^29 bytes.
\<close>

unbundle bit_operations_syntax

section \<open>The code\<close>

definition rol :: "u32 \<Rightarrow> nat \<Rightarrow> u32" where
  "rol v steps = push_bit steps v OR drop_bit (32 - steps) v"

type_synonym five = "u32 \<times> u32 \<times> u32 \<times> u32 \<times> u32"

text \<open>\<open>sha1macro\<close>: the function of the round is applied to \<open>b\<close>, \<open>c\<close> and \<open>d\<close>.\<close>

definition sha1macro :: "(u32 \<Rightarrow> u32 \<Rightarrow> u32 \<Rightarrow> u32) \<Rightarrow> u32 \<Rightarrow> u32 \<Rightarrow> five \<Rightarrow> five" where
  "sha1macro func val wr = (\<lambda>(a, b, c, d, e). (rol a 5 + func b c d + e + val + wr, a, rol b 30, c, d))"

definition plain_round :: "nat \<Rightarrow> five \<times> u32 list \<Rightarrow> five \<times> u32 list" where
  "plain_round rnd = (\<lambda>(s, w). (sha1macro (\<lambda>b c d. (b AND c) OR (NOT b AND d)) 0x5a827999 (w ! rnd) s, w))"

definition schedule_round :: "(u32 \<Rightarrow> u32 \<Rightarrow> u32 \<Rightarrow> u32) \<Rightarrow> u32 \<Rightarrow> nat \<Rightarrow> five \<times> u32 list \<Rightarrow> five \<times> u32 list" where
  "schedule_round func val rnd = (\<lambda>(s, w).
     let w = w[rnd := rol (w ! (rnd - 3) XOR w ! (rnd - 8) XOR w ! (rnd - 14) XOR w ! (rnd - 16)) 1]
     in (sha1macro func val (w ! rnd) s, w))"

definition innerHash :: "five \<Rightarrow> u32 list \<Rightarrow> five \<times> u32 list" where
  "innerHash result w =
     (let st = fold plain_round [0..<16] (result, w);
          st = fold (schedule_round (\<lambda>b c d. (b AND c) OR (NOT b AND d)) 0x5a827999) [16..<20] st;
          st = fold (schedule_round (\<lambda>b c d. b XOR c XOR d) 0x6ed9eba1) [20..<40] st;
          st = fold (schedule_round (\<lambda>b c d. (b AND c) OR (b AND d) OR (c AND d)) 0x8f1bbcdc) [40..<60] st;
          st = fold (schedule_round (\<lambda>b c d. b XOR c XOR d) 0xca62c1d6) [60..<80] st;
          (r0, r1, r2, r3, r4) = result; ((a, b, c, d, e), w) = st
      in ((r0 + a, r1 + b, r2 + c, r3 + d, r4 + e), w))"

definition clearWBuffert :: "u32 list \<Rightarrow> u32 list" where
  "clearWBuffert w = fold (\<lambda>pos w. w[pos := 0]) (rev [0..<16]) w"

text \<open>A full block, four bytes to a word.\<close>

definition load_block :: "u8 list \<Rightarrow> nat \<Rightarrow> u32 list \<Rightarrow> u32 list" where
  "load_block src cur w =
     fold (\<lambda>pos w. w[pos := ucast (src ! (cur + 4 * pos + 3)) OR push_bit 8 (ucast (src ! (cur + 4 * pos + 2))) OR
       push_bit 16 (ucast (src ! (cur + 4 * pos + 1))) OR push_bit 24 (ucast (src ! (cur + 4 * pos)))]) [0..<16] w"

function full_blocks :: "u8 list \<Rightarrow> nat \<Rightarrow> five \<Rightarrow> u32 list \<Rightarrow> nat \<times> five \<times> u32 list" where
  "full_blocks src cur result w =
     (if cur + 64 \<le> length src then
        (let (result, w) = innerHash result (load_block src cur w) in full_blocks src (cur + 64) result w)
      else (cur, result, w))"
  by pat_completeness auto
termination by (relation "measure (\<lambda>(src, cur, _). length src + 64 - cur)") auto

declare full_blocks.simps [simp del]

text \<open>A byte of the last block, joined to its word.\<close>

definition put_byte :: "nat \<Rightarrow> u8 \<Rightarrow> u32 list \<Rightarrow> u32 list" where
  "put_byte pos b w = w[pos div 4 := w ! (pos div 4) OR push_bit (8 * (3 - pos mod 4)) (ucast b)]"

definition calc :: "u8 list \<Rightarrow> u8 list" where
  "calc src =
     (let (cur, result, w) = full_blocks src 0 (0x67452301, 0xefcdab89, 0x98badcfe, 0x10325476, 0xc3d2e1f0) (replicate 80 0);
          end = length src - cur;
          w = clearWBuffert w;
          w = fold (\<lambda>pos w. put_byte pos (src ! (pos + cur)) w) [0..<end] w;
          w = put_byte end 0x80 w;
          (result, w) = (if end \<ge> 56 then (let (result, w) = innerHash result w in (result, clearWBuffert w)) else (result, w));
          w = w[15 := ucast (push_bit 3 (word_of_nat (length src) :: u64))];
          (r0, r1, r2, r3, r4) = fst (innerHash result w)
      in map (\<lambda>hashByte. ucast (drop_bit (8 * (3 - hashByte mod 4)) ([r0, r1, r2, r3, r4] ! (hashByte div 4)) AND 0xff)) [0..<20])"

section \<open>The standard\<close>

text \<open>Words are the bytes of a block in big-endian order.\<close>

definition be_word :: "(nat \<Rightarrow> u8) \<Rightarrow> nat \<Rightarrow> u32" where
  "be_word f j = push_bit 24 (ucast (f (4 * j))) OR push_bit 16 (ucast (f (4 * j + 1))) OR
     push_bit 8 (ucast (f (4 * j + 2))) OR ucast (f (4 * j + 3))"

definition be_bytes :: "u32 \<Rightarrow> u8 list" where
  "be_bytes v = [ucast (drop_bit 24 v), ucast (drop_bit 16 v), ucast (drop_bit 8 v), ucast v]"

fun schedule :: "(nat \<Rightarrow> u32) \<Rightarrow> nat \<Rightarrow> u32" where
  "schedule M t = (if t < 16 then M t
     else rol (schedule M (t - 3) XOR schedule M (t - 8) XOR schedule M (t - 14) XOR schedule M (t - 16)) 1)"

declare schedule.simps [simp del]

definition sha1_f :: "nat \<Rightarrow> u32 \<Rightarrow> u32 \<Rightarrow> u32 \<Rightarrow> u32" where
  "sha1_f t x y z =
     (if t \<le> 19 then (x AND y) XOR (NOT x AND z)
      else if t \<le> 39 then x XOR y XOR z
      else if t \<le> 59 then (x AND y) XOR (x AND z) XOR (y AND z)
      else x XOR y XOR z)"

definition sha1_K :: "nat \<Rightarrow> u32" where
  "sha1_K t = (if t \<le> 19 then 0x5a827999 else if t \<le> 39 then 0x6ed9eba1 else if t \<le> 59 then 0x8f1bbcdc else 0xca62c1d6)"

definition sha1_round :: "(nat \<Rightarrow> u32) \<Rightarrow> nat \<Rightarrow> five \<Rightarrow> five" where
  "sha1_round M t = (\<lambda>(a, b, c, d, e). (rol a 5 + sha1_f t b c d + e + sha1_K t + schedule M t, a, rol b 30, c, d))"

definition add_five :: "five \<Rightarrow> five \<Rightarrow> five" where
  "add_five = (\<lambda>(r0, r1, r2, r3, r4) (a, b, c, d, e). (r0 + a, r1 + b, r2 + c, r3 + d, r4 + e))"

definition sha1_block :: "(nat \<Rightarrow> u32) \<Rightarrow> five \<Rightarrow> five" where
  "sha1_block M h = add_five h (fold (sha1_round M) [0..<80] h)"

definition sha1_pad :: "u8 list \<Rightarrow> u8 list" where
  "sha1_pad m = m @ 0x80 # replicate ((119 - length m mod 64) mod 64) 0 @
     map (\<lambda>i. ucast (drop_bit (56 - 8 * i) (word_of_nat (8 * length m) :: u64))) [0..<8]"

definition sha1_H0 :: five where
  "sha1_H0 = (0x67452301, 0xefcdab89, 0x98badcfe, 0x10325476, 0xc3d2e1f0)"

definition sha1_blocks :: "u8 list \<Rightarrow> five \<Rightarrow> five" where
  "sha1_blocks p h = fold (\<lambda>k. sha1_block (be_word (\<lambda>i. p ! (64 * k + i)))) [0..<length p div 64] h"

definition sha1_hash :: "u8 list \<Rightarrow> u8 list" where
  "sha1_hash m = (let (a, b, c, d, e) = sha1_blocks (sha1_pad m) sha1_H0 in concat (map be_bytes [a, b, c, d, e]))"

section \<open>One block\<close>

lemma ch_xor: "(b AND c) OR (NOT b AND d) = (b AND c) XOR (NOT b AND (d::u32))"
  by (rule bit_word_eqI) (auto simp: bit_simps)

lemma maj_xor: "(b AND c) OR (b AND d) OR (c AND d) = (b AND c) XOR (b AND d) XOR (c AND (d::u32))"
  by (rule bit_word_eqI) (auto simp: bit_simps)

text \<open>The state of the code after \<open>t\<close> rounds: the words up to \<open>t\<close> are scheduled.\<close>

definition rounds_done :: "(nat \<Rightarrow> u32) \<Rightarrow> five \<Rightarrow> nat \<Rightarrow> five \<times> u32 list \<Rightarrow> bool" where
  "rounds_done M h t st \<longleftrightarrow>
     fst st = fold (sha1_round M) [0..<t] h \<and> length (snd st) = 80 \<and> (\<forall>i < max t 16. snd st ! i = schedule M i)"

lemma fold_rounds:
  assumes "\<And>t st. lo \<le> t \<Longrightarrow> t < hi \<Longrightarrow> rounds_done M h t st \<Longrightarrow> rounds_done M h (Suc t) (f t st)"
    and "rounds_done M h lo st" "lo \<le> hi"
  shows "rounds_done M h hi (fold f [lo..<hi] st)"
  using assms
proof (induction "hi - lo" arbitrary: lo st)
  case 0
  then show ?case by simp
next
  case (Suc n)
  then have "rounds_done M h (Suc lo) (f lo st)" by simp
  then show ?case using Suc by (simp add: upt_conv_Cons)
qed

lemma plain_done:
  assumes "t < 16" "rounds_done M h t st"
  shows "rounds_done M h (Suc t) (plain_round t st)"
  using assms
  by (auto simp: rounds_done_def plain_round_def sha1macro_def sha1_round_def sha1_f_def sha1_K_def ch_xor split: prod.splits)

lemma schedule_done:
  assumes "16 \<le> t" "t < 80" "rounds_done M h t st" "\<And>b c d. func b c d = sha1_f t b c d" "val = sha1_K t"
  shows "rounds_done M h (Suc t) (schedule_round func val t st)"
proof -
  obtain a b c d e w where st: "st = ((a, b, c, d, e), w)" by (metis prod_cases5 prod.collapse)
  have w: "w[t := rol (w ! (t - 3) XOR w ! (t - 8) XOR w ! (t - 14) XOR w ! (t - 16)) 1] ! t = schedule M t"
    using assms(1-3) by (subst schedule.simps) (simp add: rounds_done_def st)
  then show ?thesis
    using assms
    by (auto simp: rounds_done_def schedule_round_def sha1macro_def sha1_round_def st Let_def less_Suc_eq nth_list_update split: prod.splits)
qed

lemma innerHash_block:
  assumes "length w = 80" "\<forall>i < 16. w ! i = M i"
  shows "fst (innerHash h w) = sha1_block M h" "length (snd (innerHash h w)) = 80"
proof -
  have start: "rounds_done M h 0 (h, w)"
    using assms schedule.simps [of M] by (simp add: rounds_done_def)
  define s1 where "s1 = fold plain_round [0..<16] (h, w)"
  have 1: "rounds_done M h 16 s1"
    unfolding s1_def by (rule fold_rounds [OF _ start]) (simp_all add: plain_done)
  define s2 where "s2 = fold (schedule_round (\<lambda>b c d. (b AND c) OR (NOT b AND d)) 0x5a827999) [16..<20] s1"
  have 2: "rounds_done M h 20 s2"
    unfolding s2_def by (rule fold_rounds [OF _ 1]) (auto intro!: schedule_done simp: sha1_f_def sha1_K_def ch_xor)
  define s3 where "s3 = fold (schedule_round (\<lambda>b c d. b XOR c XOR d) 0x6ed9eba1) [20..<40] s2"
  have 3: "rounds_done M h 40 s3"
    unfolding s3_def by (rule fold_rounds [OF _ 2]) (auto intro!: schedule_done simp: sha1_f_def sha1_K_def)
  define s4 where "s4 = fold (schedule_round (\<lambda>b c d. (b AND c) OR (b AND d) OR (c AND d)) 0x8f1bbcdc) [40..<60] s3"
  have 4: "rounds_done M h 60 s4"
    unfolding s4_def by (rule fold_rounds [OF _ 3]) (auto intro!: schedule_done simp: sha1_f_def sha1_K_def maj_xor)
  define s5 where "s5 = fold (schedule_round (\<lambda>b c d. b XOR c XOR d) 0xca62c1d6) [60..<80] s4"
  have 5: "rounds_done M h 80 s5"
    unfolding s5_def by (rule fold_rounds [OF _ 4]) (auto intro!: schedule_done simp: sha1_f_def sha1_K_def)
  have "innerHash h w = (add_five h (fst s5), snd s5)"
    unfolding innerHash_def Let_def s1_def [symmetric] s2_def [symmetric] s3_def [symmetric] s4_def [symmetric] s5_def [symmetric]
    by (simp add: add_five_def split: prod.splits)
  then show "fst (innerHash h w) = sha1_block M h" "length (snd (innerHash h w)) = 80"
    using 5 by (simp_all add: rounds_done_def sha1_block_def)
qed

section \<open>Full blocks\<close>

lemma fold_update:
  "n \<le> length w \<Longrightarrow> fold (\<lambda>pos w. w[pos := g pos]) [0..<n] w = map g [0..<n] @ drop n w"
proof (induction n)
  case (Suc n)
  then show ?case by (simp add: list_update_append Cons_nth_drop_Suc [symmetric])
qed simp

lemma load_block_words:
  assumes "length w = 80"
  shows "length (load_block src cur w) = 80" "\<forall>j < 16. load_block src cur w ! j = be_word (\<lambda>i. src ! (cur + i)) j"
  using assms unfolding load_block_def
  by (simp_all add: fold_update nth_append be_word_def or.commute or.left_commute or.assoc add.assoc)

lemma full_blocks_hash:
  assumes "64 * k \<le> length src" "length w = 80"
  shows "\<exists>w'. full_blocks src (64 * k) h w =
      (64 * (length src div 64), fold (\<lambda>k. sha1_block (be_word (\<lambda>i. src ! (64 * k + i)))) [k..<length src div 64] h, w') \<and>
    length w' = 80"
  using assms
proof (induction "length src div 64 - k" arbitrary: k h w)
  case 0
  then have "k = length src div 64" by simp
  then have "\<not> 64 * k + 64 \<le> length src" by presburger
  then show ?case using 0 \<open>k = length src div 64\<close> by (subst full_blocks.simps) simp
next
  case (Suc n)
  then have more: "64 * k + 64 \<le> length src" "k < length src div 64" by linarith+
  obtain h1 w1 where i: "innerHash h (load_block src (64 * k) w) = (h1, w1)" by (rule prod.exhaust)
  have h1: "h1 = sha1_block (be_word (\<lambda>i. src ! (64 * k + i))) h" "length w1 = 80"
    using innerHash_block [of "load_block src (64 * k) w" "be_word (\<lambda>i. src ! (64 * k + i))" h]
      load_block_words [OF Suc.prems(2), of src "64 * k"] i by auto
  have step: "full_blocks src (64 * k) h w = full_blocks src (64 * Suc k) h1 w1"
    using more(1) i by (subst full_blocks.simps) (simp add: add.commute)
  have "n = length src div 64 - Suc k" "64 * Suc k \<le> length src" using Suc.hyps(2) more by simp_all
  from Suc.hyps(1) [OF this h1(2), of h1] show ?case
    unfolding step using more(2) by (simp add: upt_conv_Cons h1(1))
qed

section \<open>The last block\<close>

definition loaded :: "(nat \<Rightarrow> u8) \<Rightarrow> u32 list \<Rightarrow> bool" where
  "loaded f w \<longleftrightarrow> length w = 80 \<and> (\<forall>j < 16. w ! j = be_word f j)"

lemma loaded_clear: "length w = 80 \<Longrightarrow> loaded (\<lambda>_. 0) (clearWBuffert w)"
proof -
  assume w: "length w = 80"
  have "fold (\<lambda>pos w. w[pos := 0]) ps w ! j = (if j \<in> set ps then 0 else w ! j) \<and>
      length (fold (\<lambda>pos w. w[pos := 0]) ps w) = length w" if "j < length w" for ps :: "nat list" and j and w :: "u32 list"
    using that by (induction ps arbitrary: w) (auto simp: nth_list_update)
  from this [of _ w "rev [0..<16]"] this [of 0 w "rev [0..<16]"] show ?thesis using w by (auto simp: loaded_def clearWBuffert_def be_word_def)
qed

lemma be_word_upd:
  assumes "f pos = 0"
  shows "be_word (f(pos := b)) j =
    (if j = pos div 4 then be_word f j OR push_bit (8 * (3 - pos mod 4)) (ucast b) else be_word f j)"
proof -
  define p where "p = (\<lambda>r. 4 * j + r)"
  have w: "be_word g j = push_bit 24 (ucast (g (p 0))) OR push_bit 16 (ucast (g (p 1))) OR
      push_bit 8 (ucast (g (p 2))) OR ucast (g (p 3))" for g
    by (simp add: be_word_def p_def)
  have p: "p r = p r' \<longleftrightarrow> r = r'" for r r' by (simp add: p_def)
  show ?thesis
  proof (cases "j = pos div 4")
    case True
    define r where "r = pos mod 4"
    have pos: "pos = p r" using True by (simp add: p_def r_def)
    have "r < 4" by (simp add: r_def)
    then have m: "p r mod 4 = r" by (simp add: p_def)
    from \<open>r < 4\<close> have "r = 0 \<or> r = 1 \<or> r = 2 \<or> r = 3" by auto
    then show ?thesis
      using assms True m unfolding w pos
      by (elim disjE) (simp_all add: p or.commute or.left_commute or.assoc)
  next
    case False
    then have "pos \<noteq> p 0" "pos \<noteq> p 1" "pos \<noteq> p 2" "pos \<noteq> p 3" by (auto simp: p_def)
    then show ?thesis using False unfolding w by simp
  qed
qed

lemma loaded_put:
  assumes "loaded f w" "pos < 64" "f pos = 0"
  shows "loaded (f(pos := b)) (put_byte pos b w)"
  using assms by (auto simp: loaded_def put_byte_def nth_list_update be_word_upd)

lemma loaded_bytes:
  assumes "n \<le> 64" "loaded (\<lambda>_. 0) w"
  shows "loaded (\<lambda>i. if i < n then g i else 0) (fold (\<lambda>pos w. put_byte pos (g pos) w) [0..<n] w)"
  using assms(1)
proof (induction n)
  case 0
  then show ?case using assms(2) by simp
next
  case (Suc n)
  have "(\<lambda>i. if i < Suc n then g i else 0) = (\<lambda>i. if i < n then g i else 0)(n := g n)" by auto
  then show ?case using Suc loaded_put [of "\<lambda>i. if i < n then g i else 0"] by (simp del: fun_upd_apply)
qed

lemma loaded_inner: "loaded f w \<Longrightarrow> innerHash h w = (sha1_block (be_word f) h, snd (innerHash h w)) \<and> length (snd (innerHash h w)) = 80"
  using innerHash_block [of w "be_word f" h] by (auto simp: loaded_def prod_eq_iff)

text \<open>The length, in the last two words.\<close>

definition len_byte :: "nat \<Rightarrow> nat \<Rightarrow> u8" where
  "len_byte n i = ucast (drop_bit (56 - 8 * i) (word_of_nat (8 * n) :: u64))"

lemma loaded_length:
  assumes "loaded f w" "\<forall>i \<ge> 56. f i = 0" "n < 2 ^ 29"
  shows "loaded (\<lambda>i. if i < 56 then f i else len_byte n (i - 56)) (w[15 := ucast (push_bit 3 (word_of_nat n :: u64))])"
proof -
  define L :: u64 where "L = word_of_nat (8 * n)"
  have L: "push_bit 3 (word_of_nat n :: u64) = L" by (simp add: L_def push_bit_eq_mult)
  have "unat L = 8 * n" using assms(3) unfolding L_def by (simp add: unat_of_nat take_bit_nat_eq_self del: of_nat_mult)
  then have small: "unat L < 2 ^ 32" using assms(3) by simp
  have high: "\<not> bit L i" if "32 \<le> i" for i
  proof -
    have "(2::nat) ^ 32 \<le> 2 ^ i" using that by (intro power_increasing) simp_all
    then have "\<not> bit (unat L) i" using small by (simp add: bit_iff_odd)
    then show ?thesis by (simp add: bit_unsigned_iff)
  qed
  have l: "len_byte n i = ucast (drop_bit (56 - 8 * i) L)" for i by (simp add: len_byte_def L_def)
  have "len_byte n i = 0" if "i < 4" for i
    unfolding l by (rule bit_word_eqI) (use that high in \<open>auto simp: bit_simps\<close>)
  then have w14: "be_word (\<lambda>i. if i < 56 then f i else len_byte n (i - 56)) 14 = be_word f 14"
    using assms(2) by (simp add: be_word_def)
  have w15: "be_word (\<lambda>i. if i < 56 then f i else len_byte n (i - 56)) 15 = ucast L"
  proof (rule bit_word_eqI)
    fix i
    assume "i < LENGTH(32)"
    then have "i < 8 \<or> 8 \<le> i \<and> i < 16 \<or> 16 \<le> i \<and> i < 24 \<or> 24 \<le> i \<and> i < 32" by auto
    then show "bit (be_word (\<lambda>i. if i < 56 then f i else len_byte n (i - 56)) 15) i = bit (ucast L :: u32) i"
      by (elim disjE) (auto simp: be_word_def l bit_simps)
  qed
  have "be_word (\<lambda>i. if i < 56 then f i else len_byte n (i - 56)) j = be_word f j" if "j < 14" for j
    using that by (simp add: be_word_def)
  then show ?thesis using assms(1) w14 w15 unfolding loaded_def L
    by (auto simp: nth_list_update less_Suc_eq numeral_eq_Suc)
qed

section \<open>The whole message\<close>

lemma be_word_cong: "(\<And>i. i < 64 \<Longrightarrow> f i = g i) \<Longrightarrow> j < 16 \<Longrightarrow> be_word f j = be_word g j"
  by (simp add: be_word_def)

lemma schedule_cong:
  assumes "\<And>j. j < 16 \<Longrightarrow> M j = N j"
  shows "schedule M t = schedule N t"
proof (induction t rule: less_induct)
  case (less t)
  then show ?case using assms by (subst (1 2) schedule.simps) simp
qed

lemma sha1_block_cong:
  assumes "\<And>i. i < 64 \<Longrightarrow> f i = g i"
  shows "sha1_block (be_word f) = sha1_block (be_word g)"
proof -
  have "schedule (be_word f) t = schedule (be_word g) t" for t
    by (rule schedule_cong) (use be_word_cong assms in blast)
  then show ?thesis by (simp add: sha1_block_def [abs_def] sha1_round_def [abs_def])
qed

lemma sha1_pad_length:
  "length (sha1_pad m) = 64 * (length m div 64 + (if length m mod 64 \<ge> 56 then 2 else 1))"
proof -
  define q e where "q = length m div 64" and "e = length m mod 64"
  have "length m = 64 * q + e" "e < 64" by (simp_all add: q_def e_def)
  moreover have "(119 - e) mod 64 = (if e \<ge> 56 then 119 - e else 55 - e)"
    by (cases "e \<ge> 56") (simp_all add: mod_if)
  ultimately show ?thesis by (simp add: sha1_pad_def e_def [symmetric] q_def [symmetric])
qed

lemma sha1_pad_nth:
  assumes "i < length (sha1_pad m)"
  shows "sha1_pad m ! i =
    (if i < length m then m ! i else if i = length m then 0x80
     else if i < length (sha1_pad m) - 8 then 0 else len_byte (length m) (i - (length (sha1_pad m) - 8)))"
proof -
  define k where "k = (119 - length m mod 64) mod 64"
  have p: "sha1_pad m = m @ 0x80 # replicate k 0 @ map (len_byte (length m)) [0..<8]"
    by (simp add: sha1_pad_def k_def len_byte_def [abs_def])
  have "length (sha1_pad m) = length m + k + 9" by (simp add: p)
  then show ?thesis using assms unfolding p by (auto simp: nth_append nth_Cons' nth_upt)
qed

lemma sha1_blocks_split:
  assumes "length p = 64 * (q + n)"
  shows "sha1_blocks p h = fold (\<lambda>k. sha1_block (be_word (\<lambda>i. p ! (64 * k + i)))) [q..<q + n]
    (fold (\<lambda>k. sha1_block (be_word (\<lambda>i. p ! (64 * k + i)))) [0..<q] h)"
proof -
  have "[0..<q + n] = [0..<q] @ [q..<q + n]" by (rule upt_add_eq_append) simp
  then show ?thesis using assms by (simp add: sha1_blocks_def)
qed

lemma calc_hash:
  assumes "length m < 2 ^ 29"
  shows "calc m = sha1_hash m"
proof -
  define q e where "q = length m div 64" and "e = length m mod 64"
  have m: "length m = 64 * q + e" "e < 64" by (simp_all add: q_def e_def)
  define p where "p = sha1_pad m"
  define B where "B = (\<lambda>k. sha1_block (be_word (\<lambda>i. p ! (64 * k + i))))"
  define f where "f = (\<lambda>i. if i < e then m ! (64 * q + i) else if i = e then 0x80 else (0::u8))"
  have len: "length p = 64 * (q + (if e \<ge> 56 then 2 else 1))" by (simp add: p_def sha1_pad_length q_def e_def)
  have nth: "p ! i = (if i < length m then m ! i else if i = length m then 0x80
     else if i < length p - 8 then 0 else len_byte (length m) (i - (length p - 8)))" if "i < length p" for i
    using sha1_pad_nth [of i m] that by (simp add: p_def)
  obtain w where w: "full_blocks m 0 sha1_H0 (replicate 80 0) =
      (64 * q, fold (\<lambda>k. sha1_block (be_word (\<lambda>i. m ! (64 * k + i)))) [0..<q] sha1_H0, w)" "length w = 80"
    using full_blocks_hash [of 0 m "replicate 80 0" sha1_H0] by (auto simp: q_def)
  define h where "h = fold (\<lambda>k. sha1_block (be_word (\<lambda>i. m ! (64 * k + i)))) [0..<q] sha1_H0"
  have "sha1_block (be_word (\<lambda>i. m ! (64 * k + i))) = B k" if "k < q" for k
    unfolding B_def using that len m by (intro sha1_block_cong) (simp add: nth)
  then have h: "h = fold B [0..<q] sha1_H0" unfolding h_def by (intro fold_cong) auto
  define w1 where "w1 = put_byte e 0x80 (fold (\<lambda>pos w. put_byte pos (m ! (pos + 64 * q)) w) [0..<e] (clearWBuffert w))"
  have "loaded (\<lambda>i. if i < e then m ! (i + 64 * q) else 0) (fold (\<lambda>pos w. put_byte pos (m ! (pos + 64 * q)) w) [0..<e] (clearWBuffert w))"
    using m(2) by (intro loaded_bytes loaded_clear w(2)) simp
  then have "loaded ((\<lambda>i. if i < e then m ! (i + 64 * q) else 0)(e := 0x80)) w1"
    unfolding w1_def using m(2) by (intro loaded_put) simp_all
  also have "(\<lambda>i. if i < e then m ! (i + 64 * q) else 0)(e := 0x80) = f" by (auto simp: f_def add.commute)
  finally have w1: "loaded f w1" .
  define len32 :: u32 where "len32 = ucast (push_bit 3 (word_of_nat (length m) :: u64))"
  have last: "fst (if e \<ge> 56 then innerHash (fst (innerHash h w1)) ((clearWBuffert (snd (innerHash h w1)))[15 := len32])
      else innerHash h (w1[15 := len32])) = sha1_blocks p sha1_H0"
  proof (cases "e \<ge> 56")
    case True
    have b0: "sha1_block (be_word f) = B q"
      unfolding B_def using True len m by (intro sha1_block_cong) (simp add: nth f_def)
    have i: "fst (innerHash h w1) = B q h" "length (snd (innerHash h w1)) = 80"
      using loaded_inner [OF w1, of h] b0 by (simp_all add: prod_eq_iff)
    have "loaded (\<lambda>i. if i < 56 then 0 else len_byte (length m) (i - 56)) ((clearWBuffert (snd (innerHash h w1)))[15 := len32])"
      unfolding len32_def by (rule loaded_length [OF loaded_clear [OF i(2)] _ assms]) simp
    from loaded_inner [OF this, of "B q h"] have
      "fst (innerHash (B q h) ((clearWBuffert (snd (innerHash h w1)))[15 := len32])) =
       sha1_block (be_word (\<lambda>i. if i < 56 then 0 else len_byte (length m) (i - 56))) (B q h)"
      by (simp add: prod_eq_iff)
    also have "sha1_block (be_word (\<lambda>i. if i < 56 then 0 else len_byte (length m) (i - 56))) = B (Suc q)"
      unfolding B_def using True len m by (intro sha1_block_cong) (auto simp: nth)
    finally show ?thesis
      using True len sha1_blocks_split [of p q 2 sha1_H0] unfolding B_def [symmetric]
      by (simp add: i h [symmetric] upt_conv_Cons)
  next
    case False
    have "loaded (\<lambda>i. if i < 56 then f i else len_byte (length m) (i - 56)) (w1[15 := len32])"
      unfolding len32_def using False by (intro loaded_length [OF w1 _ assms]) (simp add: f_def)
    from loaded_inner [OF this, of h] have
      "fst (innerHash h (w1[15 := len32])) = sha1_block (be_word (\<lambda>i. if i < 56 then f i else len_byte (length m) (i - 56))) h"
      by (simp add: prod_eq_iff)
    also have "sha1_block (be_word (\<lambda>i. if i < 56 then f i else len_byte (length m) (i - 56))) = B q"
      unfolding B_def using False len m by (intro sha1_block_cong) (auto simp: nth f_def)
    finally show ?thesis
      using False len sha1_blocks_split [of p q 1 sha1_H0] unfolding B_def [symmetric]
      by (simp add: h [symmetric])
  qed
  obtain a b c d g where five: "sha1_blocks p sha1_H0 = (a, b, c, d, g)" by (metis prod_cases5)
  have "calc m = (let (r0, r1, r2, r3, r4) = sha1_blocks p sha1_H0
      in map (\<lambda>hashByte. ucast (drop_bit (8 * (3 - hashByte mod 4)) ([r0, r1, r2, r3, r4] ! (hashByte div 4)) AND 0xff)) [0..<20])"
    unfolding last [symmetric] calc_def w(1) [unfolded sha1_H0_def] h_def [symmetric, unfolded sha1_H0_def]
    by (simp add: w1_def len32_def m Let_def case_prod_unfold)
  moreover have "ucast (v AND mask 8) = (ucast v :: u8)" for v :: u32
    by (rule bit_word_eqI) (auto simp: bit_simps)
  then have "ucast (v AND 0xff) = (ucast v :: u8)" for v :: u32
    by (simp add: mask_eq_exp_minus_1)
  moreover have "[0..<20] = [0, 1, 2, 3, 4, 5, 6, 7, 8, 9, 10, 11, 12, 13, 14, 15, 16, 17, 18, 19]" by code_simp
  ultimately show ?thesis
    by (simp add: five sha1_hash_def p_def [symmetric] be_bytes_def)
qed

text \<open>C25: The code computes SHA-1 as the standard defines it, for every message shorter than 2^29 bytes.\<close>

theorem sha1_standard:
  assumes "length m < 2 ^ 29"
  shows "calc m = sha1_hash m"
  using calc_hash [OF assms] .

lemma sha1_standard_witness: "calc [0x61, 0x62, 0x63] = sha1_hash [0x61, 0x62, 0x63]"
  using sha1_standard [of "[0x61, 0x62, 0x63]"] by simp

end
