(* ===== verification/Ws_Base64.thy ===== *)
theory Ws_Base64
  imports Prelude
begin

text \<open>
  Base64 of the websocket library (Client/cpp/websocketpp/websocketpp/base64/base64.hpp), which carries the
  key of the opening handshake and its answer. The arrays \<open>char_array_3\<close> and \<open>char_array_4\<close> are the lists of
  the elements filled so far; the loops read no others.
\<close>

unbundle bit_operations_syntax

section \<open>Encoding\<close>

definition base64_chars :: string where
  "base64_chars = ''ABCDEFGHIJKLMNOPQRSTUVWXYZabcdefghijklmnopqrstuvwxyz0123456789+/''"

definition is_base64 :: "char \<Rightarrow> bool" where
  "is_base64 c \<longleftrightarrow> code c = 43 \<or> (code c \<ge> 47 \<and> code c \<le> 57) \<or> (code c \<ge> 65 \<and> code c \<le> 90) \<or> (code c \<ge> 97 \<and> code c \<le> 122)"

text \<open>Three bytes as four groups of six bits.\<close>

definition sextets :: "u8 list \<Rightarrow> u8 list" where
  "sextets a =
     [drop_bit 2 (a ! 0 AND 0xFC),
      push_bit 4 (a ! 0 AND 0x03) + drop_bit 4 (a ! 1 AND 0xF0),
      push_bit 2 (a ! 1 AND 0x0F) + drop_bit 6 (a ! 2 AND 0xC0),
      a ! 2 AND 0x3F]"

definition base64_char :: "u8 \<Rightarrow> char" where
  "base64_char b = base64_chars ! unat b"

fun encode_loop :: "u8 list \<Rightarrow> u8 list \<Rightarrow> string \<Rightarrow> u8 list \<times> string" where
  "encode_loop a [] ret = (a, ret)"
| "encode_loop a (c # input) ret =
     (let a = a @ [c]
      in if length a = 3 then encode_loop [] input (ret @ map base64_char (sextets a))
         else encode_loop a input ret)"

definition base64_encode :: "u8 list \<Rightarrow> string" where
  "base64_encode input =
     (let (a, ret) = encode_loop [] input []; i = length a
      in if i \<noteq> 0
         then ret @ map base64_char (take (i + 1) (sextets (a @ replicate (3 - i) 0))) @ replicate (3 - i) (CHR ''='')
         else ret)"

section \<open>Decoding\<close>

text \<open>\<open>find\<close> in the table, as an unsigned char: a character that is not there is \<open>npos\<close>, which becomes 255.\<close>

definition base64_find :: "char \<Rightarrow> u8" where
  "base64_find c =
     (let n = length (takeWhile (\<lambda>d. d \<noteq> c) base64_chars)
      in if n < length base64_chars then word_of_nat n else 255)"

definition octets :: "u8 list \<Rightarrow> u8 list" where
  "octets a =
     [push_bit 2 (a ! 0) + drop_bit 4 (a ! 1 AND 0x30),
      push_bit 4 (a ! 1 AND 0xF) + drop_bit 2 (a ! 2 AND 0x3C),
      push_bit 6 (a ! 2 AND 0x3) + a ! 3]"

fun decode_loop :: "string \<Rightarrow> string \<Rightarrow> string \<Rightarrow> string \<times> string" where
  "decode_loop a [] ret = (a, ret)"
| "decode_loop a (c # input) ret =
     (if c = CHR ''='' \<or> \<not> is_base64 c then (a, ret)
      else
        (let a = a @ [c]
         in if length a = 4 then decode_loop [] input (ret @ map unbyte (octets (map base64_find a)))
            else decode_loop a input ret))"

definition base64_decode :: "string \<Rightarrow> string" where
  "base64_decode input =
     (let (a, ret) = decode_loop [] input []; i = length a
      in if i \<noteq> 0
         then ret @ map unbyte (take (i - 1) (octets (map base64_find (a @ replicate (4 - i) NUL))))
         else ret)"

section \<open>One group\<close>

lemma base64_chars_len: "length base64_chars = 64"
  by (simp add: base64_chars_def)

lemma base64_chars_ok: "list_all (\<lambda>c. is_base64 c \<and> c \<noteq> CHR ''='') base64_chars"
  by (simp add: base64_chars_def is_base64_def)

lemma base64_chars_distinct: "distinct base64_chars"
  by (simp add: base64_chars_def)

lemma takeWhile_nth: "distinct xs \<Longrightarrow> n < length xs \<Longrightarrow> length (takeWhile (\<lambda>d. d \<noteq> xs ! n) xs) = n"
  by (induction xs arbitrary: n) (auto simp: nth_Cons split: nat.splits)

lemma find_char:
  assumes "b < 64"
  shows "base64_find (base64_char b) = b" "is_base64 (base64_char b)" "base64_char b \<noteq> CHR ''=''"
proof -
  have "unat b < 64" using assms by (simp add: word_less_nat_alt)
  moreover from this have "length (takeWhile (\<lambda>d. d \<noteq> base64_chars ! unat b) base64_chars) = unat b"
    by (intro takeWhile_nth) (simp_all add: base64_chars_len base64_chars_distinct)
  ultimately show "base64_find (base64_char b) = b" "is_base64 (base64_char b)" "base64_char b \<noteq> CHR ''=''"
    using base64_chars_ok by (simp_all add: base64_char_def base64_find_def base64_chars_len list_all_length)
qed

text \<open>Bit by bit.\<close>

lemma u8_eqI:
  fixes a b :: u8
  assumes "bit a 0 = bit b 0" "bit a 1 = bit b 1" "bit a 2 = bit b 2" "bit a 3 = bit b 3" "bit a 4 = bit b 4"
    "bit a 5 = bit b 5" "bit a 6 = bit b 6" "bit a 7 = bit b 7"
  shows "a = b"
proof (rule bit_word_eqI)
  have "(\<forall>n < 8. P n) \<longleftrightarrow> P 0 \<and> P 1 \<and> P 2 \<and> P 3 \<and> P 4 \<and> P 5 \<and> P 6 \<and> P (7::nat)" for P
    by (simp add: numeral_eq_Suc All_less_Suc conj_ac)
  from this [of "\<lambda>n. bit a n = bit b n"] assms show "\<And>n. n < LENGTH(8) \<Longrightarrow> bit a n = bit b n" by simp
qed

lemma sextets_or:
  "sextets [a, b, c] =
     [drop_bit 2 (a AND 0xFC), push_bit 4 (a AND 0x03) OR drop_bit 4 (b AND 0xF0),
      push_bit 2 (b AND 0x0F) OR drop_bit 6 (c AND 0xC0), c AND 0x3F]"
proof -
  have "push_bit 4 (a AND 0x03) AND drop_bit 4 (b AND 0xF0) = 0" "push_bit 2 (b AND 0x0F) AND drop_bit 6 (c AND 0xC0) = 0"
    by (rule u8_eqI; simp add: bit_simps)+
  then show ?thesis by (simp add: sextets_def disjunctive_add_eq_or)
qed

lemma octets_or:
  assumes "d AND 0xC0 = 0"
  shows "octets [a, b, c, d] =
     [push_bit 2 a OR drop_bit 4 (b AND 0x30), push_bit 4 (b AND 0xF) OR drop_bit 2 (c AND 0x3C), push_bit 6 (c AND 0x3) OR d]"
proof -
  have "push_bit 2 a AND drop_bit 4 (b AND 0x30) = 0" "push_bit 4 (b AND 0xF) AND drop_bit 2 (c AND 0x3C) = 0"
    by (rule u8_eqI; simp add: bit_simps)+
  moreover have "bit d 6 = bit (d AND 0xC0) 6" "bit d 7 = bit (d AND 0xC0) 7" by (simp_all add: bit_simps)
  then have "push_bit 6 (c AND 0x3) AND d = 0" using assms by (intro u8_eqI) (simp_all add: bit_simps)
  ultimately show ?thesis by (simp add: octets_def disjunctive_add_eq_or)
qed

lemma sextets_less: "s \<in> set (sextets [a, b, c]) \<Longrightarrow> s < 64"
proof -
  have small: "s < 64" if "s AND 0xC0 = 0" for s :: u8
  proof -
    have "bit s 6 = bit (s AND 0xC0) 6" "bit s 7 = bit (s AND 0xC0) 7" by (simp_all add: bit_simps)
    then have "s = s AND 0x3F" using that by (intro u8_eqI) (simp_all add: bit_simps)
    then have "s \<le> 0x3F" by (metis word_and_le1)
    then show ?thesis by (rule le_less_trans) simp
  qed
  assume "s \<in> set (sextets [a, b, c])"
  then have "s AND 0xC0 = 0"
    unfolding sextets_or by (auto intro!: u8_eqI simp: bit_simps)
  then show ?thesis by (rule small)
qed

lemma octets_sextets: "octets (sextets [a, b, c]) = [a, b, c]"
proof -
  have "(c AND 0x3F) AND 0xC0 = 0" by (rule u8_eqI; simp add: bit_simps)
  then show ?thesis
    unfolding sextets_or by (subst octets_or) (auto intro!: u8_eqI simp: bit_simps)
qed

lemma octets_two: "take 2 (octets (take 3 (sextets [a, b, 0]) @ [255])) = [a, b]"
proof -
  have "take 2 (octets [x, y, z, 255]) = take 2 (octets [x, y, z, 0])" for x y z by (simp add: octets_def)
  moreover have "octets (take 3 (sextets [a, b, 0]) @ [0]) = [a, b, 0]"
    using octets_sextets [of a b 0] by (simp add: sextets_def)
  ultimately show ?thesis by (simp add: sextets_def)
qed

lemma octets_one: "take 1 (octets (take 2 (sextets [a, 0, 0]) @ [255, 255])) = [a]"
proof -
  have "take 1 (octets [x, y, 255, 255]) = take 1 (octets [x, y, 0, 0])" for x y by (simp add: octets_def)
  moreover have "octets (take 2 (sextets [a, 0, 0]) @ [0, 0]) = [a, 0, 0]"
    using octets_sextets [of a 0 0] by (simp add: sextets_def)
  ultimately show ?thesis by (simp add: sextets_def)
qed

section \<open>Round trip\<close>

lemma encode_loop_ret: "encode_loop a xs (ret @ r) = map_prod id (\<lambda>s. ret @ s) (encode_loop a xs r)"
  by (induction a xs r rule: encode_loop.induct) (simp_all add: Let_def)

lemma encode_loop_three:
  "encode_loop [] (a # b # c # xs) ret = encode_loop [] xs (ret @ map base64_char (sextets [a, b, c]))"
  by simp

lemma encode_three: "base64_encode (a # b # c # xs) = map base64_char (sextets [a, b, c]) @ base64_encode xs"
  using encode_loop_ret [of "[]" xs "map base64_char (sextets [a, b, c])" "[]"]
  by (simp add: base64_encode_def case_prod_unfold Let_def)

lemma decode_loop_ret: "decode_loop a xs (ret @ r) = map_prod id (\<lambda>s. ret @ s) (decode_loop a xs r)"
  by (induction a xs r rule: decode_loop.induct) (simp_all add: Let_def)

lemma decode_four:
  assumes "length cs = 4" "\<forall>c \<in> set cs. is_base64 c \<and> c \<noteq> CHR ''=''"
  shows "base64_decode (cs @ xs) = map unbyte (octets (map base64_find cs)) @ base64_decode xs"
proof -
  obtain p q r s where cs: "cs = [p, q, r, s]"
    using assms(1) by (auto simp: length_Suc_conv numeral_eq_Suc)
  have "decode_loop [] (cs @ xs) [] = decode_loop [] xs (map unbyte (octets (map base64_find cs)))"
    using assms(2) by (simp add: cs)
  then show ?thesis
    using decode_loop_ret [of "[]" xs "map unbyte (octets (map base64_find cs))" "[]"]
    by (simp add: base64_decode_def case_prod_unfold Let_def)
qed

lemma table_chars:
  assumes "set cs \<subseteq> base64_char ` {s. s < 64}"
  shows "\<forall>c \<in> set cs. is_base64 c \<and> c \<noteq> CHR ''=''"
proof
  fix c
  assume "c \<in> set cs"
  then obtain s where "s < 64" "c = base64_char s" using assms by auto
  then show "is_base64 c \<and> c \<noteq> CHR ''=''" using find_char(2,3) by simp
qed

lemma decode_sextets:
  assumes "set cs \<subseteq> base64_char ` {s. s < 64}" "length cs < 4" "rest = [] \<or> rest = CHR ''='' # r"
  shows "decode_loop [] (cs @ rest) [] = (cs, [])"
proof -
  have ok: "\<forall>c \<in> set cs. is_base64 c \<and> c \<noteq> CHR ''=''" using assms(1) by (rule table_chars)
  have "decode_loop a (cs @ rest) [] = (a @ cs, [])" if "length a + length cs < 4" for a
    using that ok
  proof (induction cs arbitrary: a)
    case Nil
    then show ?case using assms(3) by auto
  next
    case (Cons c cs)
    then show ?case using Cons.IH [of "a @ [c]"] by (auto simp: Let_def)
  qed
  from this [of "[]"] show ?thesis using assms(2) by simp
qed

lemma sextet_chars: "set (map base64_char (take n (sextets [a, b, c]))) \<subseteq> base64_char ` {s. s < 64}"
  using sextets_less [of _ a b c] set_take_subset [of n "sextets [a, b, c]"] by auto

lemma find_sextets: "map base64_find (map base64_char (take n (sextets [a, b, c]))) = take n (sextets [a, b, c])"
proof -
  have "base64_find (base64_char s) = s" if "s \<in> set (take n (sextets [a, b, c]))" for s
    using that find_char sextets_less set_take_subset by fast
  then show ?thesis by (simp add: map_idI)
qed

lemma find_NUL: "base64_find NUL = 255"
  by code_simp

lemma octets_len: "length (octets a) = 3" "length (sextets a) = 4" "sextets a \<noteq> []"
  by (simp_all add: octets_def sextets_def)

lemma decode_encode: "base64_decode (base64_encode xs) = map unbyte xs"
proof (induction "length xs" arbitrary: xs rule: less_induct)
  case less
  consider "xs = []" | a where "xs = [a]" | a b where "xs = [a, b]" | a b c ys where "xs = a # b # c # ys"
    by (metis neq_Nil_conv)
  then show ?case
  proof cases
    case 1
    then show ?thesis by (simp add: base64_encode_def base64_decode_def)
  next
    case 2
    define cs where "cs = map base64_char (take 2 (sextets [a, 0, 0]))"
    have e: "base64_encode xs = cs @ CHR ''='' # ''=''"
      by (simp add: 2 base64_encode_def cs_def numeral_eq_Suc)
    have d: "decode_loop [] (base64_encode xs) [] = (cs, [])"
      unfolding e cs_def by (rule decode_sextets [OF sextet_chars]) (simp_all add: octets_len)
    have "base64_decode (base64_encode xs) = map unbyte (take 1 (octets (take 2 (sextets [a, 0, 0]) @ [255, 255])))"
      using find_sextets [of 2 a 0 0] unfolding base64_decode_def d
      by (simp add: cs_def octets_len find_NUL numeral_eq_Suc)
    then show ?thesis by (simp only: octets_one 2 list.map)
  next
    case 3
    define cs where "cs = map base64_char (take 3 (sextets [a, b, 0]))"
    have e: "base64_encode xs = cs @ CHR ''='' # []"
      by (simp add: 3 base64_encode_def cs_def numeral_eq_Suc)
    have d: "decode_loop [] (base64_encode xs) [] = (cs, [])"
      unfolding e cs_def by (rule decode_sextets [OF sextet_chars]) (simp_all add: octets_len)
    have "base64_decode (base64_encode xs) = map unbyte (take 2 (octets (take 3 (sextets [a, b, 0]) @ [255])))"
      using find_sextets [of 3 a b 0] unfolding base64_decode_def d
      by (simp add: cs_def octets_len find_NUL numeral_eq_Suc)
    then show ?thesis by (simp only: octets_two 3 list.map)
  next
    case 4
    define cs where "cs = map base64_char (take 4 (sextets [a, b, c]))"
    have cs: "cs = map base64_char (sextets [a, b, c])" by (simp add: cs_def octets_len)
    have ok: "\<forall>c \<in> set cs. is_base64 c \<and> c \<noteq> CHR ''=''"
      unfolding cs_def by (rule table_chars [OF sextet_chars])
    have "base64_decode (base64_encode xs) = map unbyte (octets (map base64_find cs)) @ base64_decode (base64_encode ys)"
      unfolding 4 encode_three cs [symmetric] using ok by (intro decode_four) (simp_all add: cs octets_len)
    also have "map base64_find cs = sextets [a, b, c]"
      using find_sextets [of 4 a b c] by (simp add: cs_def octets_len)
    finally show ?thesis using less [of ys] by (simp add: 4 octets_sextets)
  qed
qed

interpretation base64: codec base64_encode "\<lambda>s. Some (map byte (base64_decode s))" "\<lambda>_. True"
  by unfold_locales (simp add: decode_encode map_idI)

section \<open>What an encoding looks like\<close>

lemma base64_induct [case_names zero one two three]:
  assumes "P []" "\<And>a. P [a]" "\<And>a b. P [a, b]" "\<And>a b c xs. P xs \<Longrightarrow> P (a # b # c # xs)"
  shows "P (xs :: u8 list)"
proof (induction xs rule: length_induct)
  case (1 xs)
  show ?case
  proof (cases xs)
    case Nil then show ?thesis using assms(1) by simp
  next
    case (Cons a ys)
    note a = Cons
    show ?thesis
    proof (cases ys)
      case Nil then show ?thesis using assms(2) a by simp
    next
      case (Cons b zs)
      then show ?thesis using assms(3,4) 1 a by (cases zs) auto
    qed
  qed
qed

lemma base64_char_table: "s < 64 \<Longrightarrow> base64_char s \<in> set base64_chars"
  by (simp add: base64_char_def base64_chars_len word_less_nat_alt)

lemma encode_length: "length (base64_encode xs) = 4 * ((length xs + 2) div 3)"
proof (induction xs rule: base64_induct)
  case (three a b c xs)
  moreover have "(length (a # b # c # xs) + 2) div 3 = (length xs + 2) div 3 + 1"
    using div_add_self2 [of 3 "length xs + 2"] by (simp add: ac_simps)
  ultimately show ?case by (simp add: encode_three octets_len)
qed (simp_all add: base64_encode_def octets_len Let_def)

lemma encode_chars: "set (base64_encode xs) \<subseteq> insert (CHR ''='') (set base64_chars)"
proof (induction xs rule: base64_induct)
  case (three a b c xs)
  moreover have "set (map base64_char (sextets [a, b, c])) \<subseteq> set base64_chars"
    using base64_char_table sextets_less [of _ a b c] by auto
  ultimately show ?case by (auto simp: encode_three)
next
  case (one a)
  then show ?case using base64_char_table sextets_less [of _ a 0 0]
    by (auto simp: base64_encode_def Let_def numeral_2_eq_2 dest: in_set_takeD)
next
  case (two a b)
  then show ?case using base64_char_table sextets_less [of _ a b 0]
    by (auto simp: base64_encode_def Let_def numeral_2_eq_2 numeral_3_eq_3 dest!: in_set_takeD)
qed (simp add: base64_encode_def)

text \<open>What \<open>base64_encode\<close> makes of any bytes, \<open>base64_decode\<close> reads back.\<close>

theorem base64_roundtrip: "base64_decode (base64_encode input) = map unbyte input"
  by (rule decode_encode)

end
