(* ===== verification/Ws_Md5.thy ===== *)
theory Ws_Md5
  imports Prelude
begin

text \<open>
  The hash of the oldest handshake (Client/cpp/websocketpp/websocketpp/common/md5.hpp): the state that takes a
  message in parts, the four rounds over a block, the last block with the length. Beside it, MD5 as RFC 1321
  defines it; the code computes it for every message, in whatever parts it comes.
\<close>

unbundle bit_operations_syntax

section \<open>The code\<close>

type_synonym four = "u32 \<times> u32 \<times> u32 \<times> u32"

record md5_state =
  md5_count0 :: u32
  md5_count1 :: u32
  abcd :: four
  md5_buf :: "u8 list"

definition T_MASK :: u32 where "T_MASK = NOT 0"

definition md5_T :: "u32 list" where
  "md5_T =
     [T_MASK XOR 0x28955b87, T_MASK XOR 0x173848a9, 0x242070db, T_MASK XOR 0x3e423111, T_MASK XOR 0x0a83f050,
      0x4787c62a, T_MASK XOR 0x57cfb9ec, T_MASK XOR 0x02b96afe, 0x698098d8, T_MASK XOR 0x74bb0850,
      T_MASK XOR 0x0000a44e, T_MASK XOR 0x76a32841, 0x6b901122, T_MASK XOR 0x02678e6c, T_MASK XOR 0x5986bc71,
      0x49b40821, T_MASK XOR 0x09e1da9d, T_MASK XOR 0x3fbf4cbf, 0x265e5a51, T_MASK XOR 0x16493855,
      T_MASK XOR 0x29d0efa2, 0x02441453, T_MASK XOR 0x275e197e, T_MASK XOR 0x182c0437, 0x21e1cde6,
      T_MASK XOR 0x3cc8f829, T_MASK XOR 0x0b2af278, 0x455a14ed, T_MASK XOR 0x561c16fa, T_MASK XOR 0x03105c07,
      0x676f02d9, T_MASK XOR 0x72d5b375, T_MASK XOR 0x0005c6bd, T_MASK XOR 0x788e097e, 0x6d9d6122,
      T_MASK XOR 0x021ac7f3, T_MASK XOR 0x5b4115bb, 0x4bdecfa9, T_MASK XOR 0x0944b49f, T_MASK XOR 0x4140438f,
      0x289b7ec6, T_MASK XOR 0x155ed805, T_MASK XOR 0x2b10cf7a, 0x04881d05, T_MASK XOR 0x262b2fc6,
      T_MASK XOR 0x1924661a, 0x1fa27cf8, T_MASK XOR 0x3b53a99a, T_MASK XOR 0x0bd6ddbb, 0x432aff97,
      T_MASK XOR 0x546bdc58, T_MASK XOR 0x036c5fc6, 0x655b59c3, T_MASK XOR 0x70f3336d, T_MASK XOR 0x00100b82,
      T_MASK XOR 0x7a7ba22e, 0x6fa87e4f, T_MASK XOR 0x01d3191f, T_MASK XOR 0x5cfebceb, 0x4e0811a1,
      T_MASK XOR 0x08ac817d, T_MASK XOR 0x42c50dca, 0x2ad7d2bb, T_MASK XOR 0x14792c6e]"

definition md5_round1 :: "(nat \<times> nat \<times> nat) list" where
  "md5_round1 =
     [(0, 7, 1), (1, 12, 2), (2, 17, 3), (3, 22, 4), (4, 7, 5), (5, 12, 6), (6, 17, 7), (7, 22, 8), (8, 7, 9),
      (9, 12, 10), (10, 17, 11), (11, 22, 12), (12, 7, 13), (13, 12, 14), (14, 17, 15), (15, 22, 16)]"

definition md5_round2 :: "(nat \<times> nat \<times> nat) list" where
  "md5_round2 =
     [(1, 5, 17), (6, 9, 18), (11, 14, 19), (0, 20, 20), (5, 5, 21), (10, 9, 22), (15, 14, 23), (4, 20, 24),
      (9, 5, 25), (14, 9, 26), (3, 14, 27), (8, 20, 28), (13, 5, 29), (2, 9, 30), (7, 14, 31), (12, 20, 32)]"

definition md5_round3 :: "(nat \<times> nat \<times> nat) list" where
  "md5_round3 =
     [(5, 4, 33), (8, 11, 34), (11, 16, 35), (14, 23, 36), (1, 4, 37), (4, 11, 38), (7, 16, 39), (10, 23, 40),
      (13, 4, 41), (0, 11, 42), (3, 16, 43), (6, 23, 44), (9, 4, 45), (12, 11, 46), (15, 16, 47), (2, 23, 48)]"

definition md5_round4 :: "(nat \<times> nat \<times> nat) list" where
  "md5_round4 =
     [(0, 6, 49), (7, 10, 50), (14, 15, 51), (5, 21, 52), (12, 6, 53), (3, 10, 54), (10, 15, 55), (1, 21, 56),
      (8, 6, 57), (15, 10, 58), (6, 15, 59), (13, 21, 60), (4, 6, 61), (11, 10, 62), (2, 15, 63), (9, 21, 64)]"

definition ROTATE_LEFT :: "u32 \<Rightarrow> nat \<Rightarrow> u32" where
  "ROTATE_LEFT x n = push_bit n x OR drop_bit (32 - n) x"

definition md5_F :: "u32 \<Rightarrow> u32 \<Rightarrow> u32 \<Rightarrow> u32" where "md5_F x y z = (x AND y) OR (NOT x AND z)"
definition md5_G :: "u32 \<Rightarrow> u32 \<Rightarrow> u32 \<Rightarrow> u32" where "md5_G x y z = (x AND z) OR (y AND NOT z)"
definition md5_H :: "u32 \<Rightarrow> u32 \<Rightarrow> u32 \<Rightarrow> u32" where "md5_H x y z = x XOR y XOR z"
definition md5_I :: "u32 \<Rightarrow> u32 \<Rightarrow> u32 \<Rightarrow> u32" where "md5_I x y z = y XOR (x OR NOT z)"

text \<open>\<open>SET\<close>: the register that is set comes first, and the registers of the next call are these, turned by one.\<close>

definition md5_SET :: "(u32 \<Rightarrow> u32 \<Rightarrow> u32 \<Rightarrow> u32) \<Rightarrow> (nat \<Rightarrow> u32) \<Rightarrow> nat \<times> nat \<times> nat \<Rightarrow> four \<Rightarrow> four" where
  "md5_SET f X = (\<lambda>(k, s, i) (a, b, c, d).
     let t = a + f b c d + X k + md5_T ! (i - 1) in (d, ROTATE_LEFT t s + b, b, c))"

text \<open>The words of a block, on a little-endian machine.\<close>

definition md5_word :: "u8 list \<Rightarrow> nat \<Rightarrow> u32" where
  "md5_word data k = ucast (data ! (4 * k)) OR push_bit 8 (ucast (data ! (4 * k + 1))) OR
     push_bit 16 (ucast (data ! (4 * k + 2))) OR push_bit 24 (ucast (data ! (4 * k + 3)))"

definition md5_process :: "u8 list \<Rightarrow> md5_state \<Rightarrow> md5_state" where
  "md5_process data pms =
     (let X = md5_word data;
          r = fold (md5_SET md5_F X) md5_round1 (abcd pms);
          r = fold (md5_SET md5_G X) md5_round2 r;
          r = fold (md5_SET md5_H X) md5_round3 r;
          r = fold (md5_SET md5_I X) md5_round4 r;
          (a0, b0, c0, d0) = abcd pms; (a, b, c, d) = r
      in pms\<lparr>abcd := (a0 + a, b0 + b, c0 + c, d0 + d)\<rparr>)"

definition md5_init :: md5_state where
  "md5_init = \<lparr>md5_count0 = 0, md5_count1 = 0,
     abcd = (0x67452301, T_MASK XOR 0x10325476, T_MASK XOR 0x67452301, 0x10325476), md5_buf = replicate 64 0\<rparr>"

text \<open>\<open>memcpy\<close> into the buffer.\<close>

definition memcpy_at :: "nat \<Rightarrow> u8 list \<Rightarrow> u8 list \<Rightarrow> u8 list" where
  "memcpy_at offset src dst = take offset dst @ src @ drop (offset + length src) dst"

text \<open>The full blocks, and what is left after them.\<close>

function md5_blocks :: "u8 list \<Rightarrow> md5_state \<Rightarrow> md5_state" where
  "md5_blocks p pms =
     (if length p \<ge> 64 then md5_blocks (drop 64 p) (md5_process (take 64 p) pms)
      else if p \<noteq> [] then pms\<lparr>md5_buf := memcpy_at 0 p (md5_buf pms)\<rparr>
      else pms)"
  by pat_completeness auto
termination by (relation "measure (\<lambda>(p, _). length p)") auto

declare md5_blocks.simps [simp del]

definition md5_append :: "u8 list \<Rightarrow> md5_state \<Rightarrow> md5_state" where
  "md5_append data pms =
     (let nbytes = length data;
          offset = unat (drop_bit 3 (md5_count0 pms) AND 63);
          nbits = ucast (push_bit 3 (word_of_nat nbytes :: u64)) :: u32
      in if nbytes \<le> 0 then pms
         else
           (let pms = pms\<lparr>md5_count1 := md5_count1 pms + ucast (drop_bit 29 (word_of_nat nbytes :: u64))\<rparr>;
                pms = pms\<lparr>md5_count0 := md5_count0 pms + nbits\<rparr>;
                pms = (if md5_count0 pms < nbits then pms\<lparr>md5_count1 := md5_count1 pms + 1\<rparr> else pms)
            in if offset \<noteq> 0 then
                 (let copy = (if offset + nbytes > 64 then 64 - offset else nbytes);
                      pms = pms\<lparr>md5_buf := memcpy_at offset (take copy data) (md5_buf pms)\<rparr>
                  in if offset + copy < 64 then pms
                     else md5_blocks (drop copy data) (md5_process (md5_buf pms) pms))
               else md5_blocks data pms))"

definition md5_pad :: "u8 list" where
  "md5_pad = 0x80 # replicate 63 0"

definition md5_finish :: "md5_state \<Rightarrow> u8 list" where
  "md5_finish pms =
     (let data = map (\<lambda>i. ucast (drop_bit (8 * (i mod 4)) ([md5_count0 pms, md5_count1 pms] ! (i div 4)))) [0..<8];
          pms = md5_append (take (unat ((55 - drop_bit 3 (md5_count0 pms)) AND 63) + 1) md5_pad) pms;
          pms = md5_append data pms;
          (a, b, c, d) = abcd pms
      in map (\<lambda>i. ucast (drop_bit (8 * (i mod 4)) ([a, b, c, d] ! (i div 4)))) [0..<16])"

definition md5_hash_string :: "u8 list \<Rightarrow> u8 list" where
  "md5_hash_string s = md5_finish (md5_append s md5_init)"

definition hexval :: string where
  "hexval = ''0123456789abcdef''"

definition md5_hash_hex :: "u8 list \<Rightarrow> string" where
  "md5_hash_hex input =
     concat (map (\<lambda>h. [hexval ! unat (drop_bit 4 h AND 0xF), hexval ! unat (h AND 0x0F)]) (md5_hash_string input))"

section \<open>The standard\<close>

definition sines :: "u32 list" where
  "sines =
     [0xd76aa478, 0xe8c7b756, 0x242070db, 0xc1bdceee, 0xf57c0faf, 0x4787c62a, 0xa8304613, 0xfd469501,
      0x698098d8, 0x8b44f7af, 0xffff5bb1, 0x895cd7be, 0x6b901122, 0xfd987193, 0xa679438e, 0x49b40821,
      0xf61e2562, 0xc040b340, 0x265e5a51, 0xe9b6c7aa, 0xd62f105d, 0x02441453, 0xd8a1e681, 0xe7d3fbc8,
      0x21e1cde6, 0xc33707d6, 0xf4d50d87, 0x455a14ed, 0xa9e3e905, 0xfcefa3f8, 0x676f02d9, 0x8d2a4c8a,
      0xfffa3942, 0x8771f681, 0x6d9d6122, 0xfde5380c, 0xa4beea44, 0x4bdecfa9, 0xf6bb4b60, 0xbebfbc70,
      0x289b7ec6, 0xeaa127fa, 0xd4ef3085, 0x04881d05, 0xd9d4d039, 0xe6db99e5, 0x1fa27cf8, 0xc4ac5665,
      0xf4292244, 0x432aff97, 0xab9423a7, 0xfc93a039, 0x655b59c3, 0x8f0ccc92, 0xffeff47d, 0x85845dd1,
      0x6fa87e4f, 0xfe2ce6e0, 0xa3014314, 0x4e0811a1, 0xf7537e82, 0xbd3af235, 0x2ad7d2bb, 0xeb86d391]"

definition md5_f :: "nat \<Rightarrow> u32 \<Rightarrow> u32 \<Rightarrow> u32 \<Rightarrow> u32" where
  "md5_f i x y z =
     (if i < 16 then (x AND y) OR (NOT x AND z)
      else if i < 32 then (x AND z) OR (y AND NOT z)
      else if i < 48 then x XOR y XOR z
      else y XOR (x OR NOT z))"

text \<open>The word of the block, and the turn, of an operation.\<close>

definition md5_k :: "nat \<Rightarrow> nat" where
  "md5_k i = (if i < 16 then i else if i < 32 then (5 * i + 1) mod 16 else if i < 48 then (3 * i + 5) mod 16 else 7 * i mod 16)"

definition md5_s :: "nat \<Rightarrow> nat" where
  "md5_s i = [[7, 12, 17, 22], [5, 9, 14, 20], [4, 11, 16, 23], [6, 10, 15, 21]] ! (i div 16) ! (i mod 4)"

definition md5_operation :: "(nat \<Rightarrow> u32) \<Rightarrow> nat \<Rightarrow> four \<Rightarrow> four" where
  "md5_operation M i = (\<lambda>(a, b, c, d).
     (d, b + ROTATE_LEFT (a + md5_f i b c d + M (md5_k i) + sines ! i) (md5_s i), b, c))"

definition add_four :: "four \<Rightarrow> four \<Rightarrow> four" where
  "add_four = (\<lambda>(a0, b0, c0, d0) (a, b, c, d). (a0 + a, b0 + b, c0 + c, d0 + d))"

definition md5_block :: "(nat \<Rightarrow> u32) \<Rightarrow> four \<Rightarrow> four" where
  "md5_block M h = add_four h (fold (md5_operation M) [0..<64] h)"

text \<open>The hash of the full blocks of a message.\<close>

definition md5_chain :: "u8 list \<Rightarrow> four" where
  "md5_chain m = fold (\<lambda>k. md5_block (md5_word (take 64 (drop (64 * k) m)))) [0..<length m div 64]
     (0x67452301, 0xefcdab89, 0x98badcfe, 0x10325476)"

definition md5_padded :: "u8 list \<Rightarrow> u8 list" where
  "md5_padded m = m @ 0x80 # replicate ((119 - length m mod 64) mod 64) 0 @ le_bytes 8 (word_of_nat (8 * length m) :: u64)"

definition md5_hash :: "u8 list \<Rightarrow> u8 list" where
  "md5_hash m = (let (a, b, c, d) = md5_chain (md5_padded m) in concat (map (le_bytes 4) [a, b, c, d]))"

section \<open>One block\<close>

lemma md5_T_sines: "md5_T = sines"
  by (simp add: md5_T_def sines_def T_MASK_def)

lemma md5_rounds:
  "md5_round1 = map (\<lambda>i. (md5_k i, md5_s i, i + 1)) [0..<16]"
  "md5_round2 = map (\<lambda>i. (md5_k i, md5_s i, i + 1)) [16..<32]"
  "md5_round3 = map (\<lambda>i. (md5_k i, md5_s i, i + 1)) [32..<48]"
  "md5_round4 = map (\<lambda>i. (md5_k i, md5_s i, i + 1)) [48..<64]"
  by code_simp+

lemma md5_SET_operation:
  assumes "f = md5_f i"
  shows "md5_SET f X (md5_k i, md5_s i, i + 1) = md5_operation X i"
  using assms by (simp add: fun_eq_iff md5_SET_def md5_operation_def md5_T_sines Let_def add.commute)

lemma fold_SET:
  assumes "\<And>i. i \<in> set is \<Longrightarrow> f = md5_f i"
  shows "fold (md5_SET f X) (map (\<lambda>i. (md5_k i, md5_s i, i + 1)) is) h = fold (md5_operation X) is h"
  unfolding fold_map comp_def using md5_SET_operation [OF assms] by (intro fold_cong) simp_all

lemma md5_functions:
  "i \<in> set [0..<16] \<Longrightarrow> md5_F = md5_f i" "i \<in> set [16..<32] \<Longrightarrow> md5_G = md5_f i"
  "i \<in> set [32..<48] \<Longrightarrow> md5_H = md5_f i" "i \<in> set [48..<64] \<Longrightarrow> md5_I = md5_f i"
  unfolding set_upt by (simp_all add: fun_eq_iff md5_F_def md5_G_def md5_H_def md5_I_def md5_f_def)

lemma md5_process_block: "md5_process data pms = pms\<lparr>abcd := md5_block (md5_word data) (abcd pms)\<rparr>"
proof -
  have "[0..<64] = [0..<16] @ [16..<32] @ [32..<48] @ [48..<64]" by code_simp
  then have "fold (md5_operation X) [0..<64] h = fold (md5_SET md5_I X) md5_round4 (fold (md5_SET md5_H X) md5_round3
      (fold (md5_SET md5_G X) md5_round2 (fold (md5_SET md5_F X) md5_round1 h)))" for X h
    by (simp only: md5_rounds fold_SET [OF md5_functions(1)] fold_SET [OF md5_functions(2)]
      fold_SET [OF md5_functions(3)] fold_SET [OF md5_functions(4)] fold_append comp_apply)
  then show ?thesis by (simp add: md5_process_def md5_block_def add_four_def Let_def split: prod.splits)
qed

section \<open>The length\<close>

text \<open>The two words of the count, as one.\<close>

definition md5_count :: "md5_state \<Rightarrow> u64" where
  "md5_count st = ucast (md5_count0 st) OR push_bit 32 (ucast (md5_count1 st))"

lemma plus_or:
  assumes "(a::u64) AND b = 0"
  shows "a + b = a OR b"
  using assms by (simp add: disjunctive_add_eq_or)

lemma high_add: "push_bit 32 (ucast (a + b :: u32) :: u64) = push_bit 32 (ucast a) + push_bit 32 (ucast b)"
proof -
  have h: "push_bit 32 (ucast (word_of_nat n :: u32) :: u64) = push_bit 32 (word_of_nat n)" for n
    by (rule bit_word_eqI) (auto simp: bit_simps)
  have "a + b = word_of_nat (unat a + unat b)" by simp
  then have "push_bit 32 (ucast (a + b) :: u64) = push_bit 32 (word_of_nat (unat a + unat b))" using h by metis
  also have "\<dots> = push_bit 32 (word_of_nat (unat a)) + push_bit 32 (word_of_nat (unat b))"
    by (simp add: push_bit_eq_mult algebra_simps)
  also have "\<dots> = push_bit 32 (ucast a) + push_bit 32 (ucast b)" by simp
  finally show ?thesis .
qed

lemma unat_32: "unat (w :: u32) < 2 ^ 32"
  by (rule order_less_le_trans [OF unsigned_less]) simp

lemma carry:
  fixes a b :: u32
  shows "ucast (a + b) + (if a + b < b then 2 ^ 32 else 0) = (ucast a + ucast b :: u64)"
proof -
  have s: "unat (a + b) = (if unat a + unat b < 2 ^ 32 then unat a + unat b else unat a + unat b - 2 ^ 32)"
    using unat_plus_if' [of a b] by simp
  have n: "unat (a + b) + (if a + b < b then 2 ^ 32 else 0) = unat a + unat b"
    using unat_32 [of a] unat_32 [of b] unfolding word_less_nat_alt s by (auto split: if_splits)
  have "(word_of_nat (unat (a + b)) :: u64) + word_of_nat (if a + b < b then 2 ^ 32 else 0) = word_of_nat (unat a) + word_of_nat (unat b)"
    using arg_cong [OF n, of "word_of_nat :: nat \<Rightarrow> u64"] by (simp only: of_nat_add)
  moreover have "word_of_nat (if a + b < b then 2 ^ 32 else 0) = (if a + b < b then 2 ^ 32 else (0::u64))"
    by (cases "a + b < b") simp_all
  ultimately show ?thesis by simp
qed

lemma add_carried: "a + c = l + b \<Longrightarrow> d + b = p \<Longrightarrow> a + (h + d + c) = l + h + (p :: u64)"
proof -
  assume 1: "a + c = l + b" and 2: "d + b = p"
  have "a + (h + d + c) = (a + c) + (h + d)" by (simp only: ac_simps)
  also have "\<dots> = l + h + (d + b)" unfolding 1 by (simp only: ac_simps)
  finally show ?thesis unfolding 2 .
qed

lemma count_add:
  "ucast (lo + ucast (push_bit 3 N)) +
     push_bit 32 (ucast (if lo + ucast (push_bit 3 N) < ucast (push_bit 3 N) then hi + ucast (drop_bit 29 N) + 1 else hi + ucast (drop_bit 29 N))) =
   (ucast (lo::u32) + push_bit 32 (ucast (hi::u32))) + push_bit 3 (N::u64)"
proof -
  define nb :: u32 where "nb = ucast (push_bit 3 N)"
  define c :: u32 where "c = (if lo + nb < nb then 1 else 0)"
  have hi: "push_bit 32 (ucast (ucast (drop_bit 29 N) :: u32) :: u64) = push_bit 32 (drop_bit 29 N)"
    by (rule bit_word_eqI) (auto simp: bit_simps)
  have "push_bit 32 (drop_bit 29 N) AND ucast nb = 0"
    unfolding nb_def by (rule bit_word_eqI) (auto simp: bit_simps)
  then have "push_bit 32 (drop_bit 29 N) + ucast nb = push_bit 32 (drop_bit 29 N) OR ucast nb" by (rule plus_or)
  also have "\<dots> = push_bit 3 N"
    unfolding nb_def by (rule bit_word_eqI) (auto simp: bit_simps)
  finally have n: "push_bit 32 (drop_bit 29 N) + ucast nb = push_bit 3 N" .
  have c: "push_bit 32 (ucast c :: u64) = (if lo + nb < nb then 2 ^ 32 else 0)" by (simp add: c_def push_bit_eq_mult)
  have "(if lo + nb < nb then hi + ucast (drop_bit 29 N) + 1 else hi + ucast (drop_bit 29 N)) = hi + ucast (drop_bit 29 N) + c"
    by (simp add: c_def)
  then show ?thesis
    unfolding nb_def [symmetric] using add_carried [OF carry n] by (simp only: high_add hi c)
qed

lemma count_plus: "md5_count st = ucast (md5_count0 st) + push_bit 32 (ucast (md5_count1 st))"
proof -
  have "ucast (md5_count0 st) AND push_bit 32 (ucast (md5_count1 st)) = (0::u64)"
    by (rule bit_word_eqI) (auto simp: bit_simps dest: bit_imp_le_length)
  then show ?thesis by (simp add: md5_count_def plus_or)
qed

lemma count_low: "md5_count st = word_of_nat n \<Longrightarrow> md5_count0 st = word_of_nat n"
proof -
  assume n: "md5_count st = word_of_nat n"
  have "md5_count0 st = ucast (md5_count st)"
    unfolding md5_count_def by (rule bit_word_eqI) (auto simp: bit_simps)
  also have "\<dots> = word_of_nat n" unfolding n by (rule bit_word_eqI) (auto simp: bit_simps)
  finally show ?thesis .
qed

lemma unat_and_63: "unat (w AND 63 :: u32) = unat w mod 64"
proof -
  have "w AND 63 = take_bit 6 w" by (simp add: take_bit_eq_mask mask_eq_exp_minus_1)
  then show ?thesis by (simp only: unsigned_take_bit_eq) (simp add: take_bit_eq_mod)
qed

lemma bytes_counted: "drop_bit 3 (word_of_nat (8 * n) :: u32) = word_of_nat (n mod 2 ^ 29)"
proof (rule word_unat_eq_iff [THEN iffD2])
  have "(8 * n mod 2 ^ 32) div 8 = n mod 2 ^ 29" using mult_mod_right [of 8 n "2 ^ 29"] by simp
  then show "unat (drop_bit 3 (word_of_nat (8 * n) :: u32)) = unat (word_of_nat (n mod 2 ^ 29) :: u32)"
    unfolding unat_drop_bit_eq unat_of_nat by (simp add: drop_bit_eq_div take_bit_eq_mod)
qed

section \<open>Parts of a message\<close>

lemma md5_block_cong:
  assumes "\<And>k. k < 16 \<Longrightarrow> M k = N k"
  shows "md5_block M h = md5_block N h"
proof -
  have "md5_k i < 16" if "i < 64" for i using that by (simp add: md5_k_def)
  then have "fold (md5_operation M) [0..<64] h = fold (md5_operation N) [0..<64] h"
    using assms by (intro fold_cong) (simp_all add: md5_operation_def del: upt_Suc set_simps)
  then show ?thesis by (simp add: md5_block_def)
qed

lemma md5_chain_prefix:
  assumes "length m = 64 * q"
  shows "fold (\<lambda>k. md5_block (md5_word (take 64 (drop (64 * k) (m @ r))))) [0..<q] h =
    fold (\<lambda>k. md5_block (md5_word (take 64 (drop (64 * k) m)))) [0..<q] h"
proof (rule fold_cong [OF refl refl])
  fix k
  assume "k \<in> set [0..<q]"
  then have "take 64 (drop (64 * k) (m @ r)) = take 64 (drop (64 * k) m)" using assms by simp
  then show "md5_block (md5_word (take 64 (drop (64 * k) (m @ r)))) = md5_block (md5_word (take 64 (drop (64 * k) m)))"
    by (rule arg_cong)
qed

lemma md5_chain_block:
  assumes "length m = 64 * q" "length b = 64"
  shows "md5_chain (m @ b) = md5_block (md5_word b) (md5_chain m)"
proof -
  have "length (m @ b) div 64 = Suc q" "length m div 64 = q" using assms by simp_all
  then show ?thesis unfolding md5_chain_def
    using md5_chain_prefix [OF assms(1)] assms by (simp only: upt_Suc fold_append comp_apply) simp
qed

lemma md5_chain_rest:
  assumes "length m = 64 * q" "length r < 64"
  shows "md5_chain (m @ r) = md5_chain m"
proof -
  have "length (m @ r) div 64 = q" "length m div 64 = q" using assms by simp_all
  then show ?thesis unfolding md5_chain_def using md5_chain_prefix [OF assms(1)] by (simp only:)
qed

text \<open>The state after a message: its length, the hash of its full blocks, and what is left of it.\<close>

definition md5_holds :: "u8 list \<Rightarrow> md5_state \<Rightarrow> bool" where
  "md5_holds m st \<longleftrightarrow>
     md5_count st = word_of_nat (8 * length m) \<and> abcd st = md5_chain m \<and> length (md5_buf st) = 64 \<and>
     take (length m mod 64) (md5_buf st) = drop (64 * (length m div 64)) m"

lemma md5_holds_init: "md5_holds [] md5_init"
  by (simp add: md5_holds_def md5_count_def md5_init_def md5_chain_def T_MASK_def)

lemma md5_count_update [simp]: "md5_count (st\<lparr>abcd := h\<rparr>) = md5_count st" "md5_count (st\<lparr>md5_buf := b\<rparr>) = md5_count st"
  by (simp_all add: md5_count_def)

lemma md5_blocks_hold:
  assumes "length m = 64 * q" "abcd st = md5_chain m" "length (md5_buf st) = 64"
    and "md5_count st = word_of_nat (8 * length (m @ p))"
  shows "md5_holds (m @ p) (md5_blocks p st)"
  using assms
proof (induction p st arbitrary: m q rule: md5_blocks.induct)
  case (1 p st)
  show ?case
  proof (cases "length p \<ge> 64")
    case True
    have "md5_holds ((m @ take 64 p) @ drop 64 p) (md5_blocks (drop 64 p) (md5_process (take 64 p) st))"
      using "1.prems" True by (intro "1.IH" [of _ "Suc q"]) (simp_all add: md5_process_block md5_chain_block)
    then show ?thesis using True by (subst md5_blocks.simps) simp
  next
    case False
    moreover have "(64 * q + length p) div 64 = q" "(64 * q + length p) mod 64 = length p" using False by simp_all
    ultimately show ?thesis
      using "1.prems" md5_chain_rest [of m q p]
      by (subst md5_blocks.simps) (simp add: md5_holds_def memcpy_at_def)
  qed
qed

lemma md5_holds_offset: "md5_holds m st \<Longrightarrow> unat (drop_bit 3 (md5_count0 st) AND 63) = length m mod 64"
proof -
  assume "md5_holds m st"
  then have "md5_count0 st = word_of_nat (8 * length m)" by (intro count_low) (simp add: md5_holds_def)
  then have "unat (drop_bit 3 (md5_count0 st) AND 63) = unat (word_of_nat (length m mod 2 ^ 29) :: u32) mod 64"
    by (simp only: unat_and_63 bytes_counted)
  also have "\<dots> = length m mod 64" by (simp add: unat_of_nat take_bit_eq_mod mod_mod_cancel)
  finally show ?thesis .
qed

lemma md5_append_holds:
  assumes "md5_holds m st"
  shows "md5_holds (m @ d) (md5_append d st)"
proof (cases "d = []")
  case True
  then show ?thesis using assms by (simp add: md5_append_def)
next
  case False
  define q e where "q = length m div 64" and "e = length m mod 64"
  have m: "length m = 64 * q + e" "e < 64" by (simp_all add: q_def e_def)
  define N :: u64 where "N = word_of_nat (length d)"
  define nb :: u32 where "nb = ucast (push_bit 3 N)"
  define st1 where "st1 = st\<lparr>md5_count1 :=
    (if md5_count0 st + nb < nb then md5_count1 st + ucast (drop_bit 29 N) + 1 else md5_count1 st + ucast (drop_bit 29 N)),
    md5_count0 := md5_count0 st + nb\<rparr>"
  have upd: "st\<lparr>md5_count1 := x, md5_count0 := y, md5_count1 := z\<rparr> = st\<lparr>md5_count1 := z, md5_count0 := y\<rparr>" for x y z
    by simp
  have st: "md5_count st = word_of_nat (8 * length m)" "abcd st = md5_chain m" "length (md5_buf st) = 64"
    "take e (md5_buf st) = drop (64 * q) m"
    using assms by (simp_all add: md5_holds_def q_def e_def)
  have "md5_count st1 = md5_count st + push_bit 3 N"
    unfolding count_plus by (simp add: st1_def nb_def count_add)
  then have c: "md5_count st1 = word_of_nat (8 * length (m @ d))"
    by (simp add: st(1) N_def push_bit_eq_mult algebra_simps)
  have st1: "abcd st1 = md5_chain m" "length (md5_buf st1) = 64" "md5_buf st1 = md5_buf st"
    using st by (simp_all add: st1_def)
  have a: "md5_append d st = (if e \<noteq> 0 then
      (let copy = (if e + length d > 64 then 64 - e else length d);
           st2 = st1\<lparr>md5_buf := memcpy_at e (take copy d) (md5_buf st1)\<rparr>
       in if e + copy < 64 then st2 else md5_blocks (drop copy d) (md5_process (md5_buf st2) st2))
      else md5_blocks d st1)"
    using False md5_holds_offset [OF assms] by (simp add: md5_append_def Let_def e_def [symmetric] N_def nb_def st1_def upd)
  show ?thesis
  proof (cases "e = 0")
    case True
    then show ?thesis using md5_blocks_hold [of m q st1 d] m c st1 by (simp add: a)
  next
    case e: False
    define base where "base = take (64 * q) m"
    have base: "length base = 64 * q" "m = base @ drop (64 * q) m" "length (drop (64 * q) m) = e"
      using m by (simp_all add: base_def)
    have chain: "md5_chain m = md5_chain base" using md5_chain_rest [of base q "drop (64 * q) m"] base m(2) by metis
    show ?thesis
    proof (cases "e + length d < 64")
      case True
      have "(64 * q + (e + length d)) div 64 = q" "(64 * q + (e + length d)) mod 64 = e + length d" using True by simp_all
      moreover have "md5_chain (m @ d) = md5_chain base"
        using md5_chain_rest [of base q "drop (64 * q) m @ d"] base True by (metis append.assoc length_append)
      moreover have "memcpy_at e d (md5_buf st) = drop (64 * q) m @ d @ drop (e + length d) (md5_buf st)"
        by (simp add: memcpy_at_def st(4))
      ultimately show ?thesis
        using e True m st c st1 chain
        by (simp add: a md5_holds_def add.assoc)
    next
      case full: False
      define copy where "copy = 64 - e"
      have copy: "copy = (if e + length d > 64 then 64 - e else length d)" "e + copy = 64" "copy \<le> length d"
        using full m(2) by (auto simp: copy_def)
      define b where "b = drop (64 * q) m @ take copy d"
      have "memcpy_at e (take copy d) (md5_buf st1) = b"
        using copy st1 st by (simp add: memcpy_at_def b_def)
      then have r: "md5_append d st = md5_blocks (drop copy d) (md5_process b (st1\<lparr>md5_buf := b\<rparr>))"
        using e copy(2) unfolding a Let_def copy(1) [symmetric] by simp
      have b: "length b = 64" using copy base(3) by (simp add: b_def)
      have "md5_holds ((base @ b) @ drop copy d) (md5_blocks (drop copy d) (md5_process b (st1\<lparr>md5_buf := b\<rparr>)))"
        using base b c st1 chain md5_chain_block [of base q b] copy(3)
        by (intro md5_blocks_hold [of _ "Suc q"]) (simp_all add: md5_process_block m b_def)
      also have "(base @ b) @ drop copy d = m @ d" using base(2) by (simp add: b_def) 
      finally show ?thesis unfolding r .
    qed
  qed
qed

section \<open>The end of a message\<close>

lemma md5_fill: "unat ((55 - word_of_nat (n mod 2 ^ 29)) AND 63 :: u32) = (119 - n mod 64) mod 64"
proof -
  define w where "w = n mod 2 ^ 29"
  have w: "w < 2 ^ 29" "w mod 64 = n mod 64" by (simp_all add: w_def mod_mod_cancel)
  have "(55 - word_of_nat w :: u32) = word_of_nat (55 + 2 ^ 32 - w)"
    using w(1) by (simp add: of_nat_diff)
  then have "unat (55 - word_of_nat w :: u32) mod 64 = (55 + 2 ^ 32 - w) mod 64"
    by (simp add: unat_of_nat take_bit_eq_mod mod_mod_cancel)
  also have "\<dots> = (119 - w mod 64) mod 64"
  proof -
    define q r where "q = w div 64" and "r = w mod 64"
    have "w = 64 * q + r" "r < 64" by (simp_all add: q_def r_def)
    then have "55 + 2 ^ 32 - w = (119 - r) + 64 * (2 ^ 26 - 1 - q)" using w(1) by simp
    then have "(55 + 2 ^ 32 - w) mod 64 = (119 - r) mod 64" by (simp only: mod_mult_self2)
    then show ?thesis by (simp only: r_def)
  qed
  finally show ?thesis unfolding unat_and_63 w(2) w_def [symmetric] .
qed

lemma le_word_bytes: "le_bytes 4 (v :: u32) = map (\<lambda>i. ucast (drop_bit (8 * i) v)) [0, 1, 2, 3]"
  by (simp add: le_bytes_def upt_rec)

lemma digest_bytes:
  "map (\<lambda>i. ucast (drop_bit (8 * (i mod 4)) ([a, b, c, d] ! (i div 4)))) [0..<16] = concat (map (le_bytes 4) [a, b, c, d :: u32])"
proof -
  have "[0..<16] = [0, 1, 2, 3, 4, 5, 6, 7, 8, 9, 10, 11, 12, 13, 14, 15]" by code_simp
  then show ?thesis by (simp add: le_word_bytes)
qed

lemma count_bytes:
  "map (\<lambda>i. ucast (drop_bit (8 * (i mod 4)) ([md5_count0 st, md5_count1 st] ! (i div 4)))) [0..<8] = le_bytes 8 (md5_count st)"
proof -
  have low: "ucast (drop_bit n (md5_count st)) = (ucast (drop_bit n (md5_count0 st)) :: u8)" if "n \<le> 24" for n
    unfolding md5_count_def by (rule bit_word_eqI) (use that in \<open>auto simp: bit_simps\<close>)
  have high: "ucast (drop_bit (32 + n) (md5_count st)) = (ucast (drop_bit n (md5_count1 st)) :: u8)" for n
    unfolding md5_count_def by (rule bit_word_eqI) (auto simp: bit_simps dest: bit_imp_le_length)
  have "[0..<8] = [0, 1, 2, 3, 4, 5, 6, 7]" by code_simp
  then show ?thesis
    using low [of 0] low [of 8] low [of 16] low [of 24] high [of 0] high [of 8] high [of 16] high [of 24]
    by (simp add: le_bytes_def)
qed

lemma md5_finish_hash:
  assumes "md5_holds m st"
  shows "md5_finish st = md5_hash m"
proof -
  define k where "k = (119 - length m mod 64) mod 64"
  have c: "md5_count st = word_of_nat (8 * length m)" using assms by (simp add: md5_holds_def)
  then have "unat ((55 - drop_bit 3 (md5_count0 st)) AND 63) = k"
    by (simp only: count_low [OF c] bytes_counted md5_fill k_def)
  moreover have "take (k + 1) md5_pad = 0x80 # replicate k 0" by (simp add: md5_pad_def k_def)
  ultimately have f: "md5_finish st = (let (a, b, c, d) =
        abcd (md5_append (le_bytes 8 (md5_count st)) (md5_append (0x80 # replicate k 0) st))
      in concat (map (le_bytes 4) [a, b, c, d]))"
    unfolding md5_finish_def digest_bytes count_bytes Let_def by simp
  have "md5_holds ((m @ 0x80 # replicate k 0) @ le_bytes 8 (md5_count st))
      (md5_append (le_bytes 8 (md5_count st)) (md5_append (0x80 # replicate k 0) st))"
    by (intro md5_append_holds assms)
  also have "(m @ 0x80 # replicate k 0) @ le_bytes 8 (md5_count st) = md5_padded m"
    by (simp add: md5_padded_def k_def c)
  finally have "abcd (md5_append (le_bytes 8 (md5_count st)) (md5_append (0x80 # replicate k 0) st)) = md5_chain (md5_padded m)"
    by (simp add: md5_holds_def)
  then show ?thesis unfolding f md5_hash_def by simp
qed

lemma md5_parts: "md5_holds m st \<Longrightarrow> md5_holds (m @ concat ds) (fold md5_append ds st)"
proof (induction ds arbitrary: m st)
  case (Cons d ds)
  show ?case using Cons.IH [OF md5_append_holds [OF Cons.prems, of d]] by simp
qed simp

text \<open>C26: Whatever parts a message is appended in, the state ends with its MD5 as the standard defines it.\<close>

theorem md5_standard: "md5_finish (fold md5_append parts md5_init) = md5_hash (concat parts)"
  using md5_finish_hash [OF md5_parts [OF md5_holds_init, of parts]] by simp

end
