(* ===== verification/Ws_Handshake.thy ===== *)
theory Ws_Handshake
  imports Ws_Http_Laws Ws_Uri Ws_Sha1 Ws_Base64 Ws_Md5 Ws_Hybi13
begin

text \<open>
  The opening handshake as the processors know it: what is common to the versions
  (Client/cpp/websocketpp/websocketpp/processors/processor.hpp), the versions 7, 8 and 13
  (processors/hybi07.hpp, hybi08.hpp, hybi13.hpp, which share their code but for what a client may do), and
  version 0 (processors/hybi00.hpp), whose key is answered with an MD5. The extension of the client's
  configuration is the class \<open>disabled\<close> (extensions/permessage_deflate/disabled.hpp), and extensions are
  enabled (config/core_client.hpp).
\<close>

unbundle bit_operations_syntax

section \<open>What is common to the versions\<close>

definition upgrade_token :: string where "upgrade_token = ''websocket''"
definition connection_token :: string where "connection_token = ''upgrade''"
definition handshake_guid :: string where "handshake_guid = ''258EAFA5-E914-47DA-95CA-C5AB0DC85B11''"

definition is_websocket_handshake :: "request \<Rightarrow> bool" where
  "is_websocket_handshake r =
     (let upgrade_header = get_header ''Upgrade'' (m_headers r)
      in if \<not> ci_find_substr upgrade_header upgrade_token then False
         else
           (let con_header = get_header ''Connection'' (m_headers r)
            in if \<not> ci_find_substr con_header connection_token then False else True))"

definition get_websocket_version :: "request \<Rightarrow> int" where
  "get_websocket_version r =
     (if \<not> m_ready r then -2
      else if get_header ''Sec-WebSocket-Version'' (m_headers r) = [] then 0
      else
        (case stream_int (get_header ''Sec-WebSocket-Version'' (m_headers r)) of
           None \<Rightarrow> -1
         | Some version \<Rightarrow> version))"

text \<open>\<open>rfind\<close>: the last place of a character.\<close>

fun rfind :: "char \<Rightarrow> string \<Rightarrow> nat option" where
  "rfind c [] = None"
| "rfind c (d # s) =
     (case rfind c s of Some i \<Rightarrow> Some (Suc i) | None \<Rightarrow> if c = d then Some 0 else None)"

text \<open>Where the host of a request ends, when a port follows it.\<close>

definition host_colon :: "string \<Rightarrow> nat option" where
  "host_colon h =
     (case rfind (CHR '':'') h of
        None \<Rightarrow> None
      | Some last_colon \<Rightarrow>
          (case rfind (CHR '']'') h of
             None \<Rightarrow> Some last_colon
           | Some last_sbrace \<Rightarrow> if last_sbrace > last_colon then None else Some last_colon))"

definition get_uri_from_host :: "request \<Rightarrow> string \<Rightarrow> uri" where
  "get_uri_from_host r scheme =
     (let h = get_header ''Host'' (m_headers r)
      in case host_colon h of
           None \<Rightarrow> uri_with_host scheme h (m_uri r)
         | Some last_colon \<Rightarrow> uri_with_port_text scheme (take last_colon h) (drop (last_colon + 1) h) (m_uri r))"

section \<open>Extensions\<close>

definition enable_extensions :: bool where "enable_extensions = True"

text \<open>The class \<open>disabled\<close>.\<close>

definition deflate_is_implemented :: bool where "deflate_is_implemented = False"

definition deflate_negotiate :: "(string \<times> string) list \<Rightarrow> error_code \<times> string" where
  "deflate_negotiate offer = (Deflate_disabled, [])"

definition deflate_generate_offer :: string where "deflate_generate_offer = []"

definition extension_loop :: "parameter_list \<Rightarrow> string \<Rightarrow> string" where
  "extension_loop p ret = fold (\<lambda>(name, attributes) ret.
     if name = ''permessage-deflate'' then
       (if deflate_is_enabled then ret
        else (let (ec, answer) = deflate_negotiate attributes in if ec \<noteq> No_error then ret else ret @ answer))
     else ret) p ret"

definition negotiate_extensions_helper :: "header_list \<Rightarrow> error_code \<times> string" where
  "negotiate_extensions_helper hs =
     (if \<not> enable_extensions then (Processor extensions_disabled, [])
      else
        (let (error, p) = get_header_as_plist ''Sec-WebSocket-Extensions'' hs []
         in if error then (Processor extension_parse_error, [])
            else if p = [] then (No_error, [])
            else if deflate_is_implemented then (No_error, extension_loop p [])
            else (No_error, [])))"

section \<open>Versions 7, 8 and 13\<close>

definition hybi13_validate_handshake :: "request \<Rightarrow> error_code" where
  "hybi13_validate_handshake r =
     (if m_method r \<noteq> ''GET'' then Processor invalid_http_method
      else if m_version r \<noteq> ''HTTP/1.1'' then Processor invalid_http_version
      else if get_header ''Sec-WebSocket-Key'' (m_headers r) = [] then Processor missing_required_header
      else No_error)"

definition process_handshake_key :: "string \<Rightarrow> string" where
  "process_handshake_key key = base64_encode (calc (map byte (key @ handshake_guid)))"

definition hybi13_process_handshake :: "request \<Rightarrow> string \<Rightarrow> response \<Rightarrow> response http" where
  "hybi13_process_handshake r subprotocol res =
     (let server_key = process_handshake_key (get_header ''Sec-WebSocket-Key'' (m_headers r));
          hs = replace_header ''Sec-WebSocket-Accept'' server_key (m_headers res)
      in http_then (append_header ''Upgrade'' upgrade_token hs) (\<lambda>hs.
         http_then (append_header ''Connection'' connection_token hs) (\<lambda>hs.
           Inr (res\<lparr>m_headers :=
             (if subprotocol \<noteq> [] then replace_header ''Sec-WebSocket-Protocol'' subprotocol hs else hs)\<rparr>))))"

text \<open>The key of a client: four words of the generator.\<close>

definition raw_key :: "(nat \<Rightarrow> u32) \<Rightarrow> u8 list" where
  "raw_key rng = concat (map (\<lambda>i. le_bytes 4 (rng i)) [0..<4])"

fun join_subprotocols :: "string list \<Rightarrow> string" where
  "join_subprotocols [] = []"
| "join_subprotocols [s] = s"
| "join_subprotocols (s # t # ss) = s @ '', '' @ join_subprotocols (t # ss)"

definition hybi13_client_handshake_request :: "uri \<Rightarrow> string list \<Rightarrow> (nat \<Rightarrow> u32) \<Rightarrow> request \<Rightarrow> request http" where
  "hybi13_client_handshake_request uri subprotocols rng req =
     http_then (set_method ''GET'' req) (\<lambda>req.
       (let req = req\<lparr>m_uri := m_resource uri, m_version := ''HTTP/1.1''\<rparr>
        in http_then (append_header ''Upgrade'' ''websocket'' (m_headers req)) (\<lambda>hs.
           http_then (append_header ''Connection'' ''Upgrade'' hs) (\<lambda>hs.
             (let hs = replace_header ''Sec-WebSocket-Version'' ''13'' hs;
                  hs = replace_header ''Host'' (get_host_port uri) hs;
                  hs = (if subprotocols \<noteq> [] then replace_header ''Sec-WebSocket-Protocol'' (join_subprotocols subprotocols) hs
                        else hs);
                  hs = replace_header ''Sec-WebSocket-Key'' (base64_encode (raw_key rng)) hs;
                  hs = (if deflate_is_implemented \<and> deflate_generate_offer \<noteq> []
                        then replace_header ''Sec-WebSocket-Extensions'' deflate_generate_offer hs else hs)
              in Inr (req\<lparr>m_headers := hs\<rparr>))))))"

definition hybi13_validate_server_handshake_response :: "request \<Rightarrow> response \<Rightarrow> error_code" where
  "hybi13_validate_server_handshake_response req res =
     (if m_status_code res \<noteq> 101 then Processor invalid_http_status
      else if \<not> ci_find_substr (get_header ''Upgrade'' (m_headers res)) upgrade_token then Processor missing_required_header
      else if \<not> ci_find_substr (get_header ''Connection'' (m_headers res)) connection_token then Processor missing_required_header
      else
        (let key = process_handshake_key (get_header ''Sec-WebSocket-Key'' (m_headers req))
         in if key \<noteq> get_header ''Sec-WebSocket-Accept'' (m_headers res) then Processor missing_required_header
            else No_error))"

definition extract_subprotocols :: "request \<Rightarrow> string list \<Rightarrow> error_code \<times> string list" where
  "extract_subprotocols req subprotocol_list =
     (if get_header ''Sec-WebSocket-Protocol'' (m_headers req) \<noteq> [] then
        (let (error, p) = get_header_as_plist ''Sec-WebSocket-Protocol'' (m_headers req) []
         in if \<not> error then (No_error, subprotocol_list @ map fst p)
            else (Processor subprotocol_parse_error, subprotocol_list))
      else (No_error, subprotocol_list))"

definition hybi13_get_uri :: "bool \<Rightarrow> request \<Rightarrow> uri" where
  "hybi13_get_uri secure r = get_uri_from_host r (if secure then ''wss'' else ''ws'')"

end
