(* ===== verification/Ws_Hybi00.thy ===== *)
theory Ws_Hybi00
  imports Ws_Handshake
begin

text \<open>
  Version 0 of the protocol, which only servers speak
  (Client/cpp/websocketpp/websocketpp/processors/hybi00.hpp): the handshake whose key is in three parts and
  whose answer is their MD5, and messages between a zero byte and 0xff. There are no pings, and no length.
\<close>

unbundle bit_operations_syntax

section \<open>The handshake\<close>

definition hybi00_validate_handshake :: "request \<Rightarrow> error_code" where
  "hybi00_validate_handshake r =
     (if m_method r \<noteq> ''GET'' then Processor invalid_http_method
      else if m_version r \<noteq> ''HTTP/1.1'' then Processor invalid_http_version
      else if get_header ''Sec-WebSocket-Key1'' (m_headers r) = [] \<or> get_header ''Sec-WebSocket-Key2'' (m_headers r) = [] \<or>
        get_header ''Sec-WebSocket-Key3'' (m_headers r) = [] then Processor missing_required_header
      else No_error)"

text \<open>The digits of a key as a number, divided by its spaces, in network order.\<close>

definition decode_client_key :: "string \<Rightarrow> u8 list" where
  "decode_client_key key =
     (let spaces = word_of_nat (length (filter (\<lambda>c. c = CHR '' '') key)) :: u32;
          digits = filter is_digit key;
          num = word_of_nat (strtoul digits) :: u32
      in if spaces > 0 \<and> num > 0 then rev (le_bytes 4 (num div spaces)) else replicate 4 0)"

text \<open>The three parts. A third part of less than eight bytes leaves the end of the array as it was: \<open>stack\<close>.\<close>

definition key_final :: "u8 list \<Rightarrow> request \<Rightarrow> u8 list" where
  "key_final stack req =
     (let key3 = map byte (get_header ''Sec-WebSocket-Key3'' (m_headers req)); n = min 8 (length key3)
      in decode_client_key (get_header ''Sec-WebSocket-Key1'' (m_headers req)) @
         decode_client_key (get_header ''Sec-WebSocket-Key2'' (m_headers req)) @ take n key3 @ drop n stack)"

definition hybi00_get_uri :: "bool \<Rightarrow> request \<Rightarrow> uri" where
  "hybi00_get_uri secure r =
     (let h = get_header ''Host'' (m_headers r)
      in case host_colon h of
           None \<Rightarrow> uri_of_host secure h (m_uri r)
         | Some last_colon \<Rightarrow> uri_of_port_text secure (take last_colon h) (drop (last_colon + 1) h) (m_uri r))"

definition hybi00_process_handshake :: "bool \<Rightarrow> u8 list \<Rightarrow> request \<Rightarrow> string \<Rightarrow> response \<Rightarrow> response http" where
  "hybi00_process_handshake secure stack req subprotocol res =
     http_then (append_header ''Sec-WebSocket-Key3'' (map unbyte (md5_hash_string (key_final stack req))) (m_headers res)) (\<lambda>hs.
     http_then (append_header ''Upgrade'' ''WebSocket'' hs) (\<lambda>hs.
     http_then (append_header ''Connection'' ''Upgrade'' hs) (\<lambda>hs.
     http_then (if get_header ''Sec-WebSocket-Origin'' hs = []
                then append_header ''Sec-WebSocket-Origin'' (get_header ''Origin'' (m_headers req)) hs else Inr hs) (\<lambda>hs.
     http_then (if get_header ''Sec-WebSocket-Location'' hs = []
                then append_header ''Sec-WebSocket-Location'' (uri_str (hybi00_get_uri secure req)) hs else Inr hs) (\<lambda>hs.
       Inr (res\<lparr>m_headers :=
         (if subprotocol \<noteq> [] then replace_header ''Sec-WebSocket-Protocol'' subprotocol hs else hs)\<rparr>))))))"

definition hybi00_get_raw :: "response \<Rightarrow> string" where
  "hybi00_get_raw res =
     (let temp = res\<lparr>m_headers := remove_header ''Sec-WebSocket-Key3'' (m_headers res)\<rparr>
      in response_raw temp @ get_header ''Sec-WebSocket-Key3'' (m_headers res))"

section \<open>Messages\<close>

datatype hybi00_state = HEADER00 | PAYLOAD00 | READY00 | FATAL_ERROR00

record hybi00 =
  state00 :: hybi00_state
  msg00 :: "message option"

definition hybi00 :: hybi00 where
  "hybi00 = \<lparr>state00 = HEADER00, msg00 = None\<rparr>"

definition msg_hdr :: u8 where "msg_hdr = 0x00"
definition msg_ftr :: u8 where "msg_ftr = 0xff"

text \<open>The manager of the messages always has one.\<close>

definition new_text :: "message option" where
  "new_text = Some (message op_text)"

text \<open>The loop of \<open>consume\<close>, over the bytes that are left.\<close>

function hybi00_loop :: "u8 list \<Rightarrow> error_code \<Rightarrow> hybi00 \<Rightarrow> u8 list \<times> error_code \<times> hybi00" where
  "hybi00_loop buf ec h =
     (if buf = [] then (buf, ec, h)
      else if state00 h = HEADER00 then
        (if hd buf = msg_hdr then
           (let h = h\<lparr>msg00 := new_text\<rparr>
            in if msg00 h = None then hybi00_loop (tl buf) (Library no_incoming_buffers) (h\<lparr>state00 := FATAL_ERROR00\<rparr>)
               else hybi00_loop (tl buf) ec (h\<lparr>state00 := PAYLOAD00\<rparr>))
         else hybi00_loop buf (Processor protocol_violation) (h\<lparr>state00 := FATAL_ERROR00\<rparr>))
      else if state00 h = PAYLOAD00 then
        (let found = takeWhile (\<lambda>b. b \<noteq> msg_ftr) buf; rest = dropWhile (\<lambda>b. b \<noteq> msg_ftr) buf;
             h = h\<lparr>msg00 := map_option (\<lambda>m. m\<lparr>msg_payload := msg_payload m @ found\<rparr>) (msg00 h)\<rparr>
         in if rest \<noteq> [] then hybi00_loop (tl rest) ec (h\<lparr>state00 := READY00\<rparr>) else hybi00_loop [] ec h)
      else (buf, ec, h))"
  by pat_completeness auto
termination
proof (relation "measure (\<lambda>(buf, ec, h). 2 * length buf + (if state00 h = HEADER00 then 1 else 0))", goal_cases)
  case (5 buf ec h found rest h')
  have "length (dropWhile (\<lambda>b. b \<noteq> msg_ftr) buf) \<le> length buf" by (rule length_dropWhile_le)
  with 5 show ?case by (cases buf) auto
qed (auto simp: neq_Nil_conv)

declare hybi00_loop.simps [simp del]

definition hybi00_consume :: "u8 list \<Rightarrow> hybi00 \<Rightarrow> nat \<times> error_code \<times> hybi00" where
  "hybi00_consume buf h = (let (rest, ec, h) = hybi00_loop buf No_error h in (length buf - length rest, ec, h))"

definition hybi00_ready :: "hybi00 \<Rightarrow> bool" where
  "hybi00_ready h \<longleftrightarrow> state00 h = READY00"

definition hybi00_get_message :: "hybi00 \<Rightarrow> message option \<times> hybi00" where
  "hybi00_get_message h = (msg00 h, h\<lparr>msg00 := None, state00 := HEADER00\<rparr>)"

definition hybi00_prepare_data_frame :: "message option \<Rightarrow> message option \<Rightarrow> error_code \<times> message option" where
  "hybi00_prepare_data_frame input out =
     (case (input, out) of
        (Some i, Some o') \<Rightarrow>
          if msg_opcode i \<noteq> op_text then (Processor invalid_opcode, out)
          else if \<not> validate (msg_payload i) then (Processor invalid_payload, out)
          else (No_error, Some (o'\<lparr>msg_header := [msg_hdr], msg_payload := msg_payload i @ [msg_ftr], msg_prepared := True\<rparr>))
      | _ \<Rightarrow> (Processor invalid_arguments, out))"

definition hybi00_prepare_ping :: "u8 list \<Rightarrow> message option \<Rightarrow> error_code \<times> message option" where
  "hybi00_prepare_ping payload out = (Processor no_protocol_support, out)"

definition hybi00_prepare_close :: "message option \<Rightarrow> error_code \<times> message option" where
  "hybi00_prepare_close out =
     (case out of
        None \<Rightarrow> (Processor invalid_arguments, None)
      | Some o' \<Rightarrow> (No_error, Some (o'\<lparr>msg_payload := [0xff, 0x00], msg_prepared := True\<rparr>)))"

section \<open>Messages are read back\<close>

lemma well_formed_no_ftr: "well_formed s \<Longrightarrow> msg_ftr \<notin> set s"
proof (induction s rule: well_formed.induct)
  case (2 a s)
  then show ?case
    by (auto simp: msg_ftr_def tail_byte_def split: if_splits list.splits)
qed simp

lemma hybi00_reads:
  assumes "msg_ftr \<notin> set payload"
  shows "hybi00_consume (msg_hdr # payload @ msg_ftr # rest) hybi00 =
    (length payload + 2, No_error, \<lparr>state00 = READY00, msg00 = Some ((message op_text)\<lparr>msg_payload := payload\<rparr>)\<rparr>)"
proof -
  have "takeWhile (\<lambda>b. b \<noteq> msg_ftr) (payload @ msg_ftr # rest) = payload"
    "dropWhile (\<lambda>b. b \<noteq> msg_ftr) (payload @ msg_ftr # rest) = msg_ftr # rest"
    using assms by (induction payload) auto
  then show ?thesis
    by (simp add: hybi00_consume_def hybi00_loop.simps hybi00_def new_text_def message_def Let_def)
qed

text \<open>Version 0 reads back what it prepares: the payload of a text message between its two bytes, whatever
  follows them.\<close>

theorem hybi00_roundtrip:
  assumes "hybi00_prepare_data_frame (Some m) (Some out) = (No_error, Some frame)"
  shows "\<exists>h. hybi00_consume (msg_header frame @ msg_payload frame @ rest) hybi00 =
      (length (msg_header frame) + length (msg_payload frame), No_error, h) \<and> hybi00_ready h \<and>
    (\<exists>m'. fst (hybi00_get_message h) = Some m' \<and> msg_opcode m' = op_text \<and> msg_payload m' = msg_payload m)"
proof -
  have v: "well_formed (msg_payload m)" and f: "msg_header frame = [msg_hdr]" "msg_payload frame = msg_payload m @ [msg_ftr]"
    using assms by (auto simp: hybi00_prepare_data_frame_def validate_accepts accepts_well_formed split: if_splits)
  show ?thesis
    using hybi00_reads [OF well_formed_no_ftr [OF v], of rest] f
    by (simp add: hybi00_ready_def hybi00_get_message_def message_def)
qed

theorem hybi00_roundtrip_witness:
  "\<exists>h. hybi00_consume ([0x00, 0x68, 0x69, 0xff] @ [0x00]) hybi00 = (4, No_error, h) \<and> hybi00_ready h"
proof -
  define m where "m = (message op_text)\<lparr>msg_payload := [0x68, 0x69]\<rparr>"
  define frame where "frame = m\<lparr>msg_header := [0x00], msg_payload := [0x68, 0x69, 0xff], msg_prepared := True\<rparr>"
  have "validate [0x68, 0x69]" by (simp add: validate_accepts accepts_well_formed)
  then have "hybi00_prepare_data_frame (Some m) (Some m) = (No_error, Some frame)"
    by (simp add: hybi00_prepare_data_frame_def m_def frame_def message_def msg_hdr_def msg_ftr_def)
  from hybi00_roundtrip [OF this, of "[0x00]"] show ?thesis by (auto simp: frame_def)
qed

end
