(* ===== verification/Ws_Opening.thy ===== *)
theory Ws_Opening
  imports Ws_Connection Ws_Hybi00
begin

text \<open>
  The connection before it is open
  (Client/cpp/websocketpp/websocketpp/impl/connection_impl.hpp and connection.hpp): a client sends a request
  and reads the response, a server reads a request, asks its handlers, and writes the response. The rest of
  the connection is that of \<open>Ws_Connection\<close>, the field \<open>con\<close>; the processor is its version, and the state of the
  versions that share their frames. A handler is the list of the calls it makes on the connection. The
  transport is the plain socket of the client's configuration. What an exception of the HTTP parser leaves in
  the message it read is not kept: the connection does not read that message again.
\<close>

section \<open>State\<close>

datatype http_state = http_init | deferred | headers_written | body_written | http_closed

text \<open>What is thrown: \<open>websocketpp::exception\<close> with its code, \<open>http::exception\<close> with its text and status.\<close>

datatype ws_exception = Ws_exception error_code | Http_exception string nat

type_synonym 'a thrown = "ws_exception + 'a"

text \<open>What a user does in the handlers of the handshake.\<close>

datatype opening_api =
    Select_subprotocol string | Set_status int | Set_status_msg int string | Set_body string
  | Append_header string string | Replace_header string string | Remove_header string
  | Defer_http_response | Send_response | Terminate error_code

record handshake =
  con :: connection
  m_request :: request
  m_response :: response
  m_uri_ptr :: uri
  m_version_of :: "int option"
  m_max_size :: u64
  m_requested_subprotocols :: "string list"
  m_subprotocol :: string
  m_user_agent :: string
  m_open_handshake_timeout_dur :: int
  m_is_http :: bool
  m_http_state :: http_state
  m_buf_rest :: "u8 list"
  m_open_handler :: "con_api list option"
  m_validate_handler :: "(request \<Rightarrow> string list \<Rightarrow> opening_api list \<times> bool) option"
  m_http_handler :: "(request \<Rightarrow> opening_api list) option"

definition user_agent :: string where "user_agent = ''WebSocket++/0.7.0''"
definition connection_read_buffer_size :: nat where "connection_read_buffer_size = 16384"
definition client_version :: int where "client_version = 13"
definition versions_supported :: "int list" where "versions_supported = [0, 7, 8, 13]"
definition transport_is_secure :: bool where "transport_is_secure = False"

text \<open>A connection as its endpoint makes it; the handlers are those of the endpoint. The size limit is that of
  the configuration.\<close>

definition new_opening ::
    "bool \<Rightarrow> (nat \<Rightarrow> masking_key) \<Rightarrow> (message \<Rightarrow> con_api list) \<Rightarrow> con_api list option \<Rightarrow> handshake" where
  "new_opening server rng handler on_open =
     \<lparr>con = (established server 32000000 rng handler)\<lparr>session := connecting, m_internal_state := USER_INIT\<rparr>,
      m_request = request, m_response = response, m_uri_ptr = no_uri, m_version_of = None, m_max_size = 32000000,
      m_requested_subprotocols = [], m_subprotocol = [], m_user_agent = user_agent, m_open_handshake_timeout_dur = 5000,
      m_is_http = False, m_http_state = http_init, m_buf_rest = [], m_open_handler = on_open,
      m_validate_handler = None, m_http_handler = None\<rparr>"

definition thrown_then :: "'a thrown \<Rightarrow> ('a \<Rightarrow> 'b thrown) \<Rightarrow> 'b thrown" where
  "thrown_then m f = (case m of Inl e \<Rightarrow> Inl e | Inr x \<Rightarrow> f x)"

definition of_http :: "'a http \<Rightarrow> 'a thrown" where
  "of_http m = (case m of Inl (msg, status) \<Rightarrow> Inl (Http_exception msg status) | Inr x \<Rightarrow> Inr x)"

definition ask :: "con_call \<Rightarrow> handshake \<Rightarrow> handshake" where
  "ask c h = h\<lparr>con := emit c (con h)\<rparr>"

definition set_internal :: "istate \<Rightarrow> handshake \<Rightarrow> handshake" where
  "set_internal i h = h\<lparr>con := (con h)\<lparr>m_internal_state := i\<rparr>\<rparr>"

text \<open>\<open>terminate\<close>, with what it does to a connection that answers plain HTTP.\<close>

definition terminate_opening :: "error_code \<Rightarrow> handshake \<Rightarrow> handshake" where
  "terminate_opening ec h =
     (let h = h\<lparr>con := terminate ec (con h)\<rparr> in if m_is_http h then h\<lparr>m_http_state := http_closed\<rparr> else h)"

definition cancel_handshake_timer :: "handshake \<Rightarrow> handshake" where
  "cancel_handshake_timer h =
     (if m_handshake_timer (con h) then h\<lparr>con := (emit Cancel_timer (con h))\<lparr>m_handshake_timer := False\<rparr>\<rparr> else h)"

definition get_processor :: "int \<Rightarrow> int option" where
  "get_processor version = (if version \<in> {0, 7, 8, 13} then Some version else None)"

text \<open>A new processor; those that share their frames start with empty headers.\<close>

definition set_processor :: "int option \<Rightarrow> handshake \<Rightarrow> handshake" where
  "set_processor v h =
     h\<lparr>m_version_of := v, con := (con h)\<lparr>m_processor := hybi13 (m_is_server (con h)) (m_max_size h)\<rparr>\<rparr>"

section \<open>What the user sets\<close>

definition add_subprotocol :: "string \<Rightarrow> handshake \<Rightarrow> error_code \<times> handshake" where
  "add_subprotocol value h =
     (if m_is_server (con h) then (Library client_only, h)
      else if value = [] \<or> \<not> list_all is_token_char value then (Library invalid_subprotocol, h)
      else (No_error, h\<lparr>m_requested_subprotocols := m_requested_subprotocols h @ [value]\<rparr>))"

definition select_subprotocol :: "string \<Rightarrow> handshake \<Rightarrow> error_code \<times> handshake" where
  "select_subprotocol value h =
     (if \<not> m_is_server (con h) then (Library server_only, h)
      else if value = [] then (No_error, h)
      else if value \<notin> set (m_requested_subprotocols h) then (Library unrequested_subprotocol, h)
      else (No_error, h\<lparr>m_subprotocol := value\<rparr>))"

text \<open>What may only be set while the request is processed.\<close>

definition on_response :: "(response \<Rightarrow> response) \<Rightarrow> handshake \<Rightarrow> handshake thrown" where
  "on_response f h =
     (if m_internal_state (con h) \<noteq> PROCESS_HTTP_REQUEST then Inl (Ws_exception (Library invalid_state))
      else Inr (h\<lparr>m_response := f (m_response h)\<rparr>))"

definition con_set_status :: "int \<Rightarrow> handshake \<Rightarrow> handshake thrown" where
  "con_set_status c h = on_response (set_status c) h"

definition con_set_status_msg :: "int \<Rightarrow> string \<Rightarrow> handshake \<Rightarrow> handshake thrown" where
  "con_set_status_msg c msg h = on_response (set_status_msg c msg) h"

definition con_set_body :: "string \<Rightarrow> handshake \<Rightarrow> handshake thrown" where
  "con_set_body value h = on_response (set_body value) h"

text \<open>The headers of the response of a server, or of the request of a client that has not started.\<close>

definition on_headers :: "(header_list \<Rightarrow> header_list http) \<Rightarrow> handshake \<Rightarrow> handshake thrown" where
  "on_headers f h =
     (if m_is_server (con h) then
        (if m_internal_state (con h) = PROCESS_HTTP_REQUEST then
           thrown_then (of_http (f (m_headers (m_response h)))) (\<lambda>hs. Inr (h\<lparr>m_response := (m_response h)\<lparr>m_headers := hs\<rparr>\<rparr>))
         else Inl (Ws_exception (Library invalid_state)))
      else
        (if m_internal_state (con h) = USER_INIT then
           thrown_then (of_http (f (m_headers (m_request h)))) (\<lambda>hs. Inr (h\<lparr>m_request := (m_request h)\<lparr>m_headers := hs\<rparr>\<rparr>))
         else Inl (Ws_exception (Library invalid_state))))"

definition con_append_header :: "string \<Rightarrow> string \<Rightarrow> handshake \<Rightarrow> handshake thrown" where
  "con_append_header key val h = on_headers (append_header key val) h"

definition con_replace_header :: "string \<Rightarrow> string \<Rightarrow> handshake \<Rightarrow> handshake thrown" where
  "con_replace_header key val h = on_headers (\<lambda>hs. Inr (replace_header key val hs)) h"

definition con_remove_header :: "string \<Rightarrow> handshake \<Rightarrow> handshake thrown" where
  "con_remove_header key h = on_headers (\<lambda>hs. Inr (remove_header key hs)) h"

section \<open>Writing the response\<close>

definition write_http_response :: "error_code \<Rightarrow> handshake \<Rightarrow> handshake" where
  "write_http_response ec h =
     (if ec = Library http_connection_ended then h
      else
        (let h = (if m_status_code (m_response h) = 0
                  then h\<lparr>m_response := set_status 500 (m_response h), con := (con h)\<lparr>m_ec := Library lib_general\<rparr>\<rparr>
                  else h\<lparr>con := (con h)\<lparr>m_ec := ec\<rparr>\<rparr>);
             res = (m_response h)\<lparr>m_version := ''HTTP/1.1''\<rparr>;
             res = (if get_header ''Server'' (m_headers res) = []
                    then res\<lparr>m_headers := (if m_user_agent h \<noteq> [] then replace_header ''Server'' (m_user_agent h) (m_headers res)
                                        else remove_header ''Server'' (m_headers res))\<rparr>
                    else res);
             h = h\<lparr>m_response := res\<rparr>;
             raw = (if m_version_of h = Some 0 then hybi00_get_raw res else response_raw res)
         in ask (Write_http_response (map byte raw)) h))"

definition write_http_response_error :: "error_code \<Rightarrow> handshake \<Rightarrow> handshake" where
  "write_http_response_error ec h =
     (if m_internal_state (con h) \<noteq> READ_HTTP_REQUEST then terminate_opening (Library invalid_state) h
      else write_http_response ec (set_internal PROCESS_HTTP_REQUEST h))"

definition defer_http_response :: "handshake \<Rightarrow> handshake" where
  "defer_http_response h = (cancel_handshake_timer h)\<lparr>m_http_state := deferred\<rparr>"

definition send_http_response :: "handshake \<Rightarrow> error_code \<times> handshake" where
  "send_http_response h =
     (if m_http_state h \<noteq> deferred then (Library invalid_state, h)
      else (No_error, write_http_response No_error (h\<lparr>m_http_state := body_written\<rparr>)))"

fun run_opening_api :: "opening_api \<Rightarrow> handshake \<Rightarrow> handshake thrown" where
  "run_opening_api (Select_subprotocol value) h = Inr (snd (select_subprotocol value h))"
| "run_opening_api (Set_status c) h = con_set_status c h"
| "run_opening_api (Set_status_msg c msg) h = con_set_status_msg c msg h"
| "run_opening_api (Set_body value) h = con_set_body value h"
| "run_opening_api (Append_header key val) h = con_append_header key val h"
| "run_opening_api (Replace_header key val) h = con_replace_header key val h"
| "run_opening_api (Remove_header key) h = con_remove_header key h"
| "run_opening_api Defer_http_response h = Inr (defer_http_response h)"
| "run_opening_api Send_response h = Inr (snd (send_http_response h))"
| "run_opening_api (Terminate ec) h = Inr (terminate_opening ec h)"

fun run_opening_apis :: "opening_api list \<Rightarrow> handshake \<Rightarrow> handshake thrown" where
  "run_opening_apis [] h = Inr h"
| "run_opening_apis (a # as) h = thrown_then (run_opening_api a h) (run_opening_apis as)"

section \<open>A server reads the request\<close>

definition versions_text :: string where
  "versions_text = fst (foldl (\<lambda>(ss, sep) v. (ss @ sep @ show_int v, '','')) ([], []) versions_supported)"

definition initialize_processor :: "handshake \<Rightarrow> error_code \<times> handshake" where
  "initialize_processor h =
     (if \<not> is_websocket_handshake (m_request h) then (No_error, h)
      else
        (let version = get_websocket_version (m_request h)
         in if version < 0 then (Library invalid_version, h\<lparr>m_response := set_status 400 (m_response h)\<rparr>)
            else if get_processor version \<noteq> None then (No_error, set_processor (get_processor version) h)
            else
              (let res = set_status 400 (m_response h);
                   res = res\<lparr>m_headers := replace_header ''Sec-WebSocket-Version'' versions_text (m_headers res)\<rparr>
               in (Library unsupported_version, h\<lparr>m_version_of := None, m_response := res\<rparr>))))"

text \<open>The processor's part, by its version. The third part of the key of version 0 is complete when it gets here.\<close>

definition processor_validate_handshake :: "handshake \<Rightarrow> error_code" where
  "processor_validate_handshake h =
     (if m_version_of h = Some 0 then hybi00_validate_handshake (m_request h) else hybi13_validate_handshake (m_request h))"

definition processor_negotiate_extensions :: "handshake \<Rightarrow> header_list \<Rightarrow> error_code \<times> string" where
  "processor_negotiate_extensions h hs =
     (if m_version_of h = Some 0 then (No_error, []) else negotiate_extensions_helper hs)"

definition processor_get_uri :: "handshake \<Rightarrow> uri" where
  "processor_get_uri h =
     (if m_version_of h = Some 0 then hybi00_get_uri transport_is_secure (m_request h)
      else hybi13_get_uri transport_is_secure (m_request h))"

definition processor_process_handshake :: "handshake \<Rightarrow> response http" where
  "processor_process_handshake h =
     (if m_version_of h = Some 0
      then hybi00_process_handshake transport_is_secure [] (m_request h) (m_subprotocol h) (m_response h)
      else hybi13_process_handshake (m_request h) (m_subprotocol h) (m_response h))"

text \<open>Plain HTTP, for the user's handler.\<close>

definition process_http_request :: "handshake \<Rightarrow> (error_code \<times> handshake) thrown" where
  "process_http_request h =
     (let h = h\<lparr>m_uri_ptr := get_uri_from_host (m_request h) (if transport_is_secure then ''https'' else ''http'')\<rparr>
      in if \<not> m_valid (m_uri_ptr h) then Inr (Library invalid_uri, h\<lparr>m_response := set_status 400 (m_response h)\<rparr>)
         else
           (case m_http_handler h of
              Some f \<Rightarrow>
                thrown_then (run_opening_apis (f (m_request h)) (ask Http_handler (h\<lparr>m_is_http := True\<rparr>))) (\<lambda>h.
                  Inr (if session (con h) = session_closed then Library http_connection_ended else No_error, h))
            | None \<Rightarrow> thrown_then (con_set_status 426 h) (\<lambda>h. Inr (Library upgrade_required, h))))"

text \<open>The user accepts the connection or not.\<close>

definition run_validate_handler :: "handshake \<Rightarrow> (bool \<times> handshake) thrown" where
  "run_validate_handler h =
     (case m_validate_handler h of
        None \<Rightarrow> Inr (True, h)
      | Some f \<Rightarrow>
          (let (actions, ok) = f (m_request h) (m_requested_subprotocols h)
           in thrown_then (run_opening_apis actions (ask Validate_handler h)) (\<lambda>h. Inr (ok, h))))"

definition process_handshake_request :: "handshake \<Rightarrow> (error_code \<times> handshake) thrown" where
  "process_handshake_request h =
     (if \<not> is_websocket_handshake (m_request h) then process_http_request h
      else
        (let ec = processor_validate_handshake h
         in if ec \<noteq> No_error then Inr (ec, h\<lparr>m_response := set_status 400 (m_response h)\<rparr>)
            else
              (let (neg, answer) = processor_negotiate_extensions h (m_headers (m_request h))
               in if neg \<noteq> No_error then Inr (neg, h\<lparr>m_response := set_status 400 (m_response h)\<rparr>)
                  else
                    (let h = (if answer \<noteq> []
                              then h\<lparr>m_response := (m_response h)\<lparr>m_headers :=
                                replace_header ''Sec-WebSocket-Extensions'' answer (m_headers (m_response h))\<rparr>\<rparr>
                              else h);
                         h = h\<lparr>m_uri_ptr := processor_get_uri h\<rparr>
                     in if \<not> m_valid (m_uri_ptr h) then Inr (Library invalid_uri, h\<lparr>m_response := set_status 400 (m_response h)\<rparr>)
                        else
                          (let (subp_ec, ps) = extract_subprotocols (m_request h) (m_requested_subprotocols h);
                               h = h\<lparr>m_requested_subprotocols := ps\<rparr>
                           in thrown_then (run_validate_handler h) (\<lambda>(ok, h).
                                if ok then
                                  (let h = h\<lparr>m_response := set_status 101 (m_response h)\<rparr>
                                   in thrown_then (of_http (processor_process_handshake h)) (\<lambda>res.
                                        Inr (No_error, h\<lparr>m_response := res\<rparr>)))
                                else if m_status_code (m_response h) = 0
                                then Inr (Library rejected, h\<lparr>m_response := set_status 400 (m_response h)\<rparr>)
                                else Inr (Library rejected, h)))))))"

text \<open>The end of \<open>handle_read_handshake\<close>: what follows the request is kept for the frames.\<close>

definition process_request :: "u8 list \<Rightarrow> handshake \<Rightarrow> handshake thrown" where
  "process_request rest h =
     (let h = set_internal PROCESS_HTTP_REQUEST (h\<lparr>m_buf_rest := rest\<rparr>)
      in thrown_then (process_handshake_request h) (\<lambda>(ec, h).
           Inr (if \<not> m_is_http h \<or> m_http_state h = http_init then write_http_response ec h else h)))"

text \<open>The request is complete.\<close>

definition request_ready :: "u8 list \<Rightarrow> handshake \<Rightarrow> handshake thrown" where
  "request_ready rest h =
     (let (ec, h) = initialize_processor h
      in if ec \<noteq> No_error then Inr (write_http_response_error ec h)
         else if m_version_of h = Some 0 then
           (if length rest \<ge> 8 then
              process_request (drop 8 rest) (h\<lparr>m_request := (m_request h)\<lparr>m_headers :=
                replace_header ''Sec-WebSocket-Key3'' (map unbyte (take 8 rest)) (m_headers (m_request h))\<rparr>\<rparr>)
            else Inr (write_http_response_error (Processor short_key3) (h\<lparr>m_response := set_status 500 (m_response h)\<rparr>)))
         else process_request rest h)"

text \<open>What every completion of the handshake checks first: \<open>None\<close> when it does nothing more.\<close>

definition check_state :: "istate \<Rightarrow> error_code \<Rightarrow> handshake \<Rightarrow> error_code option" where
  "check_state expected ec h =
     (if ec = No_error \<and> session (con h) = session_closed then None
      else
        (let ecm = (if ec \<noteq> No_error then ec
                    else if session (con h) = connecting
                    then (if m_internal_state (con h) \<noteq> expected then Library invalid_state else No_error)
                    else Library invalid_state)
         in if ecm = Transport eof \<and> session (con h) = session_closed then None else Some ecm))"

definition handle_read_handshake :: "error_code \<Rightarrow> u8 list \<Rightarrow> handshake \<Rightarrow> handshake thrown" where
  "handle_read_handshake ec buf h =
     (case check_state READ_HTTP_REQUEST ec h of
        None \<Rightarrow> Inr h
      | Some ecm \<Rightarrow>
          if ecm \<noteq> No_error then Inr (terminate_opening ecm h)
          else if length buf > connection_read_buffer_size then Inr (terminate_opening (Library lib_general) h)
          else
            (case request_consume (map unbyte buf) (m_request h) of
               Inl (_, status) \<Rightarrow>
                 Inr (write_http_response_error (Library http_parse_error)
                   (h\<lparr>m_response := set_status_msg (int status) [] (m_response h)\<rparr>))
             | Inr (bytes_processed, r) \<Rightarrow>
                 (let h = h\<lparr>m_request := r\<rparr>
                  in if bytes_processed > length buf then Inr (terminate_opening (Library lib_general) h)
                     else if m_ready r then request_ready (drop bytes_processed buf) h
                     else Inr (ask Read_http_request h))))"

definition read_handshake :: "handshake \<Rightarrow> handshake" where
  "read_handshake h =
     (let h = (if m_open_handshake_timeout_dur h > 0
               then h\<lparr>con := (emit (Set_open_timer (m_open_handshake_timeout_dur h)) (con h))\<lparr>m_handshake_timer := True\<rparr>\<rparr>
               else h)
      in ask Read_http_request h)"

text \<open>The connection is open: the open handler is called, and the caller goes on to read frames.\<close>

definition set_open :: "handshake \<Rightarrow> handshake" where
  "set_open h =
     (let h = h\<lparr>con := (con h)\<lparr>m_internal_state := PROCESS_CONNECTION, session := session_open\<rparr>\<rparr>
      in case m_open_handler h of
           None \<Rightarrow> h
         | Some actions \<Rightarrow> h\<lparr>con := fold run_api actions (emit Open_handler (con h))\<rparr>)"

text \<open>Completions return whether they end with a call of \<open>handle_read_frame\<close> for the bytes that are left.\<close>

definition handle_write_http_response :: "error_code \<Rightarrow> handshake \<Rightarrow> handshake \<times> bool" where
  "handle_write_http_response ec h =
     (case check_state PROCESS_HTTP_REQUEST ec h of
        None \<Rightarrow> (h, False)
      | Some ecm \<Rightarrow>
          if ecm \<noteq> No_error then (terminate_opening ecm h, False)
          else
            (let h = cancel_handshake_timer h
             in if m_status_code (m_response h) \<noteq> 101 then
                  (let h = (if \<not> m_is_http h then h else h\<lparr>con := (con h)\<lparr>m_ec := Library http_connection_ended\<rparr>\<rparr>)
                   in (terminate_opening (m_ec (con h)) h, False))
                else (set_open h, True)))"

section \<open>A client sends the request\<close>

definition send_http_request :: "handshake \<Rightarrow> handshake thrown" where
  "send_http_request h =
     (case m_version_of h of
        None \<Rightarrow> Inr h
      | Some v \<Rightarrow>
          if v \<noteq> 13 then Inr h
          else
            thrown_then (of_http (hybi13_client_handshake_request (m_uri_ptr h) (m_requested_subprotocols h)
              (m_rng (con h)) (m_request h))) (\<lambda>req.
              (let h = h\<lparr>con := (con h)\<lparr>m_rng := (\<lambda>n. m_rng (con h) (n + 4))\<rparr>\<rparr>;
                   req = (if get_header ''User-Agent'' (m_headers req) = []
                          then req\<lparr>m_headers := (if m_user_agent h \<noteq> []
                            then replace_header ''User-Agent'' (m_user_agent h) (m_headers req)
                            else remove_header ''User-Agent'' (m_headers req))\<rparr>
                          else req);
                   h = h\<lparr>m_request := req\<rparr>;
                   h = (if m_open_handshake_timeout_dur h > 0
                        then h\<lparr>con := (emit (Set_open_timer (m_open_handshake_timeout_dur h)) (con h))\<lparr>m_handshake_timer := True\<rparr>\<rparr>
                        else h)
               in Inr (ask (Send_http_request (map byte (request_raw req))) h))))"

definition handle_send_http_request :: "error_code \<Rightarrow> handshake \<Rightarrow> handshake" where
  "handle_send_http_request ec h =
     (case check_state WRITE_HTTP_REQUEST ec h of
        None \<Rightarrow> h
      | Some ecm \<Rightarrow>
          if ecm \<noteq> No_error then terminate_opening ecm h
          else ask Read_http_response (set_internal READ_HTTP_RESPONSE h))"

text \<open>The response is there: a failed negotiation terminates the connection, and the function goes on.\<close>

definition response_ready :: "u8 list \<Rightarrow> handshake \<Rightarrow> handshake \<times> bool" where
  "response_ready rest h =
     (let h = cancel_handshake_timer h;
          validate_ec = hybi13_validate_server_handshake_response (m_request h) (m_response h)
      in if validate_ec \<noteq> No_error then (terminate_opening validate_ec h, False)
         else
           (let (neg, answer) = negotiate_extensions_helper (m_headers (m_response h));
                h = (if neg \<noteq> No_error then terminate_opening (Library extension_neg_failed) h else h)
            in ((set_open h)\<lparr>m_buf_rest := rest\<rparr>, True)))"

definition handle_read_http_response :: "error_code \<Rightarrow> u8 list \<Rightarrow> handshake \<Rightarrow> handshake \<times> bool" where
  "handle_read_http_response ec buf h =
     (case check_state READ_HTTP_RESPONSE ec h of
        None \<Rightarrow> (h, False)
      | Some ecm \<Rightarrow>
          if ecm \<noteq> No_error then (terminate_opening ecm h, False)
          else
            (case response_consume (map unbyte buf) (m_response h) of
               Inl _ \<Rightarrow> (terminate_opening (Library lib_general) h, False)
             | Inr (bytes_processed, r) \<Rightarrow>
                 (let h = h\<lparr>m_response := r\<rparr>
                  in if headers_ready r then response_ready (drop bytes_processed buf) h
                     else (ask Read_http_response h, False))))"

section \<open>The start\<close>

definition start :: "handshake \<Rightarrow> handshake" where
  "start h =
     (if m_internal_state (con h) \<noteq> USER_INIT then terminate_opening (Library invalid_state) h
      else ask Transport_init (set_internal TRANSPORT_INIT h))"

definition handle_transport_init :: "error_code \<Rightarrow> handshake \<Rightarrow> handshake thrown" where
  "handle_transport_init ec h =
     (let ecm = (if m_internal_state (con h) \<noteq> TRANSPORT_INIT then Library invalid_state else ec)
      in if ecm \<noteq> No_error then Inr (terminate_opening ecm h)
         else if m_is_server (con h) then Inr (read_handshake (set_internal READ_HTTP_REQUEST h))
         else send_http_request (set_processor (get_processor client_version) (set_internal WRITE_HTTP_REQUEST h)))"

definition handle_open_handshake_timeout :: "error_code \<Rightarrow> handshake \<Rightarrow> handshake" where
  "handle_open_handshake_timeout ec h =
     (if ec = Transport operation_aborted then h
      else if ec \<noteq> No_error then h
      else terminate_opening (Library open_handshake_timeout) h)"

text \<open>The tail call of the two completions that open a connection: the bytes after the handshake are frames. Those
  of version 0 are read by its own processor, in \<open>Ws_Hybi00\<close>.\<close>

definition read_frames_left :: "handshake \<times> bool \<Rightarrow> handshake option" where
  "read_frames_left r =
     (let (h, go) = r
      in if go then map_option (\<lambda>c. h\<lparr>con := c\<rparr>) (handle_read_frame No_error (m_buf_rest h) (con h)) else Some h)"

end
