(* ===== verification/Ws_Hybi13_Stream.thy ===== *)
theory Ws_Hybi13_Stream
  imports Ws_Hybi13
begin

text \<open>
  The RFC 6455 processor on a stream: \<open>consume\<close> of a buffer in two parts, and frames that come back as the
  messages they were prepared from (Client/cpp/websocketpp/websocketpp/processors/hybi13.hpp).
\<close>

unbundle bit_operations_syntax

section \<open>Chunks\<close>

lemma keyed_unique: "keyed key r p \<Longrightarrow> keyed key r q \<Longrightarrow> p = q"
proof -
  assume "keyed key r p" "keyed key r q"
  then have "le_bytes 8 p = le_bytes 8 q" by (auto simp: keyed_def intro: nth_equalityI)
  then have "le_word (le_bytes 8 p) = (le_word (le_bytes 8 q) :: u64)" by simp
  then show ?thesis by (simp add: le_word_le_bytes)
qed

lemma byte_mask_circ_append:
  assumes "key_ok p"
  shows "fst (byte_mask_circ (s @ t) p) = fst (byte_mask_circ s p) @ fst (byte_mask_circ t (snd (byte_mask_circ s p)))"
    "snd (byte_mask_circ (s @ t) p) = snd (byte_mask_circ t (snd (byte_mask_circ s p)))"
proof -
  obtain key r where k: "keyed key r p" using assms by (auto simp: key_ok_def)
  have k1: "keyed key (r + length s) (snd (byte_mask_circ s p))" using k by (rule by_bytes.returns_key)
  show "fst (byte_mask_circ (s @ t) p) = fst (byte_mask_circ s p) @ fst (byte_mask_circ t (snd (byte_mask_circ s p)))"
    by (simp add: by_bytes.masks [OF k] by_bytes.masks [OF k1] byte_mask_append)
  show "snd (byte_mask_circ (s @ t) p) = snd (byte_mask_circ t (snd (byte_mask_circ s p)))"
    using by_bytes.returns_key [OF k, of "s @ t"] by_bytes.returns_key [OF k1, of t]
    by (intro keyed_unique [of key "r + length s + length t"]) (simp_all add: add.assoc)
qed

definition after_payload :: "hybi13 \<Rightarrow> u8 list \<Rightarrow> hybi13" where
  "after_payload h s = (set_current_msg (extended_msg h s) h)\<lparr>m_bytes_needed := m_bytes_needed h - of_nat (length s)\<rparr>"

lemma after_payload_fields [simp]:
  "m_proc_state (after_payload h s) = m_proc_state h" "m_basic_header (after_payload h s) = m_basic_header h"
  "m_bytes_needed (after_payload h s) = m_bytes_needed h - of_nat (length s)"
  "current_msg (after_payload h s) = extended_msg h s"
  by (simp_all add: after_payload_def set_current_msg_def current_msg_def split: msg_kind.split)

lemma unmask_append:
  "key_ok (prepared_key (current_msg h)) \<Longrightarrow> unmask h (s @ t) = unmask h s @ unmask (after_payload h s) t"
  by (simp add: unmask_def key_after_def byte_mask_circ_append)

lemma key_after_append:
  "key_ok (prepared_key (current_msg h)) \<Longrightarrow> key_after h (s @ t) = key_after (after_payload h s) t"
  by (simp add: key_after_def byte_mask_circ_append)

lemma utf8_after_append:
  assumes "key_ok (prepared_key (current_msg h))"
  shows "utf8_after h (s @ t) = (if fst (utf8_after h s) then utf8_after (after_payload h s) t else utf8_after h s)"
  using assms
  by (auto simp: utf8_after_def unmask_append decode_bytes_append case_prod_unfold Let_def prod_eq_iff)

lemma extended_msg_append:
  assumes "key_ok (prepared_key (current_msg h))" "fst (utf8_after h s)"
  shows "extended_msg h (s @ t) = extended_msg (after_payload h s) t"
  using assms
  by (simp add: extended_msg_def [of h "s @ t"] extended_msg_def [of "after_payload h s"] unmask_append key_after_append
      utf8_after_append Let_def)

lemma after_payload_append:
  assumes "key_ok (prepared_key (current_msg h))" "fst (utf8_after h s)"
  shows "after_payload h (s @ t) = after_payload (after_payload h s) t"
  using assms
  by (simp add: after_payload_def [of h "s @ t"] after_payload_def [of "after_payload h s"] extended_msg_append)
    (simp add: after_payload_def set_current_msg_def algebra_simps split: msg_kind.split)

lemma copy_basic_steps:
  "m_bytes_needed h = 1 \<Longrightarrow> copy_basic_header_bytes (b # s) h =
     (1, h\<lparr>m_basic_header := (m_basic_header h)\<lparr>b1 := b\<rparr>, m_bytes_needed := 0\<rparr>)"
  "m_bytes_needed h = 2 \<Longrightarrow> copy_basic_header_bytes (b # c # s) h =
     (2, h\<lparr>m_basic_header := \<lparr>b0 = b, b1 = c\<rparr>, m_bytes_needed := 0\<rparr>)"
  "m_bytes_needed h = 2 \<Longrightarrow> copy_basic_header_bytes [b] h =
     (1, h\<lparr>m_basic_header := (m_basic_header h)\<lparr>b0 := b\<rparr>, m_bytes_needed := 1\<rparr>)"
  by (simp_all add: copy_basic_header_bytes_def)

lemma minus_of_nat_pos: "k \<le> unat (w :: u64) \<Longrightarrow> 0 < w - of_nat k \<longleftrightarrow> k < unat w"
  by (simp only: word_less_nat_alt unat_minus_of_nat unat_0 zero_less_diff)

definition finish_frame :: "hybi13 \<Rightarrow> u8 list \<Rightarrow> error_code \<times> hybi13 \<times> u8 list" where
  "finish_frame h rest =
     (if get_fin (m_basic_header h) then let (ec, h) = finalize_message h in (ec, h, rest)
      else (No_error, reset_headers h, rest))"

lemma consume_step_application:
  assumes "m_proc_state h = APPLICATION"
  shows "m_bytes_needed h = 0 \<Longrightarrow> consume_step h buf = finish_frame h buf"
    "m_bytes_needed h \<noteq> 0 \<Longrightarrow> buf \<noteq> [] \<Longrightarrow> k = min (unat (m_bytes_needed h)) (length buf) \<Longrightarrow>
      consume_step h buf =
        (if \<not> fst (utf8_after h (take k buf))
         then (Processor invalid_utf8, set_current_msg (extended_msg h (take k buf)) h, buf)
         else if k < unat (m_bytes_needed h) then (No_error, after_payload h (take k buf), drop k buf)
         else finish_frame (after_payload h (take k buf)) (drop k buf))"
proof -
  show "consume_step h buf = finish_frame h buf" if "m_bytes_needed h = 0"
    using assms that by (simp add: consume_step_def finish_frame_def)
next
  assume n: "m_bytes_needed h \<noteq> 0" and b: "buf \<noteq> []" and k: "k = min (unat (m_bytes_needed h)) (length buf)"
  have k0: "k > 0" "min (length buf) k = k" using n b k by (simp_all add: unat_gt_0)
  have after: "(set_current_msg (extended_msg h (take k buf)) h)\<lparr>m_bytes_needed := m_bytes_needed h - of_nat k\<rparr> =
      after_payload h (take k buf)"
    using k0 by (simp add: after_payload_def)
  have "m_bytes_needed h - of_nat k > 0 \<longleftrightarrow> k < unat (m_bytes_needed h)"
    using k by (intro minus_of_nat_pos) simp
  then show "consume_step h buf =
        (if \<not> fst (utf8_after h (take k buf))
         then (Processor invalid_utf8, set_current_msg (extended_msg h (take k buf)) h, buf)
         else if k < unat (m_bytes_needed h) then (No_error, after_payload h (take k buf), drop k buf)
         else finish_frame (after_payload h (take k buf)) (drop k buf))"
    using assms k0 after
    by (simp add: consume_step_def Let_def k [symmetric] process_payload_eq finish_frame_def)
qed

lemma copy_to_copy_to:
  "off + length xs \<le> length e \<Longrightarrow> copy_to (off + length xs) ys (copy_to off xs e) = copy_to off (xs @ ys) e"
  by (simp add: copy_to_def ac_simps)

text \<open>A step on a longer buffer: the same step, the step after the one on the shorter buffer, or, where the
  shorter buffer already had the error, the same error.\<close>

definition same_outcome :: "error_code \<times> hybi13 \<times> u8 list \<Rightarrow> error_code \<times> hybi13 \<times> u8 list \<Rightarrow> bool" where
  "same_outcome x y \<longleftrightarrow> fst x = fst y \<and> (fst x = No_error \<longrightarrow> x = y)"

definition resumed :: "hybi13 \<Rightarrow> hybi13 \<Rightarrow> u8 list \<Rightarrow> u8 list \<Rightarrow> bool" where
  "resumed h h' s t \<longleftrightarrow>
     m_proc_state h' \<notin> {READY, FATAL_ERROR} \<and> m_bytes_needed h' \<noteq> 0 \<and>
     same_outcome (consume_step h (s @ t)) (consume_step h' t)"

lemma step_append_basic:
  assumes wf: "hybi_wf h" and st: "m_proc_state h = HEADER_BASIC" and s0: "s \<noteq> []" and t: "t \<noteq> []"
  shows "(case consume_step h s of (ec, h', r) \<Rightarrow>
      consume_step h (s @ t) = (ec, h', r @ t) \<or> ec = No_error \<and> r = [] \<and> resumed h h' s t)"
proof -
  obtain b s' where s: "s = b # s'" using s0 by (cases s) auto
  obtain c t' where tt: "t = c # t'" using t by (cases t) auto
  consider "m_bytes_needed h = 1" | "m_bytes_needed h = 2" "s' \<noteq> []" | "m_bytes_needed h = 2" "s' = []"
    using wf st by (auto simp: hybi_wf_def)
  then show ?thesis
  proof cases
    case 1
    then show ?thesis using st
      by (simp add: consume_step_def s copy_basic_steps Let_def)
  next
    case 2
    then show ?thesis using st
      by (cases s') (simp_all add: consume_step_def s copy_basic_steps Let_def)
  next
    case 3
    have both: "(m_basic_header h)\<lparr>b0 := b, b1 := c\<rparr> = \<lparr>b0 = b, b1 = c\<rparr>" by (cases "m_basic_header h") simp
    show ?thesis using st 3
      by (simp add: consume_step_def s tt copy_basic_steps Let_def resumed_def same_outcome_def both)
  qed
qed

lemma step_append_extended:
  assumes wf: "hybi_wf h" and st: "m_proc_state h = HEADER_EXTENDED"
  shows "(case consume_step h s of (ec, h', r) \<Rightarrow>
      consume_step h (s @ t) = (ec, h', r @ t) \<or> ec = No_error \<and> r = [] \<and> resumed h h' s t)"
proof (cases "unat (m_bytes_needed h) \<le> length s")
  case True
  then show ?thesis using st
    by (simp add: consume_step_def copy_extended_header_bytes_def Let_def min_def case_prod_unfold)
next
  case False
  define n where "n = length s"
  define k where "k = min (unat (m_bytes_needed h) - n) (length t)"
  have n: "n < unat (m_bytes_needed h)" "min (unat (m_bytes_needed h)) n = n" using False by (simp_all add: n_def)
  have room: "m_cursor h + n \<le> length (m_extended_header h)"
    using wf st get_header_len_le_12 [of "m_basic_header h"] n(1) by (simp add: hybi_wf_def frame_consts)
  have needed: "unat (m_bytes_needed h - of_nat n) = unat (m_bytes_needed h) - n"
    using n(1) by (intro unat_minus_of_nat) simp
  have pos: "m_bytes_needed h - of_nat n \<noteq> 0" using needed n(1) by (metis diff_is_0_eq not_le unat_0)
  define h' where "h' = h\<lparr>m_extended_header := copy_to (m_cursor h) s (m_extended_header h),
      m_cursor := m_cursor h + n, m_bytes_needed := m_bytes_needed h - of_nat n\<rparr>"
  have c1: "copy_extended_header_bytes s h = (n, h')"
    by (simp add: copy_extended_header_bytes_def Let_def h'_def n n_def [symmetric])
  have s1: "consume_step h s = (No_error, h', [])"
    using st pos by (simp add: consume_step_def c1 h'_def word_gt_0 n_def)
  have m: "min (unat (m_bytes_needed h)) (n + length t) = n + k" using n(1) by (simp add: k_def)
  have both: "copy_to (n + m_cursor h) (take k t) (copy_to (m_cursor h) s (m_extended_header h)) =
      copy_to (m_cursor h) (s @ take k t) (m_extended_header h)"
    using copy_to_copy_to [of "m_cursor h" s "m_extended_header h" "take k t"] room by (simp add: n_def add.commute)
  have c2: "copy_extended_header_bytes (s @ t) h = (n + k, snd (copy_extended_header_bytes t h'))"
    using room
    by (simp add: copy_extended_header_bytes_def Let_def h'_def n_def [symmetric] m needed k_def [symmetric] algebra_simps both)
  have c3: "fst (copy_extended_header_bytes t h') = k"
    by (simp add: copy_extended_header_bytes_def Let_def h'_def needed k_def)
  have "consume_step h (s @ t) = consume_step h' t"
    using st c3 by (simp add: consume_step_def c2 Let_def case_prod_unfold n_def h'_def)
  then show ?thesis using st pos by (simp add: s1 resumed_def same_outcome_def h'_def)
qed

lemma step_append_application:
  assumes wf: "hybi_wf h" and st: "m_proc_state h = APPLICATION" and c: "consuming h s" and t: "t \<noteq> []"
  shows "(case consume_step h s of (ec, h', r) \<Rightarrow>
      consume_step h (s @ t) = (ec, h', r @ t) \<or>
      ec = No_error \<and> r = [] \<and> resumed h h' s t \<or>
      ec \<noteq> No_error \<and> fst (consume_step h (s @ t)) = ec)"
proof (cases "m_bytes_needed h = 0")
  case True
  then show ?thesis
    by (simp add: consume_step_application(1) [OF st] finish_frame_def case_prod_unfold Let_def)
next
  case False
  have s0: "s \<noteq> []" using c False by (simp add: consuming_def)
  have key: "key_ok (prepared_key (current_msg h))" using wf st by (simp add: hybi_wf_def)
  define N where "N = unat (m_bytes_needed h)"
  show ?thesis
  proof (cases "N \<le> length s")
    case True
    then have "take (min N (length s)) s = take (min N (length (s @ t))) (s @ t)" by simp
    then show ?thesis
      using True s0 False
      by (simp add: consume_step_application(2) [OF st, OF False _ refl] N_def [symmetric] finish_frame_def case_prod_unfold Let_def)
  next
    case False
    define k where "k = min (N - length s) (length t)"
    have k: "k > 0" "min N (length s) = length s" "min N (length s + length t) = length s + k"
      using False t by (simp_all add: k_def)
    have one: "consume_step h s =
        (if \<not> fst (utf8_after h s) then (Processor invalid_utf8, set_current_msg (extended_msg h s) h, s)
         else (No_error, after_payload h s, []))"
      using False s0 \<open>m_bytes_needed h \<noteq> 0\<close> 
      by (simp add: consume_step_application(2) [OF st, OF _ _ refl] N_def [symmetric] k(2))
    have two: "consume_step h (s @ t) =
        (if \<not> fst (utf8_after h (s @ take k t))
         then (Processor invalid_utf8, set_current_msg (extended_msg h (s @ take k t)) h, s @ t)
         else if length s + k < N then (No_error, after_payload h (s @ take k t), drop k t)
         else finish_frame (after_payload h (s @ take k t)) (drop k t))"
      using t s0 \<open>m_bytes_needed h \<noteq> 0\<close> 
      by (simp add: consume_step_application(2) [OF st, OF _ _ refl] N_def [symmetric] k(3))
    show ?thesis
    proof (cases "fst (utf8_after h s)")
      case ok: False
      then show ?thesis by (simp add: one two utf8_after_append [OF key])
    next
      case ok: True
      define h' where "h' = after_payload h s"
      have n': "unat (m_bytes_needed h') = N - length s"
        using False unat_minus_of_nat [of "length s" "m_bytes_needed h"] by (simp add: h'_def N_def)
      have nz: "m_bytes_needed h' \<noteq> 0" using n' False by (metis diff_is_0_eq unat_0)
      have st': "m_proc_state h' = APPLICATION" using st by (simp add: h'_def)
      have "consume_step h' t =
        (if \<not> fst (utf8_after h' (take k t))
         then (Processor invalid_utf8, set_current_msg (extended_msg h' (take k t)) h', t)
         else if k < N - length s then (No_error, after_payload h' (take k t), drop k t)
         else finish_frame (after_payload h' (take k t)) (drop k t))"
        using t nz by (simp add: consume_step_application(2) [OF st', OF _ _ refl] n' k_def [symmetric])
      then have "same_outcome (consume_step h (s @ t)) (consume_step h' t)"
        using ok by (simp add: same_outcome_def two utf8_after_append [OF key] after_payload_append [OF key] h'_def less_diff_conv
            add.commute)
      then show ?thesis using ok nz st' by (simp add: one resumed_def h'_def)
    qed
  qed
qed

lemma consuming_append: "consuming h s \<Longrightarrow> consuming h (s @ t)"
  by (auto simp: consuming_def)

definition stopped :: "hybi13 \<Rightarrow> bool" where
  "stopped h \<longleftrightarrow> m_proc_state h \<in> {READY, FATAL_ERROR}"

lemma step_append:
  assumes wf: "hybi_wf h" and c: "consuming h s" and t: "t \<noteq> []"
  shows "(case consume_step h s of (ec, h', r) \<Rightarrow>
      consume_step h (s @ t) = (ec, h', r @ t) \<or>
      ec = No_error \<and> r = [] \<and> resumed h h' s t \<or>
      ec \<noteq> No_error \<and> fst (consume_step h (s @ t)) = ec)"
proof (cases "m_proc_state h")
  case HEADER_BASIC
  then have "s \<noteq> []" using wf c by (auto simp: hybi_wf_def consuming_def)
  then show ?thesis using step_append_basic [OF wf HEADER_BASIC _ t, of s] by (auto split: prod.splits)
next
  case HEADER_EXTENDED
  then show ?thesis using step_append_extended [OF wf, of s t] by (auto split: prod.splits)
next
  case APPLICATION
  show ?thesis by (rule step_append_application [OF wf APPLICATION c t])
qed (use wf c in \<open>auto simp: hybi_wf_def consuming_def\<close>)

definition go_on :: "error_code \<times> hybi13 \<times> u8 list \<Rightarrow> error_code \<times> hybi13 \<times> u8 list" where
  "go_on x = (let (ec, h, r) = x in if ec \<noteq> No_error then x else consume_loop h r)"

lemma consume_loop_step: "consuming h s \<Longrightarrow> consume_loop h s = go_on (consume_step h s)"
  by (simp add: consume_loop.simps [of h s] go_on_def case_prod_unfold Let_def)

lemma same_outcome_go_on: "same_outcome x y \<Longrightarrow> same_outcome (go_on x) (go_on y)"
  by (cases x; cases y) (auto simp: same_outcome_def go_on_def)

text \<open>A buffer in two parts.\<close>

lemma consume_loop_append:
  "hybi_wf h \<Longrightarrow> t \<noteq> [] \<Longrightarrow>
   (case consume_loop h s of (ec, h', r) \<Rightarrow>
      if ec \<noteq> No_error then fst (consume_loop h (s @ t)) = ec
      else if stopped h' then consume_loop h (s @ t) = (No_error, h', r @ t)
      else same_outcome (consume_loop h (s @ t)) (consume_loop h' t))"
proof (induction h s rule: consume_loop.induct)
  case (1 h s)
  show ?case
  proof (cases "consuming h s")
    case False
    show ?thesis
    proof (cases "stopped h")
      case True
      then have "\<not> consuming h (s @ t)" by (auto simp: consuming_def stopped_def)
      then show ?thesis using False True by (simp add: consume_loop.simps [of h])
    next
      case ns: False
      then have "s = []" using False by (auto simp: consuming_def stopped_def)
      then show ?thesis using ns False by (simp add: consume_loop.simps [of h "[]"] same_outcome_def)
    qed
  next
    case True
    obtain ec h' r where s: "consume_step h s = (ec, h', r)" by (metis prod_cases3)
    have loop: "consume_loop h s = (if ec \<noteq> No_error then (ec, h', r) else consume_loop h' r)"
      using True by (simp add: consume_loop.simps [of h s] s)
    have loop2: "consume_loop h (s @ t) =
        (let (ec, h', r) = consume_step h (s @ t) in if ec \<noteq> No_error then (ec, h', r) else consume_loop h' r)"
      using consuming_append [OF True] by (simp add: consume_loop.simps [of h "s @ t"])
    consider "consume_step h (s @ t) = (ec, h', r @ t)" | "ec = No_error" "r = []" "resumed h h' s t"
      | "ec \<noteq> No_error" "fst (consume_step h (s @ t)) = ec"
      using step_append [OF "1.prems"(1) True "1.prems"(2)] by (auto simp: s)
    then show ?thesis
    proof cases
      case 1
      show ?thesis
      proof (cases "ec = No_error")
        case ok: True
        then have "hybi_wf h'" using wf_consume_step [OF "1.prems"(1) True] s by simp
        then show ?thesis using "1.IH" [OF True s [symmetric] refl refl] ok "1.prems"(2) 1
          by (cases "consume_loop h' r") (auto simp: loop loop2)
      qed (use 1 in \<open>simp add: loop loop2\<close>)
    next
      case 2
      then have "\<not> consuming h' []" "consuming h' t" "\<not> stopped h'"
        using "1.prems"(2) by (auto simp: resumed_def consuming_def stopped_def)
      moreover have "consume_loop h' [] = (No_error, h', [])"
        using calculation(1) by (simp add: consume_loop.simps [of h' "[]"])
      moreover have "same_outcome (consume_loop h (s @ t)) (consume_loop h' t)"
        unfolding consume_loop_step [OF consuming_append [OF True]] consume_loop_step [OF calculation(2)]
        using 2(3) by (intro same_outcome_go_on) (simp add: resumed_def)
      ultimately show ?thesis using 2 by (simp add: loop)
    next
      case 3
      then show ?thesis by (simp add: loop loop2 case_prod_unfold)
    qed
  qed
qed

section \<open>A whole frame\<close>

definition at_frame_start :: "hybi13 \<Rightarrow> bool" where
  "at_frame_start h \<longleftrightarrow>
     m_proc_state h = HEADER_BASIC \<and> m_bytes_needed h = 2 \<and> m_extended_header h = no_bytes"

text \<open>The extended header on the wire, and in the processor.\<close>

definition ext_bytes :: "bool \<Rightarrow> u64 \<Rightarrow> masking_key \<Rightarrow> u8 list" where
  "ext_bytes masked sz key = size_bytes sz @ (if masked then le_bytes 4 key else [])"

definition ext_header :: "bool \<Rightarrow> u64 \<Rightarrow> masking_key \<Rightarrow> extended_header" where
  "ext_header masked sz key = (if masked then extended_header_with_key sz key else extended_header sz)"

lemma prepare_header_bytes:
  "prepare_header (basic_header oc sz fin masked r1 r2 r3) (ext_header masked sz key) =
     b0 (basic_header oc sz fin masked r1 r2 r3) # b1 (basic_header oc sz fin masked r1 r2 r3) # ext_bytes masked sz key"
  by (cases masked) (simp_all add: ext_header_def ext_bytes_def prepare_header_masked prepare_header_unmasked Let_def)

lemma copy_ext_bytes: "copy_to 0 (ext_bytes masked sz key) no_bytes = ext_header masked sz key"
  by (simp add: ext_bytes_def ext_header_def copy_to_def no_bytes_def extended_header_with_key_bytes
      extended_header_bytes frame_consts)

lemma length_ext_bytes: "length (ext_bytes masked sz key) = get_header_len (basic_header oc sz fin masked r1 r2 r3) - BASIC_HEADER_LENGTH"
  by (simp add: ext_bytes_def get_header_len_basic_header frame_consts)

lemma ext_header_size: "get_payload_size (basic_header oc sz fin masked r1 r2 r3) (ext_header masked sz key) = sz"
  by (rule get_payload_size_extended) (simp add: ext_header_def extended_header_with_key_bytes extended_header_bytes)

lemma ext_header_key:
  "get_masking_key (basic_header oc sz fin masked r1 r2 r3) (ext_header masked sz key) = (if masked then key else 0)"
  by (simp add: ext_header_def get_masking_key_extended) (simp add: get_masking_key_def get_masked_basic_header)

lemma basic_value_code:
  "basic_value sz = 0x7E \<Longrightarrow> \<not> sz \<le> payload_size_basic" "basic_value sz = 0x7F \<Longrightarrow> \<not> sz \<le> payload_size_extended"
proof -
  have small: "sz \<le> 125 \<Longrightarrow> unat (ucast sz :: u8) \<le> 125"
    by (simp add: word_le_nat_alt unsigned_ucast_eq take_bit_nat_eq_self)
  show "basic_value sz = 0x7E \<Longrightarrow> \<not> sz \<le> payload_size_basic"
    using small by (auto simp: basic_value_def frame_consts)
  show "basic_value sz = 0x7F \<Longrightarrow> \<not> sz \<le> payload_size_extended"
    using small by (auto simp: basic_value_def frame_consts word_le_nat_alt split: if_splits)
qed

lemma ext_header_minimal:
  "validate_incoming_extended_header (basic_header oc sz fin masked r1 r2 r3) (ext_header masked sz key) = No_error"
  using basic_value_code [of sz]
  by (auto simp: validate_incoming_extended_header_def Let_def get_basic_size_basic_header ext_header_size frame_consts)

lemma consume_header:
  assumes st: "at_frame_start h"
    and v: "validate_incoming_basic_header bh (m_server h) (msg_ptr (m_data_msg h) = None) = No_error"
    and bh: "bh = basic_header oc sz fin masked r1 r2 r3"
  shows "consume_loop h (prepare_header bh (ext_header masked sz key) @ s) =
     go_on (let (ec, h') = begin_payload (h\<lparr>m_basic_header := bh, m_proc_state := HEADER_EXTENDED,
        m_cursor := length (ext_bytes masked sz key), m_bytes_needed := 0, m_extended_header := ext_header masked sz key\<rparr>)
        in (ec, h', s))"
proof -
  define es where "es = ext_bytes masked sz key"
  define n where "n = (of_nat (length es) :: u64)"
  have len: "length es = get_header_len bh - BASIC_HEADER_LENGTH" "length es \<le> 12"
    using length_ext_bytes [of masked sz key oc fin r1 r2 r3] get_header_len_le_12 [of bh] by (simp_all add: es_def bh)
  then have n: "unat n = length es" by (simp add: n_def unat_of_nat take_bit_nat_eq_self)
  define h1 where "h1 = h\<lparr>m_basic_header := bh, m_proc_state := HEADER_EXTENDED, m_cursor := 0, m_bytes_needed := n\<rparr>"
  have bh2: "\<lparr>b0 = b0 bh, b1 = b1 bh\<rparr> = bh" by simp
  have w: "prepare_header bh (ext_header masked sz key) = b0 bh # b1 bh # es"
    by (simp add: prepare_header_bytes bh es_def)
  have c0: "consuming h ((b0 bh # b1 bh # es) @ s)" using st by (simp add: consuming_def at_frame_start_def)
  have s0: "consume_step h ((b0 bh # b1 bh # es) @ s) = (No_error, h1, es @ s)"
    using st v by (simp add: consume_step_def at_frame_start_def copy_basic_steps bh2 h1_def n_def len(1))
  have c1: "consuming h1 (es @ s)" using n by (auto simp: consuming_def h1_def unat_eq_0)
  define h2 where "h2 = h1\<lparr>m_extended_header := ext_header masked sz key, m_cursor := length es, m_bytes_needed := 0\<rparr>"
  have e: "copy_to 0 es (m_extended_header h) = ext_header masked sz key"
    using st by (simp add: at_frame_start_def es_def copy_ext_bytes)
  have "copy_extended_header_bytes (es @ s) h1 = (length es, h2)"
    using e by (simp add: copy_extended_header_bytes_def Let_def h1_def h2_def n) (simp add: n_def)
  then have s1: "consume_step h1 (es @ s) = (let (ec, h') = begin_payload h2 in (ec, h', s))"
    using ext_header_minimal [of oc sz fin masked r1 r2 r3 key]
    by (simp add: consume_step_def h1_def h2_def bh)
  have "h2 = h\<lparr>m_basic_header := bh, m_proc_state := HEADER_EXTENDED,
        m_cursor := length es, m_bytes_needed := 0, m_extended_header := ext_header masked sz key\<rparr>"
    by (simp add: h2_def h1_def)
  then show ?thesis
    unfolding w es_def [symmetric] consume_loop_step [OF c0] s0
    by (simp add: go_on_def [of "(No_error, h1, es @ s)"] consume_loop_step [OF c1] s1)
qed

definition wire :: "bool \<Rightarrow> masking_key \<Rightarrow> u8 list \<Rightarrow> u8 list" where
  "wire masked key p = (if masked then masked_copy p key else p)"

definition frame :: "bool \<Rightarrow> masking_key \<Rightarrow> opcode \<Rightarrow> u8 list \<Rightarrow> u8 list" where
  "frame masked key oc p =
     prepare_header (basic_header oc (of_nat (length p)) True masked False False False)
       (ext_header masked (of_nat (length p)) key) @ wire masked key p"

lemma length_wire [simp]: "length (wire masked key p) = length p"
  by (simp add: wire_def masked_copy_def)

lemma go_on_simps [simp]: "go_on (No_error, h, s) = consume_loop h s" "ec \<noteq> No_error \<Longrightarrow> go_on (ec, h, s) = (ec, h, s)"
  by (simp_all add: go_on_def)

lemma message_fields [simp]:
  "msg_opcode (message oc) = oc" "msg_payload (message oc) = []"
  by (simp_all add: message_def)

lemma current_msg_state [simp]: "current_msg (h\<lparr>m_proc_state := x\<rparr>) = current_msg h"
  by (simp add: current_msg_def split: msg_kind.split)

text \<open>The payload of a final frame, from the state \<open>begin_payload\<close> leaves.\<close>

lemma consume_final_payload:
  assumes st: "m_proc_state h = APPLICATION" "get_fin (m_basic_header h)" "get_masked (m_basic_header h) = masked"
    and n: "m_bytes_needed h = of_nat (length p)" "length p < 2 ^ 64"
    and cur: "current_msg h = msg_metadata (message oc) key" and oc: "oc = get_opcode (m_basic_header h)"
    and u: "oc = op_text \<Longrightarrow> validate p"
  shows "consume_loop h (wire masked key p @ s) =
    (No_error, (if p = [] then h else after_payload h (wire masked key p))\<lparr>m_proc_state := READY\<rparr>, s) \<and>
    (p \<noteq> [] \<longrightarrow> unmask h (wire masked key p) = p)"
proof -
  have len: "unat (m_bytes_needed h) = length p" using n by (simp add: unat_of_nat take_bit_nat_eq_self)
  have un: "unmask h (wire masked key p) = p"
    using st(3) by_bytes.mask_unmask [OF keyed_prepare [of key], of p]
    by (simp add: unmask_def wire_def masked_copy_def cur msg_metadata_def)
  have op: "msg_opcode (the (msg_ptr (current_msg h))) = oc" by (simp add: cur msg_metadata_def)
  have u0: "oc = op_text \<Longrightarrow> fst (decode_bytes p validator) \<and> complete (snd (decode_bytes p validator))"
    using u by (simp add: validate_def case_prod_unfold Let_def split: if_splits)
  define h1 where "h1 = (if p = [] then h else after_payload h (wire masked key p))"
  have ok: "fst (utf8_after h (wire masked key p))"
    using u0 by (simp add: utf8_after_def un cur msg_metadata_def)
  have complete1: "oc = op_text \<Longrightarrow> complete (utf8 (current_msg h1))"
    using u0 by (cases "p = []") (simp_all add: h1_def cur utf8_after_def un msg_metadata_def)
  have c: "consuming h (wire masked key p @ s)"
    using st(1) n(1) by (cases "p = []") (auto simp: consuming_def)
  have step: "consume_step h (wire masked key p @ s) = finish_frame h1 s"
  proof (cases "p = []")
    case True
    then show ?thesis using n(1) consume_step_application(1) [OF st(1)] by (simp add: h1_def wire_def masked_copy_def byte_mask_def)
  next
    case False
    then have nz: "m_bytes_needed h \<noteq> 0" using len by auto
    have "wire masked key p @ s \<noteq> []" using False length_wire [of masked key p] by (metis append_is_Nil_conv length_0_conv)
    from consume_step_application(2) [OF st(1) nz this refl]
    show ?thesis using ok False by (simp add: len h1_def)
  qed
  have "finalize_message h1 = (No_error, h1\<lparr>m_proc_state := READY\<rparr>)"
    using complete1 oc by (auto simp: finalize_message_def deflate_is_enabled_def h1_def)
  then have "finish_frame h1 s = (No_error, h1\<lparr>m_proc_state := READY\<rparr>, s)"
    using st(2) by (simp add: finish_frame_def h1_def)
  moreover have "consume_loop (h1\<lparr>m_proc_state := READY\<rparr>) s = (No_error, h1\<lparr>m_proc_state := READY\<rparr>, s)"
    by (simp add: consume_loop.simps [of "h1\<lparr>m_proc_state := READY\<rparr>"] consuming_def)
  ultimately show ?thesis by (simp add: consume_loop_step [OF c] step un) (simp add: h1_def)
qed

lemma frame_header_valid:
  assumes "oc \<in> {op_text, op_binary, op_close, op_ping, op_pong}" "is_control oc \<longrightarrow> length p \<le> 125"
    "\<not> is_control oc \<longrightarrow> new_msg"
  shows "validate_incoming_basic_header (basic_header oc (of_nat (length p)) True masked False False False) masked new_msg = No_error"
proof -
  have op: "get_opcode (basic_header oc (of_nat (length p)) True masked False False False) = oc"
    using assms(1) by (intro header_fields) (auto simp: op_defs)
  have small: "is_control oc \<Longrightarrow> ucast (basic_value (of_nat (length p))) \<le> (125 :: u64)"
  proof -
    assume "is_control oc"
    then have l: "length p \<le> 125" using assms(2) by simp
    then have "unat (of_nat (length p) :: u64) = length p" by (simp add: unat_of_nat take_bit_nat_eq_self)
    then show ?thesis using l
      by (simp add: basic_value_def frame_consts word_le_nat_alt unsigned_ucast_eq unsigned_take_bit_eq take_bit_nat_eq_self)
  qed
  then show ?thesis
    using assms op
    by (auto simp: validate_incoming_basic_header_def Let_def get_basic_size_basic_header get_flags_basic_header
        get_masked_basic_header is_control_def op_reserved_def op_invalid_def op_defs payload_size_basic_def not_less)
qed

text \<open>What a receiver holds after a message is taken: a clean processor, as before the frame.\<close>

definition idle :: "hybi13 \<Rightarrow> bool" where
  "idle h \<longleftrightarrow> at_frame_start h \<and> hybi_wf h"

lemma idle_init: "idle (hybi13 server max_size)"
  using hybi_wf_init by (simp add: idle_def at_frame_start_def) (simp add: hybi13_def)

lemma at_frame_start_reset: "at_frame_start (reset_headers h)"
  by (simp add: at_frame_start_def)

lemma get_message_wf: "hybi_wf h \<Longrightarrow> ready h \<Longrightarrow> idle (snd (get_message h))"
  using wf_get_message [of h] by (simp add: idle_def at_frame_start_reset get_message_def Let_def)

definition received_msg :: "opcode \<Rightarrow> u8 list \<Rightarrow> message" where
  "received_msg oc p = (message oc)\<lparr>msg_payload := p\<rparr>"

lemma consume_frame:
  assumes st: "at_frame_start h" and role: "m_server h = masked"
    and oc: "oc \<in> {op_text, op_binary, op_close, op_ping, op_pong}"
    and control: "is_control oc \<longrightarrow> length p \<le> 125"
    and data: "\<not> is_control oc \<longrightarrow> msg_ptr (m_data_msg h) = None \<and> of_nat (length p) \<le> m_max_message_size h"
    and len: "length p < 2 ^ 64" and u: "oc = op_text \<Longrightarrow> validate p"
  shows "\<exists>h'. consume_loop h (frame masked key oc p @ s) = (No_error, h', s) \<and> ready h' \<and>
     m_server h' = m_server h \<and> m_max_message_size h' = m_max_message_size h \<and>
     fst (get_message h') = Some (received_msg oc p) \<and>
     (if is_control oc then m_data_msg (snd (get_message h')) = m_data_msg h
      else msg_ptr (m_data_msg (snd (get_message h'))) = None)"
proof -
  define sz where "sz = (of_nat (length p) :: u64)"
  define bh where "bh = basic_header oc sz True masked False False False"
  define h0 where "h0 = h\<lparr>m_basic_header := bh, m_proc_state := HEADER_EXTENDED,
      m_cursor := length (ext_bytes masked sz key), m_bytes_needed := 0, m_extended_header := ext_header masked sz key\<rparr>"
  define k where "k = (if masked then key else 0)"
  define h1 where "h1 = (h0\<lparr>m_proc_state := APPLICATION, m_bytes_needed := sz\<rparr>)
      \<lparr>m_control_msg := if is_control oc then msg_metadata (message oc) k else m_control_msg h,
       m_data_msg := if is_control oc then m_data_msg h else msg_metadata (message oc) k,
       m_current_msg := if is_control oc then Control_msg else Data_msg\<rparr>"
  have op: "get_opcode bh = oc" unfolding bh_def using oc by (intro header_fields) (auto simp: op_defs)
  have v: "validate_incoming_basic_header bh (m_server h) (msg_ptr (m_data_msg h) = None) = No_error"
    unfolding bh_def sz_def role using oc control data by (intro frame_header_valid) auto
  have b: "begin_payload h0 = (No_error, h1)"
    using data op
    by (auto simp: begin_payload_def Let_def h0_def h1_def bh_def ext_header_key ext_header_size k_def sz_def
        deflate_is_enabled_def not_less)
  have cur: "current_msg h1 = msg_metadata (message oc) k" by (simp add: current_msg_def h1_def)
  have wk: "wire masked key p = wire masked k p" by (simp add: wire_def k_def)
  have fields: "m_proc_state h1 = APPLICATION" "get_fin (m_basic_header h1)" "get_masked (m_basic_header h1) = masked"
      "m_bytes_needed h1 = of_nat (length p)" "get_opcode (m_basic_header h1) = oc"
    using op by (simp_all add: h1_def h0_def bh_def sz_def get_flags_basic_header get_masked_basic_header)
  define h2 where "h2 = (if p = [] then h1 else after_payload h1 (wire masked k p))\<lparr>m_proc_state := READY\<rparr>"
  have loop: "consume_loop h1 (wire masked k p @ s) = (No_error, h2, s)"
      and un: "p \<noteq> [] \<Longrightarrow> unmask h1 (wire masked k p) = p"
    using consume_final_payload [OF fields(1-4) len cur fields(5) [symmetric] u, of s] by (auto simp: h2_def)
  have frame: "frame masked key oc p @ s = prepare_header bh (ext_header masked sz key) @ (wire masked k p @ s)"
    by (simp add: frame_def bh_def sz_def wk)
  have all: "consume_loop h (frame masked key oc p @ s) = (No_error, h2, s)"
    unfolding frame consume_header [OF st v bh_def] using b loop by (simp add: h0_def)
  have m2: "msg_ptr (current_msg h2) = Some (received_msg oc p)"
    using un by (cases "p = []")
      (simp_all add: h2_def cur received_msg_def msg_metadata_def message_def)
  have same: "m_server h2 = m_server h" "m_max_message_size h2 = m_max_message_size h" "m_current_msg h2 = m_current_msg h1"
      "is_control oc \<Longrightarrow> m_data_msg h2 = m_data_msg h"
    by (simp_all add: h2_def after_payload_def) (simp_all add: h1_def h0_def set_current_msg_def)
  have r: "ready h2" by (simp add: ready_def h2_def)
  have "fst (get_message h2) = Some (received_msg oc p)"
    by (simp add: get_message_def r m2 Let_def)
  moreover have "is_control (msg_opcode (received_msg oc p)) = is_control oc" by (simp add: received_msg_def message_def)
  then have "if is_control oc then m_data_msg (snd (get_message h2)) = m_data_msg h
      else msg_ptr (m_data_msg (snd (get_message h2))) = None"
    using same by (simp add: get_message_def r m2 Let_def set_current_msg_def h1_def)
  ultimately show ?thesis using all r same by blast
qed

section \<open>The processor as a machine\<close>

datatype proc_event = Consume "u8 list" | Take_message

inductive proc_step :: "hybi13 \<Rightarrow> proc_event \<Rightarrow> hybi13 \<Rightarrow> bool" where
  consume_ok: "consume buf h = (n, No_error, h') \<Longrightarrow> proc_step h (Consume buf) h'"
| take_message: "get_message h = (m, h') \<Longrightarrow> proc_step h Take_message h'"

inductive_cases proc_stepE: "proc_step h e h'"

lemma wf_consume: "hybi_wf h \<Longrightarrow> consume buf h = (n, No_error, h') \<Longrightarrow> hybi_wf h'"
  by (auto simp: consume_def Let_def split: prod.splits intro: wf_consume_loop)

lemma run_consume: "consume buf h = (n, No_error, h') \<Longrightarrow> runs proc_step h [Consume buf] h'"
  by (rule runs_Cons) (rule consume_ok, assumption, rule runs_Nil)

interpretation processor: invariant_machine proc_step "\<lambda>h. \<exists>server max_size. h = hybi13 server max_size" hybi_wf
proof
  fix h e h' assume "proc_step h e h'" "hybi_wf h"
  then show "hybi_wf h'"
    by (cases rule: proc_step.cases) (use wf_consume wf_get_message in force)+
qed (use hybi_wf_init in blast)

lemma loop_rest: "consume_loop h s = (ec, h', r) \<Longrightarrow> length r \<le> length s"
proof (induction h s arbitrary: ec h' r rule: consume_loop.induct)
  case (1 h s)
  show ?case
  proof (cases "consuming h s")
    case True
    obtain e1 h1 r1 where s: "consume_step h s = (e1, h1, r1)" by (metis prod_cases3)
    show ?thesis
    proof (cases "e1 = No_error")
      case ok: True
      then have "consume_loop h1 r1 = (ec, h', r)" using "1.prems" True s by (simp add: consume_loop.simps [of h s])
      then have "length r \<le> length r1" using "1.IH" [OF True s [symmetric] refl refl] ok by simp
      moreover have "length r1 \<le> length s" using consume_step_decreases [OF True] s ok by fastforce
      ultimately show ?thesis by simp
    next
      case bad: False
      then have "r = r1" using "1.prems" True s by (simp add: consume_loop.simps [of h s])
      moreover have "length r1 \<le> length s" using s
        by (auto simp: consume_step_def Let_def case_prod_unfold split: hybi_state.splits if_splits)
      ultimately show ?thesis by simp
    qed
  qed (use "1.prems" in \<open>simp add: consume_loop.simps [of h s]\<close>)
qed

lemma prepare_data_frame_wire:
  assumes "\<not> is_control (msg_opcode i)" "msg_opcode i = op_text \<longrightarrow> validate (msg_payload i)" "msg_fin i"
  shows "\<exists>m. prepare_data_frame (\<not> masked) rng (Some i) (Some out) = (No_error, Some m) \<and>
     msg_header m @ msg_payload m = frame masked rng (msg_opcode i) (msg_payload i)"
  using assms
  by (cases masked) (auto simp: prepare_data_frame_def deflate_is_enabled_def Let_def frame_def wire_def ext_header_def
      masked_copy_def)

lemma consume_append:
  assumes wf: "hybi_wf h" and t: "t \<noteq> []"
  shows "case consume s h of (n, ec, h') \<Rightarrow>
     if ec \<noteq> No_error then fst (snd (consume (s @ t) h)) = ec
     else if ready h' \<or> get_error h' then consume (s @ t) h = (n, No_error, h')
     else (case consume t h' of (k, ec2, h2) \<Rightarrow>
       if ec2 \<noteq> No_error then fst (snd (consume (s @ t) h)) = ec2
       else consume (s @ t) h = (length s + k, No_error, h2))"
proof -
  obtain ec h' r where l: "consume_loop h s = (ec, h', r)" by (metis prod_cases3)
  obtain ec2 h2 r2 where l2: "consume_loop h' t = (ec2, h2, r2)" by (metis prod_cases3)
  note app = consume_loop_append [OF wf t, of s, unfolded l, simplified]
  note lens = loop_rest [OF l] loop_rest [OF l2]
  obtain ec3 h3 r3 where l3: "consume_loop h (s @ t) = (ec3, h3, r3)" by (metis prod_cases3)
  show ?thesis
    using app lens
    by (auto simp: consume_def l l2 l3 stopped_def ready_def get_error_def same_outcome_def)
qed


section \<open>Properties\<close>



text \<open>C8: A buffer may be cut anywhere: consuming the first part and then the second gives what consuming the
  whole gives, the same bytes taken, the same error, and the same processor; a message that ends in the
  first part stops both at the same byte.\<close>

theorem consume_in_parts:
  assumes "runs proc_step (hybi13 server max_size) es h" "t \<noteq> []"
  shows "case consume s h of (n, ec, h') \<Rightarrow>
     if ec \<noteq> No_error then fst (snd (consume (s @ t) h)) = ec
     else if ready h' \<or> get_error h' then consume (s @ t) h = (n, No_error, h')
     else (case consume t h' of (k, ec2, h2) \<Rightarrow>
       if ec2 \<noteq> No_error then fst (snd (consume (s @ t) h)) = ec2
       else consume (s @ t) h = (length s + k, No_error, h2))"
  using processor.reachable_inv [OF _ assms(1)] assms(2) by (intro consume_append) blast+

lemma consume_in_parts_witness:
  "consume ([0x81, 0x85] @ [0x04, 0x03, 0x02, 0x01, 0x6C, 0x66, 0x6E, 0x6D, 0x6B]) (hybi13 True 32000000) =
     (let (k, ec, h) = consume [0x04, 0x03, 0x02, 0x01, 0x6C, 0x66, 0x6E, 0x6D, 0x6B]
        (snd (snd (consume [0x81, 0x85] (hybi13 True 32000000)))) in (2 + k, ec, h))"
proof -
  have r: "runs proc_step (hybi13 True 32000000) [] (hybi13 True 32000000)" by (rule runs_Nil)
  have a: "fst (snd (consume [0x81, 0x85] (hybi13 True 32000000))) = No_error \<and>
      \<not> ready (snd (snd (consume [0x81, 0x85] (hybi13 True 32000000)))) \<and>
      \<not> get_error (snd (snd (consume [0x81, 0x85] (hybi13 True 32000000))))" by code_simp
  have b: "fst (snd (consume [0x04, 0x03, 0x02, 0x01, 0x6C, 0x66, 0x6E, 0x6D, 0x6B]
        (snd (snd (consume [0x81, 0x85] (hybi13 True 32000000)))))) = No_error" by code_simp
  show ?thesis
    using consume_in_parts [OF r, of "[0x04, 0x03, 0x02, 0x01, 0x6C, 0x66, 0x6E, 0x6D, 0x6B]" "[0x81, 0x85]"] a b
    by (auto simp: case_prod_unfold Let_def prod_eq_iff)
qed

text \<open>C32: A message handed out is of a kind the protocol has: text, binary, close, ping or pong, a control
  message of at most 125 bytes.\<close>

theorem message_type:
  assumes "runs proc_step (hybi13 server max_size) es h" "fst (get_message h) = Some m"
  shows "msg_opcode m \<in> {op_text, op_binary, op_close, op_ping, op_pong} \<and>
     (is_control (msg_opcode m) \<longrightarrow> length (msg_payload m) \<le> 125)"
proof -
  have wf: "hybi_wf h" using processor.reachable_inv assms(1) by blast
  have r: "ready h" and m: "m = the (msg_ptr (current_msg h))"
    using assms(2) by (auto simp: get_message_def Let_def split: if_splits)
  have "current_ok h 0" "data_ok h" using wf r by (simp_all add: hybi_wf_def ready_def)
  then show ?thesis
    by (auto simp: m current_msg_def current_ok_def control_ok_def data_ok_def op_defs is_control_def
        split: msg_kind.splits option.splits)
qed

lemma message_type_witness:
  "fst (get_message (snd (snd (consume [0x89, 0x01, 0x41] (hybi13 False 32000000))))) = Some (received_msg 9 [0x41]) \<and>
   msg_opcode (received_msg 9 [0x41]) \<in> {op_text, op_binary, op_close, op_ping, op_pong}"
proof -
  have "consume [0x89, 0x01, 0x41] (hybi13 False 32000000) =
      (3, No_error, snd (snd (consume [0x89, 0x01, 0x41] (hybi13 False 32000000))))"
    by code_simp
  then have "runs proc_step (hybi13 False 32000000) [Consume [0x89, 0x01, 0x41]]
      (snd (snd (consume [0x89, 0x01, 0x41] (hybi13 False 32000000))))"
    by (rule run_consume)
  moreover have m: "fst (get_message (snd (snd (consume [0x89, 0x01, 0x41] (hybi13 False 32000000))))) = Some (received_msg 9 [0x41])"
    by code_simp
  ultimately show ?thesis using message_type by blast
qed

text \<open>C15: A data message prepared by one end is the message the other end takes from the bytes, masked or
  not, at every payload length up to the receiver's limit.\<close>

theorem data_frame_roundtrip:
  assumes "msg_opcode i \<in> {op_text, op_binary}" "msg_opcode i = op_text \<longrightarrow> validate (msg_payload i)" "msg_fin i"
    and "length (msg_payload i) < 2 ^ 64" "of_nat (length (msg_payload i)) \<le> max_size"
  shows "\<exists>m h'. prepare_data_frame (\<not> server) rng (Some i) (Some out) = (No_error, Some m) \<and>
     consume (msg_header m @ msg_payload m) (hybi13 server max_size) =
       (length (msg_header m @ msg_payload m), No_error, h') \<and>
     fst (get_message h') = Some (received_msg (msg_opcode i) (msg_payload i))"
proof -
  have nc: "\<not> is_control (msg_opcode i)" using assms(1) by (auto simp: is_control_def op_defs)
  obtain m where m: "prepare_data_frame (\<not> server) rng (Some i) (Some out) = (No_error, Some m)"
      "msg_header m @ msg_payload m = frame server rng (msg_opcode i) (msg_payload i)"
    using prepare_data_frame_wire [OF nc assms(2,3)] by blast
  have "\<exists>h'. consume_loop (hybi13 server max_size) (frame server rng (msg_opcode i) (msg_payload i) @ []) = (No_error, h', []) \<and>
      fst (get_message h') = Some (received_msg (msg_opcode i) (msg_payload i))"
    using consume_frame [of "hybi13 server max_size" server "msg_opcode i" "msg_payload i" rng "[]"] assms nc idle_init [of server max_size]
    by (auto simp: hybi13_def no_msg_def idle_def op_defs)
  then show ?thesis using m by (auto simp: consume_def)
qed

lemma data_frame_roundtrip_witness:
  "\<exists>m h'. prepare_data_frame False 0x01020304 (Some (received_msg 1 [0x68, 0x69])) (Some (message 0)) = (No_error, Some m) \<and>
     consume (msg_header m @ msg_payload m) (hybi13 True 32000000) =
       (length (msg_header m @ msg_payload m), No_error, h') \<and>
     fst (get_message h') = Some (received_msg 1 [0x68, 0x69])"
proof -
  have "validate [0x68, 0x69]" by code_simp
  then show ?thesis
    using data_frame_roundtrip [of "received_msg 1 [0x68, 0x69]" 32000000 True "0x01020304" "message 0"]
    by (simp add: received_msg_def message_def op_defs)
qed

lemma prepare_control_wire:
  assumes "is_control oc" "length p \<le> 125"
  shows "\<exists>m. prepare_control (\<not> masked) rng oc p (Some out) = (No_error, Some m) \<and>
     msg_header m @ msg_payload m = frame masked rng oc p"
proof -
  have "unat (of_nat (length p) :: u64) = length p" using assms(2) by (simp add: unat_of_nat take_bit_nat_eq_self)
  then show ?thesis using assms
    by (cases masked) (auto simp: prepare_control_def Let_def frame_def wire_def ext_header_def frame_consts word_less_nat_alt)
qed

lemma consume_control_frame:
  assumes "at_frame_start h" "oc \<in> {op_close, op_ping, op_pong}" "length p \<le> 125"
  shows "\<exists>h'. consume (frame (m_server h) rng oc p) h = (length (frame (m_server h) rng oc p), No_error, h') \<and>
     fst (get_message h') = Some (received_msg oc p) \<and> m_data_msg (snd (get_message h')) = m_data_msg h \<and>
     at_frame_start (snd (get_message h')) \<and> m_server (snd (get_message h')) = m_server h"
proof -
  have c: "is_control oc" "oc \<noteq> op_text" using assms(2) by (auto simp: is_control_def op_defs)
  obtain h' where h': "consume_loop h (frame (m_server h) rng oc p @ []) = (No_error, h', [])" "ready h'"
      "fst (get_message h') = Some (received_msg oc p)" "m_data_msg (snd (get_message h')) = m_data_msg h"
      "m_server h' = m_server h"
    using consume_frame [of h "m_server h" oc p rng "[]"] assms c by auto
  have "at_frame_start (snd (get_message h'))" "m_server (snd (get_message h')) = m_server h'"
    using h'(2) by (simp_all add: get_message_def Let_def at_frame_start_reset)
  then show ?thesis using h' by (auto simp: consume_def)
qed

text \<open>A control frame between two fragments of a data message is delivered and leaves the message being
  assembled, its key and its UTF-8 state as they were.\<close>

theorem control_frame_between_fragments:
  assumes "m_proc_state h = HEADER_BASIC" "m_bytes_needed h = 2" "m_extended_header h = no_bytes"
    and "oc \<in> {op_close, op_ping, op_pong}" "length p \<le> 125"
  shows "\<exists>m h'. prepare_control (\<not> m_server h) rng oc p (Some out) = (No_error, Some m) \<and>
     consume (msg_header m @ msg_payload m) h = (length (msg_header m @ msg_payload m), No_error, h') \<and>
     fst (get_message h') = Some (received_msg oc p) \<and> m_data_msg (snd (get_message h')) = m_data_msg h"
proof -
  have "at_frame_start h" using assms(1-3) by (simp add: at_frame_start_def)
  moreover have "is_control oc" using assms(4) by (auto simp: is_control_def op_defs)
  moreover obtain h' where "consume (frame (m_server h) rng oc p) h = (length (frame (m_server h) rng oc p), No_error, h')"
      "fst (get_message h') = Some (received_msg oc p)" "m_data_msg (snd (get_message h')) = m_data_msg h"
    using consume_control_frame [OF calculation(1) assms(4,5), of rng] by blast
  moreover obtain m where "prepare_control (\<not> m_server h) rng oc p (Some out) = (No_error, Some m)"
      "msg_header m @ msg_payload m = frame (m_server h) rng oc p"
    using prepare_control_wire [OF calculation(2) assms(5), of "m_server h" rng out] by blast
  ultimately show ?thesis by (auto simp del: length_append)
qed

lemma control_frame_between_fragments_witness:
  "\<exists>m h'. prepare_control True 0 9 [0x21] (Some (message 0)) = (No_error, Some m) \<and>
     consume (msg_header m @ msg_payload m) (snd (snd (consume [0x01, 0x01, 0x41] (hybi13 False 32000000)))) =
       (length (msg_header m @ msg_payload m), No_error, h') \<and>
     msg_payload (the (msg_ptr (m_data_msg (snd (get_message h'))))) = [0x41]"
proof -
  define h where "h = snd (snd (consume [0x01, 0x01, 0x41] (hybi13 False 32000000)))"
  have "m_proc_state h = HEADER_BASIC" "m_bytes_needed h = 2" "m_extended_header h = no_bytes" "\<not> m_server h"
      "msg_payload (the (msg_ptr (m_data_msg h))) = [0x41]"
    unfolding h_def by code_simp+
  then show ?thesis
    using control_frame_between_fragments [of h 9 "[0x21]" 0 "message 0"] unfolding h_def [symmetric]
    by (auto simp: op_defs)
qed

lemma ntohs_ntohs: "ntohs (ntohs w) = w"
  by (simp add: ntohs_def le_bytes_le_word le_word_le_bytes)

lemma le_bytes_2: "le_bytes 2 (w :: u16) = [le_bytes 2 w ! 0, le_bytes 2 w ! 1]"
  by (simp add: le_bytes_def numeral_2_eq_2)

text \<open>C36: A close frame carries its code and reason: the peer extracts the code and the reason \<open>prepare_close\<close>
  was given, without an error.\<close>

theorem close_frame_roundtrip:
  assumes "\<not> close_reserved cc" "\<not> close_invalid cc" "length reason \<le> close_reason_size" "validate reason"
  shows "\<exists>m h' p. prepare_close (\<not> server) rng cc reason (Some out) = (No_error, Some m) \<and>
     consume (msg_header m @ msg_payload m) (hybi13 server max_size) =
       (length (msg_header m @ msg_payload m), No_error, h') \<and>
     fst (get_message h') = Some (received_msg op_close p) \<and>
     extract_code p = (cc, No_error) \<and> extract_reason p = (reason, No_error)"
proof -
  define p where "p = le_bytes 2 (ntohs cc) @ reason"
  have n: "cc \<noteq> close_no_status" using assms(2) by (auto simp: close_invalid_def)
  have len: "length reason \<le> 123" "length p \<le> 125" using assms(3) by (simp_all add: p_def frame_consts)
  have "unat (of_nat (length reason) :: u64) = length reason" using len(1) by (simp add: unat_of_nat take_bit_nat_eq_self)
  then have prep: "prepare_close (\<not> server) rng cc reason (Some out) = prepare_control (\<not> server) rng op_close p (Some out)"
    using assms(1,2) n len by (simp add: prepare_close_def p_def frame_consts word_less_nat_alt)
  have two: "p ! 0 = le_bytes 2 (ntohs cc) ! 0" "p ! 1 = le_bytes 2 (ntohs cc) ! 1" by (simp_all add: p_def nth_append)
  have "ntohs (le_word [p ! 0, p ! 1]) = cc"
    unfolding two le_bytes_2 [symmetric] by (simp add: le_word_le_bytes ntohs_ntohs)
  moreover have "length p \<noteq> 0" "length p \<noteq> 1" by (simp_all add: p_def)
  ultimately have code: "extract_code p = (cc, No_error)" using assms(1,2) by (simp add: extract_code_def Let_def)
  have reason: "extract_reason p = (reason, No_error)"
    using assms(4) by (auto simp: extract_reason_def p_def Let_def)
  have "at_frame_start (hybi13 server max_size)" "m_server (hybi13 server max_size) = server"
    using idle_init [of server max_size] by (simp_all add: idle_def hybi13_def)
  then obtain h' where "consume (frame server rng op_close p) (hybi13 server max_size) =
        (length (frame server rng op_close p), No_error, h')" "fst (get_message h') = Some (received_msg op_close p)"
    using consume_control_frame [of "hybi13 server max_size" op_close p rng] len(2) by auto
  moreover have "is_control op_close" by (simp add: is_control_def op_defs)
  then obtain m where "prepare_close (\<not> server) rng cc reason (Some out) = (No_error, Some m)"
      "msg_header m @ msg_payload m = frame server rng op_close p"
    using prepare_control_wire [of op_close p server rng out] len(2) prep by auto
  ultimately show ?thesis using code reason by (auto simp del: length_append)
qed

lemma close_frame_roundtrip_witness:
  "\<exists>m h' p. prepare_close False 7 1000 [0x6F, 0x6B] (Some (message 0)) = (No_error, Some m) \<and>
     consume (msg_header m @ msg_payload m) (hybi13 True 32000000) =
       (length (msg_header m @ msg_payload m), No_error, h') \<and>
     fst (get_message h') = Some (received_msg op_close p) \<and>
     extract_code p = (1000, No_error) \<and> extract_reason p = ([0x6F, 0x6B], No_error)"
proof -
  have "\<not> close_reserved 1000" "\<not> close_invalid 1000" "validate [0x6F, 0x6B]" by code_simp+
  then show ?thesis
    using close_frame_roundtrip [of 1000 "[0x6F, 0x6B]" True 7 "message 0" 32000000] by (simp add: frame_consts)
qed

text \<open>A text message in fragments is delivered although it ends inside a code point: the check for a
  complete sequence looks at the opcode of the last frame, which is a continuation. In one frame the
  same payload is refused.\<close>

theorem fragmented_text_unchecked:
  "consume [0x81, 0x01, 0xC3] (hybi13 False 32000000) =
     (3, Processor invalid_utf8, snd (snd (consume [0x81, 0x01, 0xC3] (hybi13 False 32000000)))) \<and>
   fst (get_message (snd (snd (consume [0x01, 0x01, 0xC3, 0x80, 0x00] (hybi13 False 32000000))))) =
     Some (received_msg op_text [0xC3]) \<and>
   \<not> validate [0xC3]"
  by code_simp


end
