(* ===== verification/Ws_Connection_Laws.thy ===== *)
theory Ws_Connection_Laws
  imports Ws_Connection Ws_Hybi13_Stream
begin

text \<open>
  What an open connection does with data: the reading loop takes the same messages from its bytes however
  they are cut (\<open>messages_in\<close>, over \<open>consume\<close>), dispatching a message does not touch the processor, and what
  one end sends the other end's user gets. The abstract channel is \<open>stream\<close>, the bytes written and queued.
\<close>

unbundle bit_operations_syntax

section \<open>The messages in a buffer\<close>

text \<open>What the loop of \<open>handle_read_frame\<close> takes from a buffer, apart from what it does with it: the
  messages, the error that ends it, the processor after it.\<close>

partial_function (option) messages_in :: "u8 list \<Rightarrow> hybi13 \<Rightarrow> (message list \<times> error_code \<times> hybi13) option" where
  "messages_in buf h =
     (if buf = [] then Some ([], No_error, h)
      else
        (let (n, ec, h1) = consume buf h in
         if ec \<noteq> No_error then Some ([], ec, h1)
         else if ready h1 then
           (let (m, h2) = get_message h1 in
            Option.bind (messages_in (drop n buf) h2) (\<lambda>(ms, r). Some (the m # ms, r)))
         else messages_in (drop n buf) h1))"

lemma messages_in_Nil [simp]: "messages_in [] h = Some ([], No_error, h)"
  by (simp add: messages_in.simps)

text \<open>The two ways an iteration goes on.\<close>

lemma messages_in_error:
  "buf \<noteq> [] \<Longrightarrow> consume buf h = (n, ec, h1) \<Longrightarrow> ec \<noteq> No_error \<Longrightarrow> messages_in buf h = Some ([], ec, h1)"
  by (subst messages_in.simps) simp

lemma messages_in_ready:
  "buf \<noteq> [] \<Longrightarrow> consume buf h = (n, No_error, h1) \<Longrightarrow> ready h1 \<Longrightarrow>
   messages_in buf h = Option.bind (messages_in (drop n buf) (snd (get_message h1)))
     (\<lambda>(ms, r). Some (the (fst (get_message h1)) # ms, r))"
  by (subst messages_in.simps) (simp add: case_prod_unfold Let_def)

lemma messages_in_more:
  "buf \<noteq> [] \<Longrightarrow> consume buf h = (n, No_error, h1) \<Longrightarrow> \<not> ready h1 \<Longrightarrow> messages_in buf h = messages_in (drop n buf) h1"
  by (subst messages_in.simps) simp

section \<open>Progress\<close>

lemma wf_not_fatal: "hybi_wf h \<Longrightarrow> \<not> get_error h"
  by (auto simp: hybi_wf_def get_error_def)

lemma loop_exhausts:
  assumes "hybi_wf h" "consume_loop h s = (No_error, h', r)" "\<not> ready h'"
  shows "r = []"
proof -
  have "\<not> consuming h' r" using assms(2)
  proof (induction h s rule: consume_loop.induct)
    case (1 h s)
    show ?case
    proof (cases "consuming h s")
      case True
      obtain e1 h1 r1 where s: "consume_step h s = (e1, h1, r1)" by (metis prod_cases3)
      then have "e1 = No_error" "consume_loop h1 r1 = (No_error, h', r)"
        using "1.prems" True by (auto simp: consume_loop.simps [of h s] split: if_splits)
      then show ?thesis using "1.IH" [OF True s [symmetric] refl refl] by simp
    qed (use "1.prems" in \<open>simp add: consume_loop.simps [of h s]\<close>)
  qed
  moreover have "hybi_wf h'" using wf_consume_loop assms(1,2) by blast
  ultimately show ?thesis using assms(3) wf_not_fatal [of h'] by (auto simp: consuming_def ready_def get_error_def)
qed

lemma basic_header_progress:
  assumes wf: "hybi_wf h" and st: "m_proc_state h = HEADER_BASIC" and s: "s \<noteq> []" and l: "consume_loop h s = (ec, h', r)"
  shows "length r < length s"
proof -
  have needed: "m_bytes_needed h \<noteq> 0" using wf st by (auto simp: hybi_wf_def)
  have c: "consuming h s" using st s by (simp add: consuming_def)
  obtain n h1 where k: "copy_basic_header_bytes s h = (n, h1)" by force
  have n: "0 < n" using copy_basic_header_takes(3) [OF k s needed] .
  obtain e1 h2 r2 where s1: "consume_step h s = (e1, h2, r2)" by (metis prod_cases3)
  have "r2 = drop n s" using s1 st k by (auto simp: consume_step_def Let_def split: if_splits)
  then have r2: "length r2 < length s" using n s by simp
  have "go_on (e1, h2, r2) = (ec, h', r)" using l consume_loop_step [OF c] s1 by simp
  then have "length r \<le> length r2" by (auto simp: go_on_def split: if_splits dest: loop_rest)
  then show ?thesis using r2 by simp
qed

lemma get_message_state: "ready h \<Longrightarrow> m_proc_state (snd (get_message h)) = HEADER_BASIC"
  by (simp add: get_message_def Let_def)

lemma get_message_Some: "ready h \<Longrightarrow> fst (get_message h) = Some (the (fst (get_message h)))"
  by (simp add: get_message_def Let_def)

section \<open>Operations and the processor\<close>

text \<open>No operation reads or replaces the processor; the reading loop alone does.\<close>

abbreviation with_processor :: "hybi13 \<Rightarrow> connection \<Rightarrow> connection" where
  "with_processor h con \<equiv> con\<lparr>m_processor := h\<rparr>"

named_theorems processor_apart \<open>operations commute with the replacement of the processor\<close>

lemma emit_apart [processor_apart]: "emit c (with_processor h con) = with_processor h (emit c con)"
  by (simp add: emit_def)

lemma terminate_apart [processor_apart]: "terminate ec (with_processor h con) = with_processor h (terminate ec con)"
  by (simp add: terminate_def Let_def emit_def)

lemma push_apart [processor_apart]: "push_and_dispatch m (with_processor h con) = with_processor h (push_and_dispatch m con)"
  by (simp add: push_and_dispatch_def write_push_def Let_def emit_def)

lemma drew_apart [processor_apart]: "drew ec (with_processor h con) = with_processor h (drew ec con)"
  by (simp add: drew_def)

lemma push_prepared_apart [processor_apart]:
  "push_prepared r (with_processor h con) = map_prod id (with_processor h) (push_prepared r con)"
  by (simp add: push_prepared_def processor_apart case_prod_unfold Let_def)

lemma ping_timer_apart [processor_apart]:
  "start_ping_timer p (with_processor h con) = with_processor h (start_ping_timer p con)"
  by (simp add: start_ping_timer_def emit_def Let_def)

lemma send_apart [processor_apart]:
  "send_msg m (with_processor h con) = map_prod id (with_processor h) (send_msg m con)"
  "con_send p oc (with_processor h con) = map_prod id (with_processor h) (con_send p oc con)"
  "con_ping p (with_processor h con) = map_prod id (with_processor h) (con_ping p con)"
  "con_pong p (with_processor h con) = map_prod id (with_processor h) (con_pong p con)"
  by (simp_all add: con_send_def send_msg_def con_ping_def con_pong_def processor_apart case_prod_unfold Let_def)

lemma send_close_frame_apart [processor_apart]:
  "send_close_frame cc r ack t (with_processor h con) = map_prod id (with_processor h) (send_close_frame cc r ack t con)"
proof -
  have codes: "close_codes cc r ack (with_processor h con) = close_codes cc r ack con" by (simp add: close_codes_def)
  obtain lcc lr where c: "close_codes cc r ack con = (lcc, lr)" by force
  obtain ec m where p: "prepare_close (m_is_server con) (m_rng con 0) lcc lr (Some new_message) = (ec, m)" by force
  show ?thesis
    by (simp add: send_close_frame_def codes c p Let_def drew_def emit_def push_and_dispatch_def write_push_def)
qed

lemma close_apart [processor_apart]:
  "send_close_ack cc r (with_processor h con) = map_prod id (with_processor h) (send_close_ack cc r con)"
  "con_close cc r (with_processor h con) = map_prod id (with_processor h) (con_close cc r con)"
  by (simp_all add: send_close_ack_def con_close_def processor_apart Let_def)

lemma run_api_apart [processor_apart]: "run_api a (with_processor h con) = with_processor h (run_api a con)"
  by (cases a) (simp_all add: processor_apart)

lemma fold_api_apart [processor_apart]:
  "fold run_api as (with_processor h con) = with_processor h (fold run_api as con)"
  by (induction as arbitrary: con) (simp_all add: processor_apart)

lemma close_update_apart:
  "(with_processor h con)\<lparr>m_remote_close_code := cc\<rparr> = with_processor h (con\<lparr>m_remote_close_code := cc\<rparr>)"
  "(with_processor h con)\<lparr>m_remote_close_reason := r\<rparr> = with_processor h (con\<lparr>m_remote_close_reason := r\<rparr>)"
  "(with_processor h con)\<lparr>m_was_clean := b\<rparr> = with_processor h (con\<lparr>m_was_clean := b\<rparr>)"
  by simp_all

lemma control_apart [processor_apart]:
  "process_control_frame m (with_processor h con) = with_processor h (process_control_frame m con)"
proof -
  obtain cc e1 where c: "extract_code (msg_payload m) = (cc, e1)" by force
  obtain r e2 where r: "extract_reason (msg_payload m) = (r, e2)" by force
  show ?thesis
    unfolding process_control_frame_def Let_def c r prod.case close_update_apart processor_apart
    by (simp add: close_update_apart processor_apart del: connection.update_defs)
qed

lemma dispatch_apart [processor_apart]:
  "dispatch_message m (with_processor h con) = with_processor h (dispatch_message m con)"
  by (simp add: dispatch_message_def processor_apart)

lemma fold_dispatch_apart:
  "fold dispatch_message ms (with_processor h con) = with_processor h (fold dispatch_message ms con)"
  by (induction ms arbitrary: con) (simp_all add: processor_apart)

text \<open>Induction along the reading of a buffer: an error, a message and the rest of the buffer, or a buffer
  that is used up.\<close>

lemma reading_induct [consumes 1, case_names Nil Error Message More]:
  assumes wf: "hybi_wf h"
    and Nil: "\<And>h. hybi_wf h \<Longrightarrow> P [] h"
    and Error: "\<And>buf h n ec h1. hybi_wf h \<Longrightarrow> buf \<noteq> [] \<Longrightarrow> consume buf h = (n, ec, h1) \<Longrightarrow> ec \<noteq> No_error \<Longrightarrow> P buf h"
    and Message: "\<And>buf h n h1. hybi_wf h \<Longrightarrow> buf \<noteq> [] \<Longrightarrow> consume buf h = (n, No_error, h1) \<Longrightarrow> n \<le> length buf \<Longrightarrow>
      hybi_wf h1 \<Longrightarrow> ready h1 \<Longrightarrow> hybi_wf (snd (get_message h1)) \<Longrightarrow> P (drop n buf) (snd (get_message h1)) \<Longrightarrow> P buf h"
    and More: "\<And>buf h h1. hybi_wf h \<Longrightarrow> buf \<noteq> [] \<Longrightarrow> consume buf h = (length buf, No_error, h1) \<Longrightarrow>
      hybi_wf h1 \<Longrightarrow> \<not> ready h1 \<Longrightarrow> P buf h"
  shows "P buf h"
  using wf
proof (induction "2 * length buf + (if m_proc_state h = HEADER_BASIC then 0 else 1)" arbitrary: buf h rule: less_induct)
  case less
  show ?case
  proof (cases "buf = []")
    case False
    obtain ec h1 r where l: "consume_loop h buf = (ec, h1, r)" by (metis prod_cases3)
    define n where "n = length buf - length r"
    have c: "consume buf h = (n, ec, h1)" by (simp add: consume_def l n_def)
    have r: "length r \<le> length buf" "length (drop n buf) = length r" "n \<le> length buf"
      using loop_rest [OF l] by (simp_all add: n_def)
    show ?thesis
    proof (cases "ec = No_error")
      case ok: True
      have wf1: "hybi_wf h1" using wf_consume_loop less.prems l ok by blast
      show ?thesis
      proof (cases "ready h1")
        case True
        define h2 where "h2 = snd (get_message h1)"
        have h2: "hybi_wf h2" "m_proc_state h2 = HEADER_BASIC"
          using wf_get_message [OF wf1] get_message_state [OF True] by (simp_all add: h2_def)
        have "2 * length (drop n buf) + 0 < 2 * length buf + (if m_proc_state h = HEADER_BASIC then 0 else 1)"
          using r basic_header_progress [OF less.prems _ False l] by auto
        then have "P (drop n buf) h2" using less.hyps [of "drop n buf" h2] h2 by simp
        then show ?thesis using Message [OF less.prems False _ r(3) wf1 True] c ok h2(1) by (simp add: h2_def)
      next
        case nr: False
        have "r = []" using loop_exhausts less.prems l ok nr by blast
        then show ?thesis using More [OF less.prems False _ wf1 nr] c ok by (simp add: n_def)
      qed
    qed (use Error less.prems False c in blast)
  qed (use Nil less.prems in simp)
qed

lemma messages_in_returns:
  "hybi_wf h \<Longrightarrow> \<exists>ms ec h'. messages_in buf h = Some (ms, ec, h') \<and> (ec = No_error \<longrightarrow> hybi_wf h')"
proof (induction buf h rule: reading_induct)
  case (Error buf h n ec h1)
  then show ?case by (simp add: messages_in_error)
next
  case (Message buf h n h1)
  then show ?case by (auto simp: messages_in_ready)
next
  case (More buf h h1)
  then show ?case by (simp add: messages_in_more)
qed simp

text \<open>The loop of \<open>handle_read_frame\<close> is the dispatch of the messages in the buffer, one after another.\<close>

definition after_read :: "error_code \<Rightarrow> connection \<Rightarrow> connection" where
  "after_read ec con = (if ec \<noteq> No_error then consume_failed ec con else read_frame con)"

lemma read_loop_Nil: "read_loop [] con = Some (read_frame con)"
  by (subst read_loop.simps) simp

lemma fold_dispatch_processor: "m_processor (fold dispatch_message ms con) = m_processor con"
  using arg_cong [OF fold_dispatch_apart [of ms "m_processor con" con], of m_processor] by simp

lemma read_loop_messages:
  "hybi_wf h \<Longrightarrow> m_processor con = h \<Longrightarrow>
   read_loop buf con = (case messages_in buf h of
      None \<Rightarrow> None
    | Some (ms, ec, h') \<Rightarrow> Some (after_read ec (with_processor h' (fold dispatch_message ms con))))"
proof (induction buf h arbitrary: con rule: reading_induct)
  case (Nil h)
  have "with_processor h con = con" using Nil by simp
  then show ?case by (simp add: read_loop_Nil after_read_def)
next
  case (Error buf h n ec h1)
  then show ?case
    by (subst read_loop.simps) (simp add: messages_in_error after_read_def)
next
  case (Message buf h n h1)
  define h2 where "h2 = snd (get_message h1)"
  define m where "m = the (fst (get_message h1))"
  have m: "get_message h1 = (Some m, h2)"
    using get_message_Some [OF Message.hyps(6)] by (simp add: m_def h2_def prod_eq_iff)
  have "read_loop buf con = read_loop (drop n buf) (dispatch_message m (with_processor h2 con))"
    using Message by (subst read_loop.simps) (simp add: m)
  also have "\<dots> = read_loop (drop n buf) (with_processor h2 (dispatch_message m con))" by (simp add: processor_apart)
  also have "\<dots> = (case messages_in (drop n buf) h2 of None \<Rightarrow> None
      | Some (ms, ec, h') \<Rightarrow> Some (after_read ec (with_processor h' (fold dispatch_message ms (with_processor h2 (dispatch_message m con))))))"
    by (rule Message.IH [folded h2_def]) simp
  finally show ?case
    using messages_in_ready [OF Message.hyps(2,3,6)] by (auto simp: m fold_dispatch_apart split: option.splits)
next
  case (More buf h h1)
  then show ?case
    by (subst read_loop.simps) (simp add: messages_in_more read_loop_Nil after_read_def)
qed

section \<open>A buffer in parts\<close>

lemma messages_in_append:
  assumes "hybi_wf h" "messages_in s h = Some (ms1, No_error, h1)" "messages_in t h1 = Some (ms2, No_error, h2)"
  shows "messages_in (s @ t) h = Some (ms1 @ ms2, No_error, h2)"
proof (cases "t = []")
  case False
  show ?thesis using assms(1,2)
  proof (induction s h arbitrary: ms1 rule: reading_induct)
    case (Nil h)
    then show ?case using assms(3) by simp
  next
    case (Error buf h n ec h3)
    then show ?case by (simp add: messages_in_error)
  next
    case (Message buf h n h3)
    obtain ms where ms: "messages_in (drop n buf) (snd (get_message h3)) = Some (ms, No_error, h1)"
        "ms1 = the (fst (get_message h3)) # ms"
      using Message.prems messages_in_ready [OF Message.hyps(2,3,6)] by (auto simp: bind_eq_Some_conv)
    have "consume (buf @ t) h = (n, No_error, h3)"
      using consume_append [OF Message.hyps(1) False, of buf] Message.hyps(3,6) by simp
    then show ?case
      using Message.IH [OF ms(1)] Message.hyps(2,4,6) by (simp add: messages_in_ready ms(2))
  next
    case (More buf h h3)
    have s: "ms1 = []" "h3 = h1" using More.prems messages_in_more [OF More.hyps(2,3,5)] by simp_all
    obtain k ec h4 where c: "consume t h1 = (k, ec, h4)" by (metis prod_cases3)
    have ok: "ec = No_error" using assms(3) messages_in_error [OF False c] by auto
    have "consume (buf @ t) h = (length buf + k, No_error, h4)"
      using consume_append [OF More.hyps(1) False, of buf] More.hyps(3,4,5) s(2) c ok wf_not_fatal [of h3] by simp
    then show ?case
      using assms(3) False More.hyps(2) c ok s
      by (cases "ready h4") (simp_all add: messages_in_ready messages_in_more)
  qed
qed (use assms in simp)

lemma messages_in_part:
  assumes "hybi_wf h" "messages_in (s @ t) h = Some (ms, No_error, h2)"
  shows "\<exists>ms1 h1 ms2. messages_in s h = Some (ms1, No_error, h1) \<and> hybi_wf h1 \<and>
    messages_in t h1 = Some (ms2, No_error, h2) \<and> ms = ms1 @ ms2"
proof (cases "t = []")
  case True
  then show ?thesis using assms messages_in_returns [OF assms(1), of s] by auto
next
  case False
  show ?thesis using assms(1,2)
  proof (induction s h arbitrary: ms rule: reading_induct)
    case (Nil h)
    then show ?case by simp
  next
    case (Error buf h n ec h3)
    obtain k ec2 h4 where c: "consume (buf @ t) h = (k, ec2, h4)" by (metis prod_cases3)
    have "ec2 = ec" using consume_append [OF Error.hyps(1) False, of buf] Error.hyps(3,4) c by simp
    then show ?case using Error.prems messages_in_error [OF _ c] False Error.hyps(4) by auto
  next
    case (Message buf h n h3)
    have c: "consume (buf @ t) h = (n, No_error, h3)"
      using consume_append [OF Message.hyps(1) False, of buf] Message.hyps(3,6) by simp
    have ne: "buf @ t \<noteq> []" using False by simp
    obtain ms' where ms': "messages_in (drop n buf @ t) (snd (get_message h3)) = Some (ms', No_error, h2)"
        "ms = the (fst (get_message h3)) # ms'"
      using Message.prems messages_in_ready [OF ne c Message.hyps(6)] Message.hyps(4) by (auto simp: bind_eq_Some_conv)
    then show ?case using Message.IH [OF ms'(1)] messages_in_ready [OF Message.hyps(2,3,6)] by auto
  next
    case (More buf h h3)
    obtain k ec h4 where c: "consume t h3 = (k, ec, h4)" by (metis prod_cases3)
    have nf: "\<not> get_error h3" using More.hyps(4) by (rule wf_not_fatal)
    obtain k2 ec2 h5 where c2: "consume (buf @ t) h = (k2, ec2, h5)" by (metis prod_cases3)
    have ne: "buf @ t \<noteq> []" using False by simp
    have "ec2 = No_error" using More.prems messages_in_error [OF ne c2] by auto
    then have ok: "ec = No_error" "k2 = length buf + k" "h5 = h4"
      using consume_append [OF More.hyps(1) False, of buf] More.hyps(3,5) nf c c2 by (auto split: if_splits)
    have "messages_in (buf @ t) h = messages_in t h3"
      using c2 c ok \<open>ec2 = No_error\<close> False ne
      by (cases "ready h4") (simp_all add: messages_in_ready messages_in_more)
    then show ?case using More.prems messages_in_more [OF More.hyps(2,3,5)] More.hyps(4) by simp
  qed
qed

section \<open>Frames\<close>

text \<open>A processor between two messages.\<close>

definition between_messages :: "bool \<Rightarrow> u64 \<Rightarrow> hybi13 \<Rightarrow> bool" where
  "between_messages server max_size h \<longleftrightarrow>
     idle h \<and> msg_ptr (m_data_msg h) = None \<and> m_server h = server \<and> m_max_message_size h = max_size"

lemma between_messages_init: "between_messages server max_size (hybi13 server max_size)"
  using idle_init [of server max_size] by (simp add: between_messages_def) (simp add: hybi13_def no_msg_def)

text \<open>Data a peer may send.\<close>

definition sendable :: "u64 \<Rightarrow> opcode \<times> u8 list \<Rightarrow> bool" where
  "sendable max_size = (\<lambda>(oc, p). oc \<in> {op_text, op_binary} \<and> (oc = op_text \<longrightarrow> validate p) \<and>
     length p < 2 ^ 64 \<and> of_nat (length p) \<le> max_size)"

lemma frame_not_Nil: "frame masked key oc p \<noteq> []"
  by (simp add: frame_def prepare_header_def)

lemma messages_in_frame:
  assumes h: "between_messages server max_size h" and p: "sendable max_size (oc, p)"
  shows "\<exists>h'. between_messages server max_size h' \<and>
    messages_in (frame server key oc p @ s) h =
      Option.bind (messages_in s h') (\<lambda>(ms, r). Some (received_msg oc p # ms, r))"
proof -
  have oc: "oc \<in> {op_text, op_binary}" using p by (simp add: sendable_def)
  then have nc: "\<not> is_control oc" by (auto simp: is_control_def op_defs)
  obtain h1 where h1: "consume_loop h (frame server key oc p @ s) = (No_error, h1, s)" "ready h1"
      "m_server h1 = m_server h" "m_max_message_size h1 = m_max_message_size h"
      "fst (get_message h1) = Some (received_msg oc p)" "msg_ptr (m_data_msg (snd (get_message h1))) = None"
    using consume_frame [of h server oc p key s] h p nc oc
    by (auto simp: between_messages_def idle_def sendable_def)
  have c: "consume (frame server key oc p @ s) h = (length (frame server key oc p), No_error, h1)"
    by (simp add: consume_def h1(1))
  have "hybi_wf h1" using wf_consume c h by (auto simp: between_messages_def idle_def)
  then have "idle (snd (get_message h1))" using get_message_wf h1(2) by blast
  then have "between_messages server max_size (snd (get_message h1))"
    using h h1(2,3,4,6)
    by (simp add: between_messages_def) (simp add: get_message_def Let_def)
  moreover have "messages_in (frame server key oc p @ s) h =
      Option.bind (messages_in s (snd (get_message h1))) (\<lambda>(ms, r). Some (received_msg oc p # ms, r))"
    using messages_in_ready [OF _ c h1(2)] frame_not_Nil [of server key oc p] h1(5) by simp
  ultimately show ?thesis by blast
qed

section \<open>What was written, what was delivered\<close>

fun written :: "con_call \<Rightarrow> u8 list" where
  "written (Async_write b) = b"
| "written _ = []"

definition sent_bytes :: "connection \<Rightarrow> u8 list" where
  "sent_bytes con = concat (map written (calls con))"

definition frame_bytes :: "message \<Rightarrow> u8 list" where
  "frame_bytes m = msg_header m @ msg_payload m"

text \<open>The bytes of a connection, written and still queued, in order: the abstract channel.\<close>

definition stream :: "connection \<Rightarrow> u8 list" where
  "stream con = sent_bytes con @ concat (map frame_bytes (m_send_queue con))"

fun delivered_by :: "con_call \<Rightarrow> message list" where
  "delivered_by (Message_handler m) = [m]"
| "delivered_by _ = []"

definition delivered :: "connection \<Rightarrow> message list" where
  "delivered con = concat (map delivered_by (calls con))"

lemma push_stream: "stream (push_and_dispatch m con) = stream con @ frame_bytes m"
  by (simp add: stream_def push_and_dispatch_def write_push_def sent_bytes_def emit_def Let_def)

lemma push_delivered: "delivered (push_and_dispatch m con) = delivered con"
  by (simp add: delivered_def push_and_dispatch_def write_push_def emit_def Let_def)

lemma push_fields [simp]:
  "session (push_and_dispatch m con) = session con" "m_write_flag (push_and_dispatch m con) = m_write_flag con"
  "m_current_msgs (push_and_dispatch m con) = m_current_msgs con" "m_is_server (push_and_dispatch m con) = m_is_server con"
  "m_rng (push_and_dispatch m con) = m_rng con" "m_send_queue (push_and_dispatch m con) = m_send_queue con @ [m]"
  "m_internal_state (push_and_dispatch m con) = m_internal_state con"
  "m_message_handler (push_and_dispatch m con) = m_message_handler con"
  by (simp_all add: push_and_dispatch_def write_push_def emit_def Let_def)

lemma drew_fields [simp]:
  "session (drew ec con) = session con" "m_write_flag (drew ec con) = m_write_flag con"
  "m_current_msgs (drew ec con) = m_current_msgs con" "m_is_server (drew ec con) = m_is_server con"
  "m_send_queue (drew ec con) = m_send_queue con" "calls (drew ec con) = calls con"
  "m_internal_state (drew ec con) = m_internal_state con"
  "m_message_handler (drew ec con) = m_message_handler con"
  by (simp_all add: drew_def)

lemma drew_stream [simp]: "stream (drew ec con) = stream con" "delivered (drew ec con) = delivered con"
  by (simp_all add: stream_def sent_bytes_def delivered_def)

section \<open>Sending\<close>

lemma con_send_ok:
  assumes "session con = session_open" "oc \<in> {op_text, op_binary}" "oc = op_text \<longrightarrow> validate p"
  shows "\<exists>m. con_send p oc con = (No_error, push_and_dispatch m (drew No_error con)) \<and>
    frame_bytes m = frame (\<not> m_is_server con) (m_rng con 0) oc p \<and> \<not> msg_terminal m"
proof -
  define i where "i = (message oc)\<lparr>msg_payload := p, msg_compressed := True\<rparr>"
  have nc: "\<not> is_control oc" using assms(2) by (auto simp: is_control_def op_defs)
  have i: "msg_opcode i = oc" "msg_payload i = p" "msg_fin i" "\<not> msg_prepared i" by (simp_all add: i_def message_def)
  obtain m where m: "prepare_data_frame (\<not> \<not> m_is_server con) (m_rng con 0) (Some i) (Some new_message) = (No_error, Some m)"
      "msg_header m @ msg_payload m = frame (\<not> m_is_server con) (m_rng con 0) oc p"
    using prepare_data_frame_wire [of i "\<not> m_is_server con" "m_rng con 0" new_message] i nc assms(3) by auto
  have "\<not> msg_terminal m"
    using m(1) i nc assms(3)
    by (auto simp: prepare_data_frame_def deflate_is_enabled_def Let_def new_message_def message_def split: if_splits)
  then show ?thesis
    using m i(4) assms(1)
    by (auto simp: con_send_def i_def [symmetric] send_msg_def push_prepared_def frame_bytes_def)
qed

text \<open>A writer that is idle, with nothing terminal queued.\<close>

definition writable_con :: "connection \<Rightarrow> bool" where
  "writable_con con \<longleftrightarrow> \<not> m_write_flag con \<and> m_current_msgs con = [] \<and> (\<forall>m \<in> set (m_send_queue con). \<not> msg_terminal m)"

definition send_all :: "(opcode \<times> u8 list) list \<Rightarrow> connection \<Rightarrow> connection" where
  "send_all items con = fold (\<lambda>(oc, p) c. snd (con_send p oc c)) items con"

lemma send_all_Cons: "send_all ((oc, p) # items) con = send_all items (snd (con_send p oc con))"
  by (simp add: send_all_def)

lemma send_all_stream:
  assumes "session con = session_open" "list_all (sendable max_size) items" "writable_con con"
  shows "\<exists>keys. length keys = length items \<and> writable_con (send_all items con) \<and>
     stream (send_all items con) =
       stream con @ concat (map2 (\<lambda>k (oc, p). frame (\<not> m_is_server con) k oc p) keys items)"
  using assms
proof (induction items arbitrary: con)
  case Nil
  then show ?case by (simp add: send_all_def)
next
  case (Cons item items)
  obtain oc p where item: "item = (oc, p)" by force
  obtain m where m: "con_send p oc con = (No_error, push_and_dispatch m (drew No_error con))"
      "frame_bytes m = frame (\<not> m_is_server con) (m_rng con 0) oc p" "\<not> msg_terminal m"
    using con_send_ok [of con oc p] Cons.prems by (auto simp: item sendable_def)
  define c where "c = push_and_dispatch m (drew No_error con)"
  have c: "session c = session_open" "writable_con c" "m_is_server c = m_is_server con"
      "stream c = stream con @ frame (\<not> m_is_server con) (m_rng con 0) oc p"
    using Cons.prems m(2,3) by (auto simp: c_def writable_con_def push_stream)
  obtain keys where k: "length keys = length items" "writable_con (send_all items c)"
      "stream (send_all items c) = stream c @ concat (map2 (\<lambda>k (oc, p). frame (\<not> m_is_server c) k oc p) keys items)"
    using Cons.IH [OF c(1) _ c(2)] Cons.prems(2) by auto
  have s: "send_all (item # items) con = send_all items c" by (simp add: item send_all_Cons m(1) c_def)
  show ?case
    unfolding s using k c by (intro exI [of _ "m_rng con 0 # keys"]) (simp add: item)
qed

lemma pop_all_fields:
  assumes "\<forall>m \<in> set (m_send_queue con). \<not> msg_terminal m"
  shows "m_current_msgs (pop_all con) = m_current_msgs con @ m_send_queue con \<and> m_send_queue (pop_all con) = [] \<and>
    calls (pop_all con) = calls con"
  using assms
proof (induction con rule: pop_all.induct)
  case (1 con)
  show ?case
  proof (cases "m_send_queue con")
    case Nil
    then show ?thesis by (subst (1 2 3) pop_all.simps) (simp add: write_pop_def)
  next
    case (Cons m q)
    then show ?thesis using 1 by (subst (1 2 3) pop_all.simps) (simp add: write_pop_def)
  qed
qed

lemma write_frame_stream:
  assumes "writable_con con"
  shows "sent_bytes (write_frame con) = stream con \<and> m_send_queue (write_frame con) = []"
proof -
  have q: "m_current_msgs (pop_all con) = m_send_queue con" "m_send_queue (pop_all con) = []" "calls (pop_all con) = calls con"
    using pop_all_fields [of con] assms by (auto simp: writable_con_def)
  show ?thesis
    using assms q
    by (auto simp: write_frame_def writable_con_def Let_def stream_def sent_bytes_def emit_def frame_bytes_def [abs_def])
qed

section \<open>Receiving\<close>

text \<open>A handler that does not close the connection.\<close>

definition keeps_open :: "(message \<Rightarrow> con_api list) \<Rightarrow> bool" where
  "keeps_open handler \<longleftrightarrow> (\<forall>m cc r. Api_close cc r \<notin> set (handler m))"

text \<open>A connection that receives: open, past its opening handshake.\<close>

definition receiving :: "connection \<Rightarrow> bool" where
  "receiving con \<longleftrightarrow> session con = session_open \<and> m_internal_state con = PROCESS_CONNECTION \<and> keeps_open (m_message_handler con)"

lemma push_prepared_keeps:
  "session (snd (push_prepared r con)) = session con" "m_internal_state (snd (push_prepared r con)) = m_internal_state con"
  "m_message_handler (snd (push_prepared r con)) = m_message_handler con" "delivered (snd (push_prepared r con)) = delivered con"
  by (simp_all add: push_prepared_def push_delivered case_prod_unfold Let_def)

lemma ping_timer_keeps:
  "session (start_ping_timer p con) = session con" "m_internal_state (start_ping_timer p con) = m_internal_state con"
  "m_message_handler (start_ping_timer p con) = m_message_handler con" "delivered (start_ping_timer p con) = delivered con"
  by (simp_all add: start_ping_timer_def Let_def emit_def delivered_def)

lemma run_api_keeps:
  assumes "\<forall>cc r. a \<noteq> Api_close cc r"
  shows "session (run_api a con) = session con \<and> m_internal_state (run_api a con) = m_internal_state con \<and>
    m_message_handler (run_api a con) = m_message_handler con \<and> delivered (run_api a con) = delivered con"
  using assms
  by (cases a) (auto simp: con_send_def send_msg_def con_ping_def con_pong_def push_prepared_keeps push_delivered
      ping_timer_keeps case_prod_unfold Let_def)

lemma fold_api_keeps:
  assumes "\<forall>cc r. Api_close cc r \<notin> set as"
  shows "session (fold run_api as con) = session con \<and> m_internal_state (fold run_api as con) = m_internal_state con \<and>
    m_message_handler (fold run_api as con) = m_message_handler con \<and> delivered (fold run_api as con) = delivered con"
  using assms
proof (induction as arbitrary: con)
  case (Cons a as)
  then show ?case using run_api_keeps [of a con] by auto
qed simp

lemma dispatch_data:
  assumes "receiving con" "\<not> is_control (msg_opcode m)"
  shows "receiving (dispatch_message m con) \<and> delivered (dispatch_message m con) = delivered con @ [m]"
proof -
  have e: "receiving (emit (Message_handler m) con)" "delivered (emit (Message_handler m) con) = delivered con @ [m]"
    using assms(1) by (simp_all add: receiving_def emit_def delivered_def)
  show ?thesis
    using assms fold_api_keeps [of "m_message_handler con m" "emit (Message_handler m) con"] e
    by (auto simp: dispatch_message_def receiving_def keeps_open_def)
qed

lemma fold_dispatch_data:
  "receiving con \<Longrightarrow> \<forall>m \<in> set ms. \<not> is_control (msg_opcode m) \<Longrightarrow>
   receiving (fold dispatch_message ms con) \<and> delivered (fold dispatch_message ms con) = delivered con @ ms"
proof (induction ms arbitrary: con)
  case (Cons m ms)
  then show ?case using dispatch_data [of con m] by simp
qed simp

text \<open>Reads complete one after another, each with a chunk.\<close>

fun read_chunks :: "u8 list list \<Rightarrow> connection \<Rightarrow> connection option" where
  "read_chunks [] con = Some con"
| "read_chunks (c # cs) con = Option.bind (handle_read_frame No_error c con) (read_chunks cs)"

lemma read_frame_keeps: "receiving (read_frame con) = receiving con" "delivered (read_frame con) = delivered con"
    "m_processor (read_frame con) = m_processor con"
  by (simp_all add: read_frame_def emit_def receiving_def delivered_def)

lemma read_chunks_messages:
  assumes "hybi_wf (m_processor con)" "receiving con" "messages_in (concat cs) (m_processor con) = Some (ms, No_error, h')"
    and "\<forall>m \<in> set ms. \<not> is_control (msg_opcode m)"
  shows "\<exists>r. read_chunks cs con = Some r \<and> receiving r \<and> delivered r = delivered con @ ms"
  using assms
proof (induction cs arbitrary: con ms)
  case (Cons c cs)
  obtain ms1 h1 ms2 where p: "messages_in c (m_processor con) = Some (ms1, No_error, h1)" "hybi_wf h1"
      "messages_in (concat cs) h1 = Some (ms2, No_error, h')" "ms = ms1 @ ms2"
    using messages_in_part [of "m_processor con" c "concat cs"] Cons.prems by auto
  define con1 where "con1 = read_frame (with_processor h1 (fold dispatch_message ms1 con))"
  have "read_loop c con = Some con1"
    using read_loop_messages [OF Cons.prems(1) refl, of c] by (simp add: p(1) after_read_def con1_def)
  then have step: "handle_read_frame No_error c con = Some con1"
    using Cons.prems(2) by (simp add: handle_read_frame_def receiving_def)
  have d: "receiving (fold dispatch_message ms1 con)" "delivered (fold dispatch_message ms1 con) = delivered con @ ms1"
    using fold_dispatch_data [of con ms1] Cons.prems(2,4) p(4) by auto
  have con1: "receiving con1" "delivered con1 = delivered con @ ms1" "m_processor con1 = h1"
    using d by (simp_all add: con1_def read_frame_keeps) (simp_all add: receiving_def delivered_def)
  then obtain r where "read_chunks cs con1 = Some r" "receiving r" "delivered r = delivered con1 @ ms2"
    using Cons.IH [of con1 ms2] p Cons.prems(4) by auto
  then show ?case by (auto simp: step con1 p(4))
qed simp

lemma messages_in_frames:
  assumes "length keys = length items" "list_all (sendable max_size) items" "between_messages server max_size h"
  shows "\<exists>h'. messages_in (concat (map2 (\<lambda>k (oc, p). frame server k oc p) keys items)) h =
    Some (map (\<lambda>(oc, p). received_msg oc p) items, No_error, h')"
  using assms
proof (induction keys items arbitrary: h rule: list_induct2)
  case (Cons k ks item items)
  obtain oc p where item: "item = (oc, p)" by force
  define s where "s = concat (map2 (\<lambda>k (oc, p). frame server k oc p) ks items)"
  obtain h1 where h1: "between_messages server max_size h1" 
      "messages_in (frame server k oc p @ s) h = Option.bind (messages_in s h1) (\<lambda>(ms, r). Some (received_msg oc p # ms, r))"
    using messages_in_frame [of server max_size h oc p k s] Cons.prems item by auto
  obtain h' where "messages_in s h1 = Some (map (\<lambda>(oc, p). received_msg oc p) items, No_error, h')"
    using Cons.IH [OF _ h1(1)] Cons.prems by (auto simp: s_def)
  then show ?case using h1(2) by (simp add: item s_def)
qed simp

section \<open>Properties\<close>

text \<open>C1: What one end sends, the other end's user gets: the texts and binaries sent on an open connection
  are written as one stream of frames, and from the bytes of that stream, in whatever chunks they arrive,
  the peer's message handler is called with the same messages in the same order, whatever the handlers
  send back.\<close>

theorem end_to_end:
  assumes "list_all (sendable max_size) items" "concat chunks = sent_bytes (write_frame (send_all items (established server max1 rng handler1)))"
    and "keeps_open handler2"
  shows "\<exists>r. read_chunks chunks (established (\<not> server) max_size rng2 handler2) = Some r \<and>
     delivered r = map (\<lambda>(oc, p). received_msg oc p) items \<and> session r = session_open"
proof -
  define con where "con = established server max1 rng handler1"
  define peer where "peer = established (\<not> server) max_size rng2 handler2"
  have con: "session con = session_open" "writable_con con" "stream con = []" "m_is_server con = server"
    by (simp_all add: con_def established_def writable_con_def stream_def sent_bytes_def)
  obtain keys where keys: "length keys = length items" "writable_con (send_all items con)"
      "stream (send_all items con) = concat (map2 (\<lambda>k (oc, p). frame (\<not> server) k oc p) keys items)"
    using send_all_stream [OF con(1) assms(1) con(2)] con by auto
  have bytes: "concat chunks = concat (map2 (\<lambda>k (oc, p). frame (\<not> server) k oc p) keys items)"
    using assms(2) write_frame_stream [OF keys(2)] keys(3) by (simp add: con_def)
  have peer: "receiving peer" "delivered peer = []" "m_processor peer = hybi13 (\<not> server) max_size"
    using assms(3) by (simp_all add: peer_def established_def receiving_def delivered_def)
  obtain h' where m: "messages_in (concat chunks) (m_processor peer) = Some (map (\<lambda>(oc, p). received_msg oc p) items, No_error, h')"
    using messages_in_frames [OF keys(1) assms(1) between_messages_init] by (auto simp: bytes peer(3))
  have nc: "\<forall>m \<in> set (map (\<lambda>(oc, p). received_msg oc p) items). \<not> is_control (msg_opcode m)"
    using assms(1) by (auto simp: list_all_iff sendable_def received_msg_def is_control_def op_defs)
  have "hybi_wf (m_processor peer)" using hybi_wf_init by (simp add: peer(3))
  then show ?thesis
    using read_chunks_messages [OF _ peer(1) m nc] peer(2) by (auto simp: peer_def receiving_def)
qed

lemma end_to_end_witness:
  "\<exists>r. read_chunks [[0x81, 0x82, 0x04, 0x03, 0x02], [0x01, 0x6C, 0x6A]] (established True 32000000 (\<lambda>_. 0) (\<lambda>_. [])) = Some r \<and>
     delivered r = [received_msg 1 [0x68, 0x69]] \<and> session r = session_open"
proof -
  have "validate [0x68, 0x69]" by code_simp
  then have ok: "list_all (sendable 32000000) [(1, [0x68, 0x69])]" by (simp add: sendable_def op_defs)
  have bytes: "concat [[0x81, 0x82, 0x04, 0x03, 0x02], [0x01, 0x6C, 0x6A]] =
      sent_bytes (write_frame (send_all [(1, [0x68, 0x69])] (established False 32000000 (\<lambda>_. 0x01020304) (\<lambda>_. []))))"
    by code_simp
  have open_: "keeps_open (\<lambda>_. [])" by (simp add: keeps_open_def)
  from end_to_end [OF ok bytes open_, of "\<lambda>_. 0"] show ?thesis by (simp only: list.map prod.case not_False_eq_True)
qed



end
