(* ===== verification/Ws_Connection_Machine.thy ===== *)
theory Ws_Connection_Machine
  imports Ws_Connection_Laws
begin

text \<open>
  A connection, its transport and its user in any order: the requests that are pending, one step for every
  call and every completion. The invariant is that one write is in flight at a time and owns the messages
  being written, that a queued message has a writer coming, and that a connection shuts down once. What every
  operation does is proved once, in the locale \<open>connection_relation\<close>, and read off for the invariant, for the
  abstract channel and for the session.
\<close>

unbundle bit_operations_syntax

section \<open>The connection and its transport as a machine\<close>

fun is_async :: "con_call \<Rightarrow> bool" where
  "is_async Dispatch_write_frame = True"
| "is_async (Async_write b) = True"
| "is_async Async_read_at_least = True"
| "is_async (Async_shutdown t) = True"
| "is_async (Set_close_timer d) = True"
| "is_async (Set_ping_timer d p) = True"
| "is_async _ = False"

datatype con_event = User_calls con_api | Writer_runs | Write_completes error_code | Read_completes error_code "u8 list"
  | Shutdown_completes error_code | Close_timer_ends error_code | Ping_timer_ends error_code | Reading_pauses | Reading_resumes

text \<open>The requests a step leaves pending: those that were, less the one that completes, and the new ones.\<close>

definition pending :: "con_call list \<Rightarrow> connection \<Rightarrow> connection \<Rightarrow> con_call list" where
  "pending old con con' = old @ filter is_async (drop (length (calls con)) (calls con'))"

inductive con_step :: "connection \<times> con_call list \<Rightarrow> con_event \<Rightarrow> connection \<times> con_call list \<Rightarrow> bool" where
  user_calls: "con' = run_api a con \<Longrightarrow> con_step (con, pend) (User_calls a) (con', pending pend con con')"
| writer_runs: "Dispatch_write_frame \<in> set pend \<Longrightarrow> con' = write_frame con \<Longrightarrow>
    con_step (con, pend) Writer_runs (con', pending (remove1 Dispatch_write_frame pend) con con')"
| write_completes: "Async_write b \<in> set pend \<Longrightarrow> con' = handle_write_frame ec con \<Longrightarrow>
    con_step (con, pend) (Write_completes ec) (con', pending (remove1 (Async_write b) pend) con con')"
| read_completes: "Async_read_at_least \<in> set pend \<Longrightarrow> handle_read_frame ec buf con = Some con' \<Longrightarrow>
    con_step (con, pend) (Read_completes ec buf) (con', pending (remove1 Async_read_at_least pend) con con')"
| shutdown_completes: "Async_shutdown t \<in> set pend \<Longrightarrow> con' = handle_terminate t ec con \<Longrightarrow>
    con_step (con, pend) (Shutdown_completes ec) (con', pending (remove1 (Async_shutdown t) pend) con con')"
| close_timer_ends: "Set_close_timer d \<in> set pend \<Longrightarrow> con' = handle_close_handshake_timeout ec con \<Longrightarrow>
    con_step (con, pend) (Close_timer_ends ec) (con', pending (remove1 (Set_close_timer d) pend) con con')"
| ping_timer_ends: "Set_ping_timer d p \<in> set pend \<Longrightarrow> con' = handle_pong_timeout p ec con \<Longrightarrow>
    con_step (con, pend) (Ping_timer_ends ec) (con', pending (remove1 (Set_ping_timer d p) pend) con con')"
| reading_pauses: "con' = handle_pause_reading con \<Longrightarrow> con_step (con, pend) Reading_pauses (con', pending pend con con')"
| reading_resumes: "con' = handle_resume_reading con \<Longrightarrow> con_step (con, pend) Reading_resumes (con', pending pend con con')"

inductive_cases con_stepE: "con_step w e w'"

text \<open>A connection starts reading when it is established, with nothing written or queued, whatever the
  handlers its user has set.\<close>

definition fresh :: "connection \<Rightarrow> bool" where
  "fresh con \<longleftrightarrow> session con = session_open \<and> m_send_queue con = [] \<and> m_current_msgs con = [] \<and> \<not> m_write_flag con \<and> calls con = []"

definition opened :: "connection \<Rightarrow> connection \<times> con_call list" where
  "opened con = (read_frame con, pending [] con (read_frame con))"

fun is_write :: "con_call \<Rightarrow> bool" where
  "is_write (Async_write b) = True"
| "is_write _ = False"

fun is_shutdown :: "con_call \<Rightarrow> bool" where
  "is_shutdown (Async_shutdown t) = True"
| "is_shutdown _ = False"

fun is_end :: "con_call \<Rightarrow> bool" where
  "is_end Close_handler = True"
| "is_end Fail_handler = True"
| "is_end _ = False"

definition number :: "(con_call \<Rightarrow> bool) \<Rightarrow> con_call list \<Rightarrow> nat" where
  "number P cs = length (filter P cs)"

lemma number_simps [simp]:
  "number P [] = 0" "number P (c # cs) = (if P c then 1 else 0) + number P cs" "number P (cs @ ds) = number P cs + number P ds"
  by (simp_all add: number_def)

lemma number_filter: "(\<And>c. P c \<Longrightarrow> is_async c) \<Longrightarrow> number P (filter is_async cs) = number P cs"
  by (induction cs) auto

text \<open>One write at a time, which owns the messages being written; a queued message has a writer coming; one
  shutdown, when the connection closes, and at most one end reported.\<close>

definition con_inv :: "connection \<Rightarrow> con_call list \<Rightarrow> bool" where
  "con_inv con pend \<longleftrightarrow>
     number is_write pend = (if m_current_msgs con \<noteq> [] then 1 else 0) \<and>
     (m_current_msgs con \<noteq> [] \<longrightarrow> m_write_flag con) \<and>
     (\<not> m_write_flag con \<and> m_send_queue con \<noteq> [] \<longrightarrow> Dispatch_write_frame \<in> set pend) \<and>
     (m_write_flag con \<and> m_current_msgs con = [] \<longrightarrow> session con = session_closed) \<and>
     number is_shutdown (calls con) = (if session con = session_closed then 1 else 0) \<and>
     number is_end (calls con) + number is_shutdown pend \<le> number is_shutdown (calls con)"

text \<open>The invariant during an operation, with the requests made since it began.\<close>

definition inv_from :: "con_call list \<Rightarrow> nat \<Rightarrow> connection \<Rightarrow> bool" where
  "inv_from base n con \<longleftrightarrow> n \<le> length (calls con) \<and> con_inv con (base @ filter is_async (drop n (calls con)))"

lemma inv_from_start: "con_inv con base \<Longrightarrow> inv_from base (length (calls con)) con"
  by (simp add: inv_from_def)

lemma inv_from_end: "inv_from base (length (calls con)) con' \<Longrightarrow> con_inv con' (pending base con con')"
  by (simp add: inv_from_def pending_def)

lemma inv_emit:
  assumes "inv_from base n con" "\<not> is_write c" "\<not> is_shutdown c" "\<not> is_end c"
  shows "inv_from base n (emit c con)"
  using assms by (auto simp: inv_from_def con_inv_def emit_def)

lemma inv_push: "inv_from base n con \<Longrightarrow> inv_from base n (push_and_dispatch m con)"
  by (auto simp: inv_from_def con_inv_def push_and_dispatch_def write_push_def emit_def Let_def)

text \<open>What the invariant sees of a connection.\<close>

lemma inv_cong:
  assumes "m_current_msgs con' = m_current_msgs con" "m_write_flag con' = m_write_flag con"
    "m_send_queue con' = m_send_queue con" "session con' = session con" "calls con' = calls con"
  shows "inv_from base n con' = inv_from base n con"
  using assms by (simp add: inv_from_def con_inv_def)

lemma terminate_fields:
  "m_current_msgs (terminate ec con) = m_current_msgs con" "m_write_flag (terminate ec con) = m_write_flag con"
  "m_send_queue (terminate ec con) = m_send_queue con" "session (terminate ec con) = session_closed"
  "calls (terminate ec con) = calls con @ (if m_handshake_timer con then [Cancel_timer] else []) @
     (if session con = connecting then [Async_shutdown failed]
      else if session con \<noteq> session_closed then [Async_shutdown closed] else [])"
  by (simp_all add: terminate_def emit_def Let_def)

lemma inv_terminate: "inv_from base n con \<Longrightarrow> inv_from base n (terminate ec con)"
  by (cases "session con") (auto simp: inv_from_def con_inv_def terminate_fields)

lemma inv_closing: "session con \<noteq> session_closed \<Longrightarrow> inv_from base n con \<Longrightarrow> inv_from base n (con\<lparr>session := closing\<rparr>)"
  by (simp add: inv_from_def con_inv_def)

section \<open>What every operation does to a connection\<close>

text \<open>Calls of the message handler, made only when the connection is open.\<close>

fun is_message :: "con_call \<Rightarrow> bool" where
  "is_message (Message_handler m) = True"
| "is_message _ = False"

text \<open>A relation between the states before and after that the elementary effects are in, and that sees no
  other field: then every operation is in it.\<close>

locale connection_relation =
  fixes R :: "connection \<Rightarrow> connection \<Rightarrow> bool"
  assumes transitive: "R a b \<Longrightarrow> R b d \<Longrightarrow> R a d"
    and unseen: "m_current_msgs b = m_current_msgs a \<Longrightarrow> m_write_flag b = m_write_flag a \<Longrightarrow>
      m_send_queue b = m_send_queue a \<Longrightarrow> session b = session a \<Longrightarrow> calls b = calls a \<Longrightarrow> R a b"
    and request: "\<not> is_write c \<Longrightarrow> \<not> is_shutdown c \<Longrightarrow> \<not> is_end c \<Longrightarrow> (is_message c \<longrightarrow> session a = session_open) \<Longrightarrow>
      R a (emit c a)"
    and push: "R a (push_and_dispatch m a)"
    and closing: "session a \<noteq> session_closed \<Longrightarrow> R a (a\<lparr>session := closing\<rparr>)"
    and terminating: "R a (terminate ec a)"
begin

lemma itself: "R a a"
  by (rule unseen) simp_all

lemma after_cong:
  assumes "m_current_msgs con' = m_current_msgs con" "m_write_flag con' = m_write_flag con"
    "m_send_queue con' = m_send_queue con" "session con' = session con" "calls con' = calls con"
  shows "R c0 con' = R c0 con"
  using assms unseen [of con' con] unseen [of con con'] transitive by metis

lemma after_emit:
  assumes "R c0 con" "\<not> is_write c" "\<not> is_shutdown c" "\<not> is_end c" "is_message c \<longrightarrow> session con = session_open"
  shows "R c0 (emit c con)"
  using assms request transitive by blast

lemma after_push: "R c0 con \<Longrightarrow> R c0 (push_and_dispatch m con)"
  using push transitive by blast

lemma after_closing: "session con \<noteq> session_closed \<Longrightarrow> R c0 con \<Longrightarrow> R c0 (con\<lparr>session := closing\<rparr>)"
  using closing transitive by blast

lemma after_terminate: "R c0 con \<Longrightarrow> R c0 (terminate ec con)"
  using terminating transitive by blast

lemma after_drew [simp]: "R c0 (drew ec con) = R c0 con"
  by (rule after_cong) (simp_all add: drew_def)

lemma after_push_prepared: "R c0 con \<Longrightarrow> R c0 (snd (push_prepared r con))"
  by (simp add: push_prepared_def after_push case_prod_unfold Let_def)

lemma after_ping_timer:
  assumes "R c0 con"
  shows "R c0 (start_ping_timer p con)"
proof -
  define con1 where "con1 = (if m_ping_timer con then emit Cancel_ping_timer con else con)"
  have 1: "R c0 con1" using assms by (simp add: con1_def after_emit)
  define con2 where "con2 = emit (Set_ping_timer (m_pong_timeout_dur con1) p) con1"
  have 2: "R c0 con2" unfolding con2_def using 1 by (simp add: after_emit)
  have "R c0 (con2\<lparr>m_ping_timer := True\<rparr>)" using 2 by (subst after_cong [of _ con2]) simp_all
  then show ?thesis using 1 assms unfolding con2_def con1_def by (simp add: start_ping_timer_def Let_def)
qed

lemma after_send:
  assumes "R c0 con"
  shows "R c0 (snd (con_send p oc con))" "R c0 (snd (con_ping p con))"
    "R c0 (snd (con_pong p con))"
  using assms by (simp_all add: con_send_def send_msg_def con_ping_def con_pong_def after_push_prepared after_push
      after_ping_timer case_prod_unfold Let_def)

lemma after_close_frame:
  assumes "R c0 con" "session con \<noteq> session_closed"
  shows "R c0 (snd (send_close_frame cc r ack t con))"
proof -
  obtain lcc lr where c: "close_codes cc r ack con = (lcc, lr)" by force
  define con1 where "con1 = con\<lparr>m_local_close_code := lcc, m_local_close_reason := lr\<rparr>"
  have 1: "R c0 con1" using assms(1) by (subst after_cong [of _ con]) (simp_all add: con1_def)
  obtain ec m where p: "prepare_close (m_is_server con1) (m_rng con1 0) lcc lr (Some new_message) = (ec, m)" by force
  define con2 where "con2 = (drew ec con1)\<lparr>session := closing\<rparr>"
  have 2: "R c0 con2"
    unfolding con2_def using 1 assms(2) by (intro after_closing) (simp_all add: con1_def)
  define con3 where "con3 = (if ack then con2\<lparr>m_was_clean := True\<rparr> else con2)"
  have 3: "R c0 con3" using 2 by (subst after_cong [of _ con2]) (simp_all add: con3_def)
  define con4 where "con4 = (if m_close_handshake_timeout_dur con3 > 0
      then (emit (Set_close_timer (m_close_handshake_timeout_dur con3)) con3)\<lparr>m_handshake_timer := True\<rparr> else con3)"
  define con5 where "con5 = emit (Set_close_timer (m_close_handshake_timeout_dur con3)) con3"
  have 5: "R c0 con5" unfolding con5_def using 3 by (rule after_emit) simp_all
  have "R c0 (con5\<lparr>m_handshake_timer := True\<rparr>)" using 5 by (subst after_cong [of _ con5]) simp_all
  then have 4: "R c0 con4" using 3 by (simp add: con4_def con5_def)
  show ?thesis
  proof (cases "ec = No_error")
    case True
    have "snd (send_close_frame cc r ack t con) = push_and_dispatch (if t then (the m)\<lparr>msg_terminal := True\<rparr> else the m) con4"
      using p True unfolding send_close_frame_def c Let_def prod.case con4_def con3_def con2_def con1_def by simp
    then show ?thesis using after_push [OF 4] by simp
  next
    case False
    then have "snd (send_close_frame cc r ack t con) = con1"
      using p unfolding send_close_frame_def c Let_def prod.case con1_def [symmetric] by simp
    then show ?thesis using 1 by simp
  qed
qed

lemma after_close:
  assumes "R c0 con"
  shows "R c0 (snd (con_close cc r con))"
  using assms by (simp add: con_close_def after_close_frame Let_def)

lemma after_api: "R c0 con \<Longrightarrow> R c0 (run_api a con)"
  by (cases a) (simp_all add: after_send after_close)

lemma after_fold_api: "R c0 con \<Longrightarrow> R c0 (fold run_api as con)"
  by (induction as arbitrary: con) (simp_all add: after_api)

lemma after_remote: 
  "R c0 (con\<lparr>m_remote_close_code := cc\<rparr>) = R c0 con"
  "R c0 (con\<lparr>m_remote_close_reason := r\<rparr>) = R c0 con"
  "R c0 (con\<lparr>m_was_clean := b\<rparr>) = R c0 con"
  "R c0 (con\<lparr>m_processor := h\<rparr>) = R c0 con"
  by (rule after_cong; simp)+

lemma after_control: 
  assumes "R c0 con"
  shows "R c0 (process_control_frame m con)"
proof (cases "session con = session_closed")
  case False
  obtain cc e1 where c: "extract_code (msg_payload m) = (cc, e1)" by force
  obtain r e2 where r: "extract_reason (msg_payload m) = (r, e2)" by force
  have ack: "R c0 (snd (send_close_ack c2 r2 (con\<lparr>m_remote_close_code := cc\<rparr>)))"
      "R c0 (snd (send_close_ack c2 r2 (con\<lparr>m_remote_close_code := cc, m_remote_close_reason := r\<rparr>)))" for c2 r2
    unfolding send_close_ack_def using assms False by (intro after_close_frame; simp add: after_remote)+
  have t: "R c0 (terminate No_error (con\<lparr>m_remote_close_code := cc, m_remote_close_reason := r, m_was_clean := True\<rparr>))"
    using assms by (intro after_terminate) (simp add: after_remote)
  show ?thesis
    using assms False ack t
    by (simp add: process_control_frame_def Let_def c r after_send after_emit after_remote)
qed (use assms in \<open>simp add: process_control_frame_def\<close>)

lemma after_dispatch: "R c0 con \<Longrightarrow> R c0 (dispatch_message m con)"
  by (simp add: dispatch_message_def after_control after_fold_api after_emit)

lemma after_consume_failed:
  assumes "R c0 con"
  shows "R c0 (consume_failed ec con)"
  using after_close [OF assms, of "to_ws ec" "ec_message ec"]
  by (simp add: consume_failed_def case_prod_unfold after_terminate Let_def)

lemma after_read_frame: "R c0 con \<Longrightarrow> R c0 (read_frame con)"
  by (simp add: read_frame_def after_emit)

lemma after_read_loop:
  assumes "read_loop buf con = Some con'"
  shows "R c0 con \<longrightarrow> R c0 con'"
proof (rule read_loop.raw_induct [OF _ assms])
  fix loop buf con con'
  assume IH: "\<And>buf con con'. loop buf con = Some con' \<Longrightarrow> R c0 con \<longrightarrow> R c0 con'"
    and body: "(if buf = [] then Some (read_frame con)
      else let (n, ec, h) = consume buf (m_processor con); con = con\<lparr>m_processor := h\<rparr>
           in if ec \<noteq> No_error then Some (consume_failed ec con)
              else if ready h
                then let (m, h) = get_message h; con = con\<lparr>m_processor := h\<rparr>
                     in case m of None \<Rightarrow> loop (drop n buf) con | Some msg \<Rightarrow> loop (drop n buf) (dispatch_message msg con)
                else loop (drop n buf) con) = Some con'"
  obtain k ec h where c: "consume buf (m_processor con) = (k, ec, h)" by (metis prod_cases3)
  obtain m h2 where g: "get_message h = (m, h2)" by force
  show "R c0 con \<longrightarrow> R c0 con'"
  proof
    assume inv: "R c0 con"
    then have inv1: "R c0 (con\<lparr>m_processor := h\<rparr>)" "R c0 (con\<lparr>m_processor := h2\<rparr>)"
      by (simp_all add: after_remote)
    show "R c0 con'"
    proof (cases m)
      case None
      then show ?thesis
        using body inv inv1 c g IH by (auto simp: after_read_frame after_consume_failed Let_def split: if_splits)
    next
      case (Some msg)
      then show ?thesis
        using body inv inv1 c g IH after_dispatch [OF inv1(2), of msg]
        by (auto simp: after_read_frame after_consume_failed Let_def split: if_splits)
    qed
  qed
qed

lemma after_handle_read:
  assumes "handle_read_frame ec buf con = Some con'" "R c0 con"
  shows "R c0 con'"
  using assms after_read_loop [of buf con con' c0]
  by (auto simp: handle_read_frame_def Let_def after_terminate split: if_splits)

lemma after_timeout: "R c0 con \<Longrightarrow> R c0 (handle_close_handshake_timeout ec con)"
  by (simp add: handle_close_handshake_timeout_def after_terminate)

lemma after_pong_timeout: "R c0 con \<Longrightarrow> R c0 (handle_pong_timeout p ec con)"
  by (simp add: handle_pong_timeout_def after_emit)

lemma after_pause: "R c0 con \<Longrightarrow> R c0 (handle_pause_reading con)"
  by (subst after_cong [of _ con]) (simp_all add: handle_pause_reading_def)

lemma after_resume: "R c0 con \<Longrightarrow> R c0 (handle_resume_reading con)"
  unfolding handle_resume_reading_def by (rule after_read_frame, subst after_cong [of _ con]) simp_all

lemmas from_itself = after_api [OF itself] after_timeout [OF itself] after_pause [OF itself] after_resume [OF itself]
  after_handle_read [OF _ itself] after_pong_timeout [OF itself]

end

section \<open>The invariant\<close>

interpretation invariant_kept: connection_relation "\<lambda>con con'. inv_from base n con \<longrightarrow> inv_from base n con'" for base n
proof
  fix con con' :: connection
  assume "m_current_msgs con' = m_current_msgs con" "m_write_flag con' = m_write_flag con"
    "m_send_queue con' = m_send_queue con" "session con' = session con" "calls con' = calls con"
  then show "inv_from base n con \<longrightarrow> inv_from base n con'" using inv_cong by blast
qed (simp_all add: inv_emit inv_push inv_terminate inv_closing)

lemma number_remove1: "c \<in> set cs \<Longrightarrow> number P cs = number P (remove1 c cs) + (if P c then 1 else 0)"
  by (induction cs) auto

lemma pop_all_Nil: "m_send_queue con = [] \<Longrightarrow> pop_all con = con"
  by (subst pop_all.simps) (simp add: write_pop_def)

lemma pop_all_Cons:
  "m_send_queue con = m # q \<Longrightarrow>
   pop_all con =
     (let con'' = (snd (write_pop con))\<lparr>m_current_msgs := m_current_msgs con @ [m]\<rparr>
      in if \<not> msg_terminal m then pop_all con'' else con'')"
  by (subst pop_all.simps) (simp add: write_pop_def)

lemma pop_all_inv:
  "calls (pop_all con) = calls con \<and> session (pop_all con) = session con \<and> m_write_flag (pop_all con) = m_write_flag con \<and>
   (m_current_msgs (pop_all con) = [] \<longleftrightarrow> m_current_msgs con = [] \<and> m_send_queue con = []) \<and>
   (m_send_queue con = [] \<longrightarrow> m_send_queue (pop_all con) = [])"
proof (induction con rule: pop_all.induct)
  case (1 con)
  show ?case
  proof (cases "m_send_queue con")
    case (Cons m q)
    then show ?thesis using 1 by (simp add: pop_all_Cons [OF Cons] write_pop_def Let_def)
  qed (simp add: pop_all_Nil)
qed

text \<open>An operation that only makes requests keeps the invariant, its new requests pending.\<close>

lemma inv_operation:
  assumes "con_inv con pend" "\<And>n. inv_from pend n con \<Longrightarrow> inv_from pend n con'"
  shows "con_inv con' (pending pend con con')"
  using assms inv_from_start inv_from_end by blast

text \<open>A request that completes without being a write or a shutdown is not missed, unless it was the writer.\<close>

lemma inv_completed:
  assumes "con_inv con pend" "c \<in> set pend" "\<not> is_write c" "\<not> is_shutdown c" "c \<noteq> Dispatch_write_frame"
  shows "con_inv con (remove1 c pend)"
  using assms number_remove1 [OF assms(2), of is_write] number_remove1 [OF assms(2), of is_shutdown]
  by (auto simp: con_inv_def)

lemma inv_write_frame:
  assumes "con_inv con pend" "Dispatch_write_frame \<in> set pend"
  shows "con_inv (write_frame con) (pending (remove1 Dispatch_write_frame pend) con (write_frame con))"
proof -
  define q where "q = pop_all con"
  have q: "calls q = calls con" "session q = session con" "m_write_flag q = m_write_flag con"
      "m_current_msgs q = [] \<longleftrightarrow> m_current_msgs con = [] \<and> m_send_queue con = []"
      "m_send_queue con = [] \<longrightarrow> m_send_queue q = []"
    using pop_all_inv [of con] by (simp_all add: q_def)
  show ?thesis
    using assms q number_remove1 [OF assms(2), of is_write] number_remove1 [OF assms(2), of is_shutdown]
    by (auto simp: write_frame_def q_def [symmetric] Let_def con_inv_def pending_def emit_def)
qed

lemma inv_handle_write_frame:
  assumes "con_inv con pend" "Async_write b \<in> set pend"
  shows "con_inv (handle_write_frame ec con) (pending (remove1 (Async_write b) pend) con (handle_write_frame ec con))"
  using assms number_remove1 [OF assms(2), of is_write] number_remove1 [OF assms(2), of is_shutdown]
  by (auto simp: handle_write_frame_def Let_def con_inv_def pending_def emit_def terminate_fields split: if_splits)

lemma inv_handle_terminate:
  assumes "con_inv con pend" "Async_shutdown t \<in> set pend"
  shows "con_inv (handle_terminate s ec con) (pending (remove1 (Async_shutdown t) pend) con (handle_terminate s ec con))"
  using assms number_remove1 [OF assms(2), of is_write] number_remove1 [OF assms(2), of is_shutdown]
  by (cases s) (auto simp: handle_terminate_def Let_def con_inv_def pending_def emit_def split: if_splits)

lemma con_step_inv:
  assumes "con_step w e w'" "con_inv (fst w) (snd w)"
  shows "con_inv (fst w') (snd w')"
  using assms
proof (cases rule: con_step.cases)
  case (user_calls con' a con pend)
  then show ?thesis using assms(2) inv_operation [of con pend] invariant_kept.from_itself(1) by simp
next
  case (writer_runs pend con' con)
  then show ?thesis using assms(2) inv_write_frame by simp
next
  case (write_completes b pend con' ec con)
  then show ?thesis using assms(2) inv_handle_write_frame by simp
next
  case (read_completes pend ec buf con con')
  then have "con_inv con (remove1 Async_read_at_least pend)" using assms(2) inv_completed by simp
  then show ?thesis using read_completes inv_operation [OF _ mp [OF invariant_kept.from_itself(5)]] by simp
next
  case (shutdown_completes t pend con' ec con)
  then show ?thesis using assms(2) inv_handle_terminate by simp
next
  case (close_timer_ends d pend con' ec con)
  then have "con_inv con (remove1 (Set_close_timer d) pend)" using assms(2) inv_completed by simp
  then show ?thesis using close_timer_ends inv_operation invariant_kept.from_itself(2) by simp
next
  case (ping_timer_ends d p pend con' ec con)
  then have "con_inv con (remove1 (Set_ping_timer d p) pend)" using assms(2) inv_completed by simp
  then show ?thesis using ping_timer_ends inv_operation invariant_kept.from_itself(6) by simp
next
  case (reading_pauses con' con pend)
  then show ?thesis using assms(2) inv_operation [of con pend] invariant_kept.from_itself(3) by simp
next
  case (reading_resumes con' con pend)
  then show ?thesis using assms(2) inv_operation [of con pend] invariant_kept.from_itself(4) by simp
qed

lemma fresh_established: "fresh (established server max_size rng handler)"
  by (simp add: fresh_def established_def)

lemma opened_inv:
  assumes "fresh con"
  shows "con_inv (fst (opened con)) (snd (opened con))"
proof -
  have "con_inv con []" using assms by (simp add: fresh_def con_inv_def)
  moreover have "inv_from [] n con \<Longrightarrow> inv_from [] n (read_frame con)" for n
    using invariant_kept.after_read_frame [OF invariant_kept.itself] by blast
  ultimately show ?thesis using inv_operation unfolding opened_def fst_conv snd_conv by blast
qed

interpretation connection: invariant_machine con_step "\<lambda>w. \<exists>con. fresh con \<and> w = opened con" "\<lambda>w. con_inv (fst w) (snd w)"
  by unfold_locales (use opened_inv con_step_inv in blast)+

section \<open>The wire as a channel\<close>

text \<open>The abstract channel: what was written, and the frames that wait in order. A frame is added at the end,
  a first part of them is written.\<close>

inductive channel_step :: "u8 list \<times> message list \<Rightarrow> u8 list \<times> message list \<Rightarrow> bool" where
  channel_put: "channel_step (s, q) (s, q @ ms)"
| channel_flush: "channel_step (s, ms @ q) (s @ concat (map frame_bytes ms), q)"

definition channel :: "connection \<Rightarrow> u8 list \<times> message list" where
  "channel con = (sent_bytes con, m_send_queue con)"

definition only_queues :: "connection \<Rightarrow> connection \<Rightarrow> bool" where
  "only_queues con con' \<longleftrightarrow> sent_bytes con' = sent_bytes con \<and> (\<exists>ms. m_send_queue con' = m_send_queue con @ ms)"

lemma sent_emit: "sent_bytes (emit c con) = sent_bytes con @ written c"
  by (simp add: sent_bytes_def emit_def)

lemma not_written: "\<not> is_write c \<Longrightarrow> written c = []"
  by (cases c) simp_all

interpretation channel_kept: connection_relation only_queues
proof
  fix a b d :: connection
  assume "only_queues a b" "only_queues b d"
  then show "only_queues a d" by (auto simp: only_queues_def)
next
  fix a b :: connection
  assume "m_send_queue b = m_send_queue a" "calls b = calls a"
  then show "only_queues a b" by (simp add: only_queues_def sent_bytes_def)
next
  fix c and a :: connection
  assume "\<not> is_write c"
  then show "only_queues a (emit c a)" by (simp add: only_queues_def sent_emit not_written) (simp add: emit_def)
next
  fix m and a :: connection
  have "sent_bytes (push_and_dispatch m a) = sent_bytes a"
    by (simp add: push_and_dispatch_def write_push_def sent_bytes_def emit_def Let_def)
  then show "only_queues a (push_and_dispatch m a)" by (simp add: only_queues_def)
next
  fix a :: connection
  show "only_queues a (a\<lparr>session := closing\<rparr>)" by (simp add: only_queues_def sent_bytes_def)
next
  fix ec and a :: connection
  show "only_queues a (terminate ec a)"
    by (simp add: only_queues_def sent_bytes_def terminate_fields)
qed

lemma queues_channel: "only_queues con con' \<Longrightarrow> channel_step (channel con) (channel con')"
  by (auto simp: only_queues_def channel_def intro: channel_put)

lemma pop_all_splits:
  "\<exists>ms. m_send_queue con = ms @ m_send_queue (pop_all con) \<and> m_current_msgs (pop_all con) = m_current_msgs con @ ms"
proof (induction con rule: pop_all.induct)
  case (1 con)
  show ?case
  proof (cases "m_send_queue con")
    case (Cons m q)
    define con2 where "con2 = (snd (write_pop con))\<lparr>m_current_msgs := m_current_msgs con @ [m]\<rparr>"
    have con2: "m_send_queue con2 = q" "m_current_msgs con2 = m_current_msgs con @ [m]"
      "pop_all con = (if msg_terminal m then con2 else pop_all con2)"
      by (simp_all add: con2_def write_pop_def Cons pop_all_Cons [OF Cons] Let_def)
    show ?thesis
    proof (cases "msg_terminal m")
      case False
      have "\<exists>ms. m_send_queue con2 = ms @ m_send_queue (pop_all con2) \<and> m_current_msgs (pop_all con2) = m_current_msgs con2 @ ms"
        by (rule "1.IH" [OF surjective_pairing [symmetric], of m]) (simp_all add: con2_def write_pop_def Cons False)
      then obtain ms where "q = ms @ m_send_queue (pop_all con2)" "m_current_msgs (pop_all con2) = m_current_msgs con2 @ ms"
        using con2(1) by auto
      then show ?thesis using con2 False Cons by (intro exI [of _ "m # ms"]) simp
    qed (use con2 Cons in auto)
  qed (simp add: pop_all_Nil)
qed

lemma writer_channel:
  assumes "con_inv con pend"
  shows "channel_step (channel con) (channel (write_frame con))"
proof (cases "m_write_flag con")
  case True
  then show ?thesis using channel_put [of _ _ "[]"] by (simp add: write_frame_def channel_def)
next
  case False
  then have cur: "m_current_msgs con = []" using assms by (auto simp: con_inv_def)
  obtain ms where ms: "m_send_queue con = ms @ m_send_queue (pop_all con)" "m_current_msgs (pop_all con) = ms"
    using pop_all_splits [of con] cur by auto
  have "sent_bytes (pop_all con) = sent_bytes con" using pop_all_inv [of con] by (simp add: sent_bytes_def)
  then have "channel (write_frame con) = (sent_bytes con @ concat (map frame_bytes ms), m_send_queue (pop_all con))"
    using ms(2) False
    by (cases ms) (simp_all add: write_frame_def Let_def channel_def sent_bytes_def emit_def frame_bytes_def [abs_def])
  then show ?thesis using channel_flush [of "sent_bytes con" ms "m_send_queue (pop_all con)"] ms(1) by (simp add: channel_def)
qed

lemma handle_write_queues: "only_queues con (handle_write_frame ec con)"
proof -
  have u: "only_queues con (con\<lparr>m_current_msgs := []\<rparr>)" "only_queues con (con\<lparr>m_current_msgs := [], m_write_flag := False\<rparr>)"
    by (simp_all add: only_queues_def sent_bytes_def)
  then show ?thesis
    unfolding handle_write_frame_def Let_def
    by (simp add: channel_kept.after_terminate channel_kept.after_emit)
qed

lemma handle_terminate_queues: "only_queues con (handle_terminate t ec con)"
  by (cases t) (simp_all add: handle_terminate_def Let_def only_queues_def sent_bytes_def emit_def)

lemma con_step_channel:
  assumes "con_step w e w'" "con_inv (fst w) (snd w)"
  shows "channel_step (channel (fst w)) (channel (fst w'))"
  using assms
  by (cases rule: con_step.cases)
    (auto intro: queues_channel writer_channel channel_kept.from_itself handle_write_queues handle_terminate_queues)

section \<open>A session does not come back\<close>

definition stays_closed :: "connection \<Rightarrow> connection \<Rightarrow> bool" where
  "stays_closed con con' \<longleftrightarrow>
     (session con \<noteq> session_open \<longrightarrow> session con' \<noteq> session_open \<and> delivered con' = delivered con) \<and>
     (session con = session_closed \<longrightarrow> session con' = session_closed)"

lemma delivered_emit: "delivered (emit c con) = delivered con @ delivered_by c"
  by (simp add: delivered_def emit_def)

lemma not_delivered: "\<not> is_message c \<Longrightarrow> delivered_by c = []"
  by (cases c) simp_all

interpretation session_kept: connection_relation stays_closed
proof
  fix a b d :: connection
  assume "stays_closed a b" "stays_closed b d"
  then show "stays_closed a d" by (auto simp: stays_closed_def)
next
  fix a b :: connection
  assume "session b = session a" "calls b = calls a"
  then show "stays_closed a b" by (simp add: stays_closed_def delivered_def)
next
  fix c and a :: connection
  assume "is_message c \<longrightarrow> session a = session_open"
  then show "stays_closed a (emit c a)"
    by (auto simp: stays_closed_def delivered_emit not_delivered) (simp_all add: emit_def)
next
  fix m and a :: connection
  show "stays_closed a (push_and_dispatch m a)" by (simp add: stays_closed_def push_delivered)
next
  fix a :: connection
  assume "session a \<noteq> session_closed"
  then show "stays_closed a (a\<lparr>session := closing\<rparr>)" by (simp add: stays_closed_def delivered_def)
next
  fix ec and a :: connection
  show "stays_closed a (terminate ec a)" by (simp add: stays_closed_def delivered_def terminate_fields)
qed

lemma writer_session: "stays_closed con (write_frame con)"
  using pop_all_inv [of con] by (simp add: write_frame_def Let_def stays_closed_def emit_def delivered_def)

lemma handle_write_session: "stays_closed con (handle_write_frame ec con)"
proof -
  have u: "stays_closed con (con\<lparr>m_current_msgs := []\<rparr>)" "stays_closed con (con\<lparr>m_current_msgs := [], m_write_flag := False\<rparr>)"
    by (simp_all add: stays_closed_def delivered_def)
  then show ?thesis
    unfolding handle_write_frame_def Let_def
    by (simp add: session_kept.after_terminate session_kept.after_emit)
qed

lemma handle_terminate_session: "stays_closed con (handle_terminate t ec con)"
  by (cases t) (simp_all add: handle_terminate_def Let_def stays_closed_def delivered_def emit_def)

lemma con_step_session: "con_step w e w' \<Longrightarrow> stays_closed (fst w) (fst w')"
  by (cases rule: con_step.cases)
    (auto intro: writer_session session_kept.from_itself handle_write_session handle_terminate_session)

lemma runs_session: "runs con_step w es w' \<Longrightarrow> stays_closed (fst w) (fst w')"
  by (induction rule: runs.induct) (use con_step_session session_kept.transitive session_kept.itself in blast)+

section \<open>Properties\<close>

text \<open>A server that queued one text, for the witnesses.\<close>

definition hello_con :: connection where
  "hello_con = run_api (Api_send [0x68] op_text) (read_frame (established True 32000000 (\<lambda>_. 0) (\<lambda>_. [])))"

definition hello_pend :: "con_call list" where
  "hello_pend = pending (snd (opened (established True 32000000 (\<lambda>_. 0) (\<lambda>_. []))))
     (read_frame (established True 32000000 (\<lambda>_. 0) (\<lambda>_. []))) hello_con"

lemma hello_run:
  "runs con_step (opened (established True 32000000 (\<lambda>_. 0) (\<lambda>_. []))) [User_calls (Api_send [0x68] op_text)] (hello_con, hello_pend)"
  using user_calls [OF refl, where a = "Api_send [0x68] op_text"]
  by (simp add: opened_def runs_Cons_iff hello_pend_def hello_con_def del: run_api.simps)

lemma hello_queued: "m_send_queue hello_con \<noteq> []" "m_current_msgs hello_con = []" "session hello_con = session_open"
    "Dispatch_write_frame \<in> set hello_pend" "\<not> m_write_flag hello_con"
  by code_simp+

lemma reachable_con:
  "fresh con0 \<Longrightarrow> runs con_step (opened con0) es (con, pend) \<Longrightarrow> con_inv con pend"
  using connection.reachable_inv by fastforce

text \<open>C10: Whatever the user, the peer and the transport do and in whatever order, a connection has at most one
  write in flight, exactly when messages are being written, and no other write starts before it completes.\<close>

theorem one_write_in_flight:
  assumes "fresh con0" "runs con_step (opened con0) es (con, pend)"
  shows "number is_write pend = (if m_current_msgs con = [] then 0 else 1) \<and>
    (m_current_msgs con \<noteq> [] \<longrightarrow> write_frame con = con)"
  using reachable_con [OF assms] by (auto simp: con_inv_def write_frame_def)

lemma one_write_in_flight_witness:
  "number is_write hello_pend = (if m_current_msgs hello_con = [] then 0 else 1) \<and> m_send_queue hello_con \<noteq> []"
  using one_write_in_flight [OF fresh_established hello_run] hello_queued(1) by blast

text \<open>C12: No wake-up of the writer is lost. While a message is queued, either the writer has been asked to run
  and would take at least one message, or a write is in flight, whose completion asks it again, or the
  connection is closed.\<close>

theorem queued_is_served:
  assumes "fresh con0" "runs con_step (opened con0) es (con, pend)" "m_send_queue con \<noteq> []"
  shows "(\<exists>w'. con_step (con, pend) Writer_runs w' \<and> length (m_send_queue (fst w')) < length (m_send_queue con)) \<or>
    (\<exists>b. Async_write b \<in> set pend) \<or> session con = session_closed"
proof (cases "m_write_flag con \<or> session con = session_closed")
  case True
  have "number is_write pend \<noteq> 0 \<Longrightarrow> \<exists>b. Async_write b \<in> set pend"
    by (induction pend) (auto elim!: is_write.elims split: if_splits)
  then show ?thesis using reachable_con [OF assms(1,2)] True by (auto simp: con_inv_def split: if_splits)
next
  case False
  then have pend: "Dispatch_write_frame \<in> set pend" and cur: "m_current_msgs con = []"
    using reachable_con [OF assms(1,2)] assms(3) by (auto simp: con_inv_def)
  obtain ms where ms: "m_send_queue con = ms @ m_send_queue (pop_all con)" "m_current_msgs (pop_all con) = ms"
    using pop_all_splits [of con] cur by auto
  have "ms \<noteq> []" using ms(2) pop_all_inv [of con] assms(3) by auto
  then have "length (m_send_queue (write_frame con)) < length (m_send_queue con)"
    using ms False by (cases ms) (simp_all add: write_frame_def Let_def emit_def)
  then show ?thesis using writer_runs [OF pend refl] by fastforce
qed

lemma queued_is_served_witness:
  "\<exists>w'. con_step (hello_con, hello_pend) Writer_runs w' \<and> length (m_send_queue (fst w')) < length (m_send_queue hello_con)"
proof -
  have "number is_write hello_pend = 0" by code_simp
  then have "\<nexists>b. Async_write b \<in> set hello_pend" by (auto simp: number_def filter_empty_conv)
  with queued_is_served [OF fresh_established hello_run hello_queued(1)] hello_queued(3) show ?thesis by simp
qed



text \<open>C9: The connection is a channel: in every step, the bytes written so far are extended by the frames at the
  front of the queue, or frames are added at its end. Nothing is dropped, repeated or overtaken.\<close>

theorem connection_refines_channel:
  assumes "fresh con0" "runs con_step (opened con0) es (con, pend)"
    and "con_step (con, pend) e (con', pend')"
  shows "channel_step (channel con) (channel con')"
  using con_step_channel [OF assms(3)] reachable_con [OF assms(1,2)] by simp

lemma connection_refines_channel_witness:
  "channel_step (channel hello_con) (channel (write_frame hello_con))"
  using connection_refines_channel [OF fresh_established hello_run writer_runs [OF hello_queued(4) refl]] .





text \<open>A reply to an invalid close frame is sent even when this end has already sent its close frame: two close
  frames are on the wire, where the closing handshake allows one.\<close>

theorem second_close_frame:
  "map (\<lambda>m. take 1 (frame_bytes m)) (m_send_queue (the (handle_read_frame No_error [0x88, 0x82, 0, 0, 0, 0, 0, 0]
     (snd (con_close close_normal [] (established True 32000000 (\<lambda>_. 0) (\<lambda>_. []))))))) = [[0x88], [0x88]]"
  by code_simp

text \<open>\<open>close\<close> cuts its reason at 123 bytes, in the middle of a character: the peer that gets the frame
  answers that the reason is invalid.\<close>

theorem close_cuts_characters:
  "validate (replicate 122 0x61 @ [0xC3, 0xA9]) \<and>
   m_local_close_reason (the (handle_read_frame No_error
     (stream (snd (con_close close_normal (replicate 122 0x61 @ [0xC3, 0xA9]) (established True 32000000 (\<lambda>_. 0) (\<lambda>_. [])))))
     (established False 32000000 (\<lambda>_. 0) (\<lambda>_. [])))) = map byte ''Invalid close reason''"
  by code_simp

text \<open>Reading that is resumed while a read is outstanding starts a second one, which the transports exclude
  (transport/base/connection.hpp promises one at a time).\<close>

theorem two_reads_in_flight:
  "\<exists>con pend. runs con_step (opened (established server max_size rng handler)) [Reading_pauses, Reading_resumes] (con, pend) \<and>
     number (\<lambda>c. c = Async_read_at_least) pend = 2"
proof -
  define con where "con = read_frame (established server max_size rng handler)"
  define con1 where "con1 = handle_pause_reading con"
  define con2 where "con2 = handle_resume_reading con1"
  have o: "opened (established server max_size rng handler) = (con, [Async_read_at_least])"
    by (simp add: opened_def con_def read_frame_def established_def emit_def pending_def)
  have p: "pending [Async_read_at_least] con con1 = [Async_read_at_least]"
    "pending [Async_read_at_least] con1 con2 = [Async_read_at_least, Async_read_at_least]"
    by (simp_all add: con1_def con2_def pending_def handle_pause_reading_def handle_resume_reading_def read_frame_def emit_def)
  have "con_step (con, [Async_read_at_least]) Reading_pauses (con1, [Async_read_at_least])"
    using reading_pauses [OF con1_def, of "[Async_read_at_least]"] p by simp
  moreover have "con_step (con1, [Async_read_at_least]) Reading_resumes (con2, [Async_read_at_least, Async_read_at_least])"
    using reading_resumes [OF con2_def, of "[Async_read_at_least]"] p by simp
  ultimately show ?thesis
    unfolding o by (intro exI [of _ con2] exI [of _ "[Async_read_at_least, Async_read_at_least]"]) (auto simp: runs_Cons_iff)
qed

text \<open>Terminating a connection cancels the timer of the closing handshake only: the timer of a ping still
  reports its timeout on the connection that is closed.\<close>

theorem pong_timeout_after_the_end:
  "let con = handle_pong_timeout [] No_error (terminate No_error (run_api (Api_ping [])
       ((established False 32000000 (\<lambda>_. 0) (\<lambda>_. []))\<lparr>m_pong_timeout_handler := True\<rparr>)))
   in session con = session_closed \<and> calls con = [Set_ping_timer 5000 [], Dispatch_write_frame, Async_shutdown closed, Pong_timeout_handler []]"
  by code_simp

end
