(* ===== verification/Ws_Opening_Laws.thy ===== *)
theory Ws_Opening_Laws
  imports Ws_Opening Ws_Connection_Machine
begin

text \<open>
  What the opening handshake promises: a client's request is accepted by a server and its answer by the client,
  for every URI that fits a request; a client opens on no other answer; and where the code falls short of that,
  when the extensions of an answer do not parse.
\<close>

section \<open>The names of the handshake\<close>

lemma names_ok:
  "header_name ''Upgrade''" "header_name ''Connection''" "header_name ''Sec-WebSocket-Version''" "header_name ''Host''"
  "header_name ''Sec-WebSocket-Protocol''" "header_name ''Sec-WebSocket-Key''" "header_name ''User-Agent''"
  "header_name ''Sec-WebSocket-Accept''" "header_name ''Server''"
  by (simp_all add: header_name_def is_token_char_def header_token_def)

lemma lower_names:
  "to_lower ''Upgrade'' = ''upgrade''" "to_lower ''Connection'' = ''connection''"
  "to_lower ''Sec-WebSocket-Version'' = ''sec-websocket-version''" "to_lower ''Host'' = ''host''"
  "to_lower ''Sec-WebSocket-Protocol'' = ''sec-websocket-protocol''" "to_lower ''Sec-WebSocket-Key'' = ''sec-websocket-key''"
  "to_lower ''User-Agent'' = ''user-agent''" "to_lower ''Sec-WebSocket-Accept'' = ''sec-websocket-accept''"
  "to_lower ''Server'' = ''server''" "to_lower ''Content-Length'' = ''content-length''"
  "to_lower ''Sec-WebSocket-Extensions'' = ''sec-websocket-extensions''"
  by code_simp+

lemma values_ok: "header_value ''websocket''" "header_value ''Upgrade''" "header_value ''13''" "header_value user_agent" "header_value ''upgrade''"
  by (simp_all add: header_value_def is_whitespace_char_def CR_def user_agent_def)

lemma handshake_tokens:
  "ci_find_substr ''websocket'' upgrade_token" "ci_find_substr ''Upgrade'' connection_token"
  "ci_find_substr ''upgrade'' connection_token" "stream_int ''13'' = Some 13"
  by code_simp+

lemma base64_line_chars: "list_all (\<lambda>c. c \<noteq> CR \<and> \<not> is_whitespace_char c) (CHR ''='' # base64_chars)"
  by (simp add: base64_chars_def is_whitespace_char_def CR_def)

lemma encode_value: "header_value (base64_encode xs)"
proof -
  have "\<forall>c \<in> set (base64_encode xs). c \<noteq> CR \<and> \<not> is_whitespace_char c"
    using encode_chars [of xs] base64_line_chars by (auto simp: list_all_iff)
  then show ?thesis unfolding header_value_def by (metis last_in_set nth_mem length_greater_0_conv)
qed

lemma no_header [simp]: "get_header k [] = []"
  by (simp add: get_header_def)


section \<open>The request of a client\<close>

definition client_headers :: "uri \<Rightarrow> string list \<Rightarrow> (nat \<Rightarrow> u32) \<Rightarrow> header_list" where
  "client_headers u ps rng =
     (let hs = replace_header ''Connection'' ''Upgrade'' (replace_header ''Upgrade'' ''websocket'' []);
          hs = replace_header ''Host'' (get_host_port u) (replace_header ''Sec-WebSocket-Version'' ''13'' hs);
          hs = (if ps \<noteq> [] then replace_header ''Sec-WebSocket-Protocol'' (join_subprotocols ps) hs else hs)
      in replace_header ''User-Agent'' user_agent (replace_header ''Sec-WebSocket-Key'' (base64_encode (raw_key rng)) hs))"

lemmas header_laws = get_header_replace lower_names

lemma client_headers_values:
  "get_header ''Upgrade'' (client_headers u ps rng) = ''websocket''"
  "get_header ''Connection'' (client_headers u ps rng) = ''Upgrade''"
  "get_header ''Sec-WebSocket-Version'' (client_headers u ps rng) = ''13''"
  "get_header ''Host'' (client_headers u ps rng) = get_host_port u"
  "get_header ''Sec-WebSocket-Key'' (client_headers u ps rng) = base64_encode (raw_key rng)"
  "get_header ''Sec-WebSocket-Extensions'' (client_headers u ps rng) = []"
  "get_header ''Content-Length'' (client_headers u ps rng) = []"
  by (simp_all add: client_headers_def header_laws Let_def)

text \<open>A URI a client can connect to: a host that is a line of its own without colons or brackets, a port, a resource
  without blanks.\<close>

definition connectable :: "uri \<Rightarrow> bool" where
  "connectable u \<longleftrightarrow> m_host u \<noteq> [] \<and> header_value (m_host u) \<and> CHR '':'' \<notin> set (m_host u) \<and> CHR '']'' \<notin> set (m_host u) \<and>
     m_port u \<noteq> 0 \<and> CHR '' '' \<notin> set (m_resource u) \<and> CR \<notin> set (m_resource u)"

lemma digits_no_blank: "c \<in> set (nat_digits n) \<Longrightarrow> \<not> is_whitespace_char c \<and> c \<noteq> CHR '':'' \<and> c \<noteq> CHR '']''"
  using nat_digits_digits [of n] digit_code [of c] by (auto simp: list_all_iff is_whitespace_char_def)

lemma host_port_value:
  assumes "connectable u"
  shows "header_value (get_host_port u)" "get_host_port u \<noteq> []"
proof -
  have "\<not> is_whitespace_char (last (nat_digits n))" for n using digits_no_blank [of "last (nat_digits n)" n] by simp
  then show "header_value (get_host_port u)"
    using assms digits_no_blank digits_chars(1)
    by (auto simp: connectable_def get_host_port_def get_port_str_def header_value_def nth_append CR_def)
  show "get_host_port u \<noteq> []" using assms by (simp add: connectable_def get_host_port_def)
qed

lemma join_value: "\<forall>p \<in> set ps. header_name p \<Longrightarrow> header_value (join_subprotocols ps) \<and> (ps \<noteq> [] \<longrightarrow> join_subprotocols ps \<noteq> [])"
proof (induction ps rule: join_subprotocols.induct)
  case (2 s)
  then show ?case using name_value by (simp add: header_name_def)
next
  case (3 s t ss)
  then show ?case using name_value [of s] by (auto simp: header_value_def header_name_def nth_append CR_def)
qed (simp add: header_value_def)

lemma client_headers_ok:
  assumes "connectable u" "\<forall>p \<in> set ps. header_name p"
  shows "headers_ok (client_headers u ps rng)"
  using host_port_value [OF assms(1)] join_value [OF assms(2)]
  by (simp add: client_headers_def Let_def headers_ok_replace names_ok values_ok encode_value headers_ok_def [of "[]"])


lemma key_length: "length (raw_key rng) = 16" "length (base64_encode (raw_key rng)) = 24"
proof -
  show "length (raw_key rng) = 16" by (simp add: raw_key_def length_concat comp_def sum_list_triv)
  then show "length (base64_encode (raw_key rng)) = 24" by (simp add: encode_length)
qed

definition client_request :: "uri \<Rightarrow> string list \<Rightarrow> (nat \<Rightarrow> u32) \<Rightarrow> request" where
  "client_request u ps rng = request\<lparr>m_method := ''GET'', m_uri := m_resource u, m_version := ''HTTP/1.1'',
     m_headers := client_headers u ps rng\<rparr>"

text \<open>A client that is given a URI and subprotocols, before it starts and when it has sent its request.\<close>

definition client_of :: "uri \<Rightarrow> string list \<Rightarrow> (nat \<Rightarrow> u32) \<Rightarrow> (message \<Rightarrow> con_api list) \<Rightarrow> con_api list option \<Rightarrow> handshake" where
  "client_of u ps rng f on_open = (new_opening False rng f on_open)\<lparr>m_uri_ptr := u, m_requested_subprotocols := ps\<rparr>"

definition client_sent :: "uri \<Rightarrow> string list \<Rightarrow> (nat \<Rightarrow> u32) \<Rightarrow> handshake \<Rightarrow> handshake" where
  "client_sent u ps rng h = h\<lparr>
     con := (con h)\<lparr>m_internal_state := WRITE_HTTP_REQUEST, m_rng := (\<lambda>n. rng (n + 4)), m_handshake_timer := True,
       calls := [Transport_init, Set_open_timer 5000, Send_http_request (map byte (request_raw (client_request u ps rng)))]\<rparr>,
     m_version_of := Some 13, m_request := client_request u ps rng\<rparr>"

lemma client_handshake:
  "hybi13_client_handshake_request u ps rng request =
   Inr (request\<lparr>m_method := ''GET'', m_uri := m_resource u, m_version := ''HTTP/1.1'',
     m_headers := (let hs = replace_header ''Connection'' ''Upgrade'' (replace_header ''Upgrade'' ''websocket'' []);
          hs = replace_header ''Host'' (get_host_port u) (replace_header ''Sec-WebSocket-Version'' ''13'' hs);
          hs = (if ps \<noteq> [] then replace_header ''Sec-WebSocket-Protocol'' (join_subprotocols ps) hs else hs)
      in replace_header ''Sec-WebSocket-Key'' (base64_encode (raw_key rng)) hs)\<rparr>)"
proof -
  have "list_all is_token_char ''GET''" by (simp add: is_token_char_def header_token_def)
  then show ?thesis
    by (simp add: hybi13_client_handshake_request_def set_method_def request_def append_header_new names_ok header_laws
      deflate_is_implemented_def Let_def)
qed

lemma client_starts:
  "handle_transport_init No_error (start (client_of u ps rng f on_open)) = Inr (client_sent u ps rng (client_of u ps rng f on_open))"
  by (simp add: start_def handle_transport_init_def client_of_def new_opening_def established_def ask_def emit_def
    set_internal_def set_processor_def get_processor_def client_version_def send_http_request_def client_handshake of_http_def
    thrown_then_def client_sent_def client_request_def client_headers_def header_laws user_agent_def Let_def)

section \<open>A server accepts it\<close>

definition server_waits :: "handshake \<Rightarrow> handshake" where
  "server_waits h = h\<lparr>con := (con h)\<lparr>m_internal_state := READ_HTTP_REQUEST, m_handshake_timer := True,
     calls := [Transport_init, Set_open_timer 5000, Read_http_request]\<rparr>\<rparr>"

lemma server_starts:
  "handle_transport_init No_error (start (new_opening True rng f on_open)) = Inr (server_waits (new_opening True rng f on_open))"
  by (simp add: start_def handle_transport_init_def new_opening_def established_def ask_def emit_def
    set_internal_def read_handshake_def server_waits_def Let_def)


lemma rfind_none: "c \<notin> set s \<Longrightarrow> rfind c s = None"
  by (induction s) auto

lemma rfind_last: "c \<notin> set t \<Longrightarrow> rfind c (s @ c # t) = Some (length s)"
  by (induction s) (auto simp: rfind_none)

lemma server_uri_valid:
  assumes "connectable u" "get_header ''Host'' (m_headers r) = get_host_port u"
  shows "m_valid (hybi13_get_uri secure r)"
proof -
  have d: "CHR '':'' \<notin> set (nat_digits n)" "CHR '']'' \<notin> set (nat_digits n)" for n using digits_no_blank by blast+
  have "host_colon (get_host_port u) = (if m_port u = default_port u then None else Some (length (m_host u)))"
    using assms(1) d by (simp add: host_colon_def get_host_port_def connectable_def rfind_none rfind_last get_port_str_def)
  then show ?thesis
    using assms by (simp add: hybi13_get_uri_def get_uri_from_host_def get_host_port_def uri_with_host_def
      uri_with_port_text_def get_port_str_def port_digits connectable_def Let_def)
qed

definition server_headers :: "string \<Rightarrow> header_list" where
  "server_headers key = replace_header ''Server'' user_agent (replace_header ''Connection'' connection_token
     (replace_header ''Upgrade'' upgrade_token (replace_header ''Sec-WebSocket-Accept'' (process_handshake_key key) [])))"

definition server_response :: "string \<Rightarrow> response" where
  "server_response key = response\<lparr>m_version := ''HTTP/1.1'', m_headers := server_headers key, m_status_code := 101,
     m_status_msg := ''Switching Protocols''\<rparr>"

lemma server_answers:
  assumes "get_header ''Sec-WebSocket-Key'' (m_headers r) = key"
  shows "hybi13_process_handshake r [] (set_status 101 response) = Inr ((set_status 101 response)\<lparr>m_headers :=
    replace_header ''Connection'' connection_token
     (replace_header ''Upgrade'' upgrade_token (replace_header ''Sec-WebSocket-Accept'' (process_handshake_key key) []))\<rparr>)"
  using assms by (simp add: hybi13_process_handshake_def append_header_new names_ok header_laws set_status_def response_def Let_def)

lemma status_101: "status_string 101 = ''Switching Protocols''"
  by (simp add: status_string_def status_strings_def)

text \<open>A server whose user accepts every connection, with a complete request of a client.\<close>

definition client_asks :: "uri \<Rightarrow> (nat \<Rightarrow> u32) \<Rightarrow> request \<Rightarrow> bool" where
  "client_asks u rng r \<longleftrightarrow> m_ready r \<and> m_method r = ''GET'' \<and> m_version r = ''HTTP/1.1'' \<and>
     (\<exists>ps. m_headers r = client_headers u ps rng)"

lemma server_handshake:
  assumes "connectable u" "client_asks u rng r" "m_validate_handler h = None" "m_response h = response" "m_version_of h = Some 13"
    and "m_subprotocol h = []" "m_request h = r"
  shows "\<exists>ps. process_handshake_request h = Inr (No_error, h\<lparr>m_uri_ptr := hybi13_get_uri False r, m_requested_subprotocols := ps,
    m_response := (set_status 101 response)\<lparr>m_headers := replace_header ''Connection'' connection_token (replace_header ''Upgrade'' upgrade_token
      (replace_header ''Sec-WebSocket-Accept'' (process_handshake_key (base64_encode (raw_key rng))) []))\<rparr>\<rparr>)"
proof -
  obtain ps where hs: "m_headers r = client_headers u ps rng" and r: "m_ready r" "m_method r = ''GET''" "m_version r = ''HTTP/1.1''"
    using assms(2) by (auto simp: client_asks_def)
  have ws: "is_websocket_handshake r"
    by (simp add: is_websocket_handshake_def hs client_headers_values handshake_tokens Let_def
      del: ci_find_substr.simps)
  have key: "base64_encode (raw_key rng) \<noteq> []" using key_length(2) [of rng] by auto
  have v: "hybi13_validate_handshake r = No_error"
    using key by (simp add: hybi13_validate_handshake_def r hs client_headers_values)
  have n: "negotiate_extensions_helper (m_headers r) = (No_error, [])"
  proof -
    have "get_header_as_plist ''Sec-WebSocket-Extensions'' (m_headers r) [] = (False, [])"
      using client_headers_values(6) [of u ps rng]
      by (auto simp: get_header_as_plist_def get_header_def hs split: option.splits prod.splits)
    then show ?thesis by (simp add: negotiate_extensions_helper_def enable_extensions_def)
  qed
  have u: "m_valid (hybi13_get_uri False r)"
    using server_uri_valid [OF assms(1)] hs client_headers_values(4) by simp
  obtain e qs where e: "extract_subprotocols r (m_requested_subprotocols h) = (e, qs)" by (rule prod.exhaust)
  have a: "hybi13_process_handshake r [] (set_status 101 response) = Inr ((set_status 101 response)\<lparr>m_headers :=
    replace_header ''Connection'' connection_token (replace_header ''Upgrade'' upgrade_token
      (replace_header ''Sec-WebSocket-Accept'' (process_handshake_key (base64_encode (raw_key rng))) []))\<rparr>)"
    by (rule server_answers) (simp add: hs client_headers_values)
  have "process_handshake_request h = Inr (No_error, h\<lparr>m_uri_ptr := hybi13_get_uri False r, m_requested_subprotocols := qs,
    m_response := (set_status 101 response)\<lparr>m_headers := replace_header ''Connection'' connection_token (replace_header ''Upgrade'' upgrade_token
      (replace_header ''Sec-WebSocket-Accept'' (process_handshake_key (base64_encode (raw_key rng))) []))\<rparr>\<rparr>)"
    using assms(3-7) u
    by (simp add: process_handshake_request_def ws processor_validate_handshake_def v processor_negotiate_extensions_def n
      processor_get_uri_def transport_is_secure_def e run_validate_handler_def thrown_then_def processor_process_handshake_def
      a of_http_def Let_def)
  then show ?thesis by blast
qed


text \<open>The room a request takes.\<close>

definition request_room :: "uri \<Rightarrow> string list \<Rightarrow> nat" where
  "request_room u ps = length (m_resource u) + length (get_host_port u) + length (join_subprotocols ps)"

lemma client_headers_count:
  assumes "connectable u" "\<forall>p \<in> set ps. header_name p"
  shows "headers_count (client_headers u ps rng) \<le> 200 + length (get_host_port u) + length (join_subprotocols ps)"
proof -
  note ok = headers_ok_replace names_ok values_ok encode_value host_port_value(1) [OF assms(1)] join_value [OF assms(2), THEN conjunct1]
  define h1 where "h1 = replace_header ''Upgrade'' ''websocket'' []"
  define h2 where "h2 = replace_header ''Connection'' ''Upgrade'' h1"
  define h3 where "h3 = replace_header ''Sec-WebSocket-Version'' ''13'' h2"
  define h4 where "h4 = replace_header ''Host'' (get_host_port u) h3"
  define h5 where "h5 = (if ps \<noteq> [] then replace_header ''Sec-WebSocket-Protocol'' (join_subprotocols ps) h4 else h4)"
  define h6 where "h6 = replace_header ''Sec-WebSocket-Key'' (base64_encode (raw_key rng)) h5"
  have o1: "headers_ok h1" unfolding h1_def by (intro ok) (simp add: headers_ok_def)
  have o2: "headers_ok h2" unfolding h2_def by (intro ok o1)
  have o3: "headers_ok h3" unfolding h3_def by (intro ok o2)
  have o4: "headers_ok h4" unfolding h4_def by (intro ok o3)
  have o5: "headers_ok h5" unfolding h5_def using ok o4 by simp
  have o6: "headers_ok h6" unfolding h6_def by (intro ok o5)
  have c1: "headers_count h1 \<le> 21"
    using headers_count_replace [of "[]" "''Upgrade''" "''websocket''"]
    unfolding h1_def by (simp add: headers_ok_def headers_count_def names_ok)
  have c2: "headers_count h2 \<le> headers_count h1 + 22"
    using headers_count_replace [OF o1 names_ok(2), of "''Upgrade''"] unfolding h2_def by simp
  have c3: "headers_count h3 \<le> headers_count h2 + 28"
    using headers_count_replace [OF o2 names_ok(3), of "''13''"] unfolding h3_def by simp
  have c4: "headers_count h4 \<le> headers_count h3 + length (get_host_port u) + 9"
    using headers_count_replace [OF o3 names_ok(4), of "get_host_port u"] unfolding h4_def by simp
  have c5: "headers_count h5 \<le> headers_count h4 + length (join_subprotocols ps) + 27"
    using headers_count_replace [OF o4 names_ok(5), of "join_subprotocols ps"] unfolding h5_def by simp
  have c6: "headers_count h6 \<le> headers_count h5 + 46"
    using headers_count_replace [OF o5 names_ok(6), of "base64_encode (raw_key rng)"]
    unfolding h6_def by (simp add: key_length)
  have "client_headers u ps rng = replace_header ''User-Agent'' user_agent h6"
    by (simp add: client_headers_def h6_def h5_def h4_def h3_def h2_def h1_def Let_def)
  then have "headers_count (client_headers u ps rng) \<le> headers_count h6 + 32"
    using headers_count_replace [OF o6 names_ok(7), of user_agent] by (simp add: user_agent_def)
  then show ?thesis using c1 c2 c3 c4 c5 c6 by linarith
qed

lemma client_request_ok:
  assumes "connectable u" "\<forall>p \<in> set ps. header_name p" "request_room u ps \<le> 15700"
  shows "request_ok (client_request u ps rng)"
proof -
  have "header_name ''GET''" by (simp add: header_name_def is_token_char_def header_token_def)
  then show ?thesis
    using assms client_headers_ok [OF assms(1,2), of rng] client_headers_count [OF assms(1,2), of rng] host_port_value [OF assms(1)]
      client_headers_values [of u ps rng]
    by (simp add: request_ok_def client_request_def connectable_def body_ok_def request_def request_room_def max_header_size_def CR_def)
qed

lemma server_accepts:
  assumes "connectable u" "\<forall>p \<in> set ps. header_name p" "request_room u ps \<le> 15700"
  shows "\<exists>s. handle_read_handshake No_error (map byte (request_raw (client_request u ps rng)))
      (server_waits (new_opening True srng f on_open)) = Inr s \<and>
    m_response s = server_response (base64_encode (raw_key rng)) \<and> \<not> m_is_http s \<and> m_buf_rest s = [] \<and> m_open_handler s = on_open \<and>
    con s = (con (server_waits (new_opening True srng f on_open)))\<lparr>m_internal_state := PROCESS_HTTP_REQUEST, m_ec := No_error,
      calls := [Transport_init, Set_open_timer 5000, Read_http_request,
        Write_http_response (map byte (response_raw (server_response (base64_encode (raw_key rng)))))]\<rparr>"
proof -
  let ?raw = "request_raw (client_request u ps rng)"
  let ?h = "server_waits (new_opening True srng f on_open)"
  have ok: "request_ok (client_request u ps rng)" by (rule client_request_ok [OF assms])
  then have len: "length ?raw \<le> connection_read_buffer_size"
    using request_raw_length [OF ok] by (simp add: max_header_size_def connection_read_buffer_size_def client_request_def request_def)
  obtain r where r: "request_consume ?raw request = Inr (length ?raw, r)" "m_ready r" "m_method r = ''GET''"
      "m_version r = ''HTTP/1.1''" "m_headers r = client_headers u ps rng"
    using request_reads_back [OF ok, of "[]"] by (auto simp: client_request_def)
  then have asks: "client_asks u rng r" by (auto simp: client_asks_def)
  define h1 where "h1 = set_internal PROCESS_HTTP_REQUEST ((set_processor (Some 13) (?h\<lparr>m_request := r\<rparr>))\<lparr>m_buf_rest := []\<rparr>)"
  have "is_websocket_handshake r" "get_websocket_version r = 13"
    using r by (simp_all add: is_websocket_handshake_def get_websocket_version_def client_headers_values handshake_tokens
      del: ci_find_substr.simps)
  then have i: "initialize_processor (?h\<lparr>m_request := r\<rparr>) = (No_error, set_processor (Some 13) (?h\<lparr>m_request := r\<rparr>))"
    by (simp add: initialize_processor_def server_waits_def get_processor_def Let_def)
  obtain qs where p: "process_handshake_request h1 = Inr (No_error, h1\<lparr>m_uri_ptr := hybi13_get_uri False r, m_requested_subprotocols := qs,
    m_response := (set_status 101 response)\<lparr>m_headers := replace_header ''Connection'' connection_token (replace_header ''Upgrade'' upgrade_token
      (replace_header ''Sec-WebSocket-Accept'' (process_handshake_key (base64_encode (raw_key rng))) []))\<rparr>\<rparr>)"
    using server_handshake [OF assms(1) asks, of h1]
    by (auto simp: h1_def set_internal_def set_processor_def server_waits_def new_opening_def)
  define s where "s = write_http_response No_error (h1\<lparr>m_uri_ptr := hybi13_get_uri False r, m_requested_subprotocols := qs,
    m_response := (set_status 101 response)\<lparr>m_headers := replace_header ''Connection'' connection_token (replace_header ''Upgrade'' upgrade_token
      (replace_header ''Sec-WebSocket-Accept'' (process_handshake_key (base64_encode (raw_key rng))) []))\<rparr>\<rparr>)"
  have c: "check_state READ_HTTP_REQUEST No_error ?h = Some No_error"
    by (simp add: check_state_def server_waits_def new_opening_def established_def)
  have h: "m_request ?h = request" "m_response ?h = response" "m_version_of (set_processor v x) = v" for v x
    by (simp_all add: server_waits_def new_opening_def set_processor_def)
  have http: "\<not> m_is_http h1"
    by (simp add: h1_def set_internal_def set_processor_def server_waits_def new_opening_def)
  have "handle_read_handshake No_error (map byte ?raw) ?h = request_ready [] (?h\<lparr>m_request := r\<rparr>)"
    using len r by (simp add: handle_read_handshake_def c comp_def h)
  also have "\<dots> = process_request [] (set_processor (Some 13) (?h\<lparr>m_request := r\<rparr>))"
    by (simp add: request_ready_def i h)
  also have "\<dots> = Inr s"
    using p http by (simp add: process_request_def h1_def [symmetric] thrown_then_def s_def)
  finally have "handle_read_handshake No_error (map byte ?raw) ?h = Inr s" .
  moreover have "m_response s = server_response (base64_encode (raw_key rng)) \<and> \<not> m_is_http s \<and> m_buf_rest s = [] \<and> m_open_handler s = on_open \<and>
    con s = (con ?h)\<lparr>m_internal_state := PROCESS_HTTP_REQUEST, m_ec := No_error,
      calls := [Transport_init, Set_open_timer 5000, Read_http_request,
        Write_http_response (map byte (response_raw (server_response (base64_encode (raw_key rng)))))]\<rparr>"
    by (simp add: s_def write_http_response_def h1_def set_internal_def set_processor_def server_waits_def new_opening_def
      set_status_def response_def established_def header_laws user_agent_def server_response_def server_headers_def status_101
      ask_def emit_def Let_def)
  ultimately show ?thesis by blast
qed


section \<open>The client accepts the answer\<close>

lemma server_headers_values:
  "get_header ''Upgrade'' (server_headers key) = ''websocket''"
  "get_header ''Connection'' (server_headers key) = ''upgrade''"
  "get_header ''Sec-WebSocket-Accept'' (server_headers key) = process_handshake_key key"
  "get_header ''Sec-WebSocket-Extensions'' (server_headers key) = []"
  "get_header ''Content-Length'' (server_headers key) = []"
  by (simp_all add: server_headers_def header_laws upgrade_token_def connection_token_def)

lemma accept_value: "header_value (process_handshake_key key)" "length (process_handshake_key key) = 28"
  by (simp_all add: process_handshake_key_def encode_value encode_length calc_def Let_def case_prod_unfold)

lemma server_headers_ok: "headers_ok (server_headers key)"
  and server_headers_count: "headers_count (server_headers key) \<le> 124"
proof -
  note ok = headers_ok_replace names_ok values_ok accept_value(1)
  define h1 where "h1 = replace_header ''Sec-WebSocket-Accept'' (process_handshake_key key) []"
  define h2 where "h2 = replace_header ''Upgrade'' ''websocket'' h1"
  define h3 where "h3 = replace_header ''Connection'' ''upgrade'' h2"
  have o1: "headers_ok h1" unfolding h1_def by (intro ok) (simp add: headers_ok_def)
  have o2: "headers_ok h2" unfolding h2_def by (intro ok o1)
  have o3: "headers_ok h3" unfolding h3_def by (intro ok o2)
  have c1: "headers_count h1 \<le> 53"
    using headers_count_replace [of "[]" "''Sec-WebSocket-Accept''" "process_handshake_key key"]
    unfolding h1_def by (simp add: headers_ok_def headers_count_def names_ok accept_value)
  have c2: "headers_count h2 \<le> headers_count h1 + 21"
    using headers_count_replace [OF o1 names_ok(1), of "''websocket''"] unfolding h2_def by simp
  have c3: "headers_count h3 \<le> headers_count h2 + 22"
    using headers_count_replace [OF o2 names_ok(2), of "''upgrade''"] unfolding h3_def by simp
  have s: "server_headers key = replace_header ''Server'' user_agent h3"
    by (simp add: server_headers_def h3_def h2_def h1_def upgrade_token_def connection_token_def)
  have "headers_count (server_headers key) \<le> headers_count h3 + 28"
    using headers_count_replace [OF o3 names_ok(9), of user_agent] by (simp add: s user_agent_def)
  then show "headers_count (server_headers key) \<le> 124" using c1 c2 c3 by simp
  show "headers_ok (server_headers key)" unfolding s by (intro ok o3)
qed

lemma server_response_ok: "response_ok (server_response key)"
proof -
  have "nat_digits 101 = ''101''" by code_simp
  then show ?thesis using server_headers_ok [of key] server_headers_count [of key] server_headers_values [of key]
    by (simp add: response_ok_def server_response_def response_def body_ok_def max_header_size_def CR_def)
qed

text \<open>The response to the client's key is valid, and offers no extensions.\<close>

lemma client_validates:
  assumes "m_status_code a = 101" "m_headers a = server_headers (get_header ''Sec-WebSocket-Key'' (m_headers q))"
  shows "hybi13_validate_server_handshake_response q a = No_error" "negotiate_extensions_helper (m_headers a) = (No_error, [])"
proof -
  show "hybi13_validate_server_handshake_response q a = No_error"
    using assms by (simp add: hybi13_validate_server_handshake_response_def server_headers_values handshake_tokens Let_def
      del: ci_find_substr.simps)
  have "get_header_as_plist ''Sec-WebSocket-Extensions'' (m_headers a) [] = (False, [])"
    using server_headers_values(4) [of "get_header ''Sec-WebSocket-Key'' (m_headers q)"] assms(2)
    by (auto simp: get_header_as_plist_def get_header_def split: option.splits prod.splits)
  then show "negotiate_extensions_helper (m_headers a) = (No_error, [])"
    by (simp add: negotiate_extensions_helper_def enable_extensions_def)
qed

lemma client_opens:
  assumes c_def: "c = client_sent u ps rng (client_of u ps rng f None)"
    and res_def: "res = map byte (response_raw (server_response (base64_encode (raw_key rng))))"
  shows "\<exists>c'. handle_read_http_response No_error (res @ frames) (handle_send_http_request No_error c) = (c', True) \<and>
    m_buf_rest c' = frames \<and>
    con c' = (con c)\<lparr>m_internal_state := PROCESS_CONNECTION, session := session_open, m_handshake_timer := False,
      calls := calls (con c) @ [Read_http_response, Cancel_timer]\<rparr>"
proof -
  let ?a = "server_response (base64_encode (raw_key rng))"
  define c1 where "c1 = handle_send_http_request No_error c"
  have c: "session (con c) = connecting" "m_internal_state (con c) = WRITE_HTTP_REQUEST" "m_response c = response"
    "m_handshake_timer (con c)" "m_request c = client_request u ps rng" "m_open_handler c = None"
    by (simp_all add: c_def client_sent_def client_of_def new_opening_def established_def)
  have c1: "c1 = ask Read_http_response (set_internal READ_HTTP_RESPONSE c)"
    using c by (simp add: c1_def handle_send_http_request_def check_state_def)
  obtain a where a: "response_consume (response_raw ?a @ map unbyte frames) response = Inr (length (response_raw ?a), a)"
      "headers_ready a" "m_status_code a = 101" "m_headers a = server_headers (base64_encode (raw_key rng))"
    using response_reads_back [OF server_response_ok, of "base64_encode (raw_key rng)" "map unbyte frames"]
    by (auto simp: server_response_def)
  have key: "get_header ''Sec-WebSocket-Key'' (m_headers (m_request c)) = base64_encode (raw_key rng)"
    by (simp add: c client_request_def client_headers_values)
  note v = client_validates [OF a(3), of "m_request c", unfolded key, OF a(4)]
  have f: "session (con c1) = connecting" "m_internal_state (con c1) = READ_HTTP_RESPONSE" "m_response c1 = response"
    "m_request c1 = m_request c" "m_handshake_timer (con c1)" "m_open_handler c1 = None"
    using c by (simp_all add: c1 ask_def set_internal_def emit_def)
  have "handle_read_http_response No_error (res @ frames) c1 = response_ready frames (c1\<lparr>m_response := a\<rparr>)"
    using a f by (simp add: handle_read_http_response_def check_state_def res_def comp_def)
  also have "\<dots> = ((set_open (cancel_handshake_timer (c1\<lparr>m_response := a\<rparr>)))\<lparr>m_buf_rest := frames\<rparr>, True)"
    using v f by (simp add: response_ready_def cancel_handshake_timer_def)
  finally show ?thesis
    using c f unfolding c1_def [symmetric]
    by (simp add: set_open_def cancel_handshake_timer_def c1 ask_def set_internal_def emit_def)
qed

lemma server_opens:
  assumes "con s = (con (server_waits (new_opening True rng f None)))\<lparr>m_internal_state := PROCESS_HTTP_REQUEST, m_ec := No_error, calls := cs\<rparr>"
    and "m_response s = server_response key" "m_open_handler s = None" "m_buf_rest s = []"
  shows "\<exists>s'. handle_write_http_response No_error s = (s', True) \<and> m_buf_rest s' = [] \<and>
    con s' = (con s)\<lparr>m_internal_state := PROCESS_CONNECTION, session := session_open, m_handshake_timer := False,
      calls := cs @ [Cancel_timer]\<rparr>"
  using assms
  by (simp add: handle_write_http_response_def check_state_def server_waits_def new_opening_def established_def
    server_response_def cancel_handshake_timer_def emit_def set_open_def)

text \<open>A connection as the machine of the open connection starts with, but for what it has done.\<close>

definition opened_fresh :: "bool \<Rightarrow> connection \<Rightarrow> bool" where
  "opened_fresh server c \<longleftrightarrow> fresh (c\<lparr>calls := []\<rparr>) \<and> m_internal_state c = PROCESS_CONNECTION \<and> m_is_server c = server \<and>
     m_processor c = hybi13 server 32000000 \<and> \<not> m_handshake_timer c"

lemma handshake_ends_open:
  assumes "connectable u" "\<forall>p \<in> set ps. header_name p" "request_room u ps \<le> 15700"
  shows "\<exists>c s0 s s' c' req res.
    handle_transport_init No_error (start (client_of u ps rng cf None)) = Inr c \<and>
    last (calls (con c)) = Send_http_request req \<and>
    handle_transport_init No_error (start (new_opening True srng sf None)) = Inr s0 \<and>
    handle_read_handshake No_error req s0 = Inr s \<and> last (calls (con s)) = Write_http_response res \<and>
    handle_write_http_response No_error s = (s', True) \<and> opened_fresh True (con s') \<and> m_buf_rest s' = [] \<and>
    handle_read_http_response No_error (res @ frames) (handle_send_http_request No_error c) = (c', True) \<and>
    opened_fresh False (con c') \<and> m_buf_rest c' = frames"
proof -
  define c where "c = client_sent u ps rng (client_of u ps rng cf None)"
  define req where "req = map byte (request_raw (client_request u ps rng))"
  define res where "res = map byte (response_raw (server_response (base64_encode (raw_key rng))))"
  obtain s where s: "handle_read_handshake No_error req (server_waits (new_opening True srng sf None)) = Inr s"
      "m_response s = server_response (base64_encode (raw_key rng))" "m_buf_rest s = []" "m_open_handler s = None"
      "con s = (con (server_waits (new_opening True srng sf None)))\<lparr>m_internal_state := PROCESS_HTTP_REQUEST, m_ec := No_error,
        calls := [Transport_init, Set_open_timer 5000, Read_http_request, Write_http_response res]\<rparr>"
    using server_accepts [OF assms, of rng srng sf None] unfolding req_def res_def by blast
  obtain s' where s': "handle_write_http_response No_error s = (s', True)" "m_buf_rest s' = []"
      "con s' = (con s)\<lparr>m_internal_state := PROCESS_CONNECTION, session := session_open, m_handshake_timer := False,
        calls := [Transport_init, Set_open_timer 5000, Read_http_request, Write_http_response res] @ [Cancel_timer]\<rparr>"
    using server_opens [OF s(5,2,4,3)] by blast
  obtain c' where c': "handle_read_http_response No_error (res @ frames) (handle_send_http_request No_error c) = (c', True)"
      "m_buf_rest c' = frames" "con c' = (con c)\<lparr>m_internal_state := PROCESS_CONNECTION, session := session_open,
        m_handshake_timer := False, calls := calls (con c) @ [Read_http_response, Cancel_timer]\<rparr>"
    using client_opens [OF c_def res_def, of frames] by blast
  have "opened_fresh True (con s')" "opened_fresh False (con c')"
    by (simp_all add: opened_fresh_def s'(3) s(5) c'(3) c_def fresh_def client_sent_def client_of_def server_waits_def
      new_opening_def established_def)
  moreover have "last (calls (con c)) = Send_http_request req" "last (calls (con s)) = Write_http_response res"
    by (simp_all add: c_def client_sent_def req_def s(5))
  ultimately show ?thesis
    using client_starts [of u ps rng cf None, folded c_def] server_starts [of srng sf None] s(1) s'(1,2) c'(1,2) by blast
qed

text \<open>C5: The opening handshake of a client and a server completes: the request the client sends is accepted, the
  response the server writes is valid for the client's key, and both connections end open, with nothing queued,
  reading frames, the client's from the bytes that follow the response. So it is for every URI whose host,
  resource and port fit a request line and for every list of subprotocols, within the size limit of a request.\<close>

theorem handshake_completes:
  assumes "connectable u" "\<forall>p \<in> set ps. header_name p" "request_room u ps \<le> 15700"
  shows "\<exists>c s0 s s' c' req res.
    handle_transport_init No_error (start (client_of u ps rng cf None)) = Inr c \<and>
    last (calls (con c)) = Send_http_request req \<and>
    handle_transport_init No_error (start (new_opening True srng sf None)) = Inr s0 \<and>
    handle_read_handshake No_error req s0 = Inr s \<and> last (calls (con s)) = Write_http_response res \<and>
    handle_write_http_response No_error s = (s', True) \<and> opened_fresh True (con s') \<and> m_buf_rest s' = [] \<and>
    handle_read_http_response No_error (res @ frames) (handle_send_http_request No_error c) = (c', True) \<and>
    opened_fresh False (con c') \<and> m_buf_rest c' = frames"
  by (rule handshake_ends_open [OF assms])

section \<open>Refused requests\<close>

text \<open>A request that does not parse is answered with its status, and no reason: the exceptions of the parser
  carry none.\<close>

lemma refused_without_reason:
  assumes "check_state READ_HTTP_REQUEST No_error h = Some No_error" "length buf \<le> connection_read_buffer_size"
    and "request_consume (map unbyte buf) (m_request h) = Inl (msg, n)" "n \<noteq> 0"
  shows "\<exists>h'. handle_read_handshake No_error buf h = Inr h' \<and> m_status_code (m_response h') = int n \<and>
    m_status_msg (m_response h') = [] \<and> m_ec (con h') = Library http_parse_error"
proof -
  have "m_internal_state (con h) = READ_HTTP_REQUEST"
    using assms(1) by (auto simp: check_state_def Let_def split: if_splits)
  then show ?thesis
    using assms by (simp add: handle_read_handshake_def write_http_response_error_def set_internal_def write_http_response_def
      set_status_msg_def ask_def emit_def Let_def)
qed

text \<open>A version that is not spoken is refused with those that are.\<close>

lemma unsupported_version_refused:
  assumes "is_websocket_handshake (m_request h)" "get_websocket_version (m_request h) = v" "0 \<le> v" "v \<notin> {0, 7, 8, 13}"
  shows "\<exists>h'. initialize_processor h = (Library unsupported_version, h') \<and> m_status_code (m_response h') = 400 \<and>
    get_header ''Sec-WebSocket-Version'' (m_headers (m_response h')) = ''0,7,8,13''"
proof -
  have "versions_text = ''0,7,8,13''" by code_simp
  then show ?thesis
    using assms by (simp add: initialize_processor_def get_processor_def set_status_def get_header_replace Let_def)
qed

section \<open>What opens a connection\<close>

text \<open>C13: A client opens only on an answer to its own key: whenever reading a response ends in going on to frames,
  the read succeeded, the response has the status 101, names the protocol, and carries the hash of the key the
  client sent.\<close>

theorem client_opens_only_if_accepted:
  assumes "handle_read_http_response ec buf h = (h', True)"
  shows "ec = No_error \<and> session (con h) = connecting \<and> m_internal_state (con h) = READ_HTTP_RESPONSE \<and>
    (\<exists>n a. response_consume (map unbyte buf) (m_response h) = Inr (n, a) \<and> m_status_code a = 101 \<and>
      ci_find_substr (get_header ''Upgrade'' (m_headers a)) upgrade_token \<and>
      ci_find_substr (get_header ''Connection'' (m_headers a)) connection_token \<and>
      get_header ''Sec-WebSocket-Accept'' (m_headers a) =
        process_handshake_key (get_header ''Sec-WebSocket-Key'' (m_headers (m_request h))) \<and> m_buf_rest h' = drop n buf)"
proof -
  have k: "check_state READ_HTTP_RESPONSE ec h = Some No_error"
    using assms by (auto simp: handle_read_http_response_def split: option.splits if_splits)
  then obtain n a where a: "response_consume (map unbyte buf) (m_response h) = Inr (n, a)"
    using assms by (auto simp: handle_read_http_response_def split: sum.splits)
  have r: "response_ready (drop n buf) (h\<lparr>m_response := a\<rparr>) = (h', True)"
    using assms k a by (auto simp: handle_read_http_response_def Let_def split: if_splits)
  have v: "hybi13_validate_server_handshake_response (m_request h) a = No_error"
    using r by (auto simp: response_ready_def cancel_handshake_timer_def Let_def split: if_splits)
  then have "m_buf_rest h' = drop n buf"
    using r by (auto simp: response_ready_def cancel_handshake_timer_def Let_def split: prod.splits if_splits)
  then show ?thesis
    using k a v by (auto simp: check_state_def hybi13_validate_server_handshake_response_def Let_def split: if_splits)
qed

text \<open>A client that waits for the response to its request.\<close>

definition waiting :: "handshake \<Rightarrow> bool" where
  "waiting h \<longleftrightarrow> session (con h) = connecting \<and> m_internal_state (con h) = READ_HTTP_RESPONSE"

text \<open>A response whose extensions do not parse ends the connection and opens it all the same: the shutdown of
  the transport is asked for and the error is recorded, then the state is set to open and frames are read.\<close>

theorem failed_negotiation_opens:
  assumes "waiting h" "m_open_handler h = None" "\<not> m_is_http h"
    and "response_consume (map unbyte buf) (m_response h) = Inr (n, a)" "headers_ready a"
    and "hybi13_validate_server_handshake_response (m_request h) a = No_error"
    and "fst (negotiate_extensions_helper (m_headers a)) \<noteq> No_error"
  shows "\<exists>h'. handle_read_http_response No_error buf h = (h', True) \<and> session (con h') = session_open \<and>
    m_ec (con h') = Library extension_neg_failed \<and> Async_shutdown failed \<in> set (calls (con h'))"
proof -
  obtain e s where n: "negotiate_extensions_helper (m_headers a) = (e, s)" "e \<noteq> No_error"
    using assms(7) by (cases "negotiate_extensions_helper (m_headers a)") auto
  show ?thesis
    using assms n
    by (auto simp: waiting_def handle_read_http_response_def check_state_def response_ready_def cancel_handshake_timer_def
      terminate_opening_def terminate_def set_open_def emit_def Let_def)
qed


section \<open>Concrete handshakes\<close>

definition sample_uri :: uri where
  "sample_uri = uri_of_port False ''kvdn.org'' 80 ''/bus/websocket''"

lemma sample_uri_ok: "connectable sample_uri" "request_room sample_uri [] \<le> 15700"
proof -
  have h: "get_host_port sample_uri = ''kvdn.org''"
    by (simp add: get_host_port_def sample_uri_def uri_of_port_def default_port_def uri_default_port_def)
  show "connectable sample_uri"
    by (simp add: connectable_def sample_uri_def uri_of_port_def header_value_def is_whitespace_char_def CR_def)
  show "request_room sample_uri [] \<le> 15700"
    by (simp add: request_room_def h) (simp add: sample_uri_def uri_of_port_def)
qed

text \<open>A client at this URI that has sent its request.\<close>

definition sample_client :: handshake where
  "sample_client = client_sent sample_uri [] (\<lambda>_. 0) (client_of sample_uri [] (\<lambda>_. 0) (\<lambda>_. []) None)"

theorem handshake_completes_witness:
  "\<exists>c s0 s s' c' req res.
    handle_transport_init No_error (start (client_of sample_uri [] (\<lambda>_. 0) (\<lambda>_. []) None)) = Inr c \<and>
    last (calls (con c)) = Send_http_request req \<and>
    handle_transport_init No_error (start (new_opening True (\<lambda>_. 0) (\<lambda>_. []) None)) = Inr s0 \<and>
    handle_read_handshake No_error req s0 = Inr s \<and> last (calls (con s)) = Write_http_response res \<and>
    handle_write_http_response No_error s = (s', True) \<and> opened_fresh True (con s') \<and> m_buf_rest s' = [] \<and>
    handle_read_http_response No_error (res @ [0x81, 0]) (handle_send_http_request No_error c) = (c', True) \<and>
    opened_fresh False (con c') \<and> m_buf_rest c' = [0x81, 0]"
  by (rule handshake_completes) (simp_all add: sample_uri_ok)

definition sample_answer :: "u8 list" where
  "sample_answer = map byte (response_raw (server_response (base64_encode (raw_key (\<lambda>_. 0)))))"

theorem client_opens_only_if_accepted_witness:
  "\<exists>h' n a. handle_read_http_response No_error sample_answer (handle_send_http_request No_error sample_client) = (h', True) \<and>
    response_consume (map unbyte sample_answer) (m_response (handle_send_http_request No_error sample_client)) = Inr (n, a) \<and>
    m_status_code a = 101"
proof -
  obtain h' where h': "handle_read_http_response No_error (sample_answer @ []) (handle_send_http_request No_error sample_client) = (h', True)"
    using client_opens [OF sample_client_def sample_answer_def, of "[]"] by blast
  then have "handle_read_http_response No_error sample_answer (handle_send_http_request No_error sample_client) = (h', True)" by simp
  from this client_opens_only_if_accepted [OF this] show ?thesis by blast
qed

text \<open>The answer of a server whose header of extensions is a lone semicolon.\<close>

definition bad_response :: response where
  "bad_response = (server_response (base64_encode (raw_key (\<lambda>_. 0))))\<lparr>m_headers :=
     replace_header ''Sec-WebSocket-Extensions'' '';'' (server_headers (base64_encode (raw_key (\<lambda>_. 0))))\<rparr>"

lemma bad_response_ok: "response_ok bad_response"
proof -
  let ?key = "base64_encode (raw_key (\<lambda>_. 0))"
  let ?hs = "replace_header ''Sec-WebSocket-Extensions'' '';'' (server_headers ?key)"
  have n: "header_name ''Sec-WebSocket-Extensions''"
    by (simp add: header_name_def is_token_char_def header_token_def)
  have ok: "response_ok (server_response ?key)" by (rule server_response_ok)
  then have hs: "headers_ok (server_headers ?key)" by (simp add: response_ok_def server_response_def)
  have v: "header_value '';''" by (simp add: header_value_def is_whitespace_char_def CR_def)
  have "headers_count ?hs \<le> headers_count (server_headers ?key) + 30"
    using headers_count_replace [OF hs n, of "'';''"] by simp
  moreover have "headers_count (server_headers ?key) \<le> 124" by (rule server_headers_count)
  moreover have "nat_digits 101 = ''101''" by code_simp
  moreover have "get_header ''Content-Length'' ?hs = []" by (simp add: header_laws server_headers_values)
  ultimately show ?thesis
    using headers_ok_replace [OF hs n v]
    by (simp add: response_ok_def bad_response_def server_response_def response_def body_ok_def max_header_size_def CR_def)
qed

theorem failed_negotiation_opens_witness:
  "\<exists>h'. handle_read_http_response No_error (map byte (response_raw bad_response)) (handle_send_http_request No_error sample_client) = (h', True) \<and>
    session (con h') = session_open \<and> m_ec (con h') = Library extension_neg_failed \<and> Async_shutdown failed \<in> set (calls (con h'))"
proof -
  let ?h = "handle_send_http_request No_error sample_client"
  have h: "waiting ?h" "m_open_handler ?h = None" "\<not> m_is_http ?h" "m_response ?h = response"
    "m_headers (m_request ?h) = client_headers sample_uri [] (\<lambda>_. 0)"
    by (simp_all add: waiting_def handle_send_http_request_def check_state_def sample_client_def client_sent_def client_of_def
      new_opening_def established_def ask_def set_internal_def emit_def client_request_def)
  obtain a where a: "response_consume (response_raw bad_response) response = Inr (length (response_raw bad_response), a)"
      "headers_ready a" "m_status_code a = 101" "m_headers a = m_headers bad_response"
    using response_reads_back [OF bad_response_ok, of "[]"] by (auto simp: bad_response_def server_response_def)
  have v: "hybi13_validate_server_handshake_response (m_request ?h) a = No_error"
    using a h(5) by (simp add: hybi13_validate_server_handshake_response_def bad_response_def header_laws server_headers_values
      handshake_tokens client_headers_values Let_def del: ci_find_substr.simps)
  have "fst (parse_parameter_list '';'' [])" by code_simp
  moreover have "omap_find (m_headers bad_response) ''sec-websocket-extensions'' \<noteq> None"
    by (simp add: bad_response_def replace_header_def omap_find_insert lower_names Let_def)
  moreover have "get_header ''Sec-WebSocket-Extensions'' (m_headers bad_response) = '';''"
    by (simp add: bad_response_def header_laws)
  ultimately have "fst (negotiate_extensions_helper (m_headers a)) \<noteq> No_error"
    by (auto simp: a(4) negotiate_extensions_helper_def get_header_as_plist_def get_header_def enable_extensions_def lower_names
      split: prod.splits)
  from failed_negotiation_opens [OF h(1-3) _ a(2) v this, of "map byte (response_raw bad_response)" "length (response_raw bad_response)"] a(1) h(4)
  show ?thesis by (simp add: comp_def)
qed

end
