(* ===== verification/Ws_Endpoint.thy ===== *)
theory Ws_Endpoint
  imports Ws_Opening_Laws
begin

text \<open>
  The endpoint that makes connections and keeps what they have in common
  (Client/cpp/websocketpp/websocketpp/endpoint.hpp, impl/endpoint_impl.hpp), and its role as a client
  (roles/client_endpoint.hpp): from the text of a URI to a connection that starts.
\<close>

section \<open>The endpoint\<close>

record endpoint =
  ep_is_server :: bool
  ep_user_agent :: string
  ep_open_handshake_timeout_dur :: int
  ep_close_handshake_timeout_dur :: int
  ep_pong_timeout_dur :: int
  ep_max_message_size :: u64
  ep_max_http_body_size :: nat
  ep_open_handler :: "con_api list option"
  ep_ping_handler :: "(u8 list \<Rightarrow> bool) option"
  ep_pong_handler :: bool
  ep_pong_timeout_handler :: bool
  ep_http_handler :: "(request \<Rightarrow> opening_api list) option"
  ep_validate_handler :: "(request \<Rightarrow> string list \<Rightarrow> opening_api list \<times> bool) option"
  ep_message_handler :: "message \<Rightarrow> con_api list"

definition timeout_open_handshake :: int where "timeout_open_handshake = 5000"
definition timeout_close_handshake :: int where "timeout_close_handshake = 5000"
definition timeout_pong :: int where "timeout_pong = 5000"
definition max_message_size :: u64 where "max_message_size = 32000000"

definition endpoint :: "bool \<Rightarrow> endpoint" where
  "endpoint server =
     \<lparr>ep_is_server = server, ep_user_agent = user_agent, ep_open_handshake_timeout_dur = timeout_open_handshake,
      ep_close_handshake_timeout_dur = timeout_close_handshake, ep_pong_timeout_dur = timeout_pong,
      ep_max_message_size = max_message_size, ep_max_http_body_size = max_body_size, ep_open_handler = None,
      ep_ping_handler = None, ep_pong_handler = False, ep_pong_timeout_handler = False, ep_http_handler = None,
      ep_validate_handler = None, ep_message_handler = (\<lambda>_. [])\<rparr>"

text \<open>A connection with the handlers and the settings of its endpoint, when its transport is initialised.\<close>

definition create_connection :: "endpoint \<Rightarrow> (nat \<Rightarrow> masking_key) \<Rightarrow> error_code \<Rightarrow> handshake option" where
  "create_connection ep rng init_ec =
     (let h = (new_opening (ep_is_server ep) rng (\<lambda>_. []) None)\<lparr>m_user_agent := ep_user_agent ep\<rparr>;
          h = h\<lparr>m_open_handler := ep_open_handler ep, m_http_handler := ep_http_handler ep,
            m_validate_handler := ep_validate_handler ep,
            con := (con h)\<lparr>m_ping_handler := ep_ping_handler ep, m_pong_handler := ep_pong_handler ep,
              m_pong_timeout_handler := ep_pong_timeout_handler ep, m_message_handler := ep_message_handler ep\<rparr>\<rparr>;
          h = (if ep_open_handshake_timeout_dur ep \<noteq> timeout_open_handshake
               then h\<lparr>m_open_handshake_timeout_dur := ep_open_handshake_timeout_dur ep\<rparr> else h);
          h = (if ep_close_handshake_timeout_dur ep \<noteq> timeout_close_handshake
               then h\<lparr>con := (con h)\<lparr>m_close_handshake_timeout_dur := ep_close_handshake_timeout_dur ep\<rparr>\<rparr> else h);
          h = (if ep_pong_timeout_dur ep \<noteq> timeout_pong
               then h\<lparr>con := (con h)\<lparr>m_pong_timeout_dur := ep_pong_timeout_dur ep\<rparr>\<rparr> else h);
          h = (if ep_max_message_size ep \<noteq> max_message_size then h\<lparr>m_max_size := ep_max_message_size ep\<rparr> else h);
          h = h\<lparr>m_request := (m_request h)\<lparr>m_body_bytes_max := ep_max_http_body_size ep\<rparr>\<rparr>
      in if init_ec \<noteq> No_error then None else Some h)"

section \<open>Calls by handle\<close>

text \<open>A handle is a weak pointer: \<open>None\<close> when the connection is gone.\<close>

definition get_con_from_hdl :: "handshake option \<Rightarrow> error_code + handshake" where
  "get_con_from_hdl hdl = (case hdl of None \<Rightarrow> Inl (Library bad_connection) | Some h \<Rightarrow> Inr h)"

text \<open>A call that sets an error code, and the one that throws it.\<close>

definition by_handle :: "(connection \<Rightarrow> error_code \<times> connection) \<Rightarrow> handshake option \<Rightarrow> error_code \<times> handshake option" where
  "by_handle f hdl =
     (case get_con_from_hdl hdl of
        Inl ec \<Rightarrow> (ec, hdl)
      | Inr h \<Rightarrow> (let (ec, c) = f (con h) in (ec, Some (h\<lparr>con := c\<rparr>))))"

definition or_throw :: "error_code \<times> 'a \<Rightarrow> 'a thrown" where
  "or_throw r = (if fst r \<noteq> No_error then Inl (Ws_exception (fst r)) else Inr (snd r))"

definition endpoint_send :: "handshake option \<Rightarrow> u8 list \<Rightarrow> opcode \<Rightarrow> error_code \<times> handshake option" where
  "endpoint_send hdl payload oc = by_handle (con_send payload oc) hdl"

definition endpoint_send_msg :: "handshake option \<Rightarrow> message \<Rightarrow> error_code \<times> handshake option" where
  "endpoint_send_msg hdl msg = by_handle (send_msg msg) hdl"

definition endpoint_close :: "handshake option \<Rightarrow> close_code \<Rightarrow> u8 list \<Rightarrow> error_code \<times> handshake option" where
  "endpoint_close hdl cc reason = by_handle (con_close cc reason) hdl"

definition endpoint_ping :: "handshake option \<Rightarrow> u8 list \<Rightarrow> error_code \<times> handshake option" where
  "endpoint_ping hdl payload = by_handle (con_ping payload) hdl"

definition endpoint_pong :: "handshake option \<Rightarrow> u8 list \<Rightarrow> error_code \<times> handshake option" where
  "endpoint_pong hdl payload = by_handle (con_pong payload) hdl"

definition endpoint_send_http_response :: "handshake option \<Rightarrow> error_code \<times> handshake option" where
  "endpoint_send_http_response hdl =
     (case get_con_from_hdl hdl of Inl ec \<Rightarrow> (ec, hdl) | Inr h \<Rightarrow> map_prod id Some (send_http_response h))"

section \<open>The client\<close>

definition get_connection_to :: "endpoint \<Rightarrow> uri \<Rightarrow> (nat \<Rightarrow> masking_key) \<Rightarrow> error_code \<Rightarrow> error_code \<times> handshake option" where
  "get_connection_to ep location rng init_ec =
     (if m_secure location \<and> \<not> transport_is_secure then (Library endpoint_not_secure, None)
      else
        (case create_connection ep rng init_ec of
           None \<Rightarrow> (Library con_creation_failed, None)
         | Some h \<Rightarrow> (No_error, Some (h\<lparr>m_uri_ptr := location\<rparr>))))"

definition get_connection :: "endpoint \<Rightarrow> string \<Rightarrow> (nat \<Rightarrow> masking_key) \<Rightarrow> error_code \<Rightarrow> error_code \<times> handshake option" where
  "get_connection ep u rng init_ec =
     (let location = parse_uri u
      in if \<not> m_valid location then (Library invalid_uri, None) else get_connection_to ep location rng init_ec)"

text \<open>The transport has connected, or not.\<close>

definition handle_connect :: "error_code \<Rightarrow> handshake \<Rightarrow> handshake" where
  "handle_connect ec h = (if ec \<noteq> No_error then terminate_opening ec h else start h)"

section \<open>What a connection takes from its endpoint\<close>

text \<open>Every setting of the endpoint is that of its connections, whether or not it is the default.\<close>

lemma create_connection_settings:
  assumes "create_connection ep rng No_error = Some h"
  shows "m_open_handshake_timeout_dur h = ep_open_handshake_timeout_dur ep \<and>
    m_close_handshake_timeout_dur (con h) = ep_close_handshake_timeout_dur ep \<and>
    m_pong_timeout_dur (con h) = ep_pong_timeout_dur ep \<and> m_max_size h = ep_max_message_size ep \<and>
    m_user_agent h = ep_user_agent ep \<and> m_message_handler (con h) = ep_message_handler ep \<and> m_open_handler h = ep_open_handler ep"
  using assms
  by (auto simp: create_connection_def new_opening_def established_def timeout_open_handshake_def
    timeout_close_handshake_def timeout_pong_def max_message_size_def Let_def split: if_splits)

text \<open>A gone connection is an error of the call, and an exception of the call that throws.\<close>

lemma gone_connection:
  "fst (endpoint_send None payload oc) = Library bad_connection"
  "or_throw (endpoint_close None cc reason) = Inl (Ws_exception (Library bad_connection))"
  by (simp_all add: endpoint_send_def endpoint_close_def by_handle_def get_con_from_hdl_def or_throw_def)

end
