(* ===== verification/Bus_Connect.thy ===== *)
theory Bus_Connect
  imports Ws_Endpoint Vertx_Bus_Machine
begin

text \<open>
  The bus and the client of the websocket library it is built on: which addresses \<open>Connect\<close>
  (Client/cpp/VertxBus.cpp) gets a connection for, what becomes of the bus when it gets none, and the
  handshake of the connection it gets.
\<close>

section \<open>The bus and its client\<close>

text \<open>The endpoint of the bus; its handlers are those of \<open>VertxBus\<close>, which the bus's own model calls.\<close>

definition bus_endpoint :: endpoint where
  "bus_endpoint = endpoint False"

text \<open>The error code that \<open>Connect\<close> of the bus gets for an address.\<close>

definition connect_error :: "string \<Rightarrow> error_code" where
  "connect_error address = fst (get_connection bus_endpoint (final_url address) (\<lambda>_. 0) No_error)"

lemma connect_error_cases:
  "connect_error address =
    (if \<not> m_valid (parse_uri (final_url address)) then Library invalid_uri
     else if m_secure (parse_uri (final_url address)) then Library endpoint_not_secure
     else No_error)"
  by (auto simp: connect_error_def get_connection_def get_connection_to_def transport_is_secure_def create_connection_def Let_def)

text \<open>The connection of an accepted address, as the handshake knows it.\<close>

lemma connection_of_address:
  assumes "connect_error address = No_error"
  shows "get_connection bus_endpoint (final_url address) rng No_error =
    (No_error, Some (client_of (parse_uri (final_url address)) [] rng (\<lambda>_. []) None))"
proof -
  have "m_valid (parse_uri (final_url address))" "\<not> m_secure (parse_uri (final_url address))"
    using assms by (simp_all add: connect_error_cases split: if_splits)
  then show ?thesis
    by (simp add: get_connection_def get_connection_to_def create_connection_def bus_endpoint_def endpoint_def
      client_of_def new_opening_def established_def request_def)
qed

text \<open>C22: An address the library refuses is the end of the bus. An address that is no URI, or that asks for TLS,
  makes \<open>Connect\<close> return false and leaves the bus in the state \<open>kConnecting\<close>; from then on, whatever happens,
  every \<open>Connect\<close> is refused, with a good address too.\<close>

theorem refused_address_is_final:
  assumes "runs bus_step initial_world es w" "state (the_bus w) = kClosed" "\<not> close_accepted w"
    and "\<not> m_valid (parse_uri (final_url address)) \<or> m_secure (parse_uri (final_url address))"
    and "bus_step w (L_connect address f g h opts (connect_error address \<noteq> No_error) (Returns False)) w1"
    and "runs bus_step w1 fs w2"
  shows "state (the_bus w2) = kConnecting \<and> fst (Connect address' f' g' h' opts' ec' (the_bus w2)) = Returns False"
proof -
  have "connect_error address \<noteq> No_error" using assms(4) by (auto simp: connect_error_cases)
  then show ?thesis using rejected_connect_stays [OF assms(1-3)] assms(5,6) by simp
qed

theorem refused_address_is_final_witness:
  "\<exists>w. bus_step initial_world (L_connect ''https://kvdn.org/bus'' None None None DefaultVertxBusOptions
      (connect_error ''https://kvdn.org/bus'' \<noteq> No_error) (Returns False)) w \<and>
    fst (Connect ''ws://kvdn.org/bus'' None None None DefaultVertxBusOptions False (the_bus w)) = Returns False"
proof -
  have u: "final_url ''https://kvdn.org/bus'' = ''https://kvdn.org/bus/websocket''" by code_simp
  have "m_secure (parse_uri ''https://kvdn.org/bus/websocket'')" by code_simp
  then have s: "m_secure (parse_uri (final_url ''https://kvdn.org/bus''))" by (simp only: u)
  then have e: "(connect_error ''https://kvdn.org/bus'' \<noteq> No_error) = True" by (auto simp: connect_error_cases)
  define b where "b = snd (Connect ''https://kvdn.org/bus'' None None None DefaultVertxBusOptions True VertxBus)"
  have c: "Connect ''https://kvdn.org/bus'' None None None DefaultVertxBusOptions True VertxBus = (Returns False, b)"
    by (simp add: b_def Connect_def join_asio_def VertxBus_def Vertx_Bus.emit_def)
  define w1 where "w1 = initial_world\<lparr>the_bus := b\<rparr>"
  have step: "bus_step initial_world (L_connect ''https://kvdn.org/bus'' None None None DefaultVertxBusOptions
      (connect_error ''https://kvdn.org/bus'' \<noteq> No_error) (Returns False)) w1"
    unfolding e using step_connect [of initial_world "''https://kvdn.org/bus''" None None None DefaultVertxBusOptions True "Returns False" b] c
    by (simp add: initial_world_def w1_def)
  have "fst (Connect ''ws://kvdn.org/bus'' None None None DefaultVertxBusOptions False (the_bus w1)) = Returns False"
    using refused_address_is_final [OF runs_Nil _ _ _ step runs_Nil] s by (simp add: initial_world_def VertxBus_def)
  then show ?thesis using step by blast
qed



text \<open>The whole address is taken to lower case, the path with it, whose case matters to a server.\<close>

lemma address_loses_case: "m_resource (parse_uri (final_url ''ws://h/EventBus'')) = ''/eventbus/websocket''"
  by code_simp

text \<open>The suffix goes after a query.\<close>

lemma suffix_after_query: "m_resource (parse_uri (final_url ''ws://h/bus?id=1'')) = ''/bus?id=1/websocket''"
  by code_simp

end
