(* ===== verification/Json_Our_Reader.thy ===== *)
theory Json_Our_Reader
  imports Json_Layout
begin

text \<open>
  \<open>OurReader\<close> (Client/cpp/json/jsoncpp.cpp), the reader behind \<open>CharReaderBuilder\<close>: a copy of \<open>Reader\<close> with more
  features. What the copy has unchanged (blanks, comments, numbers, strings between double quotes, decoding, error
  records) are the definitions of \<open>Json_Reader\<close> and \<open>Json_Parser\<close>; what it changes is here: a token that starts with
  an apostrophe, a stack limit among the features, long and duplicate names, and text after the value. As there,
  the three mutually recursive functions take a bound on the number of calls.
\<close>

section \<open>Features\<close>

record our_features = features +
  allowSingleQuotes :: bool
  failIfExtra :: bool
  rejectDupKeys :: bool
  our_stackLimit :: int

text \<open>The constructor leaves two fields as they were in memory.\<close>

definition OurFeatures :: "bool \<Rightarrow> int \<Rightarrow> our_features" where
  "OurFeatures dup limit = \<lparr>allowComments = True, strictRoot = False, allowDroppedNullPlaceholders = False,
     allowNumericKeys = False, allowSingleQuotes = False, failIfExtra = False, rejectDupKeys = dup, our_stackLimit = limit\<rparr>"

section \<open>Tokens\<close>

definition APOSTROPHE :: char where "APOSTROPHE = CHR 0x27"

function readStringSingleQuote_loop :: "char \<Rightarrow> location \<Rightarrow> bool \<times> location" where
  "readStringSingleQuote_loop c [] = (c = APOSTROPHE, [])"
| "readStringSingleQuote_loop c (d # s) =
     (if d = BACKSLASH then readStringSingleQuote_loop d (snd (getNextChar s))
      else if d = APOSTROPHE then (True, s)
      else readStringSingleQuote_loop d s)"
  by pat_completeness auto
termination
  by (relation "measure (\<lambda>(c, s). length s)")
    (auto intro: le_less_trans [OF getNextChar_length])

definition readStringSingleQuote :: "location \<Rightarrow> bool \<times> location" where
  "readStringSingleQuote s = readStringSingleQuote_loop NUL s"

text \<open>Without the feature, the case of the apostrophe falls through to that of the slash.\<close>

definition our_scan_token :: "our_features \<Rightarrow> char \<Rightarrow> location \<Rightarrow> token_type \<times> bool \<times> location" where
  "our_scan_token f c s =
     (if c = APOSTROPHE then
        (if allowSingleQuotes f then (tokenString, readStringSingleQuote s) else (tokenComment, readComment s))
      else scan_token c s)"

definition our_readToken :: "our_features \<Rightarrow> location \<Rightarrow> token" where
  "our_readToken f s0 =
     (let s = skipSpaces s0;
          (c, s1) = getNextChar s;
          (ty, ok, s2) = our_scan_token f c s1
      in \<lparr>tok_type = (if ok then ty else tokenError), tok_start = s, tok_end = s2\<rparr>)"

lemma readStringSingleQuote_length: "readStringSingleQuote_loop c s = (ok, s') \<Longrightarrow> length s' \<le> length s"
proof (induction c s rule: readStringSingleQuote_loop.induct)
  case (2 c d s)
  then show ?case using getNextChar_length [of s] by (fastforce split: if_splits)
qed simp

lemma our_scan_token_length: "our_scan_token f c s = (ty, ok, s') \<Longrightarrow> length s' \<le> length s"
  by (auto simp: our_scan_token_def readStringSingleQuote_def split: if_splits
      dest: readStringSingleQuote_length readComment_length scan_token_length)

lemma our_scan_token_NUL: "our_scan_token f NUL s = (tokenEndOfStream, True, s)"
proof -
  have "NUL \<noteq> APOSTROPHE" by (simp add: char_consts APOSTROPHE_def)
  then show ?thesis by (simp add: our_scan_token_def scan_token_NUL)
qed

lemma our_readToken_length: "length (tok_end (our_readToken f s)) \<le> length s"
proof -
  obtain c t where t: "getNextChar (skipSpaces s) = (c, t)" by force
  obtain ty ok u where u: "our_scan_token f c t = (ty, ok, u)" by (cases "our_scan_token f c t") auto
  have "length t \<le> length s"
    using getNextChar_length [of "skipSpaces s"] dropWhile_length [of is_space s] t by (simp add: skipSpaces_def)
  with our_scan_token_length [OF u] show ?thesis by (simp add: our_readToken_def t u)
qed

lemma our_readToken_consumes:
  assumes "tok_type (our_readToken f s) \<noteq> tokenEndOfStream"
  shows "length (tok_end (our_readToken f s)) < length s"
proof (cases "skipSpaces s")
  case Nil
  then show ?thesis using assms by (simp add: our_readToken_def our_scan_token_NUL)
next
  case (Cons c t)
  obtain ty ok u where u: "our_scan_token f c t = (ty, ok, u)" by (cases "our_scan_token f c t") auto
  have "length (skipSpaces s) \<le> length s" by (simp add: skipSpaces_def dropWhile_length)
  with Cons our_scan_token_length [OF u] show ?thesis by (simp add: our_readToken_def u)
qed

function our_readPastComments :: "our_features \<Rightarrow> location \<Rightarrow> token" where
  "our_readPastComments f s =
     (let token = our_readToken f s
      in if tok_type token = tokenComment then our_readPastComments f (tok_end token) else token)"
  by pat_completeness auto
termination
  by (relation "measure (\<lambda>(f, s). length s)") (auto intro: our_readToken_consumes)

declare our_readPastComments.simps [simp del]

definition our_skipCommentTokens :: "our_features \<Rightarrow> location \<Rightarrow> token" where
  "our_skipCommentTokens f s = (if allowComments f then our_readPastComments f s else our_readToken f s)"

function our_recover_loop :: "our_features \<Rightarrow> token_type \<Rightarrow> location \<Rightarrow> location" where
  "our_recover_loop f skipUntilToken s =
     (let skip = our_readToken f s
      in if tok_type skip = skipUntilToken \<or> tok_type skip = tokenEndOfStream then tok_end skip
         else our_recover_loop f skipUntilToken (tok_end skip))"
  by pat_completeness auto
termination
  by (relation "measure (\<lambda>(f, t, s). length s)") (auto intro: our_readToken_consumes)

declare our_recover_loop.simps [simp del]

definition our_recoverFromError :: "our_features \<Rightarrow> token_type \<Rightarrow> reader \<Rightarrow> reader" where
  "our_recoverFromError f skipUntilToken r =
     (let errorCount = length (errors r)
      in r\<lparr>current := our_recover_loop f skipUntilToken (current r), errors := take errorCount (errors r)\<rparr>)"

definition our_addErrorAndRecover :: "our_features \<Rightarrow> string \<Rightarrow> token \<Rightarrow> token_type \<Rightarrow> reader \<Rightarrow> reader" where
  "our_addErrorAndRecover f message token skipUntilToken r =
     our_recoverFromError f skipUntilToken (addError message token None r)"

definition our_member_separator :: "our_features \<Rightarrow> location \<Rightarrow> token + token" where
  "our_member_separator f s =
     (let comma = our_readToken f s
      in if tok_type comma \<notin> {tokenObjectEnd, tokenArraySeparator, tokenComment} then Inl comma
         else Inr (if tok_type comma = tokenComment then our_readPastComments f (tok_end comma) else comma))"

section \<open>Values\<close>

fun our_readValue :: "our_features \<Rightarrow> nat \<Rightarrow> json \<Rightarrow> reader \<Rightarrow> (bool \<times> json \<times> reader) run"
  and our_readObject :: "our_features \<Rightarrow> nat \<Rightarrow> string \<Rightarrow> json \<Rightarrow> reader \<Rightarrow> (bool \<times> json \<times> reader) run"
  and our_readArray :: "our_features \<Rightarrow> nat \<Rightarrow> nat \<Rightarrow> json \<Rightarrow> reader \<Rightarrow> (bool \<times> json \<times> reader) run"
where
  "our_readValue f 0 cur r = None"
| "our_readValue f (Suc n) cur r =
     (if int (stackDepth r) \<ge> our_stackLimit f
      then Some (Inl (RuntimeError ''Exceeded stackLimit in readValue().''))
      else
        let token = our_skipCommentTokens f (current r);
            r1 = r\<lparr>stackDepth := stackDepth r + 1, current := tok_end token\<rparr>
        in case tok_type token of
             tokenObjectBegin \<Rightarrow> continue (our_readObject f n [] (JObj []) r1) leave
           | tokenArrayBegin \<Rightarrow>
               (let r2 = r1\<lparr>current := skipSpaces (current r1)\<rparr>
                in if deref (current r2) = CHR '']''
                   then leave (True, JArr [], r2\<lparr>current := tok_end (our_readToken f (current r2))\<rparr>)
                   else continue (our_readArray f n 0 (JArr []) r2) leave)
           | tokenNumber \<Rightarrow>
               (case decodeNumber token r1 of
                  (Some v, r2) \<Rightarrow> leave (True, v, r2) | (None, r2) \<Rightarrow> leave (False, cur, r2))
           | tokenString \<Rightarrow>
               (case decodeString token r1 of
                  (Some s, r2) \<Rightarrow> leave (True, JString s, r2) | (None, r2) \<Rightarrow> leave (False, cur, r2))
           | tokenTrue \<Rightarrow> leave (True, JBool True, r1)
           | tokenFalse \<Rightarrow> leave (True, JBool False, r1)
           | tokenNull \<Rightarrow> leave (True, JNull, r1)
           | ty \<Rightarrow>
               if ty \<in> {tokenArraySeparator, tokenObjectEnd, tokenArrayEnd}
                  \<and> allowDroppedNullPlaceholders f
               then leave (True, JNull, r1\<lparr>current := tok_start token\<rparr>)
               else finish False cur
                      (addError ''Syntax error: value, object or array expected.'' token None r1))"
| "our_readObject f 0 name v r = None"
| "our_readObject f (Suc n) name v r =
     (let tokenName = our_readPastComments f (current r);
          r1 = r\<lparr>current := tok_end tokenName\<rparr>
      in if tok_type tokenName = tokenObjectEnd \<and> name = [] then finish True v r1
         else continue (member_name (features.truncate f) tokenName r1) (\<lambda>res. case res of
             None \<Rightarrow> finish False v
               (our_addErrorAndRecover f (''Missing '' @ sq ''}'' @ '' or object member name'')
                 tokenName tokenObjectEnd r1)
           | Some (None, r2) \<Rightarrow> finish False v (our_recoverFromError f tokenObjectEnd r2)
           | Some (Some name', r2) \<Rightarrow>
               let colon = our_readToken f (current r2); r3 = r2\<lparr>current := tok_end colon\<rparr>
               in if tok_type colon \<noteq> tokenMemberSeparator then
                    finish False v (our_addErrorAndRecover f
                      (''Missing '' @ sq '':'' @ '' after object member name'') colon tokenObjectEnd r3)
                  else if length name' \<ge> 2 ^ 30 then Some (Inl (RuntimeError ''keylength >= 2^30''))
                  else continue (lift_exn (if rejectDupKeys f then isMember v name' else Inr False)) (\<lambda>dup.
                    if dup then
                      finish False v (our_addErrorAndRecover f (''Duplicate key: '' @ sq name') tokenName tokenObjectEnd r3)
                    else continue (lift_exn (resolveReference v name')) (\<lambda>(m, old).
                    continue (our_readValue f n old r3) (\<lambda>(ok, x, r4).
                      let v' = JObj (omap_insert name' x m)
                      in if \<not> ok then finish False v' (our_recoverFromError f tokenObjectEnd r4)
                         else (case our_member_separator f (current r4) of
                             Inl comma \<Rightarrow> finish False v' (our_addErrorAndRecover f
                               (''Missing '' @ sq '','' @ '' or '' @ sq ''}'' @ '' in object declaration'')
                               comma tokenObjectEnd (r4\<lparr>current := tok_end comma\<rparr>))
                           | Inr comma \<Rightarrow>
                               let r5 = r4\<lparr>current := tok_end comma\<rparr>
                               in if tok_type comma = tokenObjectEnd then finish True v' r5
                                  else our_readObject f n name' v' r5))))))"
| "our_readArray f 0 index v r = None"
| "our_readArray f (Suc n) index v r =
     continue (lift_exn (index_ref v (word_of_nat index))) (\<lambda>(m, old).
       continue (our_readValue f n old r) (\<lambda>(ok, x, r1).
         let v' = JArr (omap_insert (word_of_nat index) x m)
         in if \<not> ok then finish False v' (our_recoverFromError f tokenArrayEnd r1)
            else
              let token = our_readPastComments f (current r1); r2 = r1\<lparr>current := tok_end token\<rparr>
              in if tok_type token \<notin> {tokenArraySeparator, tokenArrayEnd}
                 then finish False v' (our_addErrorAndRecover f
                   (''Missing '' @ sq '','' @ '' or '' @ sq '']'' @ '' in array declaration'')
                   token tokenArrayEnd r2)
                 else if tok_type token = tokenArrayEnd then finish True v' r2
                 else our_readArray f n (index + 1) v' r2))"

definition our_parse :: "our_features \<Rightarrow> string \<Rightarrow> json \<Rightarrow> (bool \<times> json \<times> reader) run" where
  "our_parse f doc root =
     continue (our_readValue f (parse_fuel doc) root \<lparr>current = doc, errors = [], stackDepth = 0\<rparr>)
       (\<lambda>(successful, root', r).
         let token = our_skipCommentTokens f (current r); r' = r\<lparr>current := tok_end token\<rparr>
         in if failIfExtra f \<and> tok_type token \<noteq> tokenError \<and> tok_type token \<noteq> tokenEndOfStream then
              finish False root' (addError ''Extra non-whitespace after JSON value.'' token None r')
            else if strictRoot f \<and> \<not> isArray root' \<and> \<not> isObject root' then
              finish False root' (addError
                ''A valid JSON document must be either an array or an object value.''
                \<lparr>tok_type = tokenError, tok_start = doc, tok_end = []\<rparr> None r')
            else finish successful root' r')"

declare our_readValue.simps [simp del] our_readObject.simps [simp del] our_readArray.simps [simp del]

end
