(* ===== verification/Json_Our_Laws.thy ===== *)
theory Json_Our_Laws
  imports Json_Our_Reader
begin

text \<open>
  Laws of \<open>OurReader\<close>: it returns, it throws for two reasons only, it keeps the contract of \<open>Json_Layout\<close>, and on
  documents without apostrophes it is \<open>Reader\<close>.
\<close>

section \<open>Termination\<close>

lemma tok_start_our_readToken: "length (tok_start (our_readToken f s)) \<le> length s"
  by (auto simp: our_readToken_def Let_def skipSpaces_def dropWhile_length split: prod.splits)

lemma our_readPastComments_length:
  "length (tok_end (our_readPastComments f s)) \<le> length s \<and> length (tok_start (our_readPastComments f s)) \<le> length s"
proof (induction f s rule: our_readPastComments.induct)
  case (1 f s)
  then show ?case using our_readToken_length [of f s] tok_start_our_readToken [of f s]
    by (subst (1 2) our_readPastComments.simps) (auto simp: Let_def)
qed

lemma our_readPastComments_consumes:
  "tok_type (our_readPastComments f s) \<noteq> tokenEndOfStream \<Longrightarrow> length (tok_end (our_readPastComments f s)) < length s"
proof (induction f s rule: our_readPastComments.induct)
  case (1 f s)
  show ?case
  proof (cases "tok_type (our_readToken f s) = tokenComment")
    case True
    then have "length (tok_end (our_readToken f s)) < length s" by (intro our_readToken_consumes) simp
    moreover have "our_readPastComments f s = our_readPastComments f (tok_end (our_readToken f s))"
      using True by (subst our_readPastComments.simps) simp
    ultimately show ?thesis using our_readPastComments_length [of f "tok_end (our_readToken f s)"] by simp
  next
    case False
    then have "our_readPastComments f s = our_readToken f s" by (subst our_readPastComments.simps) simp
    with 1(2) show ?thesis by (simp add: our_readToken_consumes)
  qed
qed

lemma our_skipCommentTokens_length:
  "length (tok_end (our_skipCommentTokens f s)) \<le> length s" "length (tok_start (our_skipCommentTokens f s)) \<le> length s"
  by (simp_all add: our_skipCommentTokens_def our_readPastComments_length our_readToken_length tok_start_our_readToken)

lemma our_skipCommentTokens_consumes:
  "tok_type (our_skipCommentTokens f s) \<noteq> tokenEndOfStream \<Longrightarrow> length (tok_end (our_skipCommentTokens f s)) < length s"
  by (simp add: our_skipCommentTokens_def our_readPastComments_consumes our_readToken_consumes split: if_splits)

lemma our_recover_loop_length: "length (our_recover_loop f t s) \<le> length s"
proof (induction f t s rule: our_recover_loop.induct)
  case (1 f t s)
  then show ?case using our_readToken_length [of f s] by (subst our_recover_loop.simps) (auto simp: Let_def)
qed

lemma current_our_recover:
  "length (current (our_recoverFromError f t r)) \<le> length (current r)"
  "length (current (our_addErrorAndRecover f m u t r)) \<le> length (current r)"
  by (simp_all add: our_recoverFromError_def our_addErrorAndRecover_def order.trans [OF our_recover_loop_length])

lemma within_our_recover [intro]:
  "length (current r) \<le> L \<Longrightarrow> within b L (finish ok v (our_recoverFromError f t r))"
  "length (current r) \<le> L \<Longrightarrow> within b L (finish ok v (our_addErrorAndRecover f m u t r))"
  by (auto intro!: within_finish le_trans [OF current_our_recover(1)] le_trans [OF current_our_recover(2)])

lemma our_member_separator_length:
  "our_member_separator f s = Inl comma \<Longrightarrow> length (tok_end comma) \<le> length s"
  "our_member_separator f s = Inr comma \<Longrightarrow> length (tok_end comma) \<le> length s"
  "our_member_separator f s = Inr comma \<Longrightarrow> tok_type comma \<noteq> tokenObjectEnd \<Longrightarrow> length (tok_end comma) < length s"
  using our_readToken_length [of f s] our_readToken_consumes [of f s]
    our_readPastComments_length [of f "tok_end (our_readToken f s)"]
  by (auto simp: our_member_separator_def Let_def split: if_splits)

lemma our_readValue_within:
  assumes O: "\<And>name v r. within (2 * length (current r) + 1 < n) (length (current r)) (our_readObject f n name v r)"
    and A: "\<And>i v r. within (2 * length (current r) + 1 < n) (length (current r)) (our_readArray f n i v r)"
  shows "within (2 * length (current r) < Suc n) (length (current r)) (our_readValue f (Suc n) cur r)"
proof (cases "int (stackDepth r) \<ge> our_stackLimit f")
  case False
  define t where "t = our_skipCommentTokens f (current r)"
  have le: "length (tok_end t) \<le> length (current r)" "length (tok_start t) \<le> length (current r)"
    by (simp_all add: t_def our_skipCommentTokens_length)
  have lt: "length (tok_end t) < length (current r)" if "tok_type t \<noteq> tokenEndOfStream"
    using that by (simp add: t_def our_skipCommentTokens_consumes)
  have sp: "length (skipSpaces s) \<le> length s" for s by (simp add: skipSpaces_def dropWhile_length)
  have rt: "length (tok_end (our_readToken f (skipSpaces s))) \<le> length s" for s
    using our_readToken_length sp le_trans by blast
  show ?thesis
  proof (cases "tok_type t")
    case tokenObjectBegin
    then show ?thesis using False lt
      by (auto simp: our_readValue.simps Let_def t_def [symmetric] intro!: within_continue [OF O])
  next
    case tokenArrayBegin
    then show ?thesis using False lt le rt [of "tok_end t"] sp [of "tok_end t"]
      by (auto simp: our_readValue.simps Let_def t_def [symmetric] intro!: within_continue [OF A] within_leave)
  qed (use False le in \<open>auto simp: our_readValue.simps Let_def t_def [symmetric] 
    split: option.splits prod.splits dest!: current_decodeNumber current_decodeString\<close>)
qed (simp add: our_readValue.simps)

lemma our_readObject_within:
  assumes V: "\<And>cur r. within (2 * length (current r) < n) (length (current r)) (our_readValue f n cur r)"
    and O: "\<And>name v r. within (2 * length (current r) + 1 < n) (length (current r)) (our_readObject f n name v r)"
  shows "within (2 * length (current r) + 1 < Suc n) (length (current r)) (our_readObject f (Suc n) name v r)"
proof -
  define t where "t = our_readPastComments f (current r)"
  have le: "length (tok_end t) \<le> length (current r)" by (simp add: t_def our_readPastComments_length)
  have colon: "length (tok_end (our_readToken f (tok_end t))) \<le> length (current r)"
    using our_readToken_length [of f "tok_end t"] le by simp
  have tail: "within (2 * length (current r) < n) (length (current r))
      (case our_member_separator f (current r4) of
         Inl comma \<Rightarrow> finish False v' (our_addErrorAndRecover f msg comma tokenObjectEnd (r4\<lparr>current := tok_end comma\<rparr>))
       | Inr comma \<Rightarrow>
           let r5 = r4\<lparr>current := tok_end comma\<rparr>
           in if tok_type comma = tokenObjectEnd then finish True v' r5
              else our_readObject f n name' v' r5)"
    if "length (current r4) \<le> length (current r)" for r4 v' name' msg
    using our_member_separator_length [of f "current r4"] that
    by (fastforce simp: Let_def split: sum.split intro: within_mono [OF O])
  from le colon show ?thesis
    by (auto simp: our_readObject.simps Let_def t_def [symmetric] split: option.split prod.split
      dest!: member_name_current intro!: within_bind within_continue [OF V] tail within_our_recover)
qed

lemma our_readArray_within:
  assumes V: "\<And>cur r. within (2 * length (current r) < n) (length (current r)) (our_readValue f n cur r)"
    and A: "\<And>i v r. within (2 * length (current r) + 1 < n) (length (current r)) (our_readArray f n i v r)"
  shows "within (2 * length (current r) + 1 < Suc n) (length (current r)) (our_readArray f (Suc n) i v r)"
proof -
  have tail: "within (2 * length (current r) < n) (length (current r))
      (let token = our_readPastComments f (current r1); r2 = r1\<lparr>current := tok_end token\<rparr>
       in if tok_type token \<notin> {tokenArraySeparator, tokenArrayEnd}
          then finish False v' (our_addErrorAndRecover f msg token tokenArrayEnd r2)
          else if tok_type token = tokenArrayEnd then finish True v' r2
          else our_readArray f n (i + 1) v' r2)"
    if "length (current r1) \<le> length (current r)" for r1 v' msg
    using our_readPastComments_length [of f "current r1"] our_readPastComments_consumes [of f "current r1"] that
    by (auto simp: Let_def intro: within_mono [OF A])
  show ?thesis
    using tail by (auto simp: our_readArray.simps Let_def intro!: within_bind within_continue [OF V] split: prod.split)
qed

lemma our_reads_within:
  "within (2 * length (current r) < n) (length (current r)) (our_readValue f n cur r) \<and>
   within (2 * length (current r) + 1 < n) (length (current r)) (our_readObject f n name v r) \<and>
   within (2 * length (current r) + 1 < n) (length (current r)) (our_readArray f n i v r)"
proof (induction n arbitrary: cur r name v i)
  case 0
  then show ?case by (simp add: within_def our_readValue.simps our_readObject.simps our_readArray.simps)
next
  case (Suc n)
  show ?case
    by (intro conjI our_readValue_within our_readObject_within our_readArray_within) (use Suc.IH in blast)+
qed

lemma our_parse_returns: "our_parse f doc root \<noteq> None"
proof -
  have "within (2 * length doc < parse_fuel doc) (length doc)
     (our_readValue f (parse_fuel doc) root \<lparr>current = doc, errors = [], stackDepth = 0\<rparr>)"
    using our_reads_within [of "\<lparr>current = doc, errors = [], stackDepth = 0\<rparr>"] by simp
  then have "our_readValue f (parse_fuel doc) root \<lparr>current = doc, errors = [], stackDepth = 0\<rparr> \<noteq> None"
    by (simp add: within_def parse_fuel_def)
  then show ?thesis by (auto simp: our_parse_def continue_None_iff finish_def Let_def)
qed

section \<open>Exceptions\<close>

definition keylength_exn :: exn where
  "keylength_exn = RuntimeError ''keylength >= 2^30''"

definition throws_known :: "'a run \<Rightarrow> bool" where
  "throws_known m \<longleftrightarrow> (\<forall>e. m = Some (Inl e) \<longrightarrow> e = limit_exn \<or> e = keylength_exn)"

lemma throws_limit_known: "throws_limit m \<Longrightarrow> throws_known m"
  by (simp add: throws_limit_def throws_known_def)

lemma throws_known_simps [simp]:
  "throws_known (finish ok v r)" "throws_known (leave x)" "throws_known None"
  "throws_known (Some (Inr y))" "throws_known (Some (Inl limit_exn))" "throws_known (Some (Inl keylength_exn))"
  "throws_known (member_name g t r)"
  by (auto simp: throws_known_def finish_def leave_def split: prod.splits dest: throws_limit_known [OF member_name_throws, unfolded throws_known_def, rule_format])

lemma throws_known_continue [intro]:
  "throws_known m \<Longrightarrow> (\<And>x. m = Some (Inr x) \<Longrightarrow> throws_known (f x)) \<Longrightarrow> throws_known (continue m f)"
  by (auto simp: throws_known_def continue_def split: option.splits sum.splits)

lemma is_member_object: "isMember (JObj m) name = Inr (omap_find m name \<noteq> None)"
  by (simp add: isMember_def)

lemma lift_known [simp]: "throws_known (lift_exn (Inr x))" "throws_known (lift_exn (isMember (JObj m) name))"
  by (simp_all add: throws_known_def lift_exn_def is_member_object)

lemma our_reads_throw:
  "throws_known (our_readValue f n cur r) \<and> throws_known (our_readObject f n name (JObj m) r) \<and>
   throws_known (our_readArray f n i (JArr a) r)"
proof (induction n arbitrary: cur r name m i a)
  case (Suc n)
  have V: "throws_known (our_readValue f n cur r)" and O: "throws_known (our_readObject f n name (JObj m) r)"
    and A: "throws_known (our_readArray f n i (JArr a) r)" for cur r name m i a
    using Suc.IH by blast+
  have "throws_known (our_readValue f (Suc n) cur r)"
    using O A by (auto simp: our_readValue.simps Let_def limit_exn_def [symmetric] split: token_type.splits prod.splits option.splits)
  moreover have "throws_known (our_readObject f (Suc n) name (JObj m) r)"
    using V O by (auto simp: our_readObject.simps Let_def keylength_exn_def [symmetric] simp del: resolveReference.simps
        intro!: throws_known_continue throws_limit_known [OF resolve_object]
        split: prod.splits option.splits sum.splits)
  moreover have "throws_known (our_readArray f (Suc n) i (JArr a) r)"
    using V A by (auto simp: our_readArray.simps Let_def simp del: index_ref.simps
        intro!: throws_known_continue throws_limit_known [OF index_array] split: prod.splits option.splits sum.splits)
  ultimately show ?case by blast
qed (simp add: our_readValue.simps our_readObject.simps our_readArray.simps)

lemma our_parse_throws:
  "our_parse f doc root = Some (Inl e) \<Longrightarrow>
   e = RuntimeError ''Exceeded stackLimit in readValue().'' \<or> e = RuntimeError ''keylength >= 2^30''"
proof -
  have "throws_known (our_parse f doc root)"
    unfolding our_parse_def by (rule throws_known_continue) (auto simp: Let_def our_reads_throw)
  then show "our_parse f doc root = Some (Inl e) \<Longrightarrow>
    e = RuntimeError ''Exceeded stackLimit in readValue().'' \<or> e = RuntimeError ''keylength >= 2^30''"
    by (simp add: throws_known_def limit_exn_def keylength_exn_def)
qed

section \<open>Texts of values\<close>

lemma scan_apostrophe: "fst (snd (scan_token APOSTROPHE s)) = False"
  by (simp add: scan_token_def APOSTROPHE_def char_consts is_digit_def)

lemma our_read_same: "tok_type (readToken s) \<noteq> tokenError \<Longrightarrow> our_readToken f s = readToken s"
proof -
  assume ne: "tok_type (readToken s) \<noteq> tokenError"
  obtain c t where c: "getNextChar (skipSpaces s) = (c, t)" by force
  obtain ty ok u where t: "scan_token c t = (ty, ok, u)" by (cases "scan_token c t") auto
  have "c \<noteq> APOSTROPHE" using ne scan_apostrophe [of t] t by (auto simp: readToken_def c)
  then show ?thesis by (simp add: our_readToken_def readToken_def our_scan_token_def c)
qed

lemma our_past_same:
  "tok_type (readToken s) \<noteq> tokenError \<Longrightarrow> tok_type (readToken s) \<noteq> tokenComment \<Longrightarrow>
   our_readPastComments f s = readToken s"
  by (subst our_readPastComments.simps) (simp add: our_read_same)

lemma our_skip_same:
  "tok_type (readToken s) \<noteq> tokenError \<Longrightarrow> tok_type (readToken s) \<noteq> tokenComment \<Longrightarrow>
   our_skipCommentTokens f s = readToken s"
  by (simp add: our_skipCommentTokens_def our_read_same our_past_same)

lemma scalar_type_known: "scalar_text v = Some t \<Longrightarrow> scalar_type v \<noteq> tokenError \<and> scalar_type v \<noteq> tokenComment"
  by (cases v rule: scalar_text.cases) auto

interpretation our: reading "our_stackLimit f" "\<lambda>k. length k < 2 ^ 30" "our_readValue f" "our_readObject f" "our_readArray f" for f
proof (standard, goal_cases)
  case (1 r v t rest n cur)
  consider i where "v = JInt i" | u where "v = JUInt u" | s where "v = JStr (Some s)" | "v = JNull" | b where "v = JBool b"
    using 1(2) by (cases v rule: scalar_text.cases) auto
  then show ?case
    by cases (use 1 in \<open>auto simp: our_readValue.simps our_skip_same leave_simps decode_int decode_uint decode_string split: if_splits\<close>)
next
  case (2 r t rest n cur)
  then show ?case by (simp add: our_readValue.simps our_skip_same)
next
  case (3 r t rest n cur)
  then obtain s where "skipSpaces rest = CHR '']'' # s" by (cases "skipSpaces rest") (auto simp: char_consts)
  then show ?case using 3 by (simp add: our_readValue.simps our_skip_same leave_simps our_read_same)
next
  case (4 r t rest n cur)
  then show ?case by (simp add: our_readValue.simps our_skip_same)
next
  case (5 r t rest n v)
  then show ?case by (simp add: our_readObject.simps our_past_same)
next
  case (6 k m r rest t rest1 n x rest2 ty t' rest3 name)
  then show ?case
    by (auto simp: our_readObject.simps our_past_same our_read_same member_name_def decode_string our_member_separator_def Let_def omap_insert_insert is_member_object)
next
  case (7 m i n r x rest ty t rest1)
  then show ?case by (auto simp: our_readArray.simps our_past_same Let_def omap_insert_insert)
qed


text \<open>A document is a text of its value, with blanks at the end.\<close>

lemma our_parse_layout:
  assumes "layout v t" "writable v" "names_ok (\<lambda>k. length k < 2 ^ 30) v" "int (depth v) \<le> our_stackLimit f" "blank ws"
    "strictRoot f \<longrightarrow> isArray v \<or> isObject v"
  shows "\<exists>r. our_parse f (t @ ws) root = Some (Inr (True, normalised v, r)) \<and> good r"
proof -
  have d: "delimited ws" using delimited_blank [OF assms(5), of "[]"] by (simp add: delimited_def is_digit_def char_consts)
  have "our_readValue f (parse_fuel (t @ ws)) root \<lparr>current = t @ ws, errors = [], stackDepth = 0\<rparr> =
      finish True (normalised v) \<lparr>current = ws, errors = [], stackDepth = 0\<rparr>"
    by (rule our.reads_layout [OF assms(1,2,3) d assms(4)]) (simp add: parse_fuel_def)
  moreover have "isArray (normalised v) = isArray v \<and> isObject (normalised v) = isObject v"
    by (cases v) (simp_all add: norm_int_def norm_uint_def isArray_def isObject_def)
  moreover have "readToken ws = tok tokenEndOfStream [] []"
    using read_blank [OF assms(5), of "[]"] by (simp add: readToken_def skipSpaces_def scan_token_NUL tok_def)
  then have "tok_type (our_skipCommentTokens f ws) = tokenEndOfStream" by (simp add: our_skip_same tok_def)
  ultimately have "our_parse f (t @ ws) root =
      finish True (normalised v) \<lparr>current = tok_end (our_skipCommentTokens f ws), errors = [], stackDepth = 0\<rparr>"
    using assms(6) by (auto simp: our_parse_def Let_def)
  then show ?thesis by (simp add: finish_def good_def)
qed

section \<open>Documents without apostrophes\<close>

definition plain :: "string \<Rightarrow> bool" where
  "plain s \<longleftrightarrow> APOSTROPHE \<notin> set s"

lemma plain_subset: "plain s \<Longrightarrow> set t \<subseteq> set s \<Longrightarrow> plain t"
  by (auto simp: plain_def)

lemma set_getNextChar: "set (snd (getNextChar s)) \<subseteq> set s"
  by (cases s) auto

lemma set_readString_loop: "readString_loop c s = (ok, s') \<Longrightarrow> set s' \<subseteq> set s"
proof (induction c s rule: readString_loop.induct)
  case (2 c d s)
  then show ?case using set_getNextChar [of s] by (fastforce split: if_splits)
qed simp

lemma set_c_comment: "set (c_comment_loop s) \<subseteq> set s"
  by (induction s rule: c_comment_loop.induct) auto

lemma set_cpp_comment: "set (cpp_comment_loop s) \<subseteq> set s"
  by (induction s rule: cpp_comment_loop.induct) (auto dest: subsetD [OF set_getNextChar])

lemma set_readComment: "readComment s = (ok, s') \<Longrightarrow> set s' \<subseteq> set s"
  using set_getNextChar [of s] set_getNextChar [of "c_comment_loop (snd (getNextChar s))"]
    set_c_comment [of "snd (getNextChar s)"] set_cpp_comment [of "snd (getNextChar s)"]
  by (auto simp: readComment_def readCStyleComment_def readCppStyleComment_def split: prod.splits if_splits)

lemma set_dropWhile: "set (dropWhile P s) \<subseteq> set s"
  by (auto dest: set_dropWhileD)

lemma set_tl: "set (tl s) \<subseteq> set s"
  by (cases s) auto

lemma set_readNumber: "set (readNumber s) \<subseteq> set s"
  unfolding readNumber_def Let_def
  by (auto dest!: subsetD [OF set_dropWhile] subsetD [OF set_tl] split: if_splits)

lemma set_match_pattern: "match_pattern p s = (ok, s') \<Longrightarrow> set s' \<subseteq> set s"
  by (auto simp: match_pattern_def split: if_splits dest: in_set_dropD)

lemma set_scan_token: "scan_token c s = (ty, ok, s') \<Longrightarrow> set s' \<subseteq> set s"
  using set_readNumber [of s]
  by (auto simp: scan_token_def readString_def split: if_splits
      dest!: set_readComment set_readString_loop set_match_pattern)

lemma set_readToken: "set (tok_start (readToken s)) \<subseteq> set s \<and> set (tok_end (readToken s)) \<subseteq> set s"
proof -
  obtain c t where t: "getNextChar (skipSpaces s) = (c, t)" by force
  obtain ty ok u where u: "scan_token c t = (ty, ok, u)" by (cases "scan_token c t") auto
  show ?thesis
    using set_scan_token [OF u] set_getNextChar [of "skipSpaces s"] set_dropWhile [of is_space s] t
    by (auto simp: readToken_def u skipSpaces_def)
qed

lemma plain_readToken: "plain s \<Longrightarrow> plain (tok_start (readToken s)) \<and> plain (tok_end (readToken s))"
  using set_readToken [of s] plain_subset by blast

lemma plain_skip: "plain s \<Longrightarrow> plain (skipSpaces s)"
  using plain_subset [OF _ set_dropWhile] by (simp add: skipSpaces_def)

lemma plain_past: "plain s \<Longrightarrow> plain (tok_start (readPastComments s)) \<and> plain (tok_end (readPastComments s))"
proof (induction s rule: readPastComments.induct)
  case (1 s)
  then show ?case using plain_readToken [of s] by (subst (1 2) readPastComments.simps) (auto simp: Let_def)
qed

lemma plain_comment_tokens:
  "plain s \<Longrightarrow> plain (tok_start (skipCommentTokens f s)) \<and> plain (tok_end (skipCommentTokens f s))"
  by (simp add: skipCommentTokens_def plain_past plain_readToken)

lemma plain_recover: "plain s \<Longrightarrow> plain (recover_loop t s)"
proof (induction t s rule: recover_loop.induct)
  case (1 t s)
  then show ?case using plain_readToken [of s] by (subst recover_loop.simps) (auto simp: Let_def)
qed

lemma plain_recovers:
  "plain (current r) \<Longrightarrow> plain (current (recoverFromError t r))"
  "plain (current r) \<Longrightarrow> plain (current (addErrorAndRecover m u t r))"
  by (simp_all add: recoverFromError_def addErrorAndRecover_def plain_recover)

text \<open>There the two tokenizers agree.\<close>

lemma plain_token:
  assumes "plain s"
  shows "our_readToken f s = readToken s"
proof -
  obtain c t where t: "getNextChar (skipSpaces s) = (c, t)" by force
  have "c \<noteq> APOSTROPHE"
    using plain_skip [OF assms] t by (cases "skipSpaces s") (auto simp: plain_def char_consts APOSTROPHE_def)
  then show ?thesis by (simp add: our_readToken_def readToken_def our_scan_token_def t)
qed

lemma plain_past_same: "plain s \<Longrightarrow> our_readPastComments f s = readPastComments s"
proof (induction s rule: readPastComments.induct)
  case (1 s)
  then show ?case using plain_readToken [of s]
    by (subst our_readPastComments.simps, subst readPastComments.simps) (simp add: plain_token Let_def)
qed

lemma plain_comment_same: "plain s \<Longrightarrow> our_skipCommentTokens f s = skipCommentTokens (features.truncate f) s"
  by (simp add: our_skipCommentTokens_def skipCommentTokens_def features.truncate_def plain_past_same plain_token)

lemma plain_recover_same: "plain s \<Longrightarrow> our_recover_loop f t s = recover_loop t s"
proof (induction t s rule: recover_loop.induct)
  case (1 t s)
  then show ?case using plain_readToken [of s]
    by (subst our_recover_loop.simps, subst recover_loop.simps) (simp add: plain_token Let_def)
qed

lemma plain_recovers_same:
  "plain (current r) \<Longrightarrow> our_recoverFromError f t r = recoverFromError t r"
  "plain (current r) \<Longrightarrow> our_addErrorAndRecover f m u t r = addErrorAndRecover m u t r"
  by (simp_all add: our_recoverFromError_def recoverFromError_def our_addErrorAndRecover_def addErrorAndRecover_def
      plain_recover_same)

lemma plain_separator:
  assumes "plain s"
  shows "our_member_separator f s = member_separator s" "member_separator s = Inl c \<Longrightarrow> plain (tok_end c)"
    "member_separator s = Inr c \<Longrightarrow> plain (tok_end c)"
  using plain_readToken [OF assms] plain_past [of "tok_end (readToken s)"]
  by (auto simp: our_member_separator_def member_separator_def Let_def plain_token [OF assms] plain_past_same split: if_splits)

text \<open>Two runs agree when they are the same, but for the exception on a long name.\<close>

definition agree :: "(bool \<times> json \<times> reader) run \<Rightarrow> (bool \<times> json \<times> reader) run \<Rightarrow> bool" where
  "agree m m' \<longleftrightarrow> m = Some (Inl keylength_exn) \<or>
     (m = m' \<and> (\<forall>ok v r. m = Some (Inr (ok, v, r)) \<longrightarrow> plain (current r)))"

lemma agree_finish [intro]: "plain (current r) \<Longrightarrow> agree (finish ok v r) (finish ok v r)"
  by (simp add: agree_def)

lemma agree_leave [intro]: "plain (current r) \<Longrightarrow> agree (leave (ok, v, r)) (leave (ok, v, r))"
  by (auto simp: leave_simps)

lemma agree_throw [simp]: "agree (Some (Inl e)) (Some (Inl e))" "agree (Some (Inl keylength_exn)) m" "agree None None"
  by (simp_all add: agree_def)

lemma agree_recover [intro]:
  "plain (current r) \<Longrightarrow> agree (finish ok v (our_recoverFromError f t r)) (finish ok v (recoverFromError t r))"
  "plain (current r) \<Longrightarrow> agree (finish ok v (our_addErrorAndRecover f m u t r)) (finish ok v (addErrorAndRecover m u t r))"
  by (simp_all add: plain_recovers_same agree_finish plain_recovers)

lemma agree_continue:
  assumes "agree m m'" "\<And>ok v r. plain (current r) \<Longrightarrow> agree (g (ok, v, r)) (g' (ok, v, r))"
  shows "agree (continue m g) (continue m' g')"
proof (cases "m = Some (Inl keylength_exn)")
  case False
  then have m: "m' = m" "\<forall>ok v r. m = Some (Inr (ok, v, r)) \<longrightarrow> plain (current r)" using assms(1) by (auto simp: agree_def)
  consider "m = None" | e where "m = Some (Inl e)" | ok v r where "m = Some (Inr (ok, v, r))"
    by (metis option.exhaust prod_cases3 sum.exhaust)
  then show ?thesis by cases (use m assms(2) in \<open>auto simp: continue_def\<close>)
qed (simp add: continue_def)

lemma agree_bind:
  assumes "\<And>x. m = Some (Inr x) \<Longrightarrow> agree (g x) (g' x)"
  shows "agree (continue m g) (continue m g')"
  using assms by (cases m) (auto simp: continue_def split: sum.splits)


text \<open>What the settings must be for the two to agree.\<close>

definition like_reader :: "our_features \<Rightarrow> bool" where
  "like_reader f \<longleftrightarrow> our_stackLimit f = int stackLimit \<and> \<not> failIfExtra f \<and> \<not> rejectDupKeys f"

lemma agree_readValue:
  assumes O: "\<And>name v r. plain (current r) \<Longrightarrow>
      agree (our_readObject f n name v r) (readObject (features.truncate f) n name v r)"
    and A: "\<And>i v r. plain (current r) \<Longrightarrow> agree (our_readArray f n i v r) (readArray (features.truncate f) n i v r)"
    and f: "like_reader f" and r: "plain (current r)"
  shows "agree (our_readValue f (Suc n) cur r) (readValue (features.truncate f) (Suc n) cur r)"
proof (cases "stackDepth r \<ge> stackLimit")
  case False
  define t where "t = skipCommentTokens (features.truncate f) (current r)"
  have pt: "plain (tok_start t)" "plain (tok_end t)" using plain_comment_tokens [OF r] by (simp_all add: t_def)
  have rt: "plain (tok_end (readToken (skipSpaces (tok_end t))))" using plain_readToken plain_skip pt by blast
  have dropped: "allowDroppedNullPlaceholders (features.truncate f) = allowDroppedNullPlaceholders f"
    by (simp add: features.truncate_def)
  note defs = our_readValue.simps readValue.simps Let_def plain_comment_same [OF r] t_def [symmetric] dropped
    plain_token [OF plain_skip [OF pt(2)]]
  have lim: "\<not> our_stackLimit f \<le> int (stackDepth r)" using False f by (simp add: like_reader_def)
  show ?thesis
  proof (cases "tok_type t")
    case tokenObjectBegin
    then show ?thesis using False lim pt by (auto simp: defs intro!: agree_continue [OF O])
  next
    case tokenArrayBegin
    then show ?thesis using False lim rt plain_skip [OF pt(2)]
      by (auto simp: defs intro!: agree_continue [OF A])
  qed (use False lim pt in \<open>auto simp: defs split: option.splits prod.splits
    dest!: current_decodeNumber current_decodeString\<close>)
next
  case True
  then show ?thesis using f by (simp add: our_readValue.simps readValue.simps like_reader_def)
qed

lemma agree_readObject:
  assumes V: "\<And>cur r. plain (current r) \<Longrightarrow> agree (our_readValue f n cur r) (readValue (features.truncate f) n cur r)"
    and O: "\<And>name v r. plain (current r) \<Longrightarrow>
      agree (our_readObject f n name v r) (readObject (features.truncate f) n name v r)"
    and f: "like_reader f" and r: "plain (current r)"
  shows "agree (our_readObject f (Suc n) name v r) (readObject (features.truncate f) (Suc n) name v r)"
proof -
  define t where "t = readPastComments (current r)"
  have pt: "plain (tok_end t)" using plain_past [OF r] by (simp add: t_def)
  have colon: "plain (tok_end (readToken (tok_end t)))" using plain_readToken [OF pt] by simp
  have tail: "agree
      (case our_member_separator f (current r4) of
         Inl comma \<Rightarrow> finish False v' (our_addErrorAndRecover f msg comma tokenObjectEnd (r4\<lparr>current := tok_end comma\<rparr>))
       | Inr comma \<Rightarrow>
           let r5 = r4\<lparr>current := tok_end comma\<rparr>
           in if tok_type comma = tokenObjectEnd then finish True v' r5 else our_readObject f n name' v' r5)
      (case member_separator (current r4) of
         Inl comma \<Rightarrow> finish False v' (addErrorAndRecover msg comma tokenObjectEnd (r4\<lparr>current := tok_end comma\<rparr>))
       | Inr comma \<Rightarrow>
           let r5 = r4\<lparr>current := tok_end comma\<rparr>
           in if tok_type comma = tokenObjectEnd then finish True v' r5
              else readObject (features.truncate f) n name' v' r5)"
    if "plain (current r4)" for r4 v' name' msg
    using plain_separator [OF that] that by (auto simp: Let_def split: sum.split intro!: O)
  have dup: "continue (lift_exn (if rejectDupKeys f then x else Inr False)) g = g False" for x and g :: "bool \<Rightarrow> 'x run"
    using f by (simp add: like_reader_def lift_exn_def continue_def)
  from pt colon show ?thesis
    unfolding our_readObject.simps readObject.simps plain_past_same [OF r] t_def [symmetric] Let_def dup
    by (auto simp: Let_def keylength_exn_def [symmetric] plain_token split: option.split prod.split
      dest!: member_name_current intro!: agree_bind agree_continue [OF V] tail [unfolded Let_def] agree_recover)
qed

lemma agree_readArray:
  assumes V: "\<And>cur r. plain (current r) \<Longrightarrow> agree (our_readValue f n cur r) (readValue (features.truncate f) n cur r)"
    and A: "\<And>i v r. plain (current r) \<Longrightarrow> agree (our_readArray f n i v r) (readArray (features.truncate f) n i v r)"
    and r: "plain (current r)"
  shows "agree (our_readArray f (Suc n) i v r) (readArray (features.truncate f) (Suc n) i v r)"
proof -
  have tail: "agree
      (let token = our_readPastComments f (current r1); r2 = r1\<lparr>current := tok_end token\<rparr>
       in if tok_type token \<notin> {tokenArraySeparator, tokenArrayEnd}
          then finish False v' (our_addErrorAndRecover f msg token tokenArrayEnd r2)
          else if tok_type token = tokenArrayEnd then finish True v' r2
          else our_readArray f n (i + 1) v' r2)
      (let token = readPastComments (current r1); r2 = r1\<lparr>current := tok_end token\<rparr>
       in if tok_type token \<notin> {tokenArraySeparator, tokenArrayEnd}
          then finish False v' (addErrorAndRecover msg token tokenArrayEnd r2)
          else if tok_type token = tokenArrayEnd then finish True v' r2
          else readArray (features.truncate f) n (i + 1) v' r2)"
    if "plain (current r1)" for r1 v' msg
    using plain_past [OF that] by (auto simp: plain_past_same [OF that] Let_def intro!: A)
  show ?thesis
    using tail r by (auto simp: our_readArray.simps readArray.simps Let_def intro!: agree_bind agree_continue [OF V] split: prod.split)
qed

lemma agree_reads:
  assumes "like_reader f" "plain (current r)"
  shows "agree (our_readValue f n cur r) (readValue (features.truncate f) n cur r) \<and>
    agree (our_readObject f n name v r) (readObject (features.truncate f) n name v r) \<and>
    agree (our_readArray f n i v r) (readArray (features.truncate f) n i v r)"
  using assms(2)
proof (induction n arbitrary: cur r name v i)
  case 0
  then show ?case
    by (simp add: our_readValue.simps our_readObject.simps our_readArray.simps readValue.simps readObject.simps readArray.simps)
next
  case (Suc n)
  then show ?case
    by (intro conjI agree_readValue agree_readObject agree_readArray) (use assms(1) Suc in blast)+
qed

lemma agree_parse:
  assumes f: "like_reader f" and doc: "plain doc"
  shows "agree (our_parse f doc root) (parse (features.truncate f) doc root)"
proof -
  have tail: "agree
      (let token = our_skipCommentTokens f (current r); r' = r\<lparr>current := tok_end token\<rparr>
       in if failIfExtra f \<and> tok_type token \<noteq> tokenError \<and> tok_type token \<noteq> tokenEndOfStream then
            finish False root' (addError ''Extra non-whitespace after JSON value.'' token None r')
          else if strictRoot f \<and> \<not> isArray root' \<and> \<not> isObject root' then
            finish False root' (addError m tok None r')
          else finish ok root' r')
      (let token = skipCommentTokens (features.truncate f) (current r); r' = r\<lparr>current := tok_end token\<rparr>
       in if strictRoot (features.truncate f) \<and> \<not> isArray root' \<and> \<not> isObject root' then
            finish False root' (addError m tok None r')
          else finish ok root' r')" if "plain (current r)" for r ok root' m tok
    using plain_comment_tokens [OF that, of "features.truncate f"] plain_comment_same [OF that, of f] f
    by (auto simp: Let_def like_reader_def features.truncate_def)
  show ?thesis
    unfolding our_parse_def parse_def
  proof (rule agree_continue [OF conjunct1 [OF agree_reads [OF f]]])
    fix ok v and r :: reader
    assume "plain (current r)"
    from tail [OF this] show "agree
      ((\<lambda>(successful, root', r).
         let token = our_skipCommentTokens f (current r); r' = r\<lparr>current := tok_end token\<rparr>
         in if failIfExtra f \<and> tok_type token \<noteq> tokenError \<and> tok_type token \<noteq> tokenEndOfStream then
              finish False root' (addError ''Extra non-whitespace after JSON value.'' token None r')
            else if strictRoot f \<and> \<not> isArray root' \<and> \<not> isObject root' then
              finish False root' (addError
                ''A valid JSON document must be either an array or an object value.''
                \<lparr>tok_type = tokenError, tok_start = doc, tok_end = []\<rparr> None r')
            else finish successful root' r') (ok, v, r))
      ((\<lambda>(successful, root', r).
         let token = skipCommentTokens (features.truncate f) (current r); r' = r\<lparr>current := tok_end token\<rparr>
         in if strictRoot (features.truncate f) \<and> \<not> isArray root' \<and> \<not> isObject root' then
              finish False root' (addError
                ''A valid JSON document must be either an array or an object value.''
                \<lparr>tok_type = tokenError, tok_start = doc, tok_end = []\<rparr> None r')
            else finish successful root' r') (ok, v, r))"
      by (simp only: prod.case)
  qed (simp add: doc)
qed



definition sample_features :: our_features where
  "sample_features = \<lparr>allowComments = True, strictRoot = False, allowDroppedNullPlaceholders = False,
     allowNumericKeys = False, allowSingleQuotes = True, failIfExtra = False, rejectDupKeys = False, our_stackLimit = 1000\<rparr>"


section \<open>What the new features do\<close>

text \<open>Without single quotes, an apostrophe starts a comment: \<open>'*x*/2\<close> is read as \<open>2\<close>.\<close>

lemma apostrophe_starts_comment:
  "\<exists>r. our_parse (sample_features\<lparr>allowSingleQuotes := False\<rparr>) (APOSTROPHE # ''*x*/2'') JNull = Some (Inr (True, JInt 2, r)) \<and> good r"
proof -
  have "(case our_parse (sample_features\<lparr>allowSingleQuotes := False\<rparr>) (APOSTROPHE # ''*x*/2'') JNull of
      Some (Inr (ok, v, r)) \<Rightarrow> ok \<and> v = JInt 2 \<and> good r | _ \<Rightarrow> False)" by code_simp
  then show ?thesis by (auto split: option.splits sum.splits)
qed

text \<open>With them, a string between apostrophes ends, when it is decoded, at a double quote inside it.\<close>

lemma single_quoted_cut:
  "\<exists>r. our_parse sample_features (APOSTROPHE # ''ab'' @ QUOTE # ''cd'' @ [APOSTROPHE]) JNull =
     Some (Inr (True, JString ''ab'', r)) \<and> good r"
proof -
  have "(case our_parse sample_features (APOSTROPHE # ''ab'' @ QUOTE # ''cd'' @ [APOSTROPHE]) JNull of
      Some (Inr (ok, v, r)) \<Rightarrow> ok \<and> v = JString ''ab'' \<and> good r | _ \<Rightarrow> False)" by code_simp
  then show ?thesis by (auto split: option.splits sum.splits)
qed

text \<open>Text after the value that is no token is not extra.\<close>

lemma extra_garbage_accepted:
  "\<exists>r. our_parse (sample_features\<lparr>failIfExtra := True\<rparr>) ''1 zz'' JNull = Some (Inr (True, JInt 1, r)) \<and> good r"
proof -
  have "(case our_parse (sample_features\<lparr>failIfExtra := True\<rparr>) ''1 zz'' JNull of
      Some (Inr (ok, v, r)) \<Rightarrow> ok \<and> v = JInt 1 \<and> good r | _ \<Rightarrow> False)" by code_simp
  then show ?thesis by (auto split: option.splits sum.splits)
qed

end
