(* ===== verification/Json_Errors.thy ===== *)
theory Json_Errors
  imports Json_Parser
begin

text \<open>
  The messages of a reader (Client/cpp/json/jsoncpp.cpp): the line and column of a position, the text of the error
  records, and their offsets. \<open>Reader\<close> and \<open>OurReader\<close> have them word for word alike. \<open>begin_\<close> is the document, a
  position the text from it on; lines and columns are \<open>int\<close>, so a document is taken to be shorter than \<open>2 ^ 31\<close>.
\<close>

section \<open>Lines and columns\<close>

text \<open>The loop of \<open>getLocationLineAndColumn\<close>: where the last line starts and how many came before it.\<close>

function line_loop :: "location \<Rightarrow> location \<Rightarrow> location \<Rightarrow> int \<Rightarrow> location \<times> int" where
  "line_loop location [] lastLineStart line = (lastLineStart, line)"
| "line_loop location (c # s) lastLineStart line =
     (if length (c # s) \<le> length location then (lastLineStart, line)
      else if c = CR then
        (let s' = (if deref s = LF then snd (getNextChar s) else s) in line_loop location s' s' (line + 1))
      else if c = LF then line_loop location s s (line + 1)
      else line_loop location s lastLineStart line)"
  by pat_completeness auto
termination
  by (relation "measure (\<lambda>(l, s, ls, n). length s)") (auto intro: le_less_trans [OF getNextChar_length])

definition getLocationLineAndColumn :: "string \<Rightarrow> location \<Rightarrow> int \<times> int" where
  "getLocationLineAndColumn doc location =
     (let (lastLineStart, line) = line_loop location doc doc 0
      in (line + 1, int (length lastLineStart) - int (length location) + 1))"

text \<open>\<open>%d\<close>.\<close>

definition print_int :: "int \<Rightarrow> string" where
  "print_int i = (if i < 0 then CHR ''-'' # nat_digits (nat (- i)) else nat_digits (nat i))"

definition getLocationLineAndColumn_text :: "string \<Rightarrow> location \<Rightarrow> string" where
  "getLocationLineAndColumn_text doc location =
     (let (line, column) = getLocationLineAndColumn doc location
      in ''Line '' @ print_int line @ '', Column '' @ print_int column)"

section \<open>Error records\<close>

definition format_error :: "string \<Rightarrow> error_info \<Rightarrow> string" where
  "format_error doc e =
     ''* '' @ getLocationLineAndColumn_text doc (tok_start (err_token e)) @ [LF]
     @ ''  '' @ err_message e @ [LF]
     @ (case err_extra e of
          None \<Rightarrow> []
        | Some extra \<Rightarrow> ''See '' @ getLocationLineAndColumn_text doc extra @ '' for detail.'' @ [LF])"

definition getFormattedErrorMessages :: "string \<Rightarrow> reader \<Rightarrow> string" where
  "getFormattedErrorMessages doc r = fold (\<lambda>e formattedMessage. formattedMessage @ format_error doc e) (errors r) []"

record structured_error =
  offset_start :: int
  offset_limit :: int
  message :: string

definition structured :: "string \<Rightarrow> error_info \<Rightarrow> structured_error" where
  "structured doc e =
     \<lparr>offset_start = int (length doc) - int (length (tok_start (err_token e))),
      offset_limit = int (length doc) - int (length (tok_end (err_token e))), message = err_message e\<rparr>"

definition getStructuredErrors :: "string \<Rightarrow> reader \<Rightarrow> structured_error list" where
  "getStructuredErrors doc r = map (structured doc) (errors r)"

section \<open>The position, character by character\<close>

text \<open>The reference: a line ends at an LF and at a CR that no LF follows; every other character is a column.\<close>

fun text_position :: "string \<Rightarrow> location \<Rightarrow> int \<times> int \<Rightarrow> int \<times> int" where
  "text_position [] rest p = p"
| "text_position (c # s) rest (line, column) =
     text_position s rest
       (if c = LF \<or> c = CR \<and> deref (s @ rest) \<noteq> LF then (line + 1, 1) else (line, column + 1))"

text \<open>Only between a CR and its LF the code is one line further, in column 0.\<close>

definition position_of :: "string \<Rightarrow> location \<Rightarrow> int \<times> int \<Rightarrow> int \<times> int" where
  "position_of before location p =
     (let (line, column) = text_position before location p
      in if before \<noteq> [] \<and> last before = CR \<and> deref location = LF then (line + 1, 0) else (line, column))"

lemma CR_LF_NUL: "CR \<noteq> LF" "LF \<noteq> CR" "NUL \<noteq> LF"
  by (simp_all add: char_consts)

lemma position_of_Cons:
  "s \<noteq> [] \<or> c \<noteq> CR \<or> deref location \<noteq> LF \<Longrightarrow>
   position_of (c # s) location (line, column) =
     position_of s location (if c = LF \<or> c = CR \<and> deref (s @ location) \<noteq> LF then (line + 1, 1) else (line, column + 1))"
  by (auto simp: position_of_def Let_def split: prod.splits)

lemma line_loop_position:
  "(let (lastLineStart, line) = line_loop location (s @ location) start n
    in (line + 1, int (length lastLineStart) - int (length location) + 1)) =
   position_of s location (n + 1, int (length start) - int (length (s @ location)) + 1)"
proof (induction s arbitrary: start n rule: length_induct)
  case (1 s)
  show ?case
  proof (cases s)
    case Nil
    then show ?thesis by (cases location) (simp_all add: position_of_def)
  next
    case (Cons c t)
    then have IH: "(let (lastLineStart, line) = line_loop location (u @ location) start n
        in (line + 1, int (length lastLineStart) - int (length location) + 1)) =
      position_of u location (n + 1, int (length start) - int (length (u @ location)) + 1)"
      if "length u \<le> length t" for u start n using 1 that by simp
    consider (pair) u where "c = CR" "t = LF # u" | (split) u where "c = CR" "t = []" "location = LF # u"
      | (other) "c \<noteq> CR \<or> deref (t @ location) \<noteq> LF"
      by (cases t; cases location) (auto simp: CR_LF_NUL)
    then show ?thesis
    proof cases
      case pair
      then show ?thesis using IH [of u "u @ location" "n + 1"]
        by (simp add: Cons position_of_Cons CR_LF_NUL Let_def)
    next
      case split
      have "line_loop location u u (n + 1) = (u, n + 1)" using split by (cases u) simp_all
      then show ?thesis using split by (simp add: Cons position_of_def CR_LF_NUL)
    next
      case other
      then have "t \<noteq> [] \<or> c \<noteq> CR \<or> deref location \<noteq> LF" by auto
      then show ?thesis
        using other IH [of t "t @ location" "n + 1"] IH [of t start n]
        by (auto simp: Cons position_of_Cons CR_LF_NUL Let_def algebra_simps)
    qed
  qed
qed

lemma getLocation_position: "getLocationLineAndColumn (s @ location) location = position_of s location (1, 1)"
  using line_loop_position [of location s "s @ location" 0] by (simp add: getLocationLineAndColumn_def)


lemma column_zero: "getLocationLineAndColumn [CR, LF] [LF] = (2, 0)"
  by code_simp

end
