(* ===== verification/Json_Builder.thy ===== *)
theory Json_Builder
  imports Json_Our_Laws Json_Errors
begin

text \<open>
  \<open>CharReaderBuilder\<close> and the stream functions over it (Client/cpp/json/jsoncpp.cpp): the settings, an object of
  named values, the reader made from them, and \<open>parseFromStream\<close>. The contents of an input stream are a string.
\<close>

section \<open>Settings\<close>

text \<open>The loop of the two \<open>validate\<close> functions, over the names that are set: the ones no builder knows are copied.\<close>

fun copy_invalid :: "string list \<Rightarrow> json \<Rightarrow> string list \<Rightarrow> json \<Rightarrow> exn + json" where
  "copy_invalid valid_keys settings [] unknown = Inr unknown"
| "copy_invalid valid_keys settings (key # keys) unknown =
     (if key \<notin> set valid_keys
      then and_then (member settings key) (\<lambda>x. and_then (set_member unknown key x) (copy_invalid valid_keys settings keys))
      else copy_invalid valid_keys settings keys unknown)"

definition getValidReaderKeys :: "string list" where
  "getValidReaderKeys = [''collectComments'', ''allowComments'', ''strictRoot'', ''allowDroppedNullPlaceholders'',
     ''allowNumericKeys'', ''allowSingleQuotes'', ''stackLimit'', ''failIfExtra'', ''rejectDupKeys'']"

text \<open>\<open>validate\<close>: whether the settings are valid, and the invalid ones added to the value given, if one is given.\<close>

definition validate_reader :: "json \<Rightarrow> json option \<Rightarrow> exn + bool \<times> json" where
  "validate_reader settings invalid =
     (let unknown = (case invalid of Some v \<Rightarrow> v | None \<Rightarrow> JNull)
      in and_then (getMemberNames settings) (\<lambda>keys.
         and_then (copy_invalid getValidReaderKeys settings keys unknown) (\<lambda>unknown'. Inr (size_of unknown' = 0, unknown'))))"

fun set_members :: "(string \<times> json) list \<Rightarrow> json \<Rightarrow> exn + json" where
  "set_members [] v = Inr v"
| "set_members ((key, x) # kvs) v = and_then (set_member v key x) (set_members kvs)"

definition CharReaderBuilder_strictMode :: "json \<Rightarrow> exn + json" where
  "CharReaderBuilder_strictMode settings = set_members
     [(''allowComments'', JBool False), (''strictRoot'', JBool True), (''allowDroppedNullPlaceholders'', JBool False),
      (''allowNumericKeys'', JBool False), (''allowSingleQuotes'', JBool False), (''failIfExtra'', JBool True),
      (''rejectDupKeys'', JBool True)] settings"

definition CharReaderBuilder_setDefaults :: "json \<Rightarrow> exn + json" where
  "CharReaderBuilder_setDefaults settings = set_members
     [(''collectComments'', JBool True), (''allowComments'', JBool True), (''strictRoot'', JBool False),
      (''allowDroppedNullPlaceholders'', JBool False), (''allowNumericKeys'', JBool False),
      (''allowSingleQuotes'', JBool False), (''stackLimit'', Value_Int 1000), (''failIfExtra'', JBool False),
      (''rejectDupKeys'', JBool False)] settings"

text \<open>The constructor: the defaults on a null value.\<close>

definition CharReaderBuilder :: "exn + json" where
  "CharReaderBuilder = CharReaderBuilder_setDefaults JNull"

section \<open>Readers\<close>

record char_reader =
  collectComments :: bool
  reader_features :: our_features

definition setting_bool :: "json \<Rightarrow> string \<Rightarrow> exn + bool" where
  "setting_bool settings key = and_then (member settings key) asBool"

text \<open>\<open>OurFeatures::all()\<close> has two fields of arbitrary content, \<open>dup\<close> and \<open>limit\<close>, which are set like the others.\<close>

definition newCharReader :: "bool \<Rightarrow> int \<Rightarrow> json \<Rightarrow> exn + char_reader" where
  "newCharReader dup limit settings =
     and_then (setting_bool settings ''collectComments'') (\<lambda>collect.
       let f = OurFeatures dup limit in
     and_then (setting_bool settings ''allowComments'') (\<lambda>b.
       let f = f\<lparr>allowComments := b\<rparr> in
     and_then (setting_bool settings ''strictRoot'') (\<lambda>b.
       let f = f\<lparr>strictRoot := b\<rparr> in
     and_then (setting_bool settings ''allowDroppedNullPlaceholders'') (\<lambda>b.
       let f = f\<lparr>allowDroppedNullPlaceholders := b\<rparr> in
     and_then (setting_bool settings ''allowNumericKeys'') (\<lambda>b.
       let f = f\<lparr>allowNumericKeys := b\<rparr> in
     and_then (setting_bool settings ''allowSingleQuotes'') (\<lambda>b.
       let f = f\<lparr>allowSingleQuotes := b\<rparr> in
     and_then (and_then (member settings ''stackLimit'') asInt) (\<lambda>i.
       let f = f\<lparr>our_stackLimit := sint i\<rparr> in
     and_then (setting_bool settings ''failIfExtra'') (\<lambda>b.
       let f = f\<lparr>failIfExtra := b\<rparr> in
     and_then (setting_bool settings ''rejectDupKeys'') (\<lambda>b.
       let f = f\<lparr>rejectDupKeys := b\<rparr> in
       Inr \<lparr>collectComments = collect, reader_features = f\<rparr>)))))))))"

text \<open>\<open>OurCharReader::parse\<close>: the outcome, the root and the messages, which are assigned when \<open>errs\<close> is given.\<close>

definition char_parse :: "char_reader \<Rightarrow> string \<Rightarrow> json \<Rightarrow> string option \<Rightarrow> (bool \<times> json \<times> string option) run" where
  "char_parse cr doc root errs =
     continue (our_parse (reader_features cr) doc root) (\<lambda>(ok, root', r).
       Some (Inr (ok, root', map_option (\<lambda>_. getFormattedErrorMessages doc r) errs)))"

definition parseFromStream ::
    "bool \<Rightarrow> int \<Rightarrow> json \<Rightarrow> string \<Rightarrow> json \<Rightarrow> string option \<Rightarrow> (bool \<times> json \<times> string option) run" where
  "parseFromStream dup limit builder sin root errs =
     continue (lift_exn (newCharReader dup limit builder)) (\<lambda>cr. char_parse cr sin root errs)"

text \<open>\<open>operator>>\<close>, less the line it prints on stderr when it throws.\<close>

definition stream_in :: "bool \<Rightarrow> int \<Rightarrow> string \<Rightarrow> json \<Rightarrow> json run" where
  "stream_in dup limit sin root =
     continue (lift_exn CharReaderBuilder) (\<lambda>b.
     continue (parseFromStream dup limit b sin root (Some [])) (\<lambda>(ok, root', errs).
       if ok then Some (Inr root') else Some (Inl (RuntimeError ''reader error''))))"

section \<open>Laws of the settings\<close>

lemma set_members_object: "set_members kvs (JObj m) = Inr (JObj (fold (\<lambda>(k, x). omap_insert k x) kvs m))"
proof (induction kvs arbitrary: m)
  case (Cons e kvs)
  obtain k x where e: "e = (k, x)" by force
  have "\<exists>m' y. resolveReference (JObj m) k = Inr (m', y) \<and> omap_insert k x m' = omap_insert k x m"
    by (auto simp: omap_insert_insert split: option.split)
  with Cons show ?case by (auto simp: e set_member_def and_then_def)
qed simp

definition default_features :: our_features where
  "default_features = \<lparr>allowComments = True, strictRoot = False, allowDroppedNullPlaceholders = False,
     allowNumericKeys = False, allowSingleQuotes = False, failIfExtra = False, rejectDupKeys = False, our_stackLimit = 1000\<rparr>"

definition strict_features :: our_features where
  "strict_features = \<lparr>allowComments = False, strictRoot = True, allowDroppedNullPlaceholders = False,
     allowNumericKeys = False, allowSingleQuotes = False, failIfExtra = True, rejectDupKeys = True, our_stackLimit = 1000\<rparr>"

text \<open>What the builder makes as it is constructed, and in strict mode.\<close>

lemma CharReaderBuilder_reader:
  "and_then CharReaderBuilder (newCharReader dup limit) = Inr \<lparr>collectComments = True, reader_features = default_features\<rparr>"
  by code_simp

lemma CharReaderBuilder_strict_reader:
  "and_then CharReaderBuilder (\<lambda>s. and_then (CharReaderBuilder_strictMode s) (newCharReader dup limit)) =
     Inr \<lparr>collectComments = True, reader_features = strict_features\<rparr>"
  by code_simp

lemma CharReaderBuilder_valid: "and_then CharReaderBuilder (\<lambda>s. validate_reader s None) = Inr (True, JNull)"
  by code_simp


text \<open>What \<open>validate\<close> copies: the members whose names are not known, in their order.\<close>

definition object_or_null :: "(string \<times> json) list \<Rightarrow> json" where
  "object_or_null m = (if m = [] then JNull else JObj m)"

lemma set_member_at_end:
  "\<forall>a \<in> set (map fst m). a < k \<Longrightarrow> set_member (object_or_null m) k x = Inr (object_or_null (m @ [(k, x)]))"
  by (auto simp: set_member_def object_or_null_def omap_find_fresh omap_insert_last omap_insert_at_end)

lemma copy_invalid_filter:
  assumes "omap_inv m" "m = pre @ rest"
  shows "copy_invalid valid (JObj m) (map fst rest) (object_or_null (filter (\<lambda>(k, x). k \<notin> set valid) pre)) =
    Inr (object_or_null (filter (\<lambda>(k, x). k \<notin> set valid) m))"
  using assms
proof (induction rest arbitrary: pre)
  case (Cons e rest)
  obtain k x where e: "e = (k, x)" by force
  let ?pre = "filter (\<lambda>(k, x). k \<notin> set valid) pre"
  have "\<forall>a \<in> set (map fst ?pre). a < k" using Cons.prems by (auto simp: e omap_inv_def sorted_wrt_append)
  note step = set_member_at_end [OF this, of x]
  have "omap_find m k = Some x"
    using Cons.prems by (simp add: e omap_find_in_set [symmetric])
  then have "member (JObj m) k = Inr x" by (simp add: member_def)
  with step Cons.IH [of "pre @ [e]"] Cons.prems show ?case by (auto simp: e)
qed simp

lemma small_word_zero: "n < 2 ^ 32 \<Longrightarrow> word_of_nat n = (0 :: u32) \<longleftrightarrow> n = 0"
  by (auto simp: word_of_nat_eq_0_iff dest: dvd_imp_le)

lemma validate_filter:
  assumes "omap_inv m" "length m < 2 ^ 32"
  shows "validate_reader (JObj m) None =
    Inr (list_all (\<lambda>(k, x). k \<in> set getValidReaderKeys) m,
         object_or_null (filter (\<lambda>(k, x). k \<notin> set getValidReaderKeys) m))"
proof -
  let ?l = "filter (\<lambda>(k, x). k \<notin> set getValidReaderKeys) m"
  have "copy_invalid getValidReaderKeys (JObj m) (map fst m) JNull = Inr (object_or_null ?l)"
    using copy_invalid_filter [OF assms(1), of "[]" m getValidReaderKeys] by (simp add: object_or_null_def)
  moreover have "length ?l < 2 ^ 32" using assms(2) by (rule le_less_trans [OF length_filter_le])
  then have "size_of (object_or_null ?l) = 0 \<longleftrightarrow> ?l = []" by (simp add: object_or_null_def small_word_zero)
  ultimately show ?thesis
    by (auto simp: validate_reader_def list_all_iff filter_empty_conv)
qed

section \<open>Laws of the readers\<close>

lemma char_parse_not_None: "char_parse cr doc root errs \<noteq> None"
  by (auto simp: char_parse_def continue_None_iff our_parse_returns)

lemma char_parse_throws:
  "char_parse cr doc root errs = Some (Inl e) \<Longrightarrow>
   e = RuntimeError ''Exceeded stackLimit in readValue().'' \<or> e = RuntimeError ''keylength >= 2^30''"
  by (auto simp: char_parse_def continue_def split: option.splits sum.splits dest: our_parse_throws)

lemma default_parse:
  "parseFromStream dup limit settings sin root errs = char_parse cr sin root errs"
  if "newCharReader dup limit settings = Inr cr"
  using that by (simp add: parseFromStream_def lift_exn_def continue_def)

lemma stream_in_eq:
  "stream_in dup limit sin root =
     continue (char_parse \<lparr>collectComments = True, reader_features = default_features\<rparr> sin root (Some []))
       (\<lambda>(ok, root', errs). if ok then Some (Inr root') else Some (Inl (RuntimeError ''reader error'')))"
proof -
  obtain b where b: "CharReaderBuilder = Inr b"
    "newCharReader dup limit b = Inr \<lparr>collectComments = True, reader_features = default_features\<rparr>"
    using CharReaderBuilder_reader [of dup limit] by (auto simp: and_then_Inr)
  show ?thesis unfolding stream_in_def b(1) default_parse [OF b(2)] by (simp add: lift_exn_def continue_def default_parse [OF b(2)])
qed

lemma stream_in_not_None: "stream_in dup limit sin root \<noteq> None"
  unfolding stream_in_eq by (auto simp: continue_None_iff char_parse_not_None split: prod.splits if_splits)

lemma default_like_reader [simp]: "like_reader default_features" "features.truncate default_features = Features"
  by (simp_all add: like_reader_def default_features_def stackLimit_def features.truncate_def Features_def)

text \<open>
  \<open>CharReaderBuilder::validate\<close> finds exactly the settings no reader knows: on an object of settings it answers
  whether all names are known, and copies the members with unknown names, in their order, and no others.
\<close>

theorem validate_finds_unknown:
  assumes "omap_inv m" "length m < 2 ^ 32"
  shows "validate_reader (JObj m) None =
    Inr (list_all (\<lambda>(k, x). k \<in> set getValidReaderKeys) m,
         object_or_null (filter (\<lambda>(k, x). k \<notin> set getValidReaderKeys) m))"
  using assms by (rule validate_filter)

theorem validate_finds_unknown_witness:
  "validate_reader (JObj [(''allowComments'', JNull), (''comments'', JBool True)]) None =
     Inr (False, JObj [(''comments'', JBool True)])"
proof -
  have "omap_inv [(''allowComments'', JNull), (''comments'', JBool True)]" by (simp add: omap_inv_def)
  from validate_finds_unknown [OF this] show ?thesis by (simp add: getValidReaderKeys_def object_or_null_def)
qed

end
