(* ===== verification/Json_Stream_Writer.thy ===== *)
theory Json_Stream_Writer
  imports Json_Writer
begin

text \<open>
  The writers to a stream (Client/cpp/json/jsoncpp.cpp): \<open>BuiltStyledStreamWriter\<close>, which \<open>StreamWriterBuilder\<close>
  makes, and the older \<open>StyledStreamWriter\<close>. Where a line may be broken they keep a flag instead of looking at what
  is written. Values carry no comments here, so the comment functions write nothing; the comment style still
  decides how arrays are laid out. As in \<open>Json_Writer\<close>, the recursion is over the entries of a container and the
  action of an entry is looked up. The stream is the string written so far.
\<close>

section \<open>State\<close>

datatype comment_style = CommentStyle_None | CommentStyle_Most | CommentStyle_All

record stream_format =
  indentation :: string
  cs :: comment_style
  colonSymbol :: string
  nullSymbol :: string
  endingLineFeedSymbol :: string

record stream_writer =
  sout :: string
  stream_children :: "string list"
  stream_indent :: string
  stream_adding :: bool
  indented :: bool

definition BuiltStyledStreamWriter :: stream_writer where
  "BuiltStyledStreamWriter =
     \<lparr>sout = [], stream_children = [], stream_indent = [], stream_adding = False, indented = False\<rparr>"

definition stream_put :: "string \<Rightarrow> stream_writer \<Rightarrow> stream_writer" where
  "stream_put s w = w\<lparr>sout := sout w @ s\<rparr>"

definition stream_pushValue :: "string \<Rightarrow> stream_writer \<Rightarrow> stream_writer" where
  "stream_pushValue s w =
     (if stream_adding w then w\<lparr>stream_children := stream_children w @ [s]\<rparr> else stream_put s w)"

definition built_writeIndent :: "stream_format \<Rightarrow> stream_writer \<Rightarrow> stream_writer" where
  "built_writeIndent f w = (if indentation f \<noteq> [] then stream_put (LF # stream_indent w) w else w)"

definition built_writeWithIndent :: "stream_format \<Rightarrow> string \<Rightarrow> stream_writer \<Rightarrow> stream_writer" where
  "built_writeWithIndent f s w =
     (stream_put s (if \<not> indented w then built_writeIndent f w else w))\<lparr>indented := False\<rparr>"

definition stream_indent_more :: "string \<Rightarrow> stream_writer \<Rightarrow> stream_writer" where
  "stream_indent_more ind w = w\<lparr>stream_indent := stream_indent w @ ind\<rparr>"

definition stream_unindent :: "string \<Rightarrow> stream_writer \<Rightarrow> stream_writer" where
  "stream_unindent ind w = w\<lparr>stream_indent := take (length (stream_indent w) - length ind) (stream_indent w)\<rparr>"

definition stream_child :: "stream_writer \<Rightarrow> nat \<Rightarrow> string" where
  "stream_child w i = (if i < length (stream_children w) then stream_children w ! i else [])"

section \<open>Arrays\<close>

fun stream_collect ::
    "(stream_writer \<Rightarrow> stream_writer) list \<Rightarrow> nat \<Rightarrow> int \<Rightarrow> stream_writer \<Rightarrow> int \<times> stream_writer" where
  "stream_collect [] i lineLength w = (lineLength, w)"
| "stream_collect (act # acts) i lineLength w =
     (let w' = act w in stream_collect acts (i + 1) (lineLength + int (length (stream_child w' i))) w')"

text \<open>\<open>isMultineArray\<close>, on the elements of the array and the actions that write them.\<close>

definition stream_isMultineArray ::
    "u32 \<Rightarrow> (json \<times> (stream_writer \<Rightarrow> stream_writer)) list \<Rightarrow> stream_writer \<Rightarrow> bool \<times> stream_writer" where
  "stream_isMultineArray sz elems w =
     (let n = sint sz;
          multi = (n * 3 \<ge> rightMargin
            \<or> (\<exists>(v, _) \<in> set (take (nat n) elems). (isArray v \<or> isObject v) \<and> size_of v > 0));
          w0 = w\<lparr>stream_children := []\<rparr>
      in if multi then (True, w0)
         else
           let (lineLength, w1) =
             stream_collect (map snd (take (nat n) elems)) 0 (4 + (n - 1) * 2) (w0\<lparr>stream_adding := True\<rparr>)
           in (lineLength \<ge> rightMargin, w1\<lparr>stream_adding := False\<rparr>))"

definition built_element ::
    "stream_format \<Rightarrow> bool \<Rightarrow> nat \<Rightarrow> (stream_writer \<Rightarrow> stream_writer) \<Rightarrow> stream_writer \<Rightarrow> stream_writer" where
  "built_element f hasChildValue i act w =
     (if hasChildValue then built_writeWithIndent f (stream_child w i) w
      else
        let w1 = (if \<not> indented w then built_writeIndent f w else w)
        in (act (w1\<lparr>indented := True\<rparr>))\<lparr>indented := False\<rparr>)"

fun built_elements ::
    "stream_format \<Rightarrow> bool \<Rightarrow> nat \<Rightarrow> (stream_writer \<Rightarrow> stream_writer) list \<Rightarrow> stream_writer \<Rightarrow> stream_writer" where
  "built_elements f hasChildValue i [] w = w"
| "built_elements f hasChildValue i (act # acts) w =
     (let w1 = built_element f hasChildValue i act w
      in if acts = [] then w1 else built_elements f hasChildValue (i + 1) acts (stream_put '','' w1))"

definition built_writeArrayValue ::
    "stream_format \<Rightarrow> u32 \<Rightarrow> (json \<times> (stream_writer \<Rightarrow> stream_writer)) list \<Rightarrow> stream_writer \<Rightarrow> stream_writer" where
  "built_writeArrayValue f sz elems w =
     (if sz = 0 then stream_pushValue ''[]'' w
      else
        let (multi, w1) = (if cs f = CommentStyle_All then (True, w) else stream_isMultineArray sz elems w) in
        if multi then
          let w2 = stream_indent_more (indentation f) (built_writeWithIndent f ''['' w1);
              w3 = built_elements f (stream_children w2 \<noteq> []) 0 (map snd elems) w2
          in built_writeWithIndent f '']'' (stream_unindent (indentation f) w3)
        else
          let pad = (if indentation f \<noteq> [] then '' '' else [])
          in stream_put '']'' (stream_put pad
               (stream_put (join '', '' (map (stream_child w1) [0 ..< unat sz])) (stream_put pad (stream_put ''['' w1)))))"

section \<open>Objects and values\<close>

fun built_members ::
    "stream_format \<Rightarrow> (string \<times> (stream_writer \<Rightarrow> stream_writer)) list \<Rightarrow> stream_writer \<Rightarrow> stream_writer" where
  "built_members f [] w = w"
| "built_members f ((name, act) # ms) w =
     (let w1 = act (stream_put (colonSymbol f) (built_writeWithIndent f (valueToQuotedStringN (Some name)) w))
      in if ms = [] then w1 else built_members f ms (stream_put '','' w1))"

text \<open>A string without a buffer is written as nothing.\<close>

fun built_writeValue :: "stream_format \<Rightarrow> json \<Rightarrow> stream_writer \<Rightarrow> stream_writer" where
  "built_writeValue f JNull = stream_pushValue (nullSymbol f)"
| "built_writeValue f (JInt i) = stream_pushValue (valueToString_int i)"
| "built_writeValue f (JUInt u) = stream_pushValue (valueToString_uint u)"
| "built_writeValue f (JReal r) = stream_pushValue (valueToString_double r)"
| "built_writeValue f (JStr s) = stream_pushValue (case s of Some _ \<Rightarrow> valueToQuotedStringN s | None \<Rightarrow> [])"
| "built_writeValue f (JBool b) = stream_pushValue (valueToString_bool b)"
| "built_writeValue f (JArr m) =
     (let acts = map (\<lambda>(k, v). (k, (v, built_writeValue f v))) m
      in built_writeArrayValue f (arr_size m)
           (map (\<lambda>i. looked_up (JNull, stream_pushValue (nullSymbol f)) acts (word_of_nat i)) [0 ..< unat (arr_size m)]))"
| "built_writeValue f (JObj m) =
     (let acts = map (\<lambda>(k, v). (k, built_writeValue f v)) m in
      if m = [] then stream_pushValue ''{}''
      else (\<lambda>w. built_writeWithIndent f ''}'' (stream_unindent (indentation f)
        (built_members f (map (\<lambda>name. (name, looked_up (stream_pushValue (nullSymbol f)) acts name)) (map fst m))
          (stream_indent_more (indentation f) (built_writeWithIndent f ''{'' w))))))"

text \<open>\<open>write\<close> appends to the stream it is given, \<open>sout\<close> of the writer here.\<close>

definition built_write :: "stream_format \<Rightarrow> json \<Rightarrow> stream_writer \<Rightarrow> stream_writer" where
  "built_write f root w =
     (let w0 = w\<lparr>stream_adding := False, indented := True, stream_indent := []\<rparr>;
          w1 = (if \<not> indented w0 then built_writeIndent f w0 else w0)
      in stream_put (endingLineFeedSymbol f) (built_writeValue f root (w1\<lparr>indented := True\<rparr>)))"

section \<open>StyledStreamWriter\<close>

text \<open>Its own functions; the others are those above. The indentation is the only setting.\<close>

definition ssw_writeIndent :: "stream_writer \<Rightarrow> stream_writer" where
  "ssw_writeIndent w = stream_put (LF # stream_indent w) w"

definition ssw_writeWithIndent :: "string \<Rightarrow> stream_writer \<Rightarrow> stream_writer" where
  "ssw_writeWithIndent s w =
     (stream_put s (if \<not> indented w then ssw_writeIndent w else w))\<lparr>indented := False\<rparr>"

text \<open>\<open>writeCommentAfterValueOnSameLine\<close> without a comment still clears the flag.\<close>

definition ssw_after_value :: "stream_writer \<Rightarrow> stream_writer" where
  "ssw_after_value w = w\<lparr>indented := False\<rparr>"

fun ssw_elements :: "bool \<Rightarrow> nat \<Rightarrow> (stream_writer \<Rightarrow> stream_writer) list \<Rightarrow> stream_writer \<Rightarrow> stream_writer" where
  "ssw_elements hasChildValue i [] w = w"
| "ssw_elements hasChildValue i (act # acts) w =
     (let w1 =
            (if hasChildValue then ssw_writeWithIndent (stream_child w i) w
             else
               let w0 = (if \<not> indented w then ssw_writeIndent w else w)
               in (act (w0\<lparr>indented := True\<rparr>))\<lparr>indented := False\<rparr>)
      in if acts = [] then ssw_after_value w1
         else ssw_elements hasChildValue (i + 1) acts (ssw_after_value (stream_put '','' w1)))"

definition ssw_writeArrayValue ::
    "string \<Rightarrow> u32 \<Rightarrow> (json \<times> (stream_writer \<Rightarrow> stream_writer)) list \<Rightarrow> stream_writer \<Rightarrow> stream_writer" where
  "ssw_writeArrayValue ind sz elems w =
     (if sz = 0 then stream_pushValue ''[]'' w
      else
        let (multi, w1) = stream_isMultineArray sz elems w in
        if multi then
          let w2 = stream_indent_more ind (ssw_writeWithIndent ''['' w1);
              w3 = ssw_elements (stream_children w2 \<noteq> []) 0 (map snd elems) w2
          in ssw_writeWithIndent '']'' (stream_unindent ind w3)
        else stream_put '' ]'' (stream_put (join '', '' (map (stream_child w1) [0 ..< unat sz])) (stream_put ''[ '' w1)))"

fun ssw_members :: "(string \<times> (stream_writer \<Rightarrow> stream_writer)) list \<Rightarrow> stream_writer \<Rightarrow> stream_writer" where
  "ssw_members [] w = w"
| "ssw_members ((name, act) # ms) w =
     (let w1 = act (stream_put '' : '' (ssw_writeWithIndent (valueToQuotedString (Some name)) w))
      in if ms = [] then ssw_after_value w1 else ssw_members ms (ssw_after_value (stream_put '','' w1)))"

fun ssw_writeValue :: "string \<Rightarrow> json \<Rightarrow> stream_writer \<Rightarrow> stream_writer" where
  "ssw_writeValue ind JNull = stream_pushValue ''null''"
| "ssw_writeValue ind (JInt i) = stream_pushValue (valueToString_int i)"
| "ssw_writeValue ind (JUInt u) = stream_pushValue (valueToString_uint u)"
| "ssw_writeValue ind (JReal r) = stream_pushValue (valueToString_double r)"
| "ssw_writeValue ind (JStr s) = stream_pushValue (case s of Some _ \<Rightarrow> valueToQuotedStringN s | None \<Rightarrow> [])"
| "ssw_writeValue ind (JBool b) = stream_pushValue (valueToString_bool b)"
| "ssw_writeValue ind (JArr m) =
     (let acts = map (\<lambda>(k, v). (k, (v, ssw_writeValue ind v))) m
      in ssw_writeArrayValue ind (arr_size m)
           (map (\<lambda>i. looked_up (JNull, stream_pushValue ''null'') acts (word_of_nat i)) [0 ..< unat (arr_size m)]))"
| "ssw_writeValue ind (JObj m) =
     (let acts = map (\<lambda>(k, v). (k, ssw_writeValue ind v)) m in
      if m = [] then stream_pushValue ''{}''
      else (\<lambda>w. ssw_writeWithIndent ''}'' (stream_unindent ind
        (ssw_members (map (\<lambda>name. (name, looked_up (stream_pushValue ''null'') acts name)) (map fst m))
          (stream_indent_more ind (ssw_writeWithIndent ''{'' w))))))"

definition ssw_write :: "string \<Rightarrow> json \<Rightarrow> stream_writer \<Rightarrow> stream_writer" where
  "ssw_write ind root w =
     (let w0 = w\<lparr>stream_adding := False, stream_indent := [], indented := True\<rparr>;
          w1 = (if \<not> indented w0 then ssw_writeIndent w0 else w0)
      in stream_put [LF] (ssw_after_value (ssw_writeValue ind root (w1\<lparr>indented := True\<rparr>))))"

end
