(* ===== verification/Json_Written.thy ===== *)
theory Json_Written
  imports Json_Roundtrip Json_Stream_Writer
begin

text \<open>
  The indenting writers write texts of their value: each keeps the contract of the locale \<open>layout_writer\<close>, in which
  the loops over elements and members are proved once. With the contract of the readers in \<open>Json_Layout\<close> this
  makes every document of every writer readable.
\<close>

section \<open>The contract of a writer\<close>

text \<open>\<open>ready p w\<close>: the writer is not collecting children and its indentation is \<open>p\<close>, which is blank.\<close>

locale layout_writer =
  fixes out :: "'w \<Rightarrow> string"
    and kids :: "'w \<Rightarrow> string list"
    and ready :: "string \<Rightarrow> 'w \<Rightarrow> bool"
    and comma :: "'w \<Rightarrow> 'w"
    and step :: "bool \<Rightarrow> nat \<Rightarrow> ('w \<Rightarrow> 'w) \<Rightarrow> 'w \<Rightarrow> 'w"
    and elements :: "bool \<Rightarrow> nat \<Rightarrow> ('w \<Rightarrow> 'w) list \<Rightarrow> 'w \<Rightarrow> 'w"
    and name_ok :: "string \<Rightarrow> bool"
    and name :: "string \<Rightarrow> 'w \<Rightarrow> 'w"
    and members :: "(string \<times> ('w \<Rightarrow> 'w)) list \<Rightarrow> 'w \<Rightarrow> 'w"
  assumes comma: "ready p w \<Longrightarrow> ready p (comma w) \<and> out (comma w) = out w @ '','' \<and> kids (comma w) = kids w"
    and step_kid: "ready p w \<Longrightarrow> i < length (kids w) \<Longrightarrow>
      ready p (step True i act w) \<and> kids (step True i act w) = kids w \<and>
      (\<exists>u. blank u \<and> out (step True i act w) = out w @ u @ kids w ! i)"
    and step_act: "ready p w \<Longrightarrow> (\<And>w. ready p w \<Longrightarrow> ready p (act w) \<and> (\<exists>t. layout v t \<and> out (act w) = out w @ t)) \<Longrightarrow>
      ready p (step False i act w) \<and> (\<exists>t. layout v t \<and> out (step False i act w) = out w @ t)"
    and elements_Cons: "ready p w \<Longrightarrow> elements h i (act # acts) w =
      (if acts = [] then step h i act w else elements h (i + 1) acts (comma (step h i act w)))"
    and name: "ready p w \<Longrightarrow> name_ok k \<Longrightarrow> ready p (name k w) \<and>
      (\<exists>u u' u''. blank u \<and> blank u' \<and> blank u'' \<and>
         out (name k w) = out w @ u @ valueToQuotedStringN (Some k) @ u' @ CHR '':'' # u'')"
    and members_Cons: "ready p w \<Longrightarrow> members ((k, act) # ms) w =
      (if ms = [] then act (name k w) else members ms (comma (act (name k w))))"
begin

definition lays :: "json \<Rightarrow> ('w \<Rightarrow> 'w) \<Rightarrow> bool" where
  "lays v act \<longleftrightarrow> (\<forall>p w. ready p w \<longrightarrow> ready p (act w) \<and> (\<exists>t. layout v t \<and> out (act w) = out w @ t))"

lemma laysD: "lays v act \<Longrightarrow> ready p w \<Longrightarrow> ready p (act w) \<and> (\<exists>t. layout v t \<and> out (act w) = out w @ t)"
  by (simp add: lays_def)

text \<open>The elements of an array that are written into the stream.\<close>

lemma writes_elements:
  assumes "m \<noteq> []" "\<forall>(k, v) \<in> set m. lays v (f v)" "ready p w"
  shows "ready p (elements False i (map (\<lambda>(k, v). f v) m) w) \<and>
    (\<exists>t. element_texts m t \<and> out (elements False i (map (\<lambda>(k, v). f v) m) w) = out w @ t)"
  using assms
proof (induction m arbitrary: w i)
  case (Cons e m)
  obtain k v where e: "e = (k, v)" by force
  define w1 where "w1 = step False i (f v) w"
  have "lays v (f v)" using Cons.prems(2) by (simp add: e)
  from step_act [OF Cons.prems(3) laysD [OF this], of i]
  obtain t where t: "ready p w1" "layout v t" "out w1 = out w @ t" by (auto simp: w1_def)
  show ?case
  proof (cases "m = []")
    case True
    then show ?thesis using t one_element [of v t k] by (auto simp: e elements_Cons [OF Cons.prems(3)] w1_def)
  next
    case False
    have "\<forall>(k, v) \<in> set m. lays v (f v)" using Cons.prems(2) by simp
    from Cons.IH [OF False this conjunct1 [OF comma [OF t(1)]], of "i + 1"] obtain t' where
      "element_texts m t'" "ready p (elements False (i + 1) (map (\<lambda>(k, v). f v) m) (comma w1))"
      "out (elements False (i + 1) (map (\<lambda>(k, v). f v) m) (comma w1)) = out (comma w1) @ t'" by blast
    then show ?thesis
      using False t comma [OF t(1)] more_elements [OF t(2), of m t' "[]" k]
      by (auto simp: e elements_Cons [OF Cons.prems(3)] w1_def)
  qed
qed simp

text \<open>The elements that were collected first.\<close>

lemma writes_kids:
  assumes "acts \<noteq> []" "length m = length acts" "ready p w" "i + length m = length (kids w)"
    "\<forall>j < length m. layout (snd (m ! j)) (kids w ! (i + j))"
  shows "ready p (elements True i acts w) \<and> (\<exists>t. element_texts m t \<and> out (elements True i acts w) = out w @ t)"
  using assms
proof (induction acts arbitrary: w i m)
  case (Cons act acts)
  obtain k v m' where m: "m = (k, v) # m'" using Cons.prems(2) by (cases m) auto
  have i: "i < length (kids w)" using Cons.prems(4) by (simp add: m)
  define w1 where "w1 = step True i act w"
  from step_kid [OF Cons.prems(3) i, of act] obtain u where
    w1: "ready p w1" "kids w1 = kids w" "blank u" "out w1 = out w @ u @ kids w ! i" by (auto simp: w1_def)
  have "layout v (kids w ! i)" using Cons.prems(5) by (force simp: m)
  note t = layout_blank [OF this w1(3)]
  show ?case
  proof (cases "acts = []")
    case True
    then have "m' = []" using Cons.prems(2) m by simp
    then show ?thesis using True w1 one_element [OF t, of k] by (auto simp: m elements_Cons [OF Cons.prems(3)] w1_def)
  next
    case False
    note c = comma [OF w1(1)]
    have "ready p (elements True (i + 1) acts (comma w1)) \<and>
      (\<exists>t. element_texts m' t \<and> out (elements True (i + 1) acts (comma w1)) = out (comma w1) @ t)"
    proof (rule Cons.IH [OF False])
      show "\<forall>j < length m'. layout (snd (m' ! j)) (kids (comma w1) ! (i + 1 + j))"
      proof (intro allI impI)
        fix j assume "j < length m'"
        then show "layout (snd (m' ! j)) (kids (comma w1) ! (i + 1 + j))"
          using Cons.prems(5) [rule_format, of "Suc j"] c w1(2) by (simp add: m)
      qed
    qed (use Cons.prems c w1(2) in \<open>simp_all add: m\<close>)
    then obtain t' where
      "element_texts m' t'" "ready p (elements True (i + 1) acts (comma w1))"
      "out (elements True (i + 1) acts (comma w1)) = out (comma w1) @ t'" by blast
    then show ?thesis
      using False w1 c more_elements [OF t, of m' t' "[]" k]
      by (auto simp: m elements_Cons [OF Cons.prems(3)] w1_def)
  qed
qed simp

text \<open>The members of an object.\<close>

lemma writes_members:
  assumes "m \<noteq> []" "\<forall>(k, v) \<in> set m. name_ok k \<and> lays v (f v)" "ready p w"
  shows "ready p (members (map (\<lambda>(k, v). (k, f v)) m) w) \<and>
    (\<exists>t. member_texts m t \<and> out (members (map (\<lambda>(k, v). (k, f v)) m) w) = out w @ t)"
  using assms
proof (induction m arbitrary: w)
  case (Cons e m)
  obtain k v where e: "e = (k, v)" by force
  have ok: "name_ok k" "lays v (f v)" using Cons.prems(2) by (simp_all add: e)
  from name [OF Cons.prems(3) ok(1)] obtain u u' u'' where
    n: "ready p (name k w)" "blank u" "blank u'" "blank u''"
      "out (name k w) = out w @ u @ valueToQuotedStringN (Some k) @ u' @ CHR '':'' # u''" by blast
  define w1 where "w1 = f v (name k w)"
  from laysD [OF ok(2) n(1)] obtain t where t: "ready p w1" "layout v t" "out w1 = out (name k w) @ t"
    by (auto simp: w1_def)
  note t' = layout_blank [OF t(2) n(4)]
  show ?case
  proof (cases "m = []")
    case True
    then show ?thesis using t n one_member [OF t' n(2,3), of k] by (auto simp: e members_Cons [OF Cons.prems(3)] w1_def)
  next
    case False
    have "\<forall>(k, v) \<in> set m. name_ok k \<and> lays v (f v)" using Cons.prems(2) by simp
    from Cons.IH [OF False this conjunct1 [OF comma [OF t(1)]]] obtain t1 where
      "member_texts m t1" "ready p (members (map (\<lambda>(k, v). (k, f v)) m) (comma w1))"
      "out (members (map (\<lambda>(k, v). (k, f v)) m) (comma w1)) = out (comma w1) @ t1" by blast
    then show ?thesis
      using False t n comma [OF t(1)] more_members [OF t' _ n(2,3), of m t1 "[]" k]
      by (auto simp: e members_Cons [OF Cons.prems(3)] w1_def)
  qed
qed simp

end


section \<open>Values of ordinary size\<close>

text \<open>No object has so many members that their number wraps.\<close>

fun sized :: "json \<Rightarrow> bool" where
  "sized (JArr m) = (\<forall>e \<in> set m. sized (snd e))"
| "sized (JObj m) = (length m < 2 ^ 32 \<and> (\<forall>e \<in> set m. sized (snd e)))"
| "sized v = True"

text \<open>The values a writer puts on one line with others.\<close>

definition flat :: "json \<Rightarrow> bool" where
  "flat v \<longleftrightarrow> \<not> ((isArray v \<or> isObject v) \<and> size_of v > 0)"

lemma word_small: "n < 2 ^ 32 \<Longrightarrow> unat (word_of_nat n :: u32) = n"
  by (simp add: unat_of_nat take_bit_eq_mod)

lemma small_sint: "n < 2 ^ 31 \<Longrightarrow> sint (word_of_nat n :: u32) = int n"
  by (simp add: signed_of_nat signed_take_bit_int_eq_self)

lemma dense_counts:
  assumes "writable (JArr m)"
  shows "arr_size m = word_of_nat (length m)" "unat (arr_size m) = length m" "sint (arr_size m) = int (length m)"
    "arr_size m = 0 \<longleftrightarrow> m = []"
proof -
  have l: "length m < 2 ^ 31" and d: "map fst m = map word_of_nat [0 ..< length m]" using assms by simp_all
  show s: "arr_size m = word_of_nat (length m)" using dense_size [OF d] .
  show u: "unat (arr_size m) = length m" unfolding s using l by (intro word_small) simp
  show "sint (arr_size m) = int (length m)"
    unfolding s using l by (rule small_sint)
  show "arr_size m = 0 \<longleftrightarrow> m = []" using u by (metis length_0_conv unat_0 unat_eq_zero)
qed

lemma flat_simps:
  "writable (JArr m) \<Longrightarrow> flat (JArr m) \<longleftrightarrow> m = []"
  "sized (JObj n) \<Longrightarrow> flat (JObj n) \<longleftrightarrow> n = []"
  using dense_counts(4) [of m] word_small [of "length n"]
  by (auto simp: flat_def isArray_def isObject_def word_gt_0 unat_eq_zero [symmetric] simp del: writable.simps)

lemma elements_actions:
  assumes "writable (JArr m)"
  shows "map (\<lambda>i. looked_up d (map (\<lambda>(k, v). (k, g v)) m) (word_of_nat i)) [0 ..< unat (arr_size m)] = map (\<lambda>(k, v). g v) m"
proof -
  have d: "map fst m = map word_of_nat [0 ..< length m]" and "length m < 2 ^ 31" using assms by simp_all
  then have "distinct (map fst m)" unfolding d by (intro distinct_words) simp
  from looked_up_all [OF this, of d g] show ?thesis unfolding dense_counts(2) [OF assms] d by (simp add: comp_def)
qed

lemma members_actions:
  assumes "omap_inv m"
  shows "map (\<lambda>name. (name, looked_up d (map (\<lambda>(k, v). (k, g v)) m) name)) (map fst m) = map (\<lambda>(k, v). (k, g v)) m"
proof -
  have "distinct (map fst m)" using assms by (simp add: omap_inv_def strict_sorted_iff)
  from looked_up_all [OF this, of d g] show ?thesis by (auto simp: comp_def)
qed

lemma elements_join_texts:
  assumes "list_all2 (\<lambda>(k, v) t. layout v t) m ts" "m \<noteq> []" "blank ws"
  shows "element_texts m (join (CHR '','' # ws) ts)"
  using assms
proof (induction rule: list_all2_induct)
  case (Cons e m t ts)
  obtain k v where e: "e = (k, v)" by force
  show ?case
  proof (cases "m = []")
    case True
    then show ?thesis using Cons e one_element [of v t k] by simp
  next
    case False
    then have "element_texts m (ws @ join (CHR '','' # ws) ts)" using Cons by (intro elements_blank) simp_all
    moreover have "ts \<noteq> []" using False Cons by auto
    ultimately show ?thesis using more_elements [of v t m _ "[]" k] Cons by (simp add: e join_Cons)
  qed
qed simp

lemma layout_snd: "(\<lambda>(k, v). layout v) = (\<lambda>e. layout (snd e))"
  by auto

section \<open>The contract of an indenting writer\<close>

text \<open>What a writer does with a value: \<open>push\<close> writes the text of a flat one, \<open>multi\<close> decides whether an array takes
  several lines and collects the texts of its elements when they are flat, \<open>single\<close> writes it on one line, \<open>token\<close>
  starts a new line if need be, \<open>deeper\<close> and \<open>shallower\<close> change the indentation by \<open>ind\<close>.\<close>

locale value_writer = layout_writer +
  fixes push :: "string \<Rightarrow> 'a \<Rightarrow> 'a"
    and token :: "string \<Rightarrow> 'a \<Rightarrow> 'a"
    and deeper :: "'a \<Rightarrow> 'a"
    and shallower :: "'a \<Rightarrow> 'a"
    and ind :: string
    and multi :: "(json \<times> ('a \<Rightarrow> 'a)) list \<Rightarrow> 'a \<Rightarrow> bool \<times> 'a"
    and single :: "nat \<Rightarrow> 'a \<Rightarrow> 'a"
    and write_value :: "json \<Rightarrow> 'a \<Rightarrow> 'a"
  assumes push: "ready p w \<Longrightarrow> ready p (push t w) \<and> out (push t w) = out w @ t"
    and token: "ready p w \<Longrightarrow> ready p (token s w) \<and> kids (token s w) = kids w \<and>
      (\<exists>u. blank u \<and> out (token s w) = out w @ u @ s)"
    and deeper: "ready p w \<Longrightarrow> ready (p @ ind) (deeper w) \<and> kids (deeper w) = kids w \<and> out (deeper w) = out w"
    and shallower: "ready (p @ ind) w \<Longrightarrow> ready p (shallower w) \<and> out (shallower w) = out w"
    and multi: "ready p w \<Longrightarrow> length es < 2 ^ 31 \<Longrightarrow>
      \<forall>(v, act) \<in> set es. flat v \<longrightarrow> (\<exists>t. layout v t \<and> act = push t) \<Longrightarrow> multi es w = (b, w') \<Longrightarrow>
      ready p w' \<and> out w' = out w \<and> (b \<and> kids w' = [] \<or> list_all2 (\<lambda>(v, act) t. layout v t) es (kids w'))"
    and single: "ready p w \<Longrightarrow> ready p (single (length (kids w)) w) \<and>
      (\<exists>pad. blank pad \<and> out (single (length (kids w)) w) = out w @ CHR ''['' # pad @ join '', '' (kids w) @ pad @ '']'')"
    and value_flat: "writable v \<Longrightarrow> sized v \<Longrightarrow> flat v \<Longrightarrow> ready p w \<Longrightarrow> \<exists>t. layout v t \<and> write_value v = push t"
    and value_array: "writable (JArr m) \<Longrightarrow> m \<noteq> [] \<Longrightarrow> ready p w \<Longrightarrow>
      write_value (JArr m) w =
        (let (b, w1) = multi (map (\<lambda>(k, v). (v, write_value v)) m) w;
             w2 = deeper (token ''['' w1)
         in if b then token '']'' (shallower (elements (kids w2 \<noteq> []) 0 (map (\<lambda>(k, v). write_value v) m) w2))
            else single (length m) w1)"
    and value_object: "writable (JObj l) \<Longrightarrow> l \<noteq> [] \<Longrightarrow> ready p w \<Longrightarrow>
      write_value (JObj l) w =
        token ''}'' (shallower (members (map (\<lambda>(k, v). (k, write_value v)) l) (deeper (token ''{'' w))))"
begin

lemma writes_lines:
  assumes w: "ready p w" and m: "m \<noteq> []" and acts: "\<forall>(k, v) \<in> set m. lays v (g v)"
    and ks: "kids w = [] \<or> list_all2 (\<lambda>(k, v) t. layout v t) m (kids w)"
  defines "w2 \<equiv> deeper (token ''['' w)"
  defines "w3 \<equiv> elements (kids w2 \<noteq> []) 0 (map (\<lambda>(k, v). g v) m) w2"
  defines "w4 \<equiv> token '']'' (shallower w3)"
  shows "ready p w4 \<and> (\<exists>t. layout (JArr m) t \<and> out w4 = out w @ t)"
proof -
  from token [OF w, of "''[''"] obtain u where
    u: "ready p (token ''['' w)" "kids (token ''['' w) = kids w" "blank u" "out (token ''['' w) = out w @ u @ ''[''" by blast
  have w2: "ready (p @ ind) w2" "kids w2 = kids w" "out w2 = out w @ u @ ''[''"
    using deeper [OF u(1)] u by (simp_all add: w2_def)
  have "ready (p @ ind) w3 \<and> (\<exists>t. element_texts m t \<and> out w3 = out w2 @ t)"
  proof (cases "kids w = []")
    case True
    then show ?thesis using writes_elements [OF m acts w2(1), of 0] w2(2) by (simp add: w3_def)
  next
    case False
    then have l: "list_all2 (\<lambda>(k, v) t. layout v t) m (kids w2)" using ks w2(2) by simp
    then have "\<forall>j < length m. layout (snd (m ! j)) (kids w2 ! (0 + j))" "length m = length (kids w2)"
      by (auto simp: list_all2_conv_all_nth split_beta)
    then show ?thesis
      using writes_kids [OF _ _ w2(1), of "map (\<lambda>(k, v). g v) m" m 0] False w2(2) m by (simp add: w3_def)
  qed
  then obtain t where t: "ready (p @ ind) w3" "element_texts m t" "out w3 = out w2 @ t" by blast
  note s = shallower [OF t(1)]
  from token [OF conjunct1 [OF s], of "'']''"] s obtain u' where
    u': "ready p w4" "blank u'" "out w4 = out w3 @ u' @ '']''" by (auto simp: w4_def)
  have "layout (JArr m) (u @ CHR ''['' # t @ u' @ '']'')" using layout_elements [OF t(2) u(3) u'(2)] .
  moreover have "out w4 = out w @ u @ CHR ''['' # t @ u' @ '']''" using u' t w2 by simp
  ultimately show ?thesis using u'(1) by blast
qed

lemma writes_array:
  assumes arr: "writable (JArr m)" "m \<noteq> []"
    and acts: "\<forall>(k, v) \<in> set m. lays v (write_value v) \<and> (flat v \<longrightarrow> (\<exists>t. layout v t \<and> write_value v = push t))"
  shows "lays (JArr m) (write_value (JArr m))"
  unfolding lays_def
proof (intro allI impI)
  fix p w assume w: "ready p w"
  let ?es = "map (\<lambda>(k, v). (v, write_value v)) m"
  obtain b w1 where r: "multi ?es w = (b, w1)" by force
  have "\<forall>(v, act) \<in> set ?es. flat v \<longrightarrow> (\<exists>t. layout v t \<and> act = push t)" using acts by auto
  from multi [OF w _ this r] have w1: "ready p w1" "out w1 = out w"
    and k: "b \<and> kids w1 = [] \<or> list_all2 (\<lambda>(k, v) t. layout v t) m (kids w1)"
    using arr(1) by (auto simp: list_all2_map1 layout_snd split_beta)
  note eq = value_array [OF arr w, unfolded r Let_def prod.case]
  show "ready p (write_value (JArr m) w) \<and> (\<exists>t. layout (JArr m) t \<and> out (write_value (JArr m) w) = out w @ t)"
  proof (cases b)
    case True
    have "\<forall>(k, v) \<in> set m. lays v (write_value v)" using acts by auto
    from writes_lines [OF w1(1) arr(2) this] k show ?thesis unfolding eq w1(2) using True by (simp only: if_True) blast
  next
    case False
    then have l: "list_all2 (\<lambda>(k, v) t. layout v t) m (kids w1)" using k by simp
    have len: "length m = length (kids w1)" using l by (rule list_all2_lengthD)
    from single [OF w1(1)] obtain pad where pad: "ready p (single (length m) w1)" "blank pad"
      "out (single (length m) w1) = out w @ CHR ''['' # pad @ join '', '' (kids w1) @ pad @ '']''" unfolding len w1(2) by blast
    have "element_texts m (pad @ join (CHR '','' # '' '') (kids w1))"
      by (rule elements_blank [OF elements_join_texts [OF l arr(2)]]) (simp_all add: pad)
    from layout_elements [OF this, of "[]" pad] have "layout (JArr m) (CHR ''['' # pad @ join '', '' (kids w1) @ pad @ '']'')"
      by (simp add: pad)
    then show ?thesis unfolding eq using False pad by (simp only: if_False) blast
  qed
qed

lemma writes_object:
  assumes m: "writable (JObj m)" "m \<noteq> []" and acts: "\<forall>(k, v) \<in> set m. name_ok k \<and> lays v (write_value v)"
  shows "lays (JObj m) (write_value (JObj m))"
  unfolding lays_def
proof (intro allI impI)
  fix p w assume w: "ready p w"
  define ms where "ms = map (\<lambda>(k, v). (k, write_value v)) m"
  from token [OF w, of "''{''"] obtain u where
    u: "ready p (token ''{'' w)" "blank u" "out (token ''{'' w) = out w @ u @ ''{''" by blast
  define w2 where "w2 = deeper (token ''{'' w)"
  have w2: "ready (p @ ind) w2" "out w2 = out w @ u @ ''{''" using deeper [OF u(1)] u by (simp_all add: w2_def)
  from writes_members [OF m(2) acts w2(1)] obtain t where
    t: "ready (p @ ind) (members ms w2)" "member_texts m t" "out (members ms w2) = out w2 @ t" unfolding ms_def by blast
  define w4 where "w4 = shallower (members ms w2)"
  have w4: "ready p w4" "out w4 = out w2 @ t" using shallower [OF t(1)] t(3) by (simp_all add: w4_def)
  from token [OF w4(1), of "''}''"] obtain u' where
    u': "ready p (token ''}'' w4)" "blank u'" "out (token ''}'' w4) = out w4 @ u' @ ''}''" by blast
  have "layout (JObj m) (u @ CHR ''{'' # t @ u' @ ''}'')" using layout_members [OF t(2) u(2) u'(2)] .
  moreover have "out (token ''}'' w4) = out w @ u @ CHR ''{'' # t @ u' @ ''}''" using u' w4 w2 by simp
  ultimately show "ready p (write_value (JObj m) w) \<and> (\<exists>t. layout (JObj m) t \<and> out (write_value (JObj m) w) = out w @ t)"
    using u'(1) value_object [OF m w] by (simp add: w4_def w2_def ms_def)
qed

text \<open>Every value is written as one of its texts.\<close>

lemma writes_value:
  assumes "writable v" "sized v" "names_ok name_ok v" "ready p w"
  shows "lays v (write_value v)"
  using assms(1-3)
proof (induction v)
  case (JArr m)
  have IH: "\<forall>(k, v) \<in> set m. lays v (write_value v) \<and> (flat v \<longrightarrow> (\<exists>t. layout v t \<and> write_value v = push t))"
    using JArr value_flat [OF _ _ _ assms(4)] by (fastforce simp: snds.simps)
  show ?case
  proof (cases "m = []")
    case True
    then show ?thesis using value_flat [OF JArr.prems(1,2) _ assms(4)] flat_simps(1) [OF JArr.prems(1)] push
      by (metis lays_def)
  next
    case False
    then show ?thesis using writes_array [OF JArr.prems(1) False IH] by blast
  qed
next
  case (JObj m)
  have IH: "\<forall>(k, v) \<in> set m. name_ok k \<and> lays v (write_value v)" using JObj by (fastforce simp: snds.simps)
  show ?case
  proof (cases "m = []")
    case True
    then show ?thesis using value_flat [OF JObj.prems(1,2) _ assms(4)] flat_simps(2) [OF JObj.prems(2)] push
      by (metis lays_def)
  next
    case False
    then show ?thesis using writes_object [OF JObj.prems(1) False IH] by blast
  qed
qed (use value_flat [OF _ _ _ assms(4)] push in
  \<open>(metis lays_def flat_def isArray_def isObject_def type.simps value_type.distinct)+\<close>)

end

section \<open>BuiltStyledStreamWriter\<close>

text \<open>A format that writes blanks where blanks may be. With comments kept, no children are ever collected.\<close>

definition blank_format :: "stream_format \<Rightarrow> bool" where
  "blank_format f \<longleftrightarrow> nullSymbol f = ''null'' \<and> blank (indentation f) \<and>
     (\<exists>u u'. blank u \<and> blank u' \<and> colonSymbol f = u @ CHR '':'' # u')"

definition stream_ready :: "stream_format \<Rightarrow> string \<Rightarrow> stream_writer \<Rightarrow> bool" where
  "stream_ready f p w \<longleftrightarrow> \<not> stream_adding w \<and> stream_indent w = p \<and> blank p \<and> blank_format f \<and>
     (cs f = CommentStyle_All \<longrightarrow> stream_children w = [])"

lemma stream_put_simps [simp]:
  "sout (stream_put s w) = sout w @ s" "stream_children (stream_put s w) = stream_children w"
  "stream_indent (stream_put s w) = stream_indent w" "stream_adding (stream_put s w) = stream_adding w"
  "indented (stream_put s w) = indented w"
  by (simp_all add: stream_put_def)

lemma stream_ready_put [simp]: "stream_ready f p (stream_put s w) = stream_ready f p w"
  by (simp add: stream_ready_def)

lemma built_indent_simps [simp]:
  "stream_children (built_writeIndent f w) = stream_children w" "stream_adding (built_writeIndent f w) = stream_adding w"
  "stream_indent (built_writeIndent f w) = stream_indent w" "indented (built_writeIndent f w) = indented w"
  by (simp_all add: built_writeIndent_def)

lemma built_with_indent:
  "stream_ready f p w \<Longrightarrow> stream_ready f p (built_writeWithIndent f s w) \<and>
   stream_children (built_writeWithIndent f s w) = stream_children w \<and>
   (\<exists>u. blank u \<and> sout (built_writeWithIndent f s w) = sout w @ u @ s)"
  by (auto simp: built_writeWithIndent_def built_writeIndent_def stream_ready_def intro: exI [of _ "[]"] exI [of _ "LF # p"])

lemma stream_collect_texts:
  "stream_adding w \<Longrightarrow> snd (stream_collect (map stream_pushValue ts) i n w) = w\<lparr>stream_children := stream_children w @ ts\<rparr>"
  by (induction ts arbitrary: i n w) (simp_all add: stream_pushValue_def Let_def)

lemma stream_multi:
  assumes "\<not> stream_adding w" "length es < 2 ^ 31" "\<forall>(v, act) \<in> set es. flat v \<longrightarrow> (\<exists>t. layout v t \<and> act = stream_pushValue t)"
  shows "stream_isMultineArray (word_of_nat (length es)) es w = (True, w\<lparr>stream_children := []\<rparr>) \<or>
    (\<exists>b ts. list_all2 (\<lambda>(v, act) t. layout v t) es ts \<and>
       stream_isMultineArray (word_of_nat (length es)) es w = (b, w\<lparr>stream_children := ts\<rparr>))"
proof (cases "int (length es) * 3 \<ge> rightMargin \<or> (\<exists>(v, _) \<in> set es. \<not> flat v)")
  case True
  then show ?thesis using small_sint [OF assms(2)] by (auto simp: stream_isMultineArray_def flat_def Let_def)
next
  case False
  then have "\<forall>e \<in> set es. \<exists>t. layout (fst e) t \<and> snd e = stream_pushValue t" using assms(3) by force
  then obtain g where g: "\<forall>e \<in> set es. layout (fst e) (g e) \<and> snd e = stream_pushValue (g e)" by metis
  then have acts: "map snd es = map stream_pushValue (map g es)" by simp
  have "list_all2 (\<lambda>(v, act) t. layout v t) es (map g es)"
    using g by (auto simp: list_all2_conv_all_nth split_beta)
  moreover have "\<exists>b. stream_isMultineArray (word_of_nat (length es)) es w = (b, w\<lparr>stream_children := map g es\<rparr>)"
    using False assms(1) small_sint [OF assms(2)]
      stream_collect_texts [of "w\<lparr>stream_children := [], stream_adding := True\<rparr>" "map g es"]
    by (auto simp: stream_isMultineArray_def Let_def acts flat_def split_beta simp del: map_map)
  ultimately show ?thesis by blast
qed

lemma stream_child_all: "map (stream_child w) [0 ..< length (stream_children w)] = stream_children w"
  by (auto simp: stream_child_def intro: nth_equalityI)

text \<open>The two ways to write an array.\<close>

definition built_multi ::
    "stream_format \<Rightarrow> (json \<times> (stream_writer \<Rightarrow> stream_writer)) list \<Rightarrow> stream_writer \<Rightarrow> bool \<times> stream_writer" where
  "built_multi f es w =
     (if cs f = CommentStyle_All then (True, w) else stream_isMultineArray (word_of_nat (length es)) es w)"

definition built_single :: "stream_format \<Rightarrow> nat \<Rightarrow> stream_writer \<Rightarrow> stream_writer" where
  "built_single f n w =
     (let pad = (if indentation f \<noteq> [] then '' '' else [])
      in stream_put '']'' (stream_put pad
           (stream_put (join '', '' (map (stream_child w) [0 ..< n])) (stream_put pad (stream_put ''['' w)))))"

lemma built_array_eq:
  assumes "writable (JArr m)" "m \<noteq> []"
  shows "built_writeValue f (JArr m) w =
    (let (b, w1) = built_multi f (map (\<lambda>(k, v). (v, built_writeValue f v)) m) w;
         w2 = stream_indent_more (indentation f) (built_writeWithIndent f ''['' w1)
     in if b then built_writeWithIndent f '']'' (stream_unindent (indentation f)
          (built_elements f (stream_children w2 \<noteq> []) 0 (map (\<lambda>(k, v). built_writeValue f v) m) w2))
        else built_single f (length m) w1)"
proof -
  have acts: "map (\<lambda>i. looked_up (JNull, stream_pushValue (nullSymbol f)) (map (\<lambda>(k, v). (k, (v, built_writeValue f v))) m)
      (word_of_nat i)) [0 ..< unat (arr_size m)] = map (\<lambda>(k, v). (v, built_writeValue f v)) m"
    by (rule elements_actions [OF assms(1)])
  have snd: "map snd (map (\<lambda>(k, v). (v, built_writeValue f v)) m) = map (\<lambda>(k, v). built_writeValue f v) m"
    by (simp add: split_beta comp_def)
  show ?thesis
    unfolding built_writeValue.simps Let_def acts built_writeArrayValue_def snd
    using assms(2) dense_counts [OF assms(1)] by (simp add: built_multi_def built_single_def Let_def split: prod.split)
qed

lemma built_flat:
  assumes "writable v" "sized v" "flat v" "nullSymbol f = ''null''"
  shows "\<exists>t. layout v t \<and> built_writeValue f v = stream_pushValue t"
proof (cases v)
  case (JArr m)
  then have "m = []" using assms flat_simps(1) by blast
  then show ?thesis using JArr layout_no_elements [of "[]" "[]"]
    by (auto simp: built_writeArrayValue_def arr_size_def fun_eq_iff Let_def)
next
  case (JObj m)
  then have "m = []" using assms flat_simps(2) by blast
  then show ?thesis using JObj layout_no_members [of "[]" "[]"] by (auto simp: Let_def)
next
  case (JStr s)
  then obtain x where "s = Some x" using assms(1) by auto
  then show ?thesis using JStr layout_token [of v _ "[]"] by auto
qed (use assms layout_token [of v _ "[]"] in auto)

interpretation built: value_writer sout stream_children "stream_ready f" "stream_put '',''" "built_element f" "built_elements f"
  "\<lambda>_. True" "\<lambda>k w. stream_put (colonSymbol f) (built_writeWithIndent f (valueToQuotedStringN (Some k)) w)"
  "built_members f" stream_pushValue "built_writeWithIndent f" "stream_indent_more (indentation f)"
  "stream_unindent (indentation f)" "indentation f" "built_multi f" "built_single f" "built_writeValue f" for f
proof (standard, goal_cases)
  case (1 p w)
  then show ?case by simp
next
  case (2 p w i act)
  then show ?case using built_with_indent [OF 2(1)] by (simp add: built_element_def stream_child_def)
next
  case (3 p w act v i)
  define w1 where "w1 = (if \<not> indented w then built_writeIndent f w else w)\<lparr>indented := True\<rparr>"
  have w1: "stream_ready f p w1" "\<exists>u. blank u \<and> sout w1 = sout w @ u"
    using 3(1) by (auto simp: w1_def stream_ready_def built_writeIndent_def intro: exI [of _ "[]"] exI [of _ "LF # p"])
  from w1(2) obtain u where u: "blank u" "sout w1 = sout w @ u" by blast
  from 3(2) [OF w1(1)] obtain t where t: "stream_ready f p (act w1)" "layout v t" "sout (act w1) = sout w1 @ t" by blast
  show ?case using t u layout_blank [OF t(2) u(1)]
    by (auto simp: built_element_def w1_def [symmetric] stream_ready_def)
next
  case (4 p w h i act acts)
  then show ?case by simp
next
  case (5 p w k)
  let ?w = "built_writeWithIndent f (valueToQuotedStringN (Some k)) w"
  from 5(1) obtain u u' where u: "blank u" "blank u'" "colonSymbol f = u @ CHR '':'' # u'"
    by (auto simp: stream_ready_def blank_format_def)
  from built_with_indent [OF 5(1), of "valueToQuotedStringN (Some k)"] obtain a where
    a: "stream_ready f p ?w" "blank a" "sout ?w = sout w @ a @ valueToQuotedStringN (Some k)" by blast
  have "sout (stream_put (colonSymbol f) ?w) = sout w @ a @ valueToQuotedStringN (Some k) @ u @ CHR '':'' # u'"
    using a u by simp
  then show ?case using a u by fastforce
next
  case (6 p w k act ms)
  then show ?case by simp
next
  case (7 p w t)
  then show ?case by (simp add: stream_pushValue_def stream_ready_def)
next
  case (8 p w s)
  then show ?case by (rule built_with_indent)
next
  case (9 p w)
  then show ?case by (simp add: stream_ready_def stream_indent_more_def blank_format_def)
next
  case (10 p w)
  then show ?case by (simp add: stream_ready_def stream_unindent_def)
next
  case (11 p w es b w')
  then show ?case using stream_multi [OF _ 11(2,3), of w]
    by (auto simp: built_multi_def stream_ready_def split: if_splits)
next
  case (12 p w)
  then show ?case
    by (auto simp: built_single_def Let_def stream_child_all intro: exI [of _ "'' ''"] exI [of _ "[]"])
next
  case (13 v p w)
  then show ?case by (intro built_flat) (simp_all add: stream_ready_def blank_format_def)
next
  case (14 m p w)
  then show ?case by (intro built_array_eq)
next
  case (15 m p w)
  then show ?case
    using members_actions [of m "stream_pushValue (nullSymbol f)" "built_writeValue f"] by (simp add: Let_def del: map_map)
qed

text \<open>A whole document: a text of the value, then the line end that is set.\<close>

lemma built_write_layout:
  assumes "writable v" "sized v" "blank_format f" "cs f = CommentStyle_All \<longrightarrow> stream_children w = []"
  shows "\<exists>t. layout v t \<and> sout (built_write f v w) = sout w @ t @ endingLineFeedSymbol f"
proof -
  define w1 where "w1 = w\<lparr>stream_adding := False, stream_indent := [], indented := True\<rparr>"
  have w1: "stream_ready f [] w1" using assms(3,4) by (simp add: w1_def stream_ready_def)
  from built.laysD [OF built.writes_value [OF assms(1,2) _ w1] w1] obtain t where
    "layout v t" "sout (built_writeValue f v w1) = sout w1 @ t" by auto
  then show ?thesis by (auto simp: built_write_def w1_def)
qed

end
