(* ===== verification/Json_Styled.thy ===== *)
theory Json_Styled
  imports Json_Written
begin

text \<open>
  The two older indenting writers: \<open>StyledStreamWriter\<close> writes what \<open>BuiltStyledStreamWriter\<close> writes under one
  format, and \<open>StyledWriter\<close> keeps the contract of the locale \<open>layout_writer\<close>. Both take the names of members as C
  strings, which is why the names must be free of NUL.
\<close>

section \<open>Names\<close>

definition nul_free :: "string \<Rightarrow> bool" where
  "nul_free s \<longleftrightarrow> NUL \<notin> set s"

lemma containsControlCharacter_iff: "nul_free s \<Longrightarrow> containsControlCharacter s \<longleftrightarrow> (\<exists>c \<in> set s. isControlCharacter c)"
  by (induction s) (auto simp: nul_free_def)

lemma quoted_name: "nul_free s \<Longrightarrow> valueToQuotedString (Some s) = valueToQuotedStringN (Some s)"
proof -
  assume n: "nul_free s"
  then have e: "\<forall>c \<in> set s. escape_with isControlCharacter c = escape c"
    by (auto simp: nul_free_def escape_def escape_with_def)
  have s: "c_str s = s" using n by (simp add: nul_free_def c_str_no_NUL)
  show ?thesis
  proof (cases "strnpbrk s special_chars = None \<and> \<not> containsControlCharacter s")
    case True
    then have "\<forall>c \<in> set s. escape c = [c]"
      using n by (auto simp: strnpbrk_None containsControlCharacter_iff nul_free_def intro!: escape_plain)
    then have "concat (map escape s) = s" by (induction s) auto
    then show ?thesis using True s by (simp add: valueToQuotedString_def valueToQuotedStringN_escape)
  next
    case False
    then show ?thesis using s e by (auto simp: valueToQuotedString_def valueToQuotedStringN_escape cong: map_cong)
  qed
qed

section \<open>StyledStreamWriter\<close>

definition ssw_format :: "string \<Rightarrow> stream_format" where
  "ssw_format ind = \<lparr>indentation = ind, cs = CommentStyle_None, colonSymbol = '' : '', nullSymbol = ''null'',
     endingLineFeedSymbol = [LF]\<rparr>"

lemma ssw_format_simps [simp]:
  "indentation (ssw_format ind) = ind" "cs (ssw_format ind) = CommentStyle_None" "colonSymbol (ssw_format ind) = '' : ''"
  "nullSymbol (ssw_format ind) = ''null''" "endingLineFeedSymbol (ssw_format ind) = [LF]"
  by (simp_all add: ssw_format_def)

lemma ssw_indent: "ind \<noteq> [] \<Longrightarrow> built_writeIndent (ssw_format ind) = ssw_writeIndent"
  by (auto simp: fun_eq_iff built_writeIndent_def ssw_writeIndent_def)

lemma ssw_with_indent: "ind \<noteq> [] \<Longrightarrow> built_writeWithIndent (ssw_format ind) = ssw_writeWithIndent"
  by (simp add: fun_eq_iff built_writeWithIndent_def ssw_writeWithIndent_def ssw_indent)

lemma ssw_after_same: "\<not> indented w \<Longrightarrow> ssw_after_value w = w"
  by (simp add: ssw_after_value_def)

lemma ssw_flag: "\<not> indented (ssw_writeWithIndent s w)"
  by (simp add: ssw_writeWithIndent_def)

lemma ssw_elements_same:
  "ind \<noteq> [] \<Longrightarrow> ssw_elements h i acts w = built_elements (ssw_format ind) h i acts w"
  by (induction acts arbitrary: i w)
    (simp_all add: built_element_def ssw_with_indent ssw_indent Let_def ssw_after_same ssw_flag)

lemma ssw_array_same:
  "ind \<noteq> [] \<Longrightarrow> ssw_writeArrayValue ind sz elems = built_writeArrayValue (ssw_format ind) sz elems"
  by (auto simp: fun_eq_iff ssw_writeArrayValue_def built_writeArrayValue_def ssw_elements_same ssw_with_indent
      stream_put_def Let_def split: prod.splits)

text \<open>No action sets the flag.\<close>

definition keeps_flag :: "(stream_writer \<Rightarrow> stream_writer) \<Rightarrow> bool" where
  "keeps_flag act \<longleftrightarrow> (\<forall>w. \<not> indented w \<longrightarrow> \<not> indented (act w))"

lemma keeps_push: "keeps_flag (stream_pushValue s)"
  by (simp add: keeps_flag_def stream_pushValue_def)

lemma flag_with_indent [simp]: "\<not> indented (built_writeWithIndent f s w)"
  by (simp add: built_writeWithIndent_def)

lemma keeps_collect:
  "\<forall>act \<in> set acts. keeps_flag act \<Longrightarrow> \<not> indented w \<Longrightarrow> \<not> indented (snd (stream_collect acts i n w))"
  by (induction acts arbitrary: i n w) (auto simp: keeps_flag_def Let_def)

lemma keeps_array:
  assumes "\<forall>(v, act) \<in> set elems. keeps_flag act"
  shows "keeps_flag (built_writeArrayValue f sz elems)"
  unfolding keeps_flag_def
proof (intro allI impI)
  fix w :: stream_writer assume w: "\<not> indented w"
  have "\<forall>act \<in> set (map snd (take n elems)). keeps_flag act" for n using assms by (fastforce dest: in_set_takeD)
  from keeps_collect [OF this] have "\<not> indented (snd (stream_isMultineArray sz elems w))"
    using w by (auto simp: stream_isMultineArray_def Let_def split_beta)
  then show "\<not> indented (built_writeArrayValue f sz elems w)"
    using w by (auto simp: built_writeArrayValue_def Let_def stream_pushValue_def split_beta)
qed

lemma ssw_members_same:
  assumes "ind \<noteq> []" "\<forall>(k, act) \<in> set ms. nul_free k \<and> keeps_flag act"
  shows "ssw_members ms w = built_members (ssw_format ind) ms w"
  using assms(2)
proof (induction ms arbitrary: w)
  case (Cons e ms)
  obtain k act where e: "e = (k, act)" by force
  define w1 where "w1 = act (stream_put '' : '' (ssw_writeWithIndent (valueToQuotedStringN (Some k)) w))"
  have "\<not> indented w1" using Cons.prems by (simp add: w1_def e keeps_flag_def ssw_writeWithIndent_def)
  moreover have "ssw_members ms (stream_put '','' w1) = built_members (ssw_format ind) ms (stream_put '','' w1)"
    using Cons.prems by (intro Cons.IH) simp
  moreover have "colonSymbol (ssw_format ind) = '' : ''" by (simp add: ssw_format_def)
  ultimately show ?case
    using Cons.prems by (simp add: e quoted_name ssw_with_indent [OF assms(1)] w1_def [symmetric] Let_def ssw_after_same)
qed simp

lemma looked_up_all_of: "P d \<Longrightarrow> \<forall>(k, x) \<in> set m. P x \<Longrightarrow> P (looked_up d m k)"
  by (auto simp: looked_up_def split: option.split dest: omap_find_SomeD)

lemma ssw_value_same:
  assumes "ind \<noteq> []" "names_ok nul_free v"
  shows "ssw_writeValue ind v = built_writeValue (ssw_format ind) v \<and> keeps_flag (built_writeValue (ssw_format ind) v)"
  using assms(2)
proof (induction v)
  case (JArr m)
  let ?f = "ssw_format ind"
  have IH: "\<forall>(k, v) \<in> set m. ssw_writeValue ind v = built_writeValue ?f v \<and> keeps_flag (built_writeValue ?f v)"
    using JArr by (fastforce simp: snds.simps)
  then have acts: "map (\<lambda>(k, v). (k, (v, ssw_writeValue ind v))) m = map (\<lambda>(k, v). (k, (v, built_writeValue ?f v))) m"
    by auto
  have n: "nullSymbol ?f = ''null''" by (simp add: ssw_format_def)
  have "\<forall>(v, act) \<in> set (map (\<lambda>i. looked_up (JNull, stream_pushValue ''null'') (map (\<lambda>(k, v). (k, (v, built_writeValue ?f v))) m)
      (word_of_nat i)) [0 ..< unat (arr_size m)]). keeps_flag act"
    using looked_up_all_of [where P = "\<lambda>e. keeps_flag (snd e)" and d = "(JNull, stream_pushValue ''null'')"
        and m = "map (\<lambda>(k, v). (k, (v, built_writeValue ?f v))) m"] IH keeps_push [of "''null''"]
    by (auto simp: split_beta)
  from keeps_array [OF this] show ?case
    by (simp add: acts n ssw_array_same [OF assms(1)] Let_def)
next
  case (JObj m)
  let ?f = "ssw_format ind"
  have IH: "\<forall>(k, v) \<in> set m. ssw_writeValue ind v = built_writeValue ?f v \<and> keeps_flag (built_writeValue ?f v)"
    using JObj by (fastforce simp: snds.simps)
  then have acts: "map (\<lambda>(k, v). (k, ssw_writeValue ind v)) m = map (\<lambda>(k, v). (k, built_writeValue ?f v)) m"
    by auto
  have n: "nullSymbol ?f = ''null''" "indentation ?f = ind" by (simp_all add: ssw_format_def)
  have "keeps_flag (looked_up (stream_pushValue ''null'') (map (\<lambda>(k, v). (k, built_writeValue ?f v)) m) k)" for k
    by (rule looked_up_all_of [where P = keeps_flag, OF keeps_push]) (use IH in auto)
  moreover have "\<forall>k \<in> fst ` set m. nul_free k" using JObj.prems by auto
  ultimately have "\<forall>(k, act) \<in> set (map (\<lambda>name. (name, looked_up (stream_pushValue ''null'')
      (map (\<lambda>(k, v). (k, built_writeValue ?f v)) m) name)) (map fst m)). nul_free k \<and> keeps_flag act" by auto
  note same = ssw_members_same [OF assms(1) this]
  have "ssw_writeValue ind (JObj m) = built_writeValue ?f (JObj m)"
    by (simp add: acts same ssw_with_indent [OF assms(1)] Let_def del: map_map)
  moreover have "keeps_flag (built_writeValue ?f (JObj m))"
    by (cases "m = []") (simp_all add: keeps_push, simp add: keeps_flag_def)
  ultimately show ?case by simp
qed (simp_all add: keeps_push split: option.split)

lemma ssw_write_same:
  assumes "ind \<noteq> []" "names_ok nul_free v"
  shows "sout (ssw_write ind v w) = sout (built_write (ssw_format ind) v w)"
  using ssw_value_same [OF assms] by (simp add: ssw_write_def built_write_def Let_def ssw_after_value_def)


section \<open>StyledWriter\<close>

definition styled_ready :: "string \<Rightarrow> styled_writer \<Rightarrow> bool" where
  "styled_ready p w \<longleftrightarrow> \<not> addChildValues w \<and> indentString w = p \<and> blank p"

definition styled_element :: "bool \<Rightarrow> nat \<Rightarrow> (styled_writer \<Rightarrow> styled_writer) \<Rightarrow> styled_writer \<Rightarrow> styled_writer" where
  "styled_element h i act w = (if h then writeWithIndent (child_text w i) w else act (writeIndent w))"

definition styled_single :: "nat \<Rightarrow> styled_writer \<Rightarrow> styled_writer" where
  "styled_single n w = put '' ]'' (put (join '', '' (map (child_text w) [0 ..< n])) (put ''[ '' w))"

lemma put_simps [simp]:
  "document (put s w) = document w @ s" "childValues (put s w) = childValues w"
  "indentString (put s w) = indentString w" "addChildValues (put s w) = addChildValues w"
  "styled_ready p (put s w) = styled_ready p w"
  by (simp_all add: put_def styled_ready_def)

lemma styled_writeIndent:
  "styled_ready p w \<Longrightarrow> styled_ready p (writeIndent w) \<and> childValues (writeIndent w) = childValues w \<and>
   (\<exists>u. blank u \<and> document (writeIndent w) = document w @ u)"
  by (auto simp: writeIndent_def Let_def styled_ready_def intro: exI [of _ "[]"] exI [of _ "LF # p"])

lemma styled_with_indent:
  "styled_ready p w \<Longrightarrow> styled_ready p (writeWithIndent s w) \<and> childValues (writeWithIndent s w) = childValues w \<and>
   (\<exists>u. blank u \<and> document (writeWithIndent s w) = document w @ u @ s)"
  using styled_writeIndent [of p w] by (auto simp: writeWithIndent_def)

lemma collect_texts:
  "addChildValues w \<Longrightarrow> snd (collect_children (map pushValue ts) i n w) = w\<lparr>childValues := childValues w @ ts\<rparr>"
  by (induction ts arbitrary: i n w) (simp_all add: pushValue_def Let_def)

lemma styled_multi:
  assumes "\<not> addChildValues w" "length es < 2 ^ 31" "\<forall>(v, act) \<in> set es. flat v \<longrightarrow> (\<exists>t. layout v t \<and> act = pushValue t)"
  shows "isMultineArray (word_of_nat (length es)) es w = (True, w\<lparr>childValues := []\<rparr>) \<or>
    (\<exists>b ts. list_all2 (\<lambda>(v, act) t. layout v t) es ts \<and>
       isMultineArray (word_of_nat (length es)) es w = (b, w\<lparr>childValues := ts\<rparr>))"
proof (cases "int (length es) * 3 \<ge> rightMargin \<or> (\<exists>(v, _) \<in> set es. \<not> flat v)")
  case True
  then show ?thesis using small_sint [OF assms(2)] by (auto simp: isMultineArray_def flat_def Let_def)
next
  case False
  then have "\<forall>e \<in> set es. \<exists>t. layout (fst e) t \<and> snd e = pushValue t" using assms(3) by force
  then obtain g where g: "\<forall>e \<in> set es. layout (fst e) (g e) \<and> snd e = pushValue (g e)" by metis
  then have acts: "map snd es = map pushValue (map g es)" by simp
  have "list_all2 (\<lambda>(v, act) t. layout v t) es (map g es)"
    using g by (auto simp: list_all2_conv_all_nth split_beta)
  moreover have "\<exists>b. isMultineArray (word_of_nat (length es)) es w = (b, w\<lparr>childValues := map g es\<rparr>)"
    using False assms(1) small_sint [OF assms(2)]
      collect_texts [of "w\<lparr>childValues := [], addChildValues := True\<rparr>" "map g es"]
    by (auto simp: isMultineArray_def Let_def acts flat_def split_beta simp del: map_map)
  ultimately show ?thesis by blast
qed

lemma child_text_all: "map (child_text w) [0 ..< length (childValues w)] = childValues w"
  by (auto simp: child_text_def intro: nth_equalityI)

lemma styled_array_eq:
  assumes "writable (JArr m)" "m \<noteq> []"
  shows "styled_writeValue (JArr m) w =
    (let (b, w1) = isMultineArray (word_of_nat (length m)) (map (\<lambda>(k, v). (v, styled_writeValue v)) m) w;
         w2 = indent (writeWithIndent ''['' w1)
     in if b then writeWithIndent '']'' (unindent
          (write_elements (childValues w2 \<noteq> []) 0 (map (\<lambda>(k, v). styled_writeValue v) m) w2))
        else styled_single (length m) w1)"
proof -
  have acts: "map (\<lambda>i. looked_up (JNull, pushValue ''null'') (map (\<lambda>(k, v). (k, (v, styled_writeValue v))) m)
      (word_of_nat i)) [0 ..< unat (arr_size m)] = map (\<lambda>(k, v). (v, styled_writeValue v)) m"
    by (rule elements_actions [OF assms(1)])
  have snd: "map snd (map (\<lambda>(k, v). (v, styled_writeValue v)) m) = map (\<lambda>(k, v). styled_writeValue v) m"
    by (simp add: split_beta comp_def)
  show ?thesis
    unfolding styled_writeValue.simps Let_def acts writeArrayValue_def snd
    using assms(2) dense_counts [OF assms(1)] by (simp add: styled_single_def Let_def split: prod.split)
qed

lemma styled_flat:
  assumes "writable v" "sized v" "flat v"
  shows "\<exists>t. layout v t \<and> styled_writeValue v = pushValue t"
proof (cases v)
  case (JArr m)
  then have "m = []" using assms flat_simps(1) by blast
  then show ?thesis using JArr layout_no_elements [of "[]" "[]"]
    by (auto simp: writeArrayValue_def arr_size_def fun_eq_iff Let_def)
next
  case (JObj m)
  then have "m = []" using assms flat_simps(2) by blast
  then show ?thesis using JObj layout_no_members [of "[]" "[]"] by (auto simp: Let_def)
next
  case (JStr s)
  then obtain x where "s = Some x" using assms(1) by auto
  then show ?thesis using JStr layout_token [of v _ "[]"] by auto
qed (use assms layout_token [of v _ "[]"] in auto)

interpretation styled: value_writer document childValues styled_ready "put '',''" styled_element write_elements
  nul_free "\<lambda>k w. put '' : '' (writeWithIndent (valueToQuotedString (Some k)) w)" write_members pushValue writeWithIndent
  indent unindent "replicate indentSize (CHR '' '')" "\<lambda>es. isMultineArray (word_of_nat (length es)) es" styled_single styled_writeValue
proof (standard, goal_cases)
  case (1 p w)
  then show ?case by simp
next
  case (2 p w i act)
  then show ?case using styled_with_indent [OF 2(1)] by (simp add: styled_element_def child_text_def)
next
  case (3 p w act v i)
  from styled_writeIndent [OF 3(1)] obtain u where
    u: "styled_ready p (writeIndent w)" "blank u" "document (writeIndent w) = document w @ u" by blast
  from 3(2) [OF u(1)] obtain t where
    t: "styled_ready p (act (writeIndent w))" "layout v t" "document (act (writeIndent w)) = document (writeIndent w) @ t" by blast
  show ?case using t u layout_blank [OF t(2) u(2)] by (auto simp: styled_element_def)
next
  case (4 p w h i act acts)
  then show ?case by (simp add: styled_element_def Let_def)
next
  case (5 p w k)
  let ?w = "writeWithIndent (valueToQuotedStringN (Some k)) w"
  from styled_with_indent [OF 5(1), of "valueToQuotedStringN (Some k)"] obtain a where
    a: "styled_ready p ?w" "blank a" "document ?w = document w @ a @ valueToQuotedStringN (Some k)" by blast
  have "document (put '' : '' ?w) = document w @ a @ valueToQuotedStringN (Some k) @ '' '' @ CHR '':'' # '' ''"
    using a by simp
  moreover have "blank '' ''" by simp
  ultimately show ?case using a by (fastforce simp: quoted_name [OF 5(2)])
next
  case (6 p w k act ms)
  then show ?case by (simp add: Let_def)
next
  case (7 p w t)
  then show ?case by (simp add: pushValue_def styled_ready_def)
next
  case (8 p w s)
  then show ?case by (rule styled_with_indent)
next
  case (9 p w)
  then show ?case by (simp add: styled_ready_def indent_def)
next
  case (10 p w)
  then show ?case by (simp add: styled_ready_def unindent_def)
next
  case (11 p w es b w')
  then show ?case using styled_multi [OF _ 11(2,3), of w]
    by (auto simp: styled_ready_def)
next
  case (12 p w)
  then show ?case by (auto simp: styled_single_def child_text_all intro: exI [of _ "'' ''"])
next
  case (13 v p w)
  then show ?case by (intro styled_flat)
next
  case (14 m p w)
  then show ?case unfolding length_map by (intro styled_array_eq)
next
  case (15 m p w)
  then show ?case
    using members_actions [of m "pushValue ''null''" styled_writeValue] by (simp add: Let_def del: map_map)
qed

lemma styled_write_layout:
  assumes "writable v" "sized v" "names_ok nul_free v"
  shows "\<exists>t. layout v t \<and> styled_write v = t @ [LF]"
proof -
  have w: "styled_ready [] StyledWriter" by (simp add: styled_ready_def StyledWriter_def)
  from styled.laysD [OF styled.writes_value [OF assms w] w] obtain t where
    "layout v t" "document (styled_writeValue v StyledWriter) = t" by (auto simp: StyledWriter_def)
  then show ?thesis by (simp add: styled_write_def)
qed

lemma ssw_write_layout:
  assumes "writable v" "sized v" "names_ok nul_free v" "blank ind" "ind \<noteq> []"
  shows "\<exists>t. layout v t \<and> sout (ssw_write ind v w) = sout w @ t @ [LF]"
proof -
  have "'' : '' = '' '' @ CHR '':'' # '' ''" "blank '' ''" by simp_all
  then have "blank_format (ssw_format ind)" using assms(4) unfolding blank_format_def by (metis ssw_format_simps(1,3,4))
  from built_write_layout [OF assms(1,2) this, of w] show ?thesis by (simp add: ssw_write_same [OF assms(5,3)])
qed

lemma styled_write_read:
  assumes "writable v" "sized v" "names_ok nul_free v" "depth v \<le> stackLimit" "strictRoot f \<longrightarrow> isArray v \<or> isObject v"
  shows "\<exists>r. parse f (styled_write v) root = Some (Inr (True, normalised v, r)) \<and> good r"
proof -
  obtain t where t: "layout v t" "styled_write v = t @ [LF]" using styled_write_layout [OF assms(1-3)] by blast
  from parse_layout [OF t(1) assms(1,4) _ assms(5), of "[LF]"] show ?thesis by (simp add: t(2))
qed

text \<open>
  \<open>StyledStreamWriter\<close> is \<open>BuiltStyledStreamWriter\<close> without comments, with the separator \<open>\" : \"\<close> and a line
  feed at the end: for every value whose member names are free of NUL, arrays with gaps and reals included, the two
  write the same text to the stream, as long as the indentation is not empty.
\<close>

theorem styled_stream_is_built:
  assumes "ind \<noteq> []" "names_ok nul_free v"
  shows "sout (ssw_write ind v w) = sout (built_write \<lparr>indentation = ind, cs = CommentStyle_None, colonSymbol = '' : '',
     nullSymbol = ''null'', endingLineFeedSymbol = [LF]\<rparr> v w)"
  using ssw_write_same [OF assms] by (simp add: ssw_format_def)

theorem styled_stream_is_built_witness:
  "sout (ssw_write '' '' sample BuiltStyledStreamWriter) = sout (built_write \<lparr>indentation = '' '', cs = CommentStyle_None,
     colonSymbol = '' : '', nullSymbol = ''null'', endingLineFeedSymbol = [LF]\<rparr> sample BuiltStyledStreamWriter)"
  by (rule styled_stream_is_built) (simp_all add: sample_def nul_free_def char_consts)

text \<open>With an empty indentation they differ: only the older writer still breaks lines.\<close>

lemma empty_indentation_differs:
  "sout (ssw_write [] (JObj [(''a'', JNull)]) BuiltStyledStreamWriter) \<noteq>
   sout (built_write (ssw_format []) (JObj [(''a'', JNull)]) BuiltStyledStreamWriter)"
  by code_simp

end
