(* ===== verification/Json_Stream_Builder.thy ===== *)
theory Json_Stream_Builder
  imports Json_Builder Json_Styled
begin

text \<open>
  \<open>StreamWriterBuilder\<close> and the stream functions over it (Client/cpp/json/jsoncpp.cpp), and how its writers and the
  readers of \<open>CharReaderBuilder\<close> go together.
\<close>

section \<open>Settings\<close>

definition getValidWriterKeys :: "string list" where
  "getValidWriterKeys = [''indentation'', ''commentStyle'', ''enableYAMLCompatibility'', ''dropNullPlaceholders'']"

definition validate_writer :: "json \<Rightarrow> json option \<Rightarrow> exn + bool \<times> json" where
  "validate_writer settings invalid =
     (let unknown = (case invalid of Some v \<Rightarrow> v | None \<Rightarrow> JNull)
      in and_then (getMemberNames settings) (\<lambda>keys.
         and_then (copy_invalid getValidWriterKeys settings keys unknown) (\<lambda>unknown'. Inr (size_of unknown' = 0, unknown'))))"

definition StreamWriterBuilder_setDefaults :: "json \<Rightarrow> exn + json" where
  "StreamWriterBuilder_setDefaults settings = set_members
     [(''commentStyle'', Value_cstr ''All''), (''indentation'', Value_cstr [TAB]),
      (''enableYAMLCompatibility'', JBool False), (''dropNullPlaceholders'', JBool False)] settings"

definition StreamWriterBuilder :: "exn + json" where
  "StreamWriterBuilder = StreamWriterBuilder_setDefaults JNull"

section \<open>Writers\<close>

definition setting_string :: "json \<Rightarrow> string \<Rightarrow> exn + string" where
  "setting_string settings key = and_then (member settings key) asString"

definition newStreamWriter :: "json \<Rightarrow> exn + stream_format" where
  "newStreamWriter settings =
     and_then (setting_string settings ''indentation'') (\<lambda>ind.
     and_then (setting_string settings ''commentStyle'') (\<lambda>cs_str.
     and_then (setting_bool settings ''enableYAMLCompatibility'') (\<lambda>eyc.
     and_then (setting_bool settings ''dropNullPlaceholders'') (\<lambda>dnp.
     and_then (if cs_str = ''All'' then Inr CommentStyle_All
               else if cs_str = ''None'' then Inr CommentStyle_None
               else Inl (RuntimeError (''commentStyle must be '' @ sq ''All'' @ '' or '' @ sq ''None''))) (\<lambda>style.
       let colon = (if eyc then '': '' else if ind = [] then '':'' else '' : '');
           null = (if dnp then [] else ''null'')
       in Inr \<lparr>indentation = ind, cs = style, colonSymbol = colon, nullSymbol = null, endingLineFeedSymbol = []\<rparr>)))))"

definition writeString :: "json \<Rightarrow> json \<Rightarrow> exn + string" where
  "writeString builder root =
     and_then (newStreamWriter builder) (\<lambda>f. Inr (sout (built_write f root BuiltStyledStreamWriter)))"

text \<open>\<open>operator<<\<close>, on the text written so far.\<close>

definition stream_out :: "string \<Rightarrow> json \<Rightarrow> exn + string" where
  "stream_out out root =
     and_then StreamWriterBuilder (\<lambda>builder.
     and_then (newStreamWriter builder) (\<lambda>f. Inr (sout (built_write f root (BuiltStyledStreamWriter\<lparr>sout := out\<rparr>)))))"

definition default_format :: stream_format where
  "default_format = \<lparr>indentation = [TAB], cs = CommentStyle_All, colonSymbol = '' : '', nullSymbol = ''null'',
     endingLineFeedSymbol = []\<rparr>"

lemma StreamWriterBuilder_writer: "and_then StreamWriterBuilder newStreamWriter = Inr default_format"
  by code_simp

lemma stream_out_eq: "stream_out out root = Inr (sout (built_write default_format root (BuiltStyledStreamWriter\<lparr>sout := out\<rparr>)))"
proof -
  obtain b where b: "StreamWriterBuilder = Inr b" "newStreamWriter b = Inr default_format"
    using StreamWriterBuilder_writer by (auto simp: and_then_Inr)
  show ?thesis unfolding stream_out_def b(1) and_then_simps b(2) ..
qed

section \<open>What is written is read\<close>

lemma colon_formats: "\<exists>u u'. blank u \<and> blank u' \<and> (if eyc then '': '' else if ind = [] then '':'' else '' : '') = u @ CHR '':'' # u'"
proof -
  have "'': '' = [] @ CHR '':'' # '' ''" "'':'' = [] @ CHR '':'' # []" "'' : '' = '' '' @ CHR '':'' # '' ''"
    "blank []" "blank '' ''" by simp_all
  then show ?thesis by metis
qed

text \<open>Settings that write nulls and indent with blanks make a format of blanks.\<close>

lemma newStreamWriter_format:
  assumes "newStreamWriter settings = Inr f" "setting_string settings ''indentation'' = Inr ind" "blank ind"
    "setting_bool settings ''dropNullPlaceholders'' = Inr False"
  shows "blank_format f \<and> endingLineFeedSymbol f = []"
proof -
  from assms(1) obtain eyc style where
    "f = \<lparr>indentation = ind, cs = style, colonSymbol = (if eyc then '': '' else if ind = [] then '':'' else '' : ''),
      nullSymbol = ''null'', endingLineFeedSymbol = []\<rparr>"
    unfolding newStreamWriter_def assms(2,4) and_then_simps and_then_Inr Let_def by auto
  then show ?thesis using colon_formats [of eyc ind] assms(3) by (simp add: blank_format_def)
qed

lemma default_format_blank: "blank_format default_format"
  using colon_formats [of False "[TAB]"] by (simp add: blank_format_def default_format_def is_space_def)

text \<open>A reader of a builder reads the texts of a value.\<close>

lemma char_parse_layout:
  assumes "layout v t" "writable v" "names_ok (\<lambda>k. length k < 2 ^ 30) v" "int (depth v) \<le> our_stackLimit (reader_features cr)"
    "strictRoot (reader_features cr) \<longrightarrow> isArray v \<or> isObject v" "blank ws"
  shows "char_parse cr (t @ ws) root errs = Some (Inr (True, normalised v, map_option (\<lambda>_. []) errs))"
proof -
  obtain r where "our_parse (reader_features cr) (t @ ws) root = Some (Inr (True, normalised v, r))" "good r"
    using our_parse_layout [OF assms(1-4,6,5), of root] by blast
  then show ?thesis by (simp add: char_parse_def continue_def getFormattedErrorMessages_def good_def cong: map_option_cong)
qed

lemma built_read:
  assumes "blank_format f" "writable v" "sized v" "names_ok (\<lambda>k. length k < 2 ^ 30) v"
    "int (depth v) \<le> our_stackLimit (reader_features cr)" "strictRoot (reader_features cr) \<longrightarrow> isArray v \<or> isObject v"
    "blank (endingLineFeedSymbol f)"
  shows "char_parse cr (sout (built_write f v BuiltStyledStreamWriter)) root errs =
    Some (Inr (True, normalised v, map_option (\<lambda>_. []) errs))"
proof -
  obtain t where "layout v t" "sout (built_write f v BuiltStyledStreamWriter) = t @ endingLineFeedSymbol f"
    using built_write_layout [OF assms(2,3,1), of BuiltStyledStreamWriter] by (auto simp: BuiltStyledStreamWriter_def)
  then show ?thesis using char_parse_layout [OF _ assms(2,4,5,6,7)] by simp
qed

lemma stream_read:
  assumes "writable v" "sized v" "names_ok (\<lambda>k. length k < 2 ^ 30) v" "depth v \<le> 1000" "blank out"
  shows "\<exists>doc. stream_out out v = Inr doc \<and> stream_in dup limit doc root = Some (Inr (normalised v))"
proof -
  obtain t where t: "layout v t" "sout (built_write default_format v (BuiltStyledStreamWriter\<lparr>sout := out\<rparr>)) = out @ t"
    using built_write_layout [OF assms(1,2) default_format_blank, of "BuiltStyledStreamWriter\<lparr>sout := out\<rparr>"]
    by (auto simp: BuiltStyledStreamWriter_def default_format_def)
  have "char_parse \<lparr>collectComments = True, reader_features = default_features\<rparr> ((out @ t) @ []) root (Some []) =
      Some (Inr (True, normalised v, Some []))"
    using char_parse_layout [OF layout_blank [OF t(1) assms(5)] assms(1,3), of
        "\<lparr>collectComments = True, reader_features = default_features\<rparr>" "[]" root "Some []"] assms(4)
    by (simp add: default_features_def)
  then show ?thesis unfolding stream_out_eq t(2) stream_in_eq by (simp add: continue_def)
qed


definition compact_settings :: json where
  "compact_settings = JObj [(''commentStyle'', JString ''None''), (''indentation'', JString []), (''enableYAMLCompatibility'', JBool True)]"

definition strict_settings :: json where
  "strict_settings = JObj [(''failIfExtra'', JBool True), (''rejectDupKeys'', JBool True), (''stackLimit'', JInt 3), (''strictRoot'', JBool True)]"


end
