(* ===== verification/Ws_Asio.thy ===== *)
theory Ws_Asio
  imports Ws_Http Ws_Uri Ws_Base64 Ws_Error "HOL-Library.Sublist"
begin

text \<open>
  The transport over asio, for one connection of a client with the plain socket
  (Client/cpp/websocketpp/websocketpp/transport/asio/: connection.hpp, the connecting half of endpoint.hpp,
  security/none.hpp). What asio itself does is in the last section: an operation that is started is pending until
  it completes, a timer waits until it expires or is cancelled, and the handlers of both are then ready to run, in
  any order. A callback of the layer above is an entry of the list \<open>calls\<close>; what it does is the next operation
  of the run. Times are milliseconds.
\<close>

section \<open>Codes\<close>

text \<open>asio's error codes, \<open>None\<close> being success, and the codes the callbacks get.\<close>

datatype asio_error = op_aborted | end_of_file | not_connected | other_error nat

type_synonym asio_ec = "asio_error option"

datatype asio_category = asio_general | asio_invalid_num_bytes | asio_pass_through | proxy_failed | proxy_invalid
  | invalid_host_service

datatype callback_code = Code error_code | Asio asio_category | Socket_invalid_state | System asio_error

abbreviation Succeeded :: callback_code where "Succeeded \<equiv> Code No_error"
abbreviation Aborted :: callback_code where "Aborted \<equiv> Code (Transport operation_aborted)"
abbreviation Timed_out :: callback_code where "Timed_out \<equiv> Code (Transport transport_timeout)"

text \<open>The plain socket knows no more than asio: the code is passed on, as it has the same type.\<close>

fun translate_ec :: "asio_ec \<Rightarrow> callback_code" where
  "translate_ec None = Succeeded"
| "translate_ec (Some e) = System e"

section \<open>State\<close>

datatype socket_state = UNINITIALIZED | READY | READING

datatype timer_kind = Resolve_timer | Connect_timer | Proxy_timer | Post_init_timer | Shutdown_timer | User_timer nat

record timer =
  timer_id :: nat
  expiry :: int

record proxy_data =
  proxy_req :: request
  proxy_res :: response
  timeout_proxy :: int
  proxy_timer :: "timer option"

text \<open>The operations asio is asked for, with what their handlers are bound to; the handler of a read or write of the
  layer above is a number, or missing.\<close>

datatype operation =
    Resolve timer string string
  | Connect_to timer
  | Proxy_write "u8 list list"
  | Proxy_read
  | Read nat nat "nat option"
  | Write "u8 list list" "nat option"

text \<open>Handlers that are ready to run: that of a timer, that of an operation with its code, the number of bytes and
  the text read, and functions that were posted.\<close>

datatype completion =
    Timer_done timer timer_kind asio_ec
  | Op_done operation asio_ec nat string
  | Posted nat

datatype callback =
    Connect_cb callback_code
  | Init_cb callback_code
  | Shutdown_cb callback_code
  | Read_cb nat callback_code nat
  | Write_cb nat callback_code
  | Timer_cb nat callback_code
  | Tcp_pre_init
  | Tcp_post_init
  | Dispatched nat
  | Escaped string nat
  | Null_access

record transport =
  socket_state :: socket_state
  m_proxy :: string
  m_proxy_data :: "proxy_data option"
  m_bufs :: "u8 list list"
  m_tec :: asio_ec
  m_tcp_pre_init_handler :: bool
  m_tcp_post_init_handler :: bool
  now :: int
  next_timer :: nat
  waiting :: "(timer \<times> timer_kind) list"
  pending :: "operation list"
  ready :: "completion list"
  calls :: "callback list"

definition timeout_proxy_default :: int where "timeout_proxy_default = 5000"
definition timeout_socket_post_init :: int where "timeout_socket_post_init = 5000"
definition timeout_dns_resolve :: int where "timeout_dns_resolve = 5000"
definition timeout_connect :: int where "timeout_connect = 5000"
definition timeout_socket_shutdown :: int where "timeout_socket_shutdown = 5000"

definition transport :: "bool \<Rightarrow> bool \<Rightarrow> int \<Rightarrow> transport" where
  "transport pre post t =
     \<lparr>socket_state = UNINITIALIZED, m_proxy = [], m_proxy_data = None, m_bufs = [], m_tec = None,
      m_tcp_pre_init_handler = pre, m_tcp_post_init_handler = post, now = t, next_timer = 0, waiting = [],
      pending = [], ready = [], calls = []\<rparr>"

definition call :: "callback \<Rightarrow> transport \<Rightarrow> transport" where
  "call cb t = t\<lparr>calls := calls t @ [cb]\<rparr>"

definition init_asio :: "transport \<Rightarrow> callback_code \<times> transport" where
  "init_asio t =
     (if socket_state t \<noteq> UNINITIALIZED then (Socket_invalid_state, t)
      else (Succeeded, t\<lparr>socket_state := READY\<rparr>))"

section \<open>Timers\<close>

definition set_timer :: "int \<Rightarrow> timer_kind \<Rightarrow> transport \<Rightarrow> timer \<times> transport" where
  "set_timer duration k t =
     (let tm = \<lparr>timer_id = next_timer t, expiry = now t + duration\<rparr>
      in (tm, t\<lparr>next_timer := next_timer t + 1, waiting := waiting t @ [(tm, k)]\<rparr>))"

text \<open>\<open>cancel\<close> makes the handler of a timer that is still waiting ready, with the code of an abortion; a handler
  that is ready already stays as it is.\<close>

definition cancel_timer :: "timer \<Rightarrow> transport \<Rightarrow> transport" where
  "cancel_timer tm t =
     t\<lparr>waiting := filter (\<lambda>(x, k). x \<noteq> tm) (waiting t),
       ready := ready t @ map (\<lambda>(x, k). Timer_done x k (Some op_aborted)) (filter (\<lambda>(x, k). x = tm) (waiting t))\<rparr>"

definition is_neg :: "timer \<Rightarrow> transport \<Rightarrow> bool" where
  "is_neg tm t \<longleftrightarrow> expiry tm - now t < 0"

text \<open>\<open>cancel_socket_checked\<close>, on a system that supports it, and \<open>cancel\<close> of the resolver.\<close>

fun on_socket :: "operation \<Rightarrow> bool" where
  "on_socket (Resolve tm host port) = False"
| "on_socket _ = True"

definition abort_all :: "(operation \<Rightarrow> bool) \<Rightarrow> transport \<Rightarrow> transport" where
  "abort_all P t =
     t\<lparr>pending := filter (\<lambda>x. \<not> P x) (pending t),
       ready := ready t @ map (\<lambda>x. Op_done x (Some op_aborted) 0 []) (filter P (pending t))\<rparr>"

definition cancel_socket_checked :: "transport \<Rightarrow> transport" where
  "cancel_socket_checked = abort_all on_socket"

definition cancel_resolver :: "transport \<Rightarrow> transport" where
  "cancel_resolver = abort_all (\<lambda>x. \<not> on_socket x)"

definition start_op :: "operation \<Rightarrow> transport \<Rightarrow> transport" where
  "start_op x t = t\<lparr>pending := pending t @ [x]\<rparr>"

section \<open>The proxy\<close>

definition new_proxy_data :: proxy_data where
  "new_proxy_data = \<lparr>proxy_req = request, proxy_res = response, timeout_proxy = timeout_proxy_default, proxy_timer = None\<rparr>"

definition set_proxy :: "string \<Rightarrow> transport \<Rightarrow> transport" where
  "set_proxy uri t = t\<lparr>m_proxy := uri, m_proxy_data := Some new_proxy_data\<rparr>"

definition set_proxy_basic_auth :: "string \<Rightarrow> string \<Rightarrow> transport \<Rightarrow> error_code \<times> transport" where
  "set_proxy_basic_auth username password t =
     (case m_proxy_data t of
        None \<Rightarrow> (Library invalid_state, t)
      | Some d \<Rightarrow>
          let val = ''Basic '' @ base64_encode (map byte (username @ '':'' @ password));
              req = (proxy_req d)\<lparr>m_headers := replace_header ''Proxy-Authorization'' val (m_headers (proxy_req d))\<rparr>
          in (No_error, t\<lparr>m_proxy_data := Some (d\<lparr>proxy_req := req\<rparr>)\<rparr>))"

definition set_proxy_timeout :: "int \<Rightarrow> transport \<Rightarrow> error_code \<times> transport" where
  "set_proxy_timeout duration t =
     (case m_proxy_data t of
        None \<Rightarrow> (Library invalid_state, t)
      | Some d \<Rightarrow> (No_error, t\<lparr>m_proxy_data := Some (d\<lparr>timeout_proxy := duration\<rparr>)\<rparr>))"

definition proxy_init :: "string \<Rightarrow> transport \<Rightarrow> error_code \<times> transport" where
  "proxy_init authority t =
     (case m_proxy_data t of
        None \<Rightarrow> (Library invalid_state, t)
      | Some d \<Rightarrow>
          let req = (proxy_req d)\<lparr>m_version := ''HTTP/1.1'', m_method := ''CONNECT'', m_uri := authority,
                m_headers := replace_header ''Host'' authority (m_headers (proxy_req d))\<rparr>
          in (No_error, t\<lparr>m_proxy_data := Some (d\<lparr>proxy_req := req\<rparr>)\<rparr>))"

text \<open>A response that is read from a stream: line by line, each of at most \<open>istream_buffer - 1\<close> characters; a
  longer one ends the reading.\<close>

definition istream_buffer :: nat where "istream_buffer = 512"

function response_consume_stream :: "string \<Rightarrow> response \<Rightarrow> response http" where
  "response_consume_stream s r =
     (let line = takeWhile (\<lambda>c. c \<noteq> LF) s
      in if length line \<ge> istream_buffer
         then http_then (response_consume (take (istream_buffer - 1) s) r) (\<lambda>(n, r'). Inr r')
         else (case dropWhile (\<lambda>c. c \<noteq> LF) s of
             [] \<Rightarrow> http_then (response_consume line r) (\<lambda>(n, r'). Inr r')
           | _ # rest \<Rightarrow> http_then (response_consume (line @ [LF]) r) (\<lambda>(n, r').
               if n \<noteq> length line + 1 then Inr r' else response_consume_stream rest r')))"
  by pat_completeness auto
termination
proof (relation "measure (\<lambda>(s, r). length s)", simp)
  fix s :: string and c rest
  assume "dropWhile (\<lambda>c. c \<noteq> LF) s = c # rest"
  then have "length (c # rest) \<le> length s" by (metis length_dropWhile_le)
  then show "((rest, r'), s, r) \<in> measure (\<lambda>(s, r). length s)" for r' r :: response by simp
qed

declare response_consume_stream.simps [simp del]

section \<open>Timers of the layer above\<close>

text \<open>\<open>handle_timer\<close> turns asio's code into one of the library's before the callback of the timer gets it.\<close>

fun handle_timer :: "asio_ec \<Rightarrow> callback_code" where
  "handle_timer None = Succeeded"
| "handle_timer (Some e) = (if e = op_aborted then Aborted else Asio asio_pass_through)"

section \<open>Initialization\<close>

definition handle_post_init_timeout :: "callback_code \<Rightarrow> transport \<Rightarrow> transport" where
  "handle_post_init_timeout ec t =
     (if ec \<noteq> Succeeded then
        (if ec = Aborted then t else call (Init_cb ec) (cancel_socket_checked t))
      else call (Init_cb Timed_out) (cancel_socket_checked t))"

definition handle_post_init :: "timer option \<Rightarrow> callback_code \<Rightarrow> transport \<Rightarrow> transport" where
  "handle_post_init post_timer ec t =
     (if ec = Aborted \<or> (\<exists>tm. post_timer = Some tm \<and> is_neg tm t) then t
      else
        let t = (case post_timer of None \<Rightarrow> t | Some tm \<Rightarrow> cancel_timer tm t);
            t = (if m_tcp_post_init_handler t then call Tcp_post_init t else t)
        in call (Init_cb ec) t)"

text \<open>The plain socket is ready at once.\<close>

definition post_init :: "transport \<Rightarrow> transport" where
  "post_init t =
     (if timeout_socket_post_init > 0 then
        (let (tm, t) = set_timer timeout_socket_post_init Post_init_timer t in handle_post_init (Some tm) Succeeded t)
      else handle_post_init None Succeeded t)"

definition handle_proxy_timeout :: "callback_code \<Rightarrow> transport \<Rightarrow> transport" where
  "handle_proxy_timeout ec t =
     (if ec = Aborted then t
      else if ec \<noteq> Succeeded then call (Init_cb ec) t
      else call (Init_cb Timed_out) (cancel_socket_checked t))"

definition proxy_write :: "transport \<Rightarrow> transport" where
  "proxy_write t =
     (case m_proxy_data t of
        None \<Rightarrow> call (Init_cb (Asio asio_general)) t
      | Some d \<Rightarrow>
          let t = t\<lparr>m_bufs := m_bufs t @ [map byte (request_raw (proxy_req d))]\<rparr>;
              (tm, t) = set_timer (timeout_proxy d) Proxy_timer t;
              t = t\<lparr>m_proxy_data := Some (d\<lparr>proxy_timer := Some tm\<rparr>)\<rparr>
          in start_op (Proxy_write (m_bufs t)) t)"

text \<open>The socket is prepared; after an error the callback is called, and the code goes on.\<close>

definition pre_init :: "transport \<Rightarrow> callback_code \<times> transport" where
  "pre_init t =
     (if socket_state t \<noteq> READY then (Socket_invalid_state, t) else (Succeeded, t\<lparr>socket_state := READING\<rparr>))"

definition handle_pre_init :: "callback_code \<Rightarrow> transport \<Rightarrow> transport" where
  "handle_pre_init ec t =
     (let t = (if m_tcp_pre_init_handler t then call Tcp_pre_init t else t);
          t = (if ec \<noteq> Succeeded then call (Init_cb ec) t else t)
      in if m_proxy t \<noteq> [] then proxy_write t else post_init t)"

definition init :: "transport \<Rightarrow> transport" where
  "init t = (let (ec, t) = pre_init t in handle_pre_init ec t)"

text \<open>\<open>m_proxy_data->timer\<close>: the object is looked at without a check, and so is the timer.\<close>

definition the_proxy_timer :: "transport \<Rightarrow> timer option" where
  "the_proxy_timer t = (case m_proxy_data t of None \<Rightarrow> None | Some d \<Rightarrow> proxy_timer d)"

definition proxy_read :: "transport \<Rightarrow> transport" where
  "proxy_read t = (if m_proxy_data t = None then call Null_access t else start_op Proxy_read t)"

definition handle_proxy_write :: "asio_ec \<Rightarrow> transport \<Rightarrow> transport" where
  "handle_proxy_write ec t =
     (let t = t\<lparr>m_bufs := []\<rparr>
      in if ec = Some op_aborted then t
         else case the_proxy_timer t of
             None \<Rightarrow> call Null_access t
           | Some tm \<Rightarrow>
               if is_neg tm t then t
               else if ec \<noteq> None then call (Init_cb (Asio asio_pass_through)) (cancel_timer tm t)
               else proxy_read t)"

text \<open>What follows once the response of the proxy has been read.\<close>

definition handle_proxy_response :: "string \<Rightarrow> transport \<Rightarrow> transport" where
  "handle_proxy_response s t =
     (case m_proxy_data t of
        None \<Rightarrow> call (Init_cb (Asio asio_general)) t
      | Some d \<Rightarrow>
          (case response_consume_stream s (proxy_res d) of
             Inl (what, status) \<Rightarrow> call (Escaped what status) t
           | Inr res \<Rightarrow>
               let t = t\<lparr>m_proxy_data := Some (d\<lparr>proxy_res := res\<rparr>)\<rparr>
               in if \<not> headers_ready res then call (Init_cb (Asio asio_general)) t
                  else if m_status_code res \<noteq> 200 then call (Init_cb (Asio proxy_failed)) t
                  else post_init (t\<lparr>m_proxy_data := None\<rparr>)))"

definition handle_proxy_read :: "asio_ec \<Rightarrow> string \<Rightarrow> transport \<Rightarrow> transport" where
  "handle_proxy_read ec s t =
     (if ec = Some op_aborted then t
      else case the_proxy_timer t of
          None \<Rightarrow> call Null_access t
        | Some tm \<Rightarrow>
            if is_neg tm t then t
            else if ec \<noteq> None then call (Init_cb (Asio asio_pass_through)) (cancel_timer tm t)
            else handle_proxy_response s (cancel_timer tm t))"

section \<open>Reading, writing, shutting down\<close>

definition async_read_at_least :: "nat \<Rightarrow> nat \<Rightarrow> nat option \<Rightarrow> transport \<Rightarrow> transport" where
  "async_read_at_least num_bytes len h t = start_op (Read num_bytes len h) t"

definition handle_async_read :: "nat option \<Rightarrow> asio_ec \<Rightarrow> nat \<Rightarrow> transport \<Rightarrow> transport" where
  "handle_async_read h ec n t =
     (let (tec, t) =
        (if ec = Some end_of_file then (Code (Transport eof), t)
         else if ec \<noteq> None then (translate_ec ec, t\<lparr>m_tec := ec\<rparr>)
         else (Succeeded, t))
      in case h of None \<Rightarrow> t | Some i \<Rightarrow> call (Read_cb i tec n) t)"

definition async_write_buffers :: "u8 list list \<Rightarrow> nat option \<Rightarrow> transport \<Rightarrow> transport" where
  "async_write_buffers bufs h t =
     (let t = t\<lparr>m_bufs := m_bufs t @ bufs\<rparr> in start_op (Write (m_bufs t) h) t)"

definition async_write :: "u8 list \<Rightarrow> nat option \<Rightarrow> transport \<Rightarrow> transport" where
  "async_write buf h t =
     (let t = t\<lparr>m_bufs := m_bufs t @ [buf]\<rparr> in start_op (Write (m_bufs t) h) t)"

definition handle_async_write :: "nat option \<Rightarrow> asio_ec \<Rightarrow> transport \<Rightarrow> transport" where
  "handle_async_write h ec t =
     (let t = t\<lparr>m_bufs := []\<rparr>;
          tec = (if ec \<noteq> None then Asio asio_pass_through else Succeeded)
      in case h of None \<Rightarrow> t | Some i \<Rightarrow> call (Write_cb i tec) t)"

definition handle_async_shutdown_timeout :: "callback_code \<Rightarrow> transport \<Rightarrow> transport" where
  "handle_async_shutdown_timeout ec t =
     (if ec \<noteq> Succeeded then
        (if ec = Aborted then t else call (Shutdown_cb ec) (cancel_socket_checked t))
      else call (Shutdown_cb Timed_out) (cancel_socket_checked t))"

definition handle_async_shutdown :: "timer \<Rightarrow> asio_ec \<Rightarrow> transport \<Rightarrow> transport" where
  "handle_async_shutdown tm ec t =
     (if ec = Some op_aborted \<or> is_neg tm t then t
      else
        let t = cancel_timer tm t;
            (tec, t) =
              (if ec \<noteq> None \<and> ec \<noteq> Some not_connected then (translate_ec ec, t\<lparr>m_tec := ec\<rparr>) else (Succeeded, t))
        in call (Shutdown_cb tec) t)"

text \<open>The plain socket is shut down at once; how that ends, \<open>ec\<close>, is up to the system.\<close>

definition async_shutdown :: "asio_ec \<Rightarrow> transport \<Rightarrow> transport" where
  "async_shutdown ec t =
     (let (tm, t) = set_timer timeout_socket_shutdown Shutdown_timer t in handle_async_shutdown tm ec t)"

text \<open>\<open>interrupt\<close> and \<open>dispatch\<close> post a function.\<close>

definition dispatch :: "nat \<Rightarrow> transport \<Rightarrow> transport" where
  "dispatch h t = t\<lparr>ready := ready t @ [Posted h]\<rparr>"

definition interrupt :: "nat \<Rightarrow> transport \<Rightarrow> transport" where
  "interrupt h t = t\<lparr>ready := ready t @ [Posted h]\<rparr>"

section \<open>Connecting (endpoint.hpp)\<close>

definition start_resolve :: "string \<Rightarrow> string \<Rightarrow> transport \<Rightarrow> transport" where
  "start_resolve host port t =
     (let (dns_timer, t) = set_timer timeout_dns_resolve Resolve_timer t
      in start_op (Resolve dns_timer host port) t)"

definition async_connect :: "uri \<Rightarrow> transport \<Rightarrow> transport" where
  "async_connect u t =
     (if m_proxy t = [] then start_resolve (m_host u) (get_port_str u) t
      else
        let pu = parse_uri (m_proxy t)
        in if \<not> m_valid pu then call (Connect_cb (Asio proxy_invalid)) t
           else
             let (ec, t) = proxy_init (get_authority u) t
             in if ec \<noteq> No_error then call (Connect_cb (Code ec)) t
                else start_resolve (m_host pu) (get_port_str pu) t)"

definition handle_resolve_timeout :: "callback_code \<Rightarrow> transport \<Rightarrow> transport" where
  "handle_resolve_timeout ec t =
     (if ec \<noteq> Succeeded then
        (if ec = Aborted then t else call (Connect_cb ec) (cancel_resolver t))
      else call (Connect_cb Timed_out) (cancel_resolver t))"

definition handle_resolve :: "timer \<Rightarrow> asio_ec \<Rightarrow> transport \<Rightarrow> transport" where
  "handle_resolve dns_timer ec t =
     (if ec = Some op_aborted \<or> is_neg dns_timer t then t
      else
        let t = cancel_timer dns_timer t
        in if ec \<noteq> None then call (Connect_cb (Asio asio_pass_through)) t
           else
             let (con_timer, t) = set_timer timeout_connect Connect_timer t
             in start_op (Connect_to con_timer) t)"

definition handle_connect_timeout :: "callback_code \<Rightarrow> transport \<Rightarrow> transport" where
  "handle_connect_timeout ec t =
     (if ec \<noteq> Succeeded then
        (if ec = Aborted then t else call (Connect_cb ec) (cancel_socket_checked t))
      else call (Connect_cb Timed_out) (cancel_socket_checked t))"

definition handle_connect :: "timer \<Rightarrow> asio_ec \<Rightarrow> transport \<Rightarrow> transport" where
  "handle_connect con_timer ec t =
     (if ec = Some op_aborted \<or> is_neg con_timer t then t
      else
        let t = cancel_timer con_timer t
        in if ec \<noteq> None then call (Connect_cb (Asio asio_pass_through)) t
           else call (Connect_cb Succeeded) t)"

section \<open>asio\<close>

text \<open>The handler a completion is for.\<close>

fun timer_handler :: "timer_kind \<Rightarrow> callback_code \<Rightarrow> transport \<Rightarrow> transport" where
  "timer_handler Resolve_timer ec = handle_resolve_timeout ec"
| "timer_handler Connect_timer ec = handle_connect_timeout ec"
| "timer_handler Proxy_timer ec = handle_proxy_timeout ec"
| "timer_handler Post_init_timer ec = handle_post_init_timeout ec"
| "timer_handler Shutdown_timer ec = handle_async_shutdown_timeout ec"
| "timer_handler (User_timer i) ec = call (Timer_cb i ec)"

fun op_handler :: "operation \<Rightarrow> asio_ec \<Rightarrow> nat \<Rightarrow> string \<Rightarrow> transport \<Rightarrow> transport" where
  "op_handler (Resolve tm host port) ec n s = handle_resolve tm ec"
| "op_handler (Connect_to tm) ec n s = handle_connect tm ec"
| "op_handler (Proxy_write bufs) ec n s = handle_proxy_write ec"
| "op_handler Proxy_read ec n s = handle_proxy_read ec s"
| "op_handler (Read m l h) ec n s = handle_async_read h ec n"
| "op_handler (Write bufs h) ec n s = handle_async_write h ec"

fun run_completion :: "completion \<Rightarrow> transport \<Rightarrow> transport" where
  "run_completion (Timer_done tm k ec) = timer_handler k (handle_timer ec)"
| "run_completion (Op_done x ec n s) = op_handler x ec n s"
| "run_completion (Posted h) = call (Dispatched h)"

text \<open>What asio promises of the number of bytes and the text an operation ends with.\<close>

fun result_ok :: "operation \<Rightarrow> asio_ec \<Rightarrow> nat \<Rightarrow> string \<Rightarrow> bool" where
  "result_ok Proxy_read ec n s \<longleftrightarrow> ec = None \<longrightarrow> sublist [CR, LF, CR, LF] s"
| "result_ok (Read m l h) ec n s \<longleftrightarrow> n \<le> l \<and> (ec = None \<longrightarrow> m \<le> n)"
| "result_ok _ ec n s \<longleftrightarrow> True"

end
