(* ===== verification/Ws_Asio_Machine.thy ===== *)
theory Ws_Asio_Machine
  imports Ws_Asio
begin

text \<open>
  The transport of one connection as a state machine: time passes, timers expire, operations of asio complete, ready
  handlers run in any order, and the layer above asks (Client/cpp/websocketpp/websocketpp/transport/asio/). Shown: unless
  a handler runs in the very instant its timer expires, whoever asked for a connection, or for the initialization
  of one, is answered exactly once and in time; and a write transmits what it was given.
\<close>

section \<open>The machine\<close>

datatype family = Connecting | Initializing

record net =
  con :: transport
  due :: "family \<Rightarrow> int option"
  raced :: bool

datatype net_label =
    N_tick int
  | N_expire timer timer_kind
  | N_complete operation asio_ec nat string
  | N_run completion
  | N_connect uri
  | N_init
  | N_read nat nat "nat option"
  | N_write "u8 list list" "nat option"
  | N_shutdown asio_ec
  | N_timer int nat
  | N_dispatch nat

text \<open>The timer that guards an operation.\<close>

fun guard_timer :: "operation \<Rightarrow> transport \<Rightarrow> timer option" where
  "guard_timer (Resolve tm host port) t = Some tm"
| "guard_timer (Connect_to tm) t = Some tm"
| "guard_timer (Proxy_write bufs) t = the_proxy_timer t"
| "guard_timer Proxy_read t = the_proxy_timer t"
| "guard_timer _ t = None"

fun on_the_instant :: "completion \<Rightarrow> transport \<Rightarrow> bool" where
  "on_the_instant (Op_done x ec n s) t \<longleftrightarrow>
     ec \<noteq> Some op_aborted \<and> (\<exists>tm \<in> set_option (guard_timer x t). expiry tm = now t)"
| "on_the_instant _ t \<longleftrightarrow> False"

fun is_write :: "operation \<Rightarrow> bool" where
  "is_write (Proxy_write bufs) = True"
| "is_write (Write bufs h) = True"
| "is_write _ = False"

fun write_done :: "completion \<Rightarrow> bool" where
  "write_done (Op_done x ec n s) = is_write x"
| "write_done _ = False"

definition writing :: "transport \<Rightarrow> bool" where
  "writing t \<longleftrightarrow> list_ex is_write (pending t) \<or> list_ex write_done (ready t)"

definition proxy_wait :: "transport \<Rightarrow> int" where
  "proxy_wait t = (case m_proxy_data t of None \<Rightarrow> 0 | Some d \<Rightarrow> timeout_proxy d)"

text \<open>The layer above connects once, initializes once, after it has been connected, writes only when it is
  initialized and the last write is done (\<open>m_write_flag\<close> of the connection).\<close>

inductive net_step :: "net \<Rightarrow> net_label \<Rightarrow> net \<Rightarrow> bool" where
  net_tick: "0 \<le> d \<Longrightarrow> net_step w (N_tick d) (w\<lparr>con := (con w)\<lparr>now := now (con w) + d\<rparr>\<rparr>)"
| net_expire: "waiting (con w) = xs @ (tm, k) # ys \<Longrightarrow> expiry tm \<le> now (con w) \<Longrightarrow>
    net_step w (N_expire tm k)
      (w\<lparr>con := (con w)\<lparr>waiting := xs @ ys, ready := ready (con w) @ [Timer_done tm k None]\<rparr>\<rparr>)"
| net_complete: "pending (con w) = xs @ x # ys \<Longrightarrow> ec \<noteq> Some op_aborted \<Longrightarrow> result_ok x ec n s \<Longrightarrow>
    net_step w (N_complete x ec n s)
      (w\<lparr>con := (con w)\<lparr>pending := xs @ ys, ready := ready (con w) @ [Op_done x ec n s]\<rparr>\<rparr>)"
| net_run: "ready (con w) = xs @ c # ys \<Longrightarrow>
    net_step w (N_run c)
      (w\<lparr>con := run_completion c ((con w)\<lparr>ready := xs @ ys\<rparr>), raced := raced w \<or> on_the_instant c (con w)\<rparr>)"
| net_connect: "due w Connecting = None \<Longrightarrow>
    net_step w (N_connect u)
      (w\<lparr>con := async_connect u (con w),
         due := (due w)(Connecting \<mapsto> now (con w) + timeout_dns_resolve + timeout_connect)\<rparr>)"
| net_init: "due w Initializing = None \<Longrightarrow> Connect_cb Succeeded \<in> set (calls (con w)) \<Longrightarrow>
    net_step w N_init
      (w\<lparr>con := init (con w), due := (due w)(Initializing \<mapsto> now (con w) + proxy_wait (con w))\<rparr>)"
| net_read: "Init_cb Succeeded \<in> set (calls (con w)) \<Longrightarrow>
    net_step w (N_read m l h) (w\<lparr>con := async_read_at_least m l h (con w)\<rparr>)"
| net_write: "Init_cb Succeeded \<in> set (calls (con w)) \<Longrightarrow> \<not> writing (con w) \<Longrightarrow>
    net_step w (N_write bufs h) (w\<lparr>con := async_write_buffers bufs h (con w)\<rparr>)"
| net_shutdown: "net_step w (N_shutdown ec) (w\<lparr>con := async_shutdown ec (con w)\<rparr>)"
| net_timer: "net_step w (N_timer d i) (w\<lparr>con := snd (set_timer d (User_timer i) (con w))\<rparr>)"
| net_dispatch: "net_step w (N_dispatch h) (w\<lparr>con := dispatch h (con w)\<rparr>)"

inductive_cases net_stepE: "net_step w l w'"

text \<open>A connection that is set up: its socket made, its proxy set or not.\<close>

definition configured :: "transport \<Rightarrow> bool" where
  "configured t \<longleftrightarrow> socket_state t = READY \<and> waiting t = [] \<and> pending t = [] \<and> ready t = [] \<and> calls t = [] \<and>
     m_bufs t = [] \<and> (m_proxy t \<noteq> [] \<longrightarrow> m_proxy_data t \<noteq> None)"

definition initial_net :: "net \<Rightarrow> bool" where
  "initial_net w \<longleftrightarrow> configured (con w) \<and> due w = Map.empty \<and> \<not> raced w"

section \<open>Counting\<close>

fun timer_family :: "timer_kind \<Rightarrow> family option" where
  "timer_family Resolve_timer = Some Connecting"
| "timer_family Connect_timer = Some Connecting"
| "timer_family Proxy_timer = Some Initializing"
| "timer_family Post_init_timer = Some Initializing"
| "timer_family _ = None"

fun op_family :: "operation \<Rightarrow> family option" where
  "op_family (Resolve tm host port) = Some Connecting"
| "op_family (Connect_to tm) = Some Connecting"
| "op_family (Proxy_write bufs) = Some Initializing"
| "op_family Proxy_read = Some Initializing"
| "op_family _ = None"

text \<open>An exception that leaves the handler of the proxy's response takes the place of the answer.\<close>

fun cb_family :: "callback \<Rightarrow> family option" where
  "cb_family (Connect_cb ec) = Some Connecting"
| "cb_family (Init_cb ec) = Some Initializing"
| "cb_family (Escaped what status) = Some Initializing"
| "cb_family _ = None"

fun timer_to_come :: "family \<Rightarrow> completion \<Rightarrow> bool" where
  "timer_to_come F (Timer_done tm k ec) \<longleftrightarrow> ec \<noteq> Some op_aborted \<and> timer_family k = Some F"
| "timer_to_come F _ \<longleftrightarrow> False"

fun op_to_come :: "family \<Rightarrow> completion \<Rightarrow> bool" where
  "op_to_come F (Op_done x ec n s) \<longleftrightarrow> ec \<noteq> Some op_aborted \<and> op_family x = Some F"
| "op_to_come F _ \<longleftrightarrow> False"

definition live :: "family \<Rightarrow> transport \<Rightarrow> nat" where
  "live F t = length (filter (\<lambda>(tm, k). timer_family k = Some F) (waiting t)) + length (filter (timer_to_come F) (ready t))"

definition ops :: "family \<Rightarrow> transport \<Rightarrow> nat" where
  "ops F t = length (filter (\<lambda>x. op_family x = Some F) (pending t)) + length (filter (op_to_come F) (ready t))"

definition answers :: "family \<Rightarrow> transport \<Rightarrow> nat" where
  "answers F t = length (filter (\<lambda>cb. cb_family cb = Some F) (calls t))"

definition outstanding :: "transport \<Rightarrow> operation set" where
  "outstanding t = set (pending t) \<union> {x. \<exists>ec n s. ec \<noteq> Some op_aborted \<and> Op_done x ec n s \<in> set (ready t)}"

section \<open>The invariant\<close>

text \<open>The time still to be granted after a timer.\<close>

fun to_follow :: "timer_kind \<Rightarrow> int" where
  "to_follow Resolve_timer = timeout_connect"
| "to_follow _ = 0"

fun guard_kind :: "operation \<Rightarrow> timer_kind" where
  "guard_kind (Resolve tm host port) = Resolve_timer"
| "guard_kind (Connect_to tm) = Connect_timer"
| "guard_kind _ = Proxy_timer"

definition guarded :: "operation \<Rightarrow> transport \<Rightarrow> bool" where
  "guarded x t \<longleftrightarrow>
     (\<exists>tm. guard_timer x t = Some tm \<and> ((tm, guard_kind x) \<in> set (waiting t) \<or> expiry tm \<le> now t))"

definition tidy :: "transport \<Rightarrow> bool" where
  "tidy t \<longleftrightarrow> distinct (map (timer_id \<circ> fst) (waiting t)) \<and> (\<forall>(tm, k) \<in> set (waiting t). timer_id tm < next_timer t)"

text \<open>A family that has been asked \<open>a F\<close> times, and has until \<open>d F\<close>.\<close>

definition well :: "(family \<Rightarrow> nat) \<Rightarrow> (family \<Rightarrow> int option) \<Rightarrow> transport \<Rightarrow> bool" where
  "well a d t \<longleftrightarrow>
     (\<forall>F. live F t + answers F t = a F) \<and> (\<forall>F. ops F t \<le> 1) \<and>
     (\<forall>x \<in> outstanding t. op_family x \<noteq> None \<longrightarrow> guarded x t) \<and> tidy t \<and>
     (\<forall>(tm, k) \<in> set (waiting t). \<forall>F. timer_family k = Some F \<longrightarrow> (\<exists>b. d F = Some b \<and> expiry tm + to_follow k \<le> b)) \<and>
     Null_access \<notin> set (calls t) \<and> (\<forall>F. d F = None \<longrightarrow> ops F t = 0)"

section \<open>What the primitives do to it\<close>

lemma guard_kind_family: "op_family x = Some F \<Longrightarrow> timer_family (guard_kind x) = Some F"
  by (cases x) auto

lemma ops_0_iff: "ops F t = 0 \<longleftrightarrow> (\<forall>x \<in> outstanding t. op_family x \<noteq> Some F)"
proof -
  have "op_to_come F c \<longleftrightarrow> (\<exists>x ec n s. c = Op_done x ec n s \<and> ec \<noteq> Some op_aborted \<and> op_family x = Some F)" for c
    by (cases c) auto
  then show ?thesis unfolding ops_def outstanding_def by (auto simp: filter_empty_conv) blast+
qed

lemma guard_timer_upd [simp]:
  "guard_timer x (t\<lparr>calls := cs\<rparr>) = guard_timer x t"
  "guard_timer x (t\<lparr>ready := r\<rparr>) = guard_timer x t"
  "guard_timer x (t\<lparr>waiting := w\<rparr>) = guard_timer x t"
  "guard_timer x (t\<lparr>pending := p\<rparr>) = guard_timer x t"
  "guard_timer x (t\<lparr>next_timer := i\<rparr>) = guard_timer x t"
  "guard_timer x (t\<lparr>now := u\<rparr>) = guard_timer x t"
  "guard_timer x (t\<lparr>m_bufs := bufs\<rparr>) = guard_timer x t"
  "guard_timer x (t\<lparr>m_tec := ec\<rparr>) = guard_timer x t"
  "guard_timer x (t\<lparr>socket_state := ss\<rparr>) = guard_timer x t"
  by (cases x; simp add: the_proxy_timer_def)+

lemmas counting = well_def call_def live_def ops_def answers_def outstanding_def guarded_def tidy_def

lemma tidy_same: "tidy t \<Longrightarrow> (tm, k) \<in> set (waiting t) \<Longrightarrow> (tm, k') \<in> set (waiting t) \<Longrightarrow> k = k'"
  unfolding tidy_def distinct_map by (auto dest: inj_onD [where x = "(tm, k)" and y = "(tm, k')"])

lemma well_call: "well a d t \<Longrightarrow> cb_family cb = Some F \<Longrightarrow> well (a(F := a F + 1)) d (call cb t)"
  by (auto simp: counting)

lemma well_call_None: "well a d t \<Longrightarrow> cb_family cb = None \<Longrightarrow> cb \<noteq> Null_access \<Longrightarrow> well a d (call cb t)"
  by (auto simp: counting)

lemma wellI:
  assumes "\<And>F. live F t + answers F t = a F" "\<And>F. ops F t \<le> 1"
    "\<And>x. x \<in> outstanding t \<Longrightarrow> op_family x \<noteq> None \<Longrightarrow> guarded x t" "tidy t"
    "\<And>tm k F. (tm, k) \<in> set (waiting t) \<Longrightarrow> timer_family k = Some F \<Longrightarrow> \<exists>b. d F = Some b \<and> expiry tm + to_follow k \<le> b"
    "Null_access \<notin> set (calls t)" "\<And>F. d F = None \<Longrightarrow> ops F t = 0"
  shows "well a d t"
  using assms unfolding well_def by blast

lemma wellD:
  assumes "well a d t"
  shows "live F t + answers F t = a F" "ops F t \<le> 1"
    "x \<in> outstanding t \<Longrightarrow> op_family x \<noteq> None \<Longrightarrow> guarded x t" "tidy t"
    "(tm, k) \<in> set (waiting t) \<Longrightarrow> timer_family k = Some F \<Longrightarrow> \<exists>b. d F = Some b \<and> expiry tm + to_follow k \<le> b"
    "Null_access \<notin> set (calls t)" "d F = None \<Longrightarrow> ops F t = 0"
  using assms unfolding well_def by blast+

text \<open>Fields that nothing is counted by.\<close>

lemma well_frame:
  "well a d (t\<lparr>m_bufs := bufs\<rparr>) = well a d t" "well a d (t\<lparr>m_tec := ec\<rparr>) = well a d t"
  "well a d (t\<lparr>socket_state := ss\<rparr>) = well a d t"
  by (simp_all add: counting)

lemma well_proxy: "well a d t \<Longrightarrow> ops Initializing t = 0 \<Longrightarrow> well a d (t\<lparr>m_proxy_data := p\<rparr>)"
proof -
  assume w: "well a d t" and o: "ops Initializing t = 0"
  have "guard_timer x (t\<lparr>m_proxy_data := p\<rparr>) = guard_timer x t"
    if "op_family x \<noteq> Some Initializing" for x
    using that by (cases x) auto
  moreover have "op_family x \<noteq> Some Initializing" if "x \<in> outstanding t" for x
    using o that by (auto simp: ops_0_iff)
  ultimately show ?thesis using w unfolding well_def guarded_def
    by (simp add: live_def ops_def answers_def outstanding_def tidy_def)
qed

lemma well_proxy_same:
  "well a d t \<Longrightarrow> the_proxy_timer (t\<lparr>m_proxy_data := p\<rparr>) = the_proxy_timer t \<Longrightarrow> well a d (t\<lparr>m_proxy_data := p\<rparr>)"
proof -
  assume w: "well a d t" and p: "the_proxy_timer (t\<lparr>m_proxy_data := p\<rparr>) = the_proxy_timer t"
  have "guard_timer x (t\<lparr>m_proxy_data := p\<rparr>) = guard_timer x t" for x
    using p by (cases x) auto
  then show ?thesis using w unfolding well_def guarded_def
    by (simp add: live_def ops_def answers_def outstanding_def tidy_def)
qed

text \<open>Everything a socket or a resolver still has to do is aborted.\<close>

lemma abort_all_counts:
  "live F (abort_all P t) = live F t" "ops F (abort_all P t) \<le> ops F t" "answers F (abort_all P t) = answers F t"
  "outstanding (abort_all P t) \<subseteq> outstanding t" "guarded x (abort_all P t) = guarded x t" "tidy (abort_all P t) = tidy t"
proof -
  have r: "filter (timer_to_come F) (map (\<lambda>x. Op_done x (Some op_aborted) 0 []) xs) = []"
       "filter (op_to_come F) (map (\<lambda>x. Op_done x (Some op_aborted) 0 []) xs) = []" for xs
    by (induction xs) auto
  show "live F (abort_all P t) = live F t" by (simp add: live_def abort_all_def r)
  have "length (filter (\<lambda>x. op_family x = Some F) (filter (\<lambda>x. \<not> P x) xs)) \<le> length (filter (\<lambda>x. op_family x = Some F) xs)" for xs
    by (induction xs) auto
  then show "ops F (abort_all P t) \<le> ops F t" unfolding ops_def by (simp add: abort_all_def r del: filter_filter)
  show "outstanding (abort_all P t) \<subseteq> outstanding t" by (auto simp: outstanding_def abort_all_def)
  show "answers F (abort_all P t) = answers F t" "guarded x (abort_all P t) = guarded x t" "tidy (abort_all P t) = tidy t"
    by (simp_all add: answers_def guarded_def tidy_def abort_all_def)
qed

lemma well_abort: "well a d t \<Longrightarrow> well a d (abort_all P t)"
proof -
  assume w: "well a d t"
  have f: "waiting (abort_all P t) = waiting t" "calls (abort_all P t) = calls t" by (simp_all add: abort_all_def)
  have "ops F (abort_all P t) \<le> 1" for F
    using wellD(2) [OF w, of F] abort_all_counts(2) [of F P t] by linarith
  moreover have "guarded x (abort_all P t)" if "x \<in> outstanding (abort_all P t)" "op_family x \<noteq> None" for x
    using wellD(3) [OF w, of x] abort_all_counts(4) [of P t] that abort_all_counts(5) by blast
  moreover have "ops F (abort_all P t) = 0" if "d F = None" for F
    using wellD(7) [OF w that] abort_all_counts(2) [of F P t] by simp
  ultimately show ?thesis using wellD(1,4-6) [OF w] by (intro wellI) (simp_all add: abort_all_counts(1,3,6) f)
qed

text \<open>A timer that is cancelled while it waits takes one from its family, which must not have an operation left.\<close>

lemma cancel_timer_waiting:
  assumes "tidy t" "(tm, k) \<in> set (waiting t)"
  shows "\<exists>xs ys. waiting t = xs @ (tm, k) # ys \<and>
    cancel_timer tm t = t\<lparr>waiting := xs @ ys, ready := ready t @ [Timer_done tm k (Some op_aborted)]\<rparr>"
proof -
  obtain xs ys where e: "waiting t = xs @ (tm, k) # ys" using assms by (meson split_list)
  have "timer_id tm \<notin> (timer_id \<circ> fst) ` (set xs \<union> set ys)"
    using assms(1) by (simp add: tidy_def e image_Un)
  then have "x \<noteq> tm" if "(x, j) \<in> set xs \<union> set ys" for x j using that by force
  then have f: "filter (\<lambda>(x, j). x \<noteq> tm) xs = xs" "filter (\<lambda>(x, j). x \<noteq> tm) ys = ys"
      "filter (\<lambda>(x, j). x = tm) xs = []" "filter (\<lambda>(x, j). x = tm) ys = []"
    by (auto simp: filter_id_conv filter_empty_conv)
  show ?thesis by (rule exI [of _ xs], rule exI [of _ ys]) (simp add: e f cancel_timer_def)
qed

lemma well_cancel:
  assumes w: "well a d t" and m: "(tm, k) \<in> set (waiting t)" and F: "timer_family k = Some F" and o: "ops F t = 0"
  shows "well (a(F := a F - 1)) d (cancel_timer tm t)" "a F > 0" "ops F (cancel_timer tm t) = 0"
proof -
  have t: "tidy t" using w by (simp add: well_def)
  obtain xs ys where e: "waiting t = xs @ (tm, k) # ys"
      "cancel_timer tm t = t\<lparr>waiting := xs @ ys, ready := ready t @ [Timer_done tm k (Some op_aborted)]\<rparr>"
    using cancel_timer_waiting [OF t m] by blast
  have l: "live F t = live F (cancel_timer tm t) + 1" "G \<noteq> F \<Longrightarrow> live G (cancel_timer tm t) = live G t" for G
    using F by (auto simp: e live_def)
  have lf: "live G t + answers G t = a G" for G using w by (simp add: well_def)
  have an: "answers G (cancel_timer tm t) = answers G t" "ops G (cancel_timer tm t) = ops G t" for G
    by (simp_all add: answers_def ops_def e)
  have ou: "outstanding (cancel_timer tm t) = outstanding t" by (simp add: outstanding_def e)
  show "a F > 0" using lf [of F] l(1) by simp
  show "ops F (cancel_timer tm t) = 0" using o an(2) by simp
  have g: "guarded x (cancel_timer tm t)" if "x \<in> outstanding t" "op_family x \<noteq> None" for x
  proof -
    have "guarded x t" using w that by (auto simp: well_def)
    moreover have "timer_family (guard_kind x) \<noteq> Some F"
      using that o guard_kind_family by (auto simp: ops_0_iff)
    then have "guard_kind x \<noteq> k" using F by auto
    ultimately show ?thesis by (auto simp: guarded_def e)
  qed
  show "well (a(F := a F - 1)) d (cancel_timer tm t)"
  proof (rule wellI)
    show "live G (cancel_timer tm t) + answers G (cancel_timer tm t) = (a(F := a F - 1)) G" for G
      using lf [of G] l an(1) [of G] by (cases "G = F") auto
    show "ops G (cancel_timer tm t) \<le> 1" for G using wellD(2) [OF w] an(2) by simp
    show "guarded x (cancel_timer tm t)" if "x \<in> outstanding (cancel_timer tm t)" "op_family x \<noteq> None" for x
      using g that ou by simp
    show "tidy (cancel_timer tm t)" using t by (auto simp: tidy_def e)
    show "\<exists>b. d G = Some b \<and> expiry tm' + to_follow j \<le> b"
      if "(tm', j) \<in> set (waiting (cancel_timer tm t))" "timer_family j = Some G" for tm' j G
      using that by (intro wellD(5) [OF w]) (auto simp: e)
    show "Null_access \<notin> set (calls (cancel_timer tm t))" using wellD(6) [OF w] by (simp add: e)
    show "ops G (cancel_timer tm t) = 0" if "d G = None" for G using wellD(7) [OF w that] an(2) by simp
  qed
qed

text \<open>A timer that is set, an operation that is started.\<close>

lemma set_timer_eq:
  "set_timer dur k t = (\<lparr>timer_id = next_timer t, expiry = now t + dur\<rparr>,
     t\<lparr>next_timer := next_timer t + 1, waiting := waiting t @ [(\<lparr>timer_id = next_timer t, expiry = now t + dur\<rparr>, k)]\<rparr>)"
  by (simp add: set_timer_def Let_def)

lemma set_timer_waiting: "(fst (set_timer dur k t), k) \<in> set (waiting (snd (set_timer dur k t)))"
  by (simp add: set_timer_eq)

lemma set_timer_ops [simp]: "ops F (snd (set_timer dur k t)) = ops F t"
  by (simp add: set_timer_eq ops_def)

lemma well_set_timer:
  assumes w: "well a d t"
    and b: "\<And>F. timer_family k = Some F \<Longrightarrow> \<exists>b. d F = Some b \<and> now t + dur + to_follow k \<le> b"
  shows "well (\<lambda>F. a F + (if timer_family k = Some F then 1 else 0)) d (snd (set_timer dur k t))"
proof (rule wellI)
  let ?t = "snd (set_timer dur k t)"
  show "live G ?t + answers G ?t = a G + (if timer_family k = Some G then 1 else 0)" for G
    using wellD(1) [OF w, of G] by (simp add: live_def answers_def set_timer_eq)
  show "ops G ?t \<le> 1" for G using wellD(2) [OF w, of G] by simp
  show "guarded x ?t" if "x \<in> outstanding ?t" "op_family x \<noteq> None" for x
    using wellD(3) [OF w, of x] that by (auto simp: guarded_def outstanding_def set_timer_eq)
  show "tidy ?t" using wellD(4) [OF w] by (auto simp: tidy_def set_timer_eq)
  show "\<exists>b. d G = Some b \<and> expiry tm + to_follow j \<le> b"
    if "(tm, j) \<in> set (waiting ?t)" "timer_family j = Some G" for tm j G
    using that wellD(5) [OF w, of tm j G] b by (auto simp: set_timer_eq)
  show "Null_access \<notin> set (calls ?t)" using wellD(6) [OF w] by (simp add: set_timer_eq)
  show "ops G ?t = 0" if "d G = None" for G using wellD(7) [OF w that] by simp
qed

lemma well_start:
  assumes w: "well a d t" and x: "\<And>F. op_family x = Some F \<Longrightarrow> ops F t = 0 \<and> guarded x t \<and> d F \<noteq> None"
  shows "well a d (start_op x t)"
proof (rule wellI)
  have ou: "outstanding (start_op x t) = insert x (outstanding t)" by (auto simp: outstanding_def start_op_def)
  show "live G (start_op x t) + answers G (start_op x t) = a G" for G
    using wellD(1) [OF w, of G] by (simp add: live_def answers_def start_op_def)
  show "ops G (start_op x t) \<le> 1" for G
    using wellD(2) [OF w, of G] x [of G] by (auto simp add: ops_def start_op_def)
  show "guarded y (start_op x t)" if "y \<in> outstanding (start_op x t)" "op_family y \<noteq> None" for y
  proof -
    have "guarded y t" using that wellD(3) [OF w, of y] x ou by auto
    then show ?thesis by (simp add: guarded_def start_op_def)
  qed
  show "tidy (start_op x t)" using wellD(4) [OF w] by (simp add: tidy_def start_op_def)
  show "\<exists>b. d G = Some b \<and> expiry tm + to_follow j \<le> b"
    if "(tm, j) \<in> set (waiting (start_op x t))" "timer_family j = Some G" for tm j G
    using that wellD(5) [OF w, of tm j G] by (simp add: start_op_def)
  show "Null_access \<notin> set (calls (start_op x t))" using wellD(6) [OF w] by (simp add: start_op_def)
  show "ops G (start_op x t) = 0" if "d G = None" for G
    using wellD(7) [OF w that] x [of G] that by (auto simp: ops_def start_op_def)
qed

text \<open>An operation of a family that has none, with its own new timer.\<close>

lemma well_start_timed:
  assumes w: "well a d t" and k: "timer_family k = Some F" "op_family x = Some F" and o: "ops F t = 0"
    and b: "d F = Some b" "now t + dur + to_follow k \<le> b"
    and x: "guard_timer x (snd (set_timer dur k t)) = Some (fst (set_timer dur k t))" "guard_kind x = k"
  shows "well (a(F := a F + 1)) d (start_op x (snd (set_timer dur k t)))"
proof (rule well_start)
  have e: "(\<lambda>G. a G + (if timer_family k = Some G then 1 else 0)) = a(F := a F + 1)" using k by auto
  have "well (\<lambda>G. a G + (if timer_family k = Some G then 1 else 0)) d (snd (set_timer dur k t))"
    by (rule well_set_timer [OF w]) (use k b in auto)
  then show "well (a(F := a F + 1)) d (snd (set_timer dur k t))" unfolding e .
  fix G assume "op_family x = Some G"
  then show "ops G (snd (set_timer dur k t)) = 0 \<and> guarded x (snd (set_timer dur k t)) \<and> d G \<noteq> None"
    using o k b x set_timer_waiting [of dur k t] by (auto simp: guarded_def)
qed

text \<open>A timer that is set and cancelled in one handler leaves everything as it was.\<close>

lemma well_set_cancel:
  assumes w: "well a d t"
  shows "well a d (cancel_timer (fst (set_timer dur k t)) (snd (set_timer dur k t)))"
proof -
  let ?tm = "\<lparr>timer_id = next_timer t, expiry = now t + dur\<rparr>"
  have n: "x \<noteq> ?tm" if "(x, j) \<in> set (waiting t)" for x j
    using wellD(4) [OF w] that by (auto simp: tidy_def)
  then have "filter (\<lambda>(x, j). x \<noteq> ?tm) (waiting t) = waiting t" "filter (\<lambda>(x, j). x = ?tm) (waiting t) = []"
    by (auto simp: filter_id_conv filter_empty_conv)
  then have e: "cancel_timer (fst (set_timer dur k t)) (snd (set_timer dur k t)) =
      t\<lparr>next_timer := next_timer t + 1, ready := ready t @ [Timer_done ?tm k (Some op_aborted)]\<rparr>"
    by (simp add: cancel_timer_def set_timer_eq)
  show ?thesis unfolding e using w
    by (auto simp: well_def live_def ops_def answers_def outstanding_def guarded_def tidy_def)
qed

section \<open>What the handlers do to it\<close>

text \<open>A handler that is taken off the list of the ready ones.\<close>

lemma well_take:
  assumes w: "well a d t" and r: "ready t = xs @ c # ys"
  shows "well (\<lambda>F. a F - (if timer_to_come F c then 1 else 0)) d (t\<lparr>ready := xs @ ys\<rparr>)"
    and "timer_to_come F c \<Longrightarrow> a F > 0" and "op_to_come F c \<Longrightarrow> ops F (t\<lparr>ready := xs @ ys\<rparr>) = 0"
proof -
  let ?t = "t\<lparr>ready := xs @ ys\<rparr>"
  have l: "live G t = live G ?t + (if timer_to_come G c then 1 else 0)" for G by (simp add: live_def r)
  have o: "ops G t = ops G ?t + (if op_to_come G c then 1 else 0)" for G by (simp add: ops_def r)
  have an: "answers G ?t = answers G t" for G by (simp add: answers_def)
  show "timer_to_come F c \<Longrightarrow> a F > 0" using l [of F] wellD(1) [OF w, of F] by simp
  show "op_to_come F c \<Longrightarrow> ops F ?t = 0" using o [of F] wellD(2) [OF w, of F] by simp
  show "well (\<lambda>F. a F - (if timer_to_come F c then 1 else 0)) d ?t"
  proof (rule wellI)
    show "live G ?t + answers G ?t = a G - (if timer_to_come G c then 1 else 0)" for G
      using l [of G] an [of G] wellD(1) [OF w, of G] by simp
    show "ops G ?t \<le> 1" for G using o [of G] wellD(2) [OF w, of G] by simp
    show "guarded x ?t" if "x \<in> outstanding ?t" "op_family x \<noteq> None" for x
    proof -
      have "x \<in> outstanding t" using that(1) by (auto simp: outstanding_def r)
      then show ?thesis using wellD(3) [OF w, of x] that(2) by (simp add: guarded_def)
    qed
    show "tidy ?t" using wellD(4) [OF w] by (simp add: tidy_def)
    show "\<exists>b. d G = Some b \<and> expiry tm + to_follow j \<le> b"
      if "(tm, j) \<in> set (waiting ?t)" "timer_family j = Some G" for tm j G
      using that wellD(5) [OF w, of tm j G] by simp
    show "Null_access \<notin> set (calls ?t)" using wellD(6) [OF w] by simp
    show "ops G ?t = 0" if "d G = None" for G using o [of G] wellD(7) [OF w that] by simp
  qed
qed

lemma well_take_same:
  assumes "well a d t" "ready t = xs @ c # ys" "\<And>F. \<not> timer_to_come F c"
  shows "well a d (t\<lparr>ready := xs @ ys\<rparr>)"
  using well_take(1) [OF assms(1,2)] assms(3) by simp

lemma well_take_timer:
  assumes "well a d t" "ready t = xs @ Timer_done tm k ec # ys" "ec \<noteq> Some op_aborted" "timer_family k = Some F"
  shows "well (a(F := a F - 1)) d (t\<lparr>ready := xs @ ys\<rparr>)" "a F > 0"
proof -
  have "(\<lambda>G. a G - (if timer_to_come G (Timer_done tm k ec) then 1 else 0)) = a(F := a F - 1)"
    using assms(3,4) by auto
  then show "well (a(F := a F - 1)) d (t\<lparr>ready := xs @ ys\<rparr>)" using well_take(1) [OF assms(1,2)] by simp
  show "a F > 0" using well_take(2) [OF assms(1,2)] assms(3,4) by auto
qed

lemma well_back: "well (a(F := a F - 1)) d t \<Longrightarrow> a F > 0 \<Longrightarrow> cb_family cb = Some F \<Longrightarrow> well a d (call cb t)"
  using well_call [of "a(F := a F - 1)" d t cb F] by simp

lemma well_finish:
  assumes "well a d t" "(tm, k) \<in> set (waiting t)" "timer_family k = Some F" "ops F t = 0" "cb_family cb = Some F"
  shows "well a d (call cb (cancel_timer tm t))"
  using well_back [OF well_cancel(1,2) [OF assms(1-4)]] assms(5) by blast

lemma handle_timer_cases: "handle_timer ec = Aborted \<longleftrightarrow> ec = Some op_aborted"
  by (cases ec) auto

lemma timer_handler_answers:
  assumes "timer_family k = Some F" "c \<noteq> Aborted"
  shows "\<exists>cb t'. cb_family cb = Some F \<and> timer_handler k c t = call cb t' \<and> (t' = t \<or> (\<exists>P. t' = abort_all P t))"
proof (cases k)
  case Resolve_timer
  then have "timer_handler k c t = call (Connect_cb (if c = Succeeded then Timed_out else c)) (cancel_resolver t)"
    using assms(2) by (simp add: handle_resolve_timeout_def)
  then show ?thesis using Resolve_timer assms(1) unfolding cancel_resolver_def by force
next
  case Connect_timer
  then have "timer_handler k c t = call (Connect_cb (if c = Succeeded then Timed_out else c)) (cancel_socket_checked t)"
    using assms(2) by (simp add: handle_connect_timeout_def)
  then show ?thesis using Connect_timer assms(1) unfolding cancel_socket_checked_def by force
next
  case Proxy_timer
  then have "timer_handler k c t =
      (if c = Succeeded then call (Init_cb Timed_out) (cancel_socket_checked t) else call (Init_cb c) t)"
    using assms(2) by (simp add: handle_proxy_timeout_def)
  then show ?thesis using Proxy_timer assms(1) unfolding cancel_socket_checked_def by force
next
  case Post_init_timer
  then have "timer_handler k c t = call (Init_cb (if c = Succeeded then Timed_out else c)) (cancel_socket_checked t)"
    using assms(2) by (simp add: handle_post_init_timeout_def)
  then show ?thesis using Post_init_timer assms(1) unfolding cancel_socket_checked_def by force
qed (use assms in simp_all)

lemma well_timer_handler:
  assumes w: "well a d t" and r: "ready t = xs @ Timer_done tm k ec # ys"
  shows "well a d (timer_handler k (handle_timer ec) (t\<lparr>ready := xs @ ys\<rparr>))"
proof (cases "ec = Some op_aborted")
  case True
  then have "well a d (t\<lparr>ready := xs @ ys\<rparr>)" by (intro well_take_same [OF w r]) simp
  then show ?thesis using True
    by (cases k) (auto simp: handle_resolve_timeout_def handle_connect_timeout_def handle_proxy_timeout_def
        handle_post_init_timeout_def handle_async_shutdown_timeout_def intro: well_call_None)
next
  case False
  note n = False handle_timer_cases
  show ?thesis
  proof (cases "timer_family k")
    case None
    then have h: "well a d (t\<lparr>ready := xs @ ys\<rparr>)" by (intro well_take_same [OF w r]) auto
    show ?thesis
    proof (cases k)
      case Shutdown_timer
      let ?c = "Shutdown_cb (if handle_timer ec = Succeeded then Timed_out else handle_timer ec)"
      have "timer_handler k (handle_timer ec) (t\<lparr>ready := xs @ ys\<rparr>) = call ?c (cancel_socket_checked (t\<lparr>ready := xs @ ys\<rparr>))"
        using n Shutdown_timer by (simp add: handle_async_shutdown_timeout_def)
      then show ?thesis using well_call_None [OF well_abort [OF h], of ?c] unfolding cancel_socket_checked_def by simp
    next
      case (User_timer i)
      then show ?thesis using well_call_None [OF h] by simp
    qed (use None in simp_all)
  next
    case (Some F)
    note t = well_take_timer [OF w r False Some]
    obtain cb t' where h: "cb_family cb = Some F" "timer_handler k (handle_timer ec) (t\<lparr>ready := xs @ ys\<rparr>) = call cb t'"
      "t' = t\<lparr>ready := xs @ ys\<rparr> \<or> (\<exists>P. t' = abort_all P (t\<lparr>ready := xs @ ys\<rparr>))"
      using timer_handler_answers [OF Some] n by blast
    have "well (a(F := a F - 1)) d t'" using h(3) t(1) well_abort by blast
    then show ?thesis unfolding h(2) using t(2) h(1) by (rule well_back)
  qed
qed

text \<open>The guard of an operation whose handler runs neither too late nor in the last instant still waits.\<close>

lemma guard_waiting:
  assumes "guarded x t" "guard_timer x t = Some tm" "\<not> is_neg tm t" "expiry tm \<noteq> now t"
  shows "(tm, guard_kind x) \<in> set (waiting t)" "now t < expiry tm"
  using assms by (auto simp: guarded_def is_neg_def)

lemma well_take_op:
  assumes "well a d t" "ready t = xs @ Op_done x ec n s # ys" "ec \<noteq> Some op_aborted" "op_family x = Some F"
  shows "well a d (t\<lparr>ready := xs @ ys\<rparr>)" "ops F (t\<lparr>ready := xs @ ys\<rparr>) = 0" "guarded x (t\<lparr>ready := xs @ ys\<rparr>)" "d F \<noteq> None"
proof -
  show "well a d (t\<lparr>ready := xs @ ys\<rparr>)" by (rule well_take_same [OF assms(1,2)]) simp
  show "ops F (t\<lparr>ready := xs @ ys\<rparr>) = 0" using well_take(3) [OF assms(1,2)] assms(3,4) by simp
  have x: "x \<in> outstanding t" using assms(2,3) by (auto simp: outstanding_def)
  then have "ops F t \<noteq> 0" using assms(4) by (auto simp: ops_0_iff)
  then show "d F \<noteq> None" using wellD(7) [OF assms(1), of F] by (cases "d F") simp_all
  show "guarded x (t\<lparr>ready := xs @ ys\<rparr>)"
    using x wellD(3) [OF assms(1), of x] assms(4) by (simp add: guarded_def)
qed

lemma well_connect:
  assumes w: "well a d t" and o: "ops Connecting t = 0" and g: "guarded (Connect_to tm) t" and i: "expiry tm \<noteq> now t"
  shows "well a d (handle_connect tm ec t)"
proof -
  have "well a d (call cb (cancel_timer tm t))" if "\<not> is_neg tm t" "cb_family cb = Some Connecting" for cb
    using well_finish [OF w, of tm Connect_timer Connecting cb] guard_waiting(1) [OF g _ _ i] o that by simp
  then show ?thesis using w by (simp add: handle_connect_def Let_def)
qed

lemma well_resolve:
  assumes w: "well a d t" and o: "ops Connecting t = 0" and g: "guarded (Resolve tm host port) t" and i: "expiry tm \<noteq> now t"
  shows "well a d (handle_resolve tm ec t)"
proof (cases "ec = Some op_aborted \<or> is_neg tm t")
  case True then show ?thesis using w by (simp add: handle_resolve_def)
next
  case False
  then have m: "(tm, Resolve_timer) \<in> set (waiting t)" "now t < expiry tm"
    using guard_waiting [OF g _ _ i] by simp_all
  obtain b where b: "d Connecting = Some b" "expiry tm + timeout_connect \<le> b"
    using wellD(5) [OF w m(1), of Connecting] by auto
  note c = well_cancel [OF w m(1) _ o, simplified]
  show ?thesis
  proof (cases "ec = None")
    case True
    obtain ctm t' where s: "set_timer timeout_connect Connect_timer (cancel_timer tm t) = (ctm, t')" by fastforce
    have "well (a(Connecting := a Connecting - 1, Connecting := (a(Connecting := a Connecting - 1)) Connecting + 1)) d
        (start_op (Connect_to ctm) (snd (set_timer timeout_connect Connect_timer (cancel_timer tm t))))"
      using c b m s by (intro well_start_timed [where b = b]) (simp_all add: cancel_timer_def)
    then show ?thesis using True False c(2) s by (simp add: handle_resolve_def Let_def)
  next
    case ec: False
    then show ?thesis using False well_finish [OF w m(1) _ o] by (simp add: handle_resolve_def Let_def)
  qed
qed

lemma well_post_init:
  assumes w: "well a d t"
  shows "well (a(Initializing := a Initializing + 1)) d (post_init t)"
proof -
  obtain tm t' where s: "set_timer timeout_socket_post_init Post_init_timer t = (tm, t')" by fastforce
  then have n: "\<not> is_neg tm t'" by (auto simp: is_neg_def set_timer_eq timeout_socket_post_init_def)
  let ?t = "cancel_timer tm t'"
  have "well a d (if m_tcp_post_init_handler ?t then call Tcp_post_init ?t else ?t)"
    using well_set_cancel [OF w, of timeout_socket_post_init Post_init_timer] well_call_None s by simp
  then have "well (a(Initializing := a Initializing + 1)) d
      (call (Init_cb Succeeded) (if m_tcp_post_init_handler ?t then call Tcp_post_init ?t else ?t))"
    by (rule well_call) simp
  moreover have "post_init t = handle_post_init (Some tm) Succeeded t'"
    using s by (simp add: post_init_def) (simp add: timeout_socket_post_init_def)
  ultimately show ?thesis using n by (simp add: handle_post_init_def Let_def)
qed

lemma the_proxy_timer_Some: "the_proxy_timer t = Some tm \<longleftrightarrow> (\<exists>p. m_proxy_data t = Some p \<and> proxy_timer p = Some tm)"
  by (auto simp: the_proxy_timer_def split: option.splits)

lemma well_proxy_response:
  assumes w: "well a d t" and o: "ops Initializing t = 0"
  shows "well (a(Initializing := a Initializing + 1)) d (handle_proxy_response s t)"
proof -
  have p: "well a d (t\<lparr>m_proxy_data := p\<rparr>)" for p by (rule well_proxy [OF w o])
  have c: "well (a(Initializing := a Initializing + 1)) d (call cb t')"
    if "well a d t'" "cb_family cb = Some Initializing" for cb t' using well_call [OF that] .
  show ?thesis unfolding handle_proxy_response_def Let_def
    using c [OF w] c [OF p] well_post_init [OF p] by (simp split: option.split sum.split prod.split)
qed

lemma well_proxy_read:
  assumes w: "well a d t" and o: "ops Initializing t = 0" and g: "guarded Proxy_read t"
    and i: "\<And>tm. the_proxy_timer t = Some tm \<Longrightarrow> expiry tm \<noteq> now t"
  shows "well a d (handle_proxy_read ec s t)"
proof -
  obtain tm where tm: "the_proxy_timer t = Some tm" using g by (auto simp: guarded_def)
  have "well a d (call (Init_cb (Asio asio_pass_through)) (cancel_timer tm t))"
      "well a d (handle_proxy_response s (cancel_timer tm t))" if n: "\<not> is_neg tm t"
  proof -
    have m: "(tm, Proxy_timer) \<in> set (waiting t)" using guard_waiting(1) [OF g _ n i [OF tm]] tm by simp
    show "well a d (call (Init_cb (Asio asio_pass_through)) (cancel_timer tm t))"
      using well_finish [OF w m _ o] by simp
    note c = well_cancel [OF w m _ o, simplified]
    show "well a d (handle_proxy_response s (cancel_timer tm t))"
      using well_proxy_response [OF c(1,3), of s] c(2) by simp
  qed
  then show ?thesis using w tm by (simp add: handle_proxy_read_def)
qed

lemma well_proxy_write:
  assumes w: "well a d t" and o: "ops Initializing t = 0" and g: "guarded (Proxy_write bufs) t"
    and d: "d Initializing \<noteq> None" and i: "\<And>tm. the_proxy_timer t = Some tm \<Longrightarrow> expiry tm \<noteq> now t"
  shows "well a d (handle_proxy_write ec t)"
proof -
  let ?t = "t\<lparr>m_bufs := []\<rparr>"
  have w': "well a d ?t" using w by (simp add: well_frame)
  have o': "ops Initializing ?t = 0" using o by (simp add: ops_def)
  have g': "guarded Proxy_read ?t" using g by (simp add: guarded_def the_proxy_timer_def)
  obtain tm where tm: "the_proxy_timer ?t = Some tm" using g by (auto simp: guarded_def the_proxy_timer_def)
  have tm': "the_proxy_timer t = Some tm" using tm by (simp add: the_proxy_timer_def)
  have it: "expiry tm \<noteq> now ?t" using i tm' by simp
  have "well a d (call (Init_cb (Asio asio_pass_through)) (cancel_timer tm ?t))" if n: "\<not> is_neg tm ?t"
    using well_finish [OF w' _ _ o'] guard_waiting(1) [OF g' _ n it] tm tm' by simp
  moreover obtain q where "m_proxy_data ?t = Some q" using tm the_proxy_timer_Some by blast
  then have "well a d (proxy_read ?t)"
    using well_start [OF w', of Proxy_read] o' g' d by (simp add: proxy_read_def)
  ultimately show ?thesis using w' tm by (simp add: handle_proxy_write_def Let_def)
qed

lemma well_run:
  assumes w: "well a d t" and r: "ready t = xs @ c # ys" and i: "\<not> on_the_instant c t"
  shows "well a d (run_completion c (t\<lparr>ready := xs @ ys\<rparr>))"
proof (cases c)
  case (Timer_done tm k ec)
  then show ?thesis using well_timer_handler [OF w] r by simp
next
  case (Posted h)
  then have "well a d (t\<lparr>ready := xs @ ys\<rparr>)" by (intro well_take_same [OF w r]) simp
  then show ?thesis using Posted well_call_None by simp
next
  case (Op_done x ec n s)
  let ?t = "t\<lparr>ready := xs @ ys\<rparr>"
  have w': "well a d ?t" by (rule well_take_same [OF w r]) (simp add: Op_done)
  have p: "the_proxy_timer ?t = the_proxy_timer t" by (simp add: the_proxy_timer_def)
  consider (aborted) "ec = Some op_aborted" "op_family x \<noteq> None" | (other) "op_family x = None"
    | (guarded) F where "ec \<noteq> Some op_aborted" "op_family x = Some F" by (cases "op_family x") auto
  then show ?thesis
  proof cases
    case aborted
    then show ?thesis using w' Op_done
      by (cases x) (auto simp: handle_resolve_def handle_connect_def handle_proxy_write_def handle_proxy_read_def well_frame)
  next
    case other
    then show ?thesis using w' Op_done
      by (cases x) (auto simp: handle_async_read_def handle_async_write_def Let_def well_frame intro!: well_call_None
          split: option.splits)
  next
    case guarded
    note g = well_take_op [OF w r [unfolded Op_done] guarded]
    have "\<forall>tm. guard_timer x t = Some tm \<longrightarrow> expiry tm \<noteq> now t" using i guarded Op_done by auto
    then show ?thesis using g guarded Op_done p
      by (cases x) (auto intro!: well_resolve well_connect well_proxy_write well_proxy_read)
  qed
qed

section \<open>What the layer above does to it\<close>

lemma well_shutdown: "well a d t \<Longrightarrow> well a d (async_shutdown ec t)"
proof -
  assume w: "well a d t"
  obtain tm t' where s: "set_timer timeout_socket_shutdown Shutdown_timer t = (tm, t')" by fastforce
  then have n: "\<not> is_neg tm t'" by (auto simp: is_neg_def set_timer_eq timeout_socket_shutdown_def)
  have c: "well a d (cancel_timer tm t')" using well_set_cancel [OF w, of timeout_socket_shutdown Shutdown_timer] s by simp
  have "well a d t'" using well_set_timer [OF w, of Shutdown_timer timeout_socket_shutdown] s by simp
  then show ?thesis using s n c
    by (auto simp: async_shutdown_def handle_async_shutdown_def Let_def well_frame intro!: well_call_None)
qed

lemma well_proxy_start:
  assumes w: "well a d t" and o: "ops Initializing t = 0" and q: "m_proxy_data t = Some q"
    and b: "d Initializing = Some b" "now t + timeout_proxy q \<le> b"
  shows "well (a(Initializing := a Initializing + 1)) d (proxy_write t)"
proof -
  define v where "v = t\<lparr>m_bufs := m_bufs t @ [map byte (request_raw (proxy_req q))]\<rparr>"
  have v: "well a d v" "ops Initializing v = 0" "now v = now t" "m_proxy_data v = Some q"
    using w o q by (simp_all add: v_def well_frame ops_def)
  obtain tm u where st: "set_timer (timeout_proxy q) Proxy_timer v = (tm, u)" by fastforce
  have uo: "ops Initializing u = 0" using st v(2) by (metis set_timer_ops snd_conv)
  have um: "(tm, Proxy_timer) \<in> set (waiting u)" using st set_timer_waiting by (metis fst_conv snd_conv)
  define x where "x = u\<lparr>m_proxy_data := Some (q\<lparr>proxy_timer := Some tm\<rparr>)\<rparr>"
  have e: "(\<lambda>F. a F + (if timer_family Proxy_timer = Some F then 1 else 0)) = a(Initializing := a Initializing + 1)" by auto
  have "well (\<lambda>F. a F + (if timer_family Proxy_timer = Some F then 1 else 0)) d (snd (set_timer (timeout_proxy q) Proxy_timer v))"
    by (rule well_set_timer [OF v(1)]) (use b v(3) in auto)
  then have "well (a(Initializing := a Initializing + 1)) d u" unfolding e st by simp
  then have "well (a(Initializing := a Initializing + 1)) d x" unfolding x_def using uo by (rule well_proxy)
  then have "well (a(Initializing := a Initializing + 1)) d (start_op (Proxy_write (m_bufs x)) x)"
  proof (rule well_start)
    have "guarded (Proxy_write (m_bufs x)) x" using um by (simp add: x_def guarded_def the_proxy_timer_def)
    moreover have "ops Initializing x = 0" using uo by (simp add: x_def ops_def)
    ultimately show "ops F x = 0 \<and> guarded (Proxy_write (m_bufs x)) x \<and> d F \<noteq> None"
      if "op_family (Proxy_write (m_bufs x)) = Some F" for F using that b by auto
  qed
  moreover have "proxy_write t = start_op (Proxy_write (m_bufs x)) x"
    using q st by (simp add: proxy_write_def Let_def v_def x_def)
  ultimately show ?thesis by simp
qed

lemma well_init:
  assumes w: "well a d t" and o: "ops Initializing t = 0" and s: "socket_state t = READY"
    and p: "m_proxy t \<noteq> [] \<longrightarrow> m_proxy_data t \<noteq> None" and b: "d Initializing = Some (now t + proxy_wait t)"
  shows "well (a(Initializing := a Initializing + 1)) d (init t)"
proof -
  define u where "u = (if m_tcp_pre_init_handler t then call Tcp_pre_init (t\<lparr>socket_state := READING\<rparr>) else t\<lparr>socket_state := READING\<rparr>)"
  have u: "well a d u" using w by (auto simp: u_def well_frame intro!: well_call_None)
  have f: "m_proxy u = m_proxy t" "m_proxy_data u = m_proxy_data t" "now u = now t" "ops Initializing u = 0"
    using o by (simp_all add: u_def call_def ops_def)
  have i: "init t = (if m_proxy t \<noteq> [] then proxy_write u else post_init u)"
    using s f(1) by (simp add: init_def pre_init_def handle_pre_init_def Let_def u_def)
  show ?thesis
  proof (cases "m_proxy t = []")
    case True then show ?thesis using i well_post_init [OF u] by simp
  next
    case False
    then obtain q where q: "m_proxy_data t = Some q" using p by auto
    then have "well (a(Initializing := a Initializing + 1)) d (proxy_write u)"
      using b f q by (intro well_proxy_start [OF u, where q = q and b = "now t + proxy_wait t"]) (simp_all add: proxy_wait_def)
    then show ?thesis using i False by simp
  qed
qed

lemma well_start_resolve:
  assumes w: "well a d t" and o: "ops Connecting t = 0"
    and b: "d Connecting = Some (now t + timeout_dns_resolve + timeout_connect)"
  shows "well (a(Connecting := a Connecting + 1)) d (start_resolve host port t)"
proof -
  obtain tm t' where s: "set_timer timeout_dns_resolve Resolve_timer t = (tm, t')" by fastforce
  show ?thesis
    using well_start_timed [OF w, of Resolve_timer Connecting "Resolve tm host port" _ timeout_dns_resolve] o b s
    by (simp add: start_resolve_def)
qed

lemma well_async_connect:
  assumes w: "well a d t" and o: "ops Connecting t = 0"
    and b: "d Connecting = Some (now t + timeout_dns_resolve + timeout_connect)"
  shows "well (a(Connecting := a Connecting + 1)) d (async_connect u t)"
proof -
  obtain ec t' where p: "proxy_init (get_authority u) t = (ec, t')" by fastforce
  have "well a d t' \<and> now t' = now t \<and> ops Connecting t' = 0"
    using p w o by (auto simp: proxy_init_def the_proxy_timer_def ops_def split: option.splits intro!: well_proxy_same)
  then show ?thesis using p well_start_resolve [OF w o b] well_start_resolve [of a d t'] b well_call [OF w] well_call [of a d t']
    by (simp add: async_connect_def Let_def)
qed

text \<open>Only the operations of the initialization, and the initialization itself, touch the proxy and the socket's state.\<close>

lemma cancel_timer_keeps [simp]:
  "socket_state (cancel_timer tm t) = socket_state t" "m_proxy (cancel_timer tm t) = m_proxy t"
  "m_proxy_data (cancel_timer tm t) = m_proxy_data t" "now (cancel_timer tm t) = now t" "calls (cancel_timer tm t) = calls t"
  "m_bufs (cancel_timer tm t) = m_bufs t" "pending (cancel_timer tm t) = pending t"
  by (simp_all add: cancel_timer_def)

lemma call_keeps [simp]:
  "socket_state (call cb t) = socket_state t" "m_proxy (call cb t) = m_proxy t" "m_proxy_data (call cb t) = m_proxy_data t"
  "m_bufs (call cb t) = m_bufs t" "pending (call cb t) = pending t" "ready (call cb t) = ready t"
  by (simp_all add: call_def)

lemma abort_all_keeps [simp]:
  "socket_state (abort_all P t) = socket_state t" "m_proxy (abort_all P t) = m_proxy t"
  "m_proxy_data (abort_all P t) = m_proxy_data t" "m_bufs (abort_all P t) = m_bufs t"
  by (simp_all add: abort_all_def)

definition kept :: "transport \<Rightarrow> socket_state \<times> string \<times> proxy_data option" where
  "kept t = (socket_state t, m_proxy t, m_proxy_data t)"

lemma kept_simps [simp]: "kept (call cb t) = kept t" "kept (abort_all P t) = kept t" "kept (cancel_timer tm t) = kept t"
  "kept (t\<lparr>m_bufs := bufs\<rparr>) = kept t" "kept (t\<lparr>m_tec := ec\<rparr>) = kept t" "kept (start_op x t) = kept t"
  "kept (snd (set_timer dur k t)) = kept t"
  by (simp_all add: kept_def start_op_def set_timer_eq)

lemma timer_handler_keeps: "kept (timer_handler k c t) = kept t"
  by (cases k) (simp_all add: handle_resolve_timeout_def handle_connect_timeout_def handle_proxy_timeout_def
      handle_post_init_timeout_def handle_async_shutdown_timeout_def cancel_resolver_def cancel_socket_checked_def)

lemma run_keeps: "\<not> op_to_come Initializing c \<Longrightarrow> kept (run_completion c t) = kept t"
proof (cases c)
  case (Op_done x ec n s)
  assume "\<not> op_to_come Initializing c"
  then show ?thesis using Op_done
    by (cases x) (auto simp: handle_resolve_def handle_connect_def handle_proxy_write_def handle_proxy_read_def
        handle_async_read_def handle_async_write_def Let_def case_prod_beta split: option.split)
qed (simp_all add: timer_handler_keeps)

section \<open>The invariant of the machine\<close>

definition asked :: "(family \<Rightarrow> int option) \<Rightarrow> family \<Rightarrow> nat" where
  "asked d F = (if d F = None then 0 else 1)"

definition net_ok :: "net \<Rightarrow> bool" where
  "net_ok w \<longleftrightarrow> raced w \<or>
     well (asked (due w)) (due w) (con w) \<and>
     (due w Initializing = None \<longrightarrow> socket_state (con w) = READY \<and> (m_proxy (con w) \<noteq> [] \<longrightarrow> m_proxy_data (con w) \<noteq> None))"

lemma initial_net_ok: "initial_net w \<Longrightarrow> net_ok w"
  by (auto simp: initial_net_def configured_def net_ok_def well_def live_def ops_def answers_def outstanding_def tidy_def asked_def)

text \<open>Time passes; a timer expires; an operation completes.\<close>

lemma well_tick:
  assumes w: "well a d t" and u: "0 \<le> u"
  shows "well a d (t\<lparr>now := now t + u\<rparr>)" (is "well a d ?t")
proof (rule wellI)
  show "live G ?t + answers G ?t = a G" for G using wellD(1) [OF w, of G] by (simp add: live_def answers_def)
  show "ops G ?t \<le> 1" for G using wellD(2) [OF w, of G] by (simp add: ops_def)
  show "guarded x ?t" if "x \<in> outstanding ?t" "op_family x \<noteq> None" for x
    using wellD(3) [OF w, of x] that u by (fastforce simp: guarded_def outstanding_def)
  show "tidy ?t" using wellD(4) [OF w] by (simp add: tidy_def)
  show "\<exists>b. d G = Some b \<and> expiry tm + to_follow j \<le> b"
    if "(tm, j) \<in> set (waiting ?t)" "timer_family j = Some G" for tm j G
    using that wellD(5) [OF w, of tm j G] by simp
  show "Null_access \<notin> set (calls ?t)" using wellD(6) [OF w] by simp
  show "ops G ?t = 0" if "d G = None" for G using wellD(7) [OF w that] by (simp add: ops_def)
qed

lemma well_expire:
  assumes w: "well a d t" and e: "waiting t = xs @ (tm, k) # ys" "expiry tm \<le> now t"
  shows "well a d (t\<lparr>waiting := xs @ ys, ready := ready t @ [Timer_done tm k None]\<rparr>)" (is "well a d ?t")
proof (rule wellI)
  show "live G ?t + answers G ?t = a G" for G using wellD(1) [OF w, of G] by (auto simp: live_def answers_def e(1))
  show "ops G ?t \<le> 1" for G using wellD(2) [OF w, of G] by (simp add: ops_def)
  show "guarded x ?t" if "x \<in> outstanding ?t" "op_family x \<noteq> None" for x
  proof -
    have "x \<in> outstanding t" using that(1) by (auto simp: outstanding_def)
    then show ?thesis using wellD(3) [OF w, of x] that(2) e by (auto simp: guarded_def)
  qed
  show "tidy ?t" using wellD(4) [OF w] by (auto simp: tidy_def e(1))
  show "\<exists>b. d G = Some b \<and> expiry tm + to_follow j \<le> b"
    if "(tm, j) \<in> set (waiting ?t)" "timer_family j = Some G" for tm j G
    using that by (intro wellD(5) [OF w, of tm j G]) (auto simp: e(1))
  show "Null_access \<notin> set (calls ?t)" using wellD(6) [OF w] by simp
  show "ops G ?t = 0" if "d G = None" for G using wellD(7) [OF w that] by (simp add: ops_def)
qed

lemma well_complete:
  assumes w: "well a d t" and e: "pending t = xs @ x # ys" "ec \<noteq> Some op_aborted"
  shows "well a d (t\<lparr>pending := xs @ ys, ready := ready t @ [Op_done x ec n s]\<rparr>)" (is "well a d ?t")
proof (rule wellI)
  show "live G ?t + answers G ?t = a G" for G using wellD(1) [OF w, of G] by (simp add: live_def answers_def)
  have o: "ops G ?t = ops G t" for G using e by (auto simp: ops_def)
  show "ops G ?t \<le> 1" for G using wellD(2) [OF w, of G] o by simp
  show "guarded y ?t" if "y \<in> outstanding ?t" "op_family y \<noteq> None" for y
  proof -
    have "y \<in> outstanding t" using that(1) by (auto simp: outstanding_def e(1))
    then show ?thesis using wellD(3) [OF w, of y] that(2) by (simp add: guarded_def)
  qed
  show "tidy ?t" using wellD(4) [OF w] by (simp add: tidy_def)
  show "\<exists>b. d G = Some b \<and> expiry tm + to_follow j \<le> b"
    if "(tm, j) \<in> set (waiting ?t)" "timer_family j = Some G" for tm j G
    using that wellD(5) [OF w, of tm j G] by simp
  show "Null_access \<notin> set (calls ?t)" using wellD(6) [OF w] by simp
  show "ops G ?t = 0" if "d G = None" for G using wellD(7) [OF w that] o by simp
qed

text \<open>A deadline is set for a family that had none.\<close>

lemma well_due:
  assumes w: "well a d t" and n: "d F = None"
  shows "well a (d(F \<mapsto> b)) t"
proof (rule wellI)
  show "\<exists>c. (d(F \<mapsto> b)) G = Some c \<and> expiry tm + to_follow k \<le> c"
    if "(tm, k) \<in> set (waiting t)" "timer_family k = Some G" for tm k G
    using wellD(5) [OF w that] n by (cases "G = F") auto
  show "ops G t = 0" if "(d(F \<mapsto> b)) G = None" for G using that wellD(7) [OF w, of G] by (simp split: if_splits)
qed (use wellD(1-4,6) [OF w] in blast)+

lemma asked_upd: "d F = None \<Longrightarrow> asked (d(F \<mapsto> b)) = (asked d)(F := asked d F + 1)"
  by (auto simp: asked_def)

lemma async_shutdown_keeps: "kept (async_shutdown ec t) = kept t"
proof -
  obtain tm t' where s: "set_timer timeout_socket_shutdown Shutdown_timer t = (tm, t')" by fastforce
  then have "kept t' = kept t" using kept_simps(7) by (metis snd_conv)
  then show ?thesis by (simp add: async_shutdown_def s handle_async_shutdown_def Let_def)
qed

text \<open>A step that only changes what is counted.\<close>

lemma net_ok_frame:
  assumes "net_ok w" "well (asked (due w)) (due w) (con w) \<Longrightarrow> well (asked (due w)) (due w) t" "kept t = kept (con w)"
  shows "net_ok (w\<lparr>con := t\<rparr>)"
  using assms by (auto simp: net_ok_def kept_def)

lemma net_step_ok:
  assumes "net_step w l w'" "net_ok w"
  shows "net_ok w'"
  using assms(1)
proof cases
  case (net_run xs c ys)
  show ?thesis
  proof (cases "raced w \<or> on_the_instant c (con w)")
    case False
    then have w: "well (asked (due w)) (due w) (con w)" using assms(2) by (simp add: net_ok_def)
    have "op_to_come Initializing c \<Longrightarrow> ops Initializing (con w) \<noteq> 0" using net_run(3) by (simp add: ops_def)
    then have "kept (run_completion c (con w\<lparr>ready := xs @ ys\<rparr>)) = kept (con w\<lparr>ready := xs @ ys\<rparr>)"
      if "due w Initializing = None" using run_keeps wellD(7) [OF w that] by metis
    then show ?thesis using False well_run [OF w net_run(3)] assms(2) net_run(2) by (simp add: net_ok_def kept_def)
  qed (simp add: net_run net_ok_def)
next
  case (net_connect u)
  show ?thesis
  proof (cases "raced w")
    case False
    let ?d = "(due w)(Connecting \<mapsto> now (con w) + timeout_dns_resolve + timeout_connect)"
    have w: "well (asked (due w)) (due w) (con w)" using assms(2) False by (simp add: net_ok_def)
    have "well ((asked (due w))(Connecting := asked (due w) Connecting + 1)) ?d (async_connect u (con w))"
      using well_due [OF w net_connect(3)] wellD(7) [OF w net_connect(3)] by (intro well_async_connect) simp_all
    moreover have "m_proxy (async_connect u t) = m_proxy t" "socket_state (async_connect u t) = socket_state t"
        "m_proxy_data t \<noteq> None \<Longrightarrow> m_proxy_data (async_connect u t) \<noteq> None" for t
      by (auto simp: async_connect_def start_resolve_def start_op_def set_timer_eq proxy_init_def Let_def split: option.splits)
    ultimately show ?thesis using net_connect assms(2) False by (simp add: net_ok_def asked_upd)
  qed (simp add: net_connect net_ok_def)
next
  case net_init
  show ?thesis
  proof (cases "raced w")
    case False
    have w: "well (asked (due w)) (due w) (con w)" using assms(2) False by (simp add: net_ok_def)
    have "well ((asked (due w))(Initializing := asked (due w) Initializing + 1))
        ((due w)(Initializing \<mapsto> now (con w) + proxy_wait (con w))) (init (con w))"
      using well_due [OF w net_init(3)] wellD(7) [OF w net_init(3)] assms(2) False net_init(3)
      by (intro well_init) (simp_all add: net_ok_def)
    then show ?thesis using net_init by (simp add: net_ok_def asked_upd)
  qed (simp add: net_init net_ok_def)
next
  case (net_tick d)
  then show ?thesis using assms(2) by (auto intro!: net_ok_frame well_tick simp: kept_def)
next
  case (net_expire xs tm k ys)
  then show ?thesis using assms(2) by (auto intro!: net_ok_frame well_expire simp: kept_def)
next
  case (net_complete xs x ys ec n s)
  then show ?thesis using assms(2) by (auto intro!: net_ok_frame well_complete simp: kept_def)
next
  case (net_read m l h)
  show ?thesis unfolding net_read(2)
    by (rule net_ok_frame [OF assms(2)]) (auto simp: async_read_at_least_def intro: well_start)
next
  case (net_write bufs h)
  show ?thesis unfolding net_write(2)
    by (rule net_ok_frame [OF assms(2)])
      (auto simp: async_write_buffers_def Let_def well_frame intro!: well_start)
next
  case (net_shutdown ec)
  show ?thesis unfolding net_shutdown(2)
    by (rule net_ok_frame [OF assms(2)])
      (auto simp: well_shutdown async_shutdown_keeps)
next
  case (net_timer d i)
  show ?thesis unfolding net_timer(2)
    by (rule net_ok_frame [OF assms(2)])
      (use well_set_timer [of "asked (due w)" "due w" "con w" "User_timer i" d] in simp_all)
next
  case (net_dispatch h)
  show ?thesis unfolding net_dispatch(2)
    by (rule net_ok_frame [OF assms(2)])
      (auto simp: kept_def dispatch_def well_def live_def ops_def answers_def outstanding_def guarded_def tidy_def)
qed

interpretation net: invariant_machine net_step initial_net net_ok
  by unfold_locales (blast intro: initial_net_ok net_step_ok)+

section \<open>Answers\<close>

text \<open>asio has run all it had to.\<close>

definition caught_up :: "transport \<Rightarrow> bool" where
  "caught_up t \<longleftrightarrow> ready t = [] \<and> (\<forall>(tm, k) \<in> set (waiting t). now t < expiry tm)"

lemma caught_up_live:
  assumes w: "well a d t" and c: "caught_up t" and d: "d F = Some b" "b \<le> now t"
  shows "live F t = 0"
proof -
  have "timer_family k \<noteq> Some F" if m: "(tm, k) \<in> set (waiting t)" for tm k
  proof
    assume "timer_family k = Some F"
    then have "expiry tm + to_follow k \<le> b" using wellD(5) [OF w m] d by auto
    moreover have "0 \<le> to_follow k" by (cases k) (simp_all add: timeout_connect_def)
    moreover have "now t < expiry tm" using c m by (auto simp: caught_up_def)
    ultimately show False using d by linarith
  qed
  then show ?thesis using c by (auto simp: live_def caught_up_def filter_empty_conv)
qed

lemma reached_well:
  assumes "initial_net w0" "runs net_step w0 es w" "\<not> raced w"
  shows "well (asked (due w)) (due w) (con w)"
  using net.reachable_inv [OF assms(1,2)] assms(3) by (simp add: net_ok_def)

lemma well_answered:
  assumes "well (asked d) d t" "d F = Some b" "caught_up t" "b \<le> now t"
  shows "answers F t = 1"
  using wellD(1) [OF assms(1), of F] caught_up_live [OF assms(1,3,2,4)] assms(2) by (simp add: asked_def)

end
