(* ===== verification/Ws_Asio_Laws.thy ===== *)
theory Ws_Asio_Laws
  imports Ws_Asio_Machine
begin

text \<open>
  What holds of every run of the transport over asio (\<open>Ws_Asio_Machine\<close>): whoever asks is answered once and in time,
  asio can always catch up, a write transmits what it was given. And what happens where the code is less
  careful: in the instant a timer expires, on a socket that is not ready, with two writes at a time.
\<close>

section \<open>Catching up\<close>

text \<open>All timers are past, those that guard an operation too.\<close>

fun op_of :: "completion \<Rightarrow> operation set" where
  "op_of (Op_done x ec n s) = {x}"
| "op_of _ = {}"

definition asio_ops :: "transport \<Rightarrow> operation set" where
  "asio_ops t = set (pending t) \<union> (\<Union>c \<in> set (ready t). op_of c)"

definition late :: "transport \<Rightarrow> bool" where
  "late t \<longleftrightarrow> (\<forall>(tm, k) \<in> set (waiting t). expiry tm < now t) \<and>
     (\<forall>x \<in> asio_ops t. \<forall>tm. guard_timer x t = Some tm \<longrightarrow> expiry tm < now t)"

definition work :: "transport \<Rightarrow> nat" where
  "work t = 2 * length (waiting t) + 2 * length (pending t) + length (ready t)"

text \<open>A handler that comes late starts nothing.\<close>

definition starts_nothing :: "transport \<Rightarrow> transport \<Rightarrow> bool" where
  "starts_nothing t t' \<longleftrightarrow> waiting t' = waiting t \<and> now t' = now t \<and> m_proxy_data t' = m_proxy_data t \<and>
     ((pending t', ready t') = (pending t, ready t) \<or>
      (\<exists>P. (pending t', ready t') = (pending (abort_all P t), ready (abort_all P t))))"

lemma starts_nothing_same [simp]: "starts_nothing t t" "starts_nothing t (call cb t)" "starts_nothing t (call cb (abort_all P t))"
  "starts_nothing t (t\<lparr>m_bufs := bufs\<rparr>)" "starts_nothing t (call cb (t\<lparr>m_bufs := bufs\<rparr>))"
  "starts_nothing t (call cb (t\<lparr>m_tec := ec\<rparr>))" "starts_nothing t (t\<lparr>m_tec := ec\<rparr>)"
  by (auto simp: starts_nothing_def call_def abort_all_def)

lemma late_timer_handler: "starts_nothing t (timer_handler k c t)"
  by (cases k) (simp_all add: handle_resolve_timeout_def handle_connect_timeout_def handle_proxy_timeout_def
      handle_post_init_timeout_def handle_async_shutdown_timeout_def cancel_resolver_def cancel_socket_checked_def)

lemma late_run:
  assumes "\<And>x ec n s tm. c = Op_done x ec n s \<Longrightarrow> guard_timer x t = Some tm \<Longrightarrow> expiry tm < now t"
  shows "starts_nothing t (run_completion c t)"
proof (cases c)
  case (Op_done x ec n s)
  have g: "is_neg tm t" if "guard_timer x t = Some tm" for tm using assms [OF Op_done that] by (simp add: is_neg_def)
  have p: "the_proxy_timer (t\<lparr>m_bufs := []\<rparr>) = the_proxy_timer t" "is_neg tm (t\<lparr>m_bufs := []\<rparr>) = is_neg tm t" for tm
    by (simp_all add: the_proxy_timer_def is_neg_def)
  show ?thesis using g Op_done p
    by (cases x) (auto simp: handle_resolve_def handle_connect_def handle_proxy_write_def handle_proxy_read_def
        handle_async_read_def handle_async_write_def Let_def split: option.split)
qed (simp_all add: late_timer_handler)

lemma abort_all_lists: "length (pending (abort_all P t)) + length (ready (abort_all P t)) = length (pending t) + length (ready t)"
  "length (pending (abort_all P t)) \<le> length (pending t)" "asio_ops (abort_all P t) = asio_ops t"
proof -
  have "length (filter (\<lambda>x. \<not> P x) xs) + length (filter P xs) = length xs" for xs :: "operation list"
    by (induction xs) auto
  then show "length (pending (abort_all P t)) + length (ready (abort_all P t)) = length (pending t) + length (ready t)"
    by (simp add: abort_all_def)
  show "length (pending (abort_all P t)) \<le> length (pending t)" by (simp add: abort_all_def)
  show "asio_ops (abort_all P t) = asio_ops t" by (auto simp: asio_ops_def abort_all_def)
qed

lemma starts_nothing_late:
  assumes "starts_nothing t t'" "late t"
  shows "late t'" "work t' \<le> work t"
proof -
  have g: "guard_timer x t' = guard_timer x t" for x
    using assms(1) by (cases x) (simp_all add: starts_nothing_def the_proxy_timer_def)
  have s: "waiting t' = waiting t" "now t' = now t" using assms(1) by (simp_all add: starts_nothing_def)
  have "asio_ops t' = asio_ops t \<and> 2 * length (pending t') + length (ready t') \<le> 2 * length (pending t) + length (ready t)"
  proof (cases "(pending t', ready t') = (pending t, ready t)")
    case True then show ?thesis by (simp add: asio_ops_def)
  next
    case False
    then obtain P where p: "pending t' = pending (abort_all P t)" "ready t' = ready (abort_all P t)"
      using assms(1) unfolding starts_nothing_def by blast
    have "asio_ops t' = asio_ops (abort_all P t)" unfolding asio_ops_def p ..
    then show ?thesis unfolding p using abort_all_lists [of P t] by simp
  qed
  then show "late t'" "work t' \<le> work t" using assms(2) g s by (simp_all add: late_def work_def)
qed

lemma late_op: "late t \<Longrightarrow> Op_done x ec n s \<in> set (ready t) \<Longrightarrow> guard_timer x t = Some tm \<Longrightarrow> expiry tm < now t"
  unfolding late_def asio_ops_def by (metis UN_I UnI2 op_of.simps(1) singletonI)

lemma late_fewer:
  "late t \<Longrightarrow> set ws \<subseteq> set (waiting t) \<Longrightarrow> (\<Union>c \<in> set cs. op_of c) \<subseteq> (\<Union>c \<in> set (ready t). op_of c) \<Longrightarrow>
    late (t\<lparr>waiting := ws, ready := cs\<rparr>)"
proof -
  assume l: "late t" and w: "set ws \<subseteq> set (waiting t)"
    and r: "(\<Union>c \<in> set cs. op_of c) \<subseteq> (\<Union>c \<in> set (ready t). op_of c)"
  have "asio_ops (t\<lparr>waiting := ws, ready := cs\<rparr>) \<subseteq> asio_ops t" unfolding asio_ops_def using r by auto
  then show ?thesis using l w unfolding late_def by auto
qed

lemma late_step_run:
  assumes "late (con w)" "ready (con w) \<noteq> []"
  shows "\<exists>c w'. net_step w (N_run c) w' \<and> late (con w') \<and> work (con w') < work (con w) \<and>
    now (con w') = now (con w) \<and> due w' = due w \<and> raced w' = raced w"
proof -
  obtain c ys where r: "ready (con w) = c # ys" using assms(2) by (cases "ready (con w)") auto
  let ?t = "(con w)\<lparr>ready := ys\<rparr>"
  have l: "late ?t" using late_fewer [OF assms(1), of "waiting (con w)" ys] r by auto
  have g: "expiry tm < now (con w)" if "c = Op_done x ec n s" "guard_timer x (con w) = Some tm" for x ec n s tm
    by (rule late_op [OF assms(1) _ that(2), of ec n s]) (simp add: r that(1))
  have s: "starts_nothing ?t (run_completion c ?t)" by (rule late_run) (use g in simp)
  have "\<not> on_the_instant c (con w)"
  proof (cases c)
    case (Op_done x ec n s) then show ?thesis using g by fastforce
  qed simp_all
  then have "net_step w (N_run c) (w\<lparr>con := run_completion c ?t, raced := raced w\<rparr>)"
    using net_run [of w "[]" c ys] r by simp
  moreover have "now (run_completion c ?t) = now (con w)" using s by (simp add: starts_nothing_def)
  moreover have "work ?t < work (con w)" by (simp add: work_def r)
  moreover note starts_nothing_late [OF s l]
  ultimately show ?thesis by (intro exI [of _ c] exI [of _ "w\<lparr>con := run_completion c ?t, raced := raced w\<rparr>"]) simp
qed

lemma late_step_expire:
  assumes "late (con w)" "waiting (con w) \<noteq> []"
  shows "\<exists>tm k w'. net_step w (N_expire tm k) w' \<and> late (con w') \<and> work (con w') < work (con w) \<and>
    now (con w') = now (con w) \<and> due w' = due w \<and> raced w' = raced w"
proof -
  obtain tm k ys where r: "waiting (con w) = (tm, k) # ys" using assms(2) by (cases "waiting (con w)") auto
  let ?w = "w\<lparr>con := (con w)\<lparr>waiting := ys, ready := ready (con w) @ [Timer_done tm k None]\<rparr>\<rparr>"
  have "net_step w (N_expire tm k) ?w" using net_expire [of w "[]" tm k ys] r assms(1) by (simp add: late_def)
  moreover have "late (con ?w)" using late_fewer [OF assms(1), of ys "ready (con w) @ [Timer_done tm k None]"] r by auto
  moreover have "work (con ?w) < work (con w)" by (simp add: work_def r)
  ultimately show ?thesis by fastforce
qed

lemma late_catches_up:
  assumes "late (con w)"
  shows "\<exists>es w'. runs net_step w es w' \<and> caught_up (con w') \<and> now (con w') = now (con w) \<and> due w' = due w \<and> raced w' = raced w"
  using assms
proof (induction "work (con w)" arbitrary: w rule: less_induct)
  case less
  show ?case
  proof (cases "ready (con w) = [] \<and> waiting (con w) = []")
    case True
    then have "caught_up (con w)" by (simp add: caught_up_def)
    then show ?thesis by (intro exI [of _ "[]"] exI [of _ w]) (simp add: runs_Nil)
  next
    case False
    then obtain l v where v: "net_step w l v" "late (con v)" "work (con v) < work (con w)" "now (con v) = now (con w)"
        "due v = due w" "raced v = raced w"
      using late_step_run [OF less.prems] late_step_expire [OF less.prems] by blast
    obtain es w' where "runs net_step v es w'" "caught_up (con w')" "now (con w') = now (con w)" "due w' = due w" "raced w' = raced w"
      using less.hyps [OF v(3,2)] v by auto
    then show ?thesis using v(1) by (intro exI [of _ "l # es"] exI [of _ w']) (auto intro: runs_Cons)
  qed
qed

lemma finite_asio_ops: "finite (asio_ops t)"
proof -
  have "finite (op_of c)" for c by (cases c) auto
  then show ?thesis unfolding asio_ops_def by auto
qed

lemma ever_late: "\<exists>u0. \<forall>u \<ge> u0. late (t\<lparr>now := u\<rparr>)"
proof -
  let ?E = "expiry ` fst ` set (waiting t) \<union> expiry ` (\<Union>x \<in> asio_ops t. set_option (guard_timer x t))"
  have "finite ?E" using finite_asio_ops by (auto intro!: finite_imageI)
  then obtain m where m: "\<forall>e \<in> ?E. e \<le> m" by (meson bdd_above.unfold bdd_above_finite)
  have "late (t\<lparr>now := u\<rparr>)" if u: "u \<ge> m + 1" for u
  proof -
    have "asio_ops (t\<lparr>now := u\<rparr>) = asio_ops t" by (simp add: asio_ops_def)
    moreover have "expiry tm < u" if "(tm, k) \<in> set (waiting t)" for tm k using m u that by force
    moreover have "expiry tm < u" if "x \<in> asio_ops t" "guard_timer x t = Some tm" for x tm
    proof -
      have "expiry tm \<in> ?E" using that by auto
      then have "expiry tm \<le> m" using m by blast
      then show ?thesis using u by linarith
    qed
    ultimately show ?thesis unfolding late_def by auto
  qed
  then show ?thesis by blast
qed

lemma can_catch_up: "\<exists>es w'. runs net_step w es w' \<and> caught_up (con w') \<and> b \<le> now (con w') \<and> due w' = due w \<and> raced w' = raced w"
proof -
  obtain u0 where u: "\<forall>u \<ge> u0. late ((con w)\<lparr>now := u\<rparr>)" using ever_late by blast
  define d where "d = max 0 (max (u0 - now (con w)) (b - now (con w)))"
  let ?w = "w\<lparr>con := (con w)\<lparr>now := now (con w) + d\<rparr>\<rparr>"
  have s: "net_step w (N_tick d) ?w" by (rule net_tick) (simp add: d_def)
  have "late (con ?w)" using u by (simp add: d_def)
  then obtain es w' where "runs net_step ?w es w'" "caught_up (con w')" "now (con w') = now (con ?w)" "due w' = due w" "raced w' = raced w"
    using late_catches_up [of ?w] by auto
  then show ?thesis
    by (intro exI [of _ "N_tick d # es"] exI [of _ w']) (use s in \<open>auto simp: d_def intro: runs_Cons\<close>)
qed

section \<open>Buffers\<close>

text \<open>The buffers of a write are kept until its handler has run, and no longer.\<close>

definition bufs_ok :: "net \<Rightarrow> bool" where
  "bufs_ok w \<longleftrightarrow> writing (con w) \<or> m_bufs (con w) = []"

text \<open>What a transport still writes, and its buffers.\<close>

definition outgoing :: "transport \<Rightarrow> bool \<times> u8 list list" where
  "outgoing t = (writing t, m_bufs t)"

lemma writing_abort: "writing (abort_all P t) = writing t"
proof -
  have "list_ex is_write xs \<longleftrightarrow> list_ex is_write (filter (\<lambda>x. \<not> P x) xs) \<or>
      list_ex write_done (map (\<lambda>x. Op_done x (Some op_aborted) 0 []) (filter P xs))" for xs
    by (induction xs) auto
  from this [of "pending t"] show ?thesis by (auto simp: writing_def abort_all_def)
qed

lemma writing_cancel: "writing (cancel_timer tm t) = writing t"
  by (auto simp: writing_def cancel_timer_def list_ex_iff)

lemma outgoing_simps [simp]:
  "outgoing (call cb t) = outgoing t" "outgoing (abort_all P t) = outgoing t" "outgoing (cancel_timer tm t) = outgoing t"
  "outgoing (snd (set_timer dur k t)) = outgoing t" "outgoing (t\<lparr>m_tec := ec\<rparr>) = outgoing t"
  "outgoing (t\<lparr>m_proxy_data := p\<rparr>) = outgoing t" "outgoing (t\<lparr>socket_state := ss\<rparr>) = outgoing t"
  "\<not> is_write x \<Longrightarrow> outgoing (start_op x t) = outgoing t"
  by (simp_all add: outgoing_def writing_abort writing_cancel)
    (simp_all add: writing_def call_def set_timer_eq start_op_def)

lemma outgoing_timer: "outgoing (timer_handler k c t) = outgoing t"
  by (cases k) (simp_all add: handle_resolve_timeout_def handle_connect_timeout_def handle_proxy_timeout_def
      handle_post_init_timeout_def handle_async_shutdown_timeout_def cancel_resolver_def cancel_socket_checked_def)

lemma outgoing_handle_post_init: "outgoing (handle_post_init tm c t) = outgoing t"
  by (simp add: handle_post_init_def Let_def split: option.split)

lemma outgoing_post_init: "outgoing (post_init t) = outgoing t"
  by (simp add: post_init_def Let_def case_prod_beta outgoing_handle_post_init)

lemma outgoing_response: "outgoing (handle_proxy_response s t) = outgoing t"
  by (auto simp: handle_proxy_response_def Let_def outgoing_post_init split: option.split sum.split prod.split)

lemma outgoing_run: "\<not> write_done c \<Longrightarrow> outgoing (run_completion c t) = outgoing t"
proof (cases c)
  case (Op_done x ec n s)
  assume "\<not> write_done c"
  then show ?thesis using Op_done
    by (cases x) (auto simp: handle_resolve_def handle_connect_def handle_proxy_read_def handle_async_read_def Let_def
        case_prod_beta outgoing_response split: option.split)
qed (simp_all add: outgoing_timer)

lemma write_done_clears: "write_done c \<Longrightarrow> m_bufs (run_completion c t) = []"
proof (cases c)
  case (Op_done x ec n s)
  assume "write_done c"
  then show ?thesis using Op_done
    by (cases x) (auto simp: handle_proxy_write_def handle_async_write_def proxy_read_def start_op_def Let_def split: option.split)
qed simp_all

lemma outgoing_shutdown: "outgoing (async_shutdown ec t) = outgoing t"
  by (simp add: async_shutdown_def handle_async_shutdown_def Let_def case_prod_beta)

lemma outgoing_connect: "outgoing (async_connect u t) = outgoing t"
  by (auto simp: async_connect_def start_resolve_def proxy_init_def Let_def case_prod_beta split: option.split)

lemma bufs_ok_outgoing: "bufs_ok w \<Longrightarrow> outgoing (con w') = outgoing (con w) \<Longrightarrow> bufs_ok w'"
  by (simp add: bufs_ok_def outgoing_def)

lemma init_outgoing: "outgoing (init t) = outgoing t \<or> writing (init t)"
proof -
  define u where "u = (let (ec, t) = (if socket_state t \<noteq> READY then (Socket_invalid_state, t) else (Succeeded, t\<lparr>socket_state := READING\<rparr>));
      t = (if m_tcp_pre_init_handler t then call Tcp_pre_init t else t)
    in if ec \<noteq> Succeeded then call (Init_cb ec) t else t)"
  have u: "outgoing u = outgoing t" by (simp add: u_def Let_def)
  have i: "init t = (if m_proxy u \<noteq> [] then proxy_write u else post_init u)"
    by (simp add: init_def pre_init_def handle_pre_init_def u_def Let_def case_prod_beta)
  have "writing (proxy_write u) \<or> outgoing (proxy_write u) = outgoing u"
    by (auto simp: proxy_write_def Let_def case_prod_beta writing_def start_op_def split: option.split)
  then show ?thesis unfolding i using u outgoing_post_init [of u] by auto
qed

lemma net_step_bufs: "net_step w l w' \<Longrightarrow> bufs_ok w \<Longrightarrow> bufs_ok w'"
proof (induction rule: net_step.induct)
  case (net_run w xs c ys)
  show ?case
  proof (cases "write_done c")
    case True then show ?thesis by (simp add: bufs_ok_def write_done_clears)
  next
    case False
    have "outgoing ((con w)\<lparr>ready := xs @ ys\<rparr>) = outgoing (con w)" using net_run(1) False by (simp add: outgoing_def writing_def)
    then show ?thesis using bufs_ok_outgoing [OF net_run(2)] outgoing_run [OF False] by simp
  qed
next
  case (net_init w)
  then show ?case using init_outgoing [of "con w"] by (auto simp: bufs_ok_def outgoing_def)
next
  case (net_write w bufs h)
  then show ?case by (simp add: bufs_ok_def async_write_buffers_def start_op_def writing_def Let_def)
qed (auto elim!: bufs_ok_outgoing simp: outgoing_connect outgoing_shutdown async_read_at_least_def,
     auto simp: outgoing_def writing_def dispatch_def)

lemma initial_bufs: "initial_net w \<Longrightarrow> bufs_ok w"
  by (simp add: initial_net_def configured_def bufs_ok_def)

interpretation net_bufs: invariant_machine net_step initial_net bufs_ok
  by unfold_locales (blast intro: initial_bufs net_step_bufs)+

text \<open>
  C35: one write at a time. Whatever has happened on the connection before, when the layer above asks for a write
  while no other is under way, asio is given exactly the buffers of this call, and the handler of this call.
\<close>

theorem write_transmits_given:
  assumes "initial_net w0" "runs net_step w0 es w" "net_step w (N_write bufs h) w'"
  shows "pending (con w') = pending (con w) @ [Write bufs h] \<and> m_bufs (con w') = bufs"
proof -
  have "bufs_ok w" by (rule net_bufs.reachable_inv [OF assms(1,2)])
  moreover have "\<not> writing (con w)" "w' = w\<lparr>con := async_write_buffers bufs h (con w)\<rparr>"
    using assms(3) by (auto elim: net_stepE)
  ultimately show ?thesis by (simp add: bufs_ok_def async_write_buffers_def start_op_def Let_def)
qed

text \<open>Without that care of the layer above, a second write sends the buffers of the first again.\<close>

lemma second_write_repeats:
  "m_bufs t = [] \<Longrightarrow> pending (async_write_buffers c2 h2 (async_write_buffers c1 h1 t)) =
     pending t @ [Write c1 h1, Write (c1 @ c2) h2]"
  by (simp add: async_write_buffers_def start_op_def Let_def)

section \<open>Answers in time\<close>

definition fresh_net :: net where
  "fresh_net = \<lparr>con = snd (init_asio (transport False False 0)), due = Map.empty, raced = False\<rparr>"

lemma fresh_initial: "initial_net fresh_net"
  by (simp add: initial_net_def configured_def fresh_net_def init_asio_def transport_def)



section \<open>The instant of a timer\<close>

text \<open>
  The name cannot be resolved, and asio learns so just when the timer expires: the timeout and the error are both
  reported. The timer is no longer cancelled, as it has expired, and the operation is not, as it has completed; the
  check of the remaining time is for less than none.
\<close>

abbreviation "example_uri \<equiv> uri_of_host False ''h'' []"
abbreviation "example_timer \<equiv> \<lparr>timer_id = 0, expiry = 5000\<rparr>"
abbreviation "example_lookup \<equiv> Resolve example_timer (m_host example_uri) (get_port_str example_uri)"

definition race_events :: "net_label list" where
  "race_events =
     [N_connect example_uri, N_tick 5000, N_complete example_lookup (Some (other_error 1)) 0 [],
      N_expire example_timer Resolve_timer, N_run (Timer_done example_timer Resolve_timer None),
      N_run (Op_done example_lookup (Some (other_error 1)) 0 [])]"

lemmas example_simps = fresh_net_def init_asio_def transport_def async_connect_def start_resolve_def set_timer_eq
  start_op_def timeout_dns_resolve_def timeout_connect_def call_def cancel_resolver_def abort_all_def cancel_timer_def is_neg_def
  handle_resolve_def handle_resolve_timeout_def Let_def

lemma net_runI: "ready (con w) = xs @ c # ys \<Longrightarrow>
    v = w\<lparr>con := run_completion c ((con w)\<lparr>ready := xs @ ys\<rparr>), raced := raced w \<or> on_the_instant c (con w)\<rparr> \<Longrightarrow>
    net_step w (N_run c) v"
  using net_run by simp

lemma net_connectI: "due w Connecting = None \<Longrightarrow>
    v = w\<lparr>con := async_connect u (con w),
         due := (due w)(Connecting \<mapsto> now (con w) + timeout_dns_resolve + timeout_connect)\<rparr> \<Longrightarrow> net_step w (N_connect u) v"
  using net_connect by simp

lemma net_tickI: "0 \<le> d \<Longrightarrow> v = w\<lparr>con := (con w)\<lparr>now := now (con w) + d\<rparr>\<rparr> \<Longrightarrow> net_step w (N_tick d) v"
  using net_tick by simp

lemma net_expireI: "waiting (con w) = xs @ (tm, k) # ys \<Longrightarrow> expiry tm \<le> now (con w) \<Longrightarrow>
    v = w\<lparr>con := (con w)\<lparr>waiting := xs @ ys, ready := ready (con w) @ [Timer_done tm k None]\<rparr>\<rparr> \<Longrightarrow>
    net_step w (N_expire tm k) v"
  using net_expire by simp

lemma net_completeI: "pending (con w) = xs @ x # ys \<Longrightarrow> ec \<noteq> Some op_aborted \<Longrightarrow> result_ok x ec n s \<Longrightarrow>
    v = w\<lparr>con := (con w)\<lparr>pending := xs @ ys, ready := ready (con w) @ [Op_done x ec n s]\<rparr>\<rparr> \<Longrightarrow>
    net_step w (N_complete x ec n s) v"
  using net_complete by simp

definition state_of :: "int \<Rightarrow> (timer \<times> timer_kind) list \<Rightarrow> operation list \<Rightarrow> completion list \<Rightarrow> callback list \<Rightarrow> bool \<Rightarrow> net" where
  "state_of u ws ps rs cs r = fresh_net\<lparr>
     con := (con fresh_net)\<lparr>now := u, next_timer := 1, waiting := ws, pending := ps, ready := rs, calls := cs\<rparr>,
     due := [Connecting \<mapsto> 10000], raced := r\<rparr>"

lemma first_steps:
  "net_step fresh_net (N_connect example_uri) (state_of 0 [(example_timer, Resolve_timer)] [example_lookup] [] [] False)"
  by (rule net_connectI) (simp_all add: example_simps state_of_def)

lemma instant_answered_twice:
  "\<exists>w. runs net_step fresh_net race_events w \<and>
     calls (con w) = [Connect_cb Timed_out, Connect_cb (Asio asio_pass_through)]"
proof -
  let ?e = "Some (other_error 1)" and ?t = "(example_timer, Resolve_timer)"
  let ?o = "Op_done example_lookup ?e 0 []" and ?d = "Timer_done example_timer Resolve_timer None"
  let ?w2 = "state_of 5000 [?t] [example_lookup] [] [] False"
  let ?w3 = "state_of 5000 [?t] [] [?o] [] False"
  let ?w4 = "state_of 5000 [] [] [?o, ?d] [] False"
  let ?w5 = "state_of 5000 [] [] [?o] [Connect_cb Timed_out] False"
  let ?w6 = "state_of 5000 [] [] [] [Connect_cb Timed_out, Connect_cb (Asio asio_pass_through)] True"
  have "net_step (state_of 0 [?t] [example_lookup] [] [] False) (N_tick 5000) ?w2"
    by (rule net_tickI) (simp_all add: state_of_def example_simps)
  moreover have "net_step ?w2 (N_complete example_lookup ?e 0 []) ?w3"
    by (rule net_completeI [where xs = "[]" and ys = "[]"]) (simp_all add: state_of_def example_simps)
  moreover have "net_step ?w3 (N_expire example_timer Resolve_timer) ?w4"
    by (rule net_expireI [where xs = "[]" and ys = "[]"]) (simp_all add: state_of_def example_simps)
  moreover have "net_step ?w4 (N_run ?d) ?w5"
    by (rule net_runI [where xs = "[?o]" and ys = "[]"]) (simp_all add: state_of_def example_simps)
  moreover have "net_step ?w5 (N_run ?o) ?w6"
    by (rule net_runI [where xs = "[]" and ys = "[]"]) (simp_all add: state_of_def example_simps)
  ultimately have "runs net_step fresh_net race_events ?w6"
    unfolding race_events_def using first_steps by (blast intro: runs_Cons runs_Nil)
  then show ?thesis by (intro exI [of _ ?w6]) (simp add: state_of_def)
qed

section \<open>What the laws say of a run\<close>

text \<open>A lookup that never ends.\<close>

definition silent_events :: "net_label list" where
  "silent_events =
     [N_connect example_uri, N_tick 10001, N_expire example_timer Resolve_timer,
      N_run (Timer_done example_timer Resolve_timer None), N_run (Op_done example_lookup (Some op_aborted) 0 [])]"

abbreviation "silent_net \<equiv> state_of 10001 [] [] [] [Connect_cb Timed_out] False"

lemma silent_run: "runs net_step fresh_net silent_events silent_net"
proof -
  let ?t = "(example_timer, Resolve_timer)"
  let ?o = "Op_done example_lookup (Some op_aborted) 0 []" and ?d = "Timer_done example_timer Resolve_timer None"
  let ?w2 = "state_of 10001 [?t] [example_lookup] [] [] False"
  let ?w3 = "state_of 10001 [] [example_lookup] [?d] [] False"
  let ?w4 = "state_of 10001 [] [] [?o] [Connect_cb Timed_out] False"
  have "net_step (state_of 0 [?t] [example_lookup] [] [] False) (N_tick 10001) ?w2"
    by (rule net_tickI) (simp_all add: state_of_def example_simps)
  moreover have "net_step ?w2 (N_expire example_timer Resolve_timer) ?w3"
    by (rule net_expireI [where xs = "[]" and ys = "[]"]) (simp_all add: state_of_def example_simps)
  moreover have "net_step ?w3 (N_run ?d) ?w4"
    by (rule net_runI [where xs = "[]" and ys = "[]"]) (simp_all add: state_of_def example_simps)
  moreover have "net_step ?w4 (N_run ?o) silent_net"
    by (rule net_runI [where xs = "[]" and ys = "[]"]) (simp_all add: state_of_def example_simps)
  ultimately show ?thesis unfolding silent_events_def using first_steps by (blast intro: runs_Cons runs_Nil)
qed

lemma silent_state: "\<not> raced silent_net" "caught_up (con silent_net)" "due silent_net Connecting = Some 10000"
    "now (con silent_net) = 10001" "due silent_net Initializing = None"
  by (simp_all add: state_of_def caught_up_def fresh_net_def)



text \<open>A connection that is made, and a write on it.\<close>

definition made_events :: "net_label list" where
  "made_events =
     [N_connect example_uri, N_complete example_lookup None 0 [], N_run (Op_done example_lookup None 0 []),
      N_complete (Connect_to \<lparr>timer_id = 1, expiry = 5000\<rparr>) None 0 [],
      N_run (Op_done (Connect_to \<lparr>timer_id = 1, expiry = 5000\<rparr>) None 0 []), N_init]"

definition made_of :: "nat \<Rightarrow> socket_state \<Rightarrow> (timer \<times> timer_kind) list \<Rightarrow> operation list \<Rightarrow> completion list \<Rightarrow>
    callback list \<Rightarrow> (family \<Rightarrow> int option) \<Rightarrow> net" where
  "made_of n ss ws ps rs cs d = fresh_net\<lparr>
     con := (con fresh_net)\<lparr>next_timer := n, socket_state := ss, waiting := ws, pending := ps, ready := rs, calls := cs\<rparr>, due := d\<rparr>"

abbreviation "cancelled i k \<equiv> Timer_done \<lparr>timer_id = i, expiry = 5000\<rparr> k (Some op_aborted)"

abbreviation "made_net \<equiv> made_of 3 READING [] []
  [cancelled 0 Resolve_timer, cancelled 1 Connect_timer, cancelled 2 Post_init_timer]
  [Connect_cb Succeeded, Init_cb Succeeded] [Connecting \<mapsto> 10000, Initializing \<mapsto> 0]"

lemma made_run: "runs net_step fresh_net made_events made_net"
proof -
  let ?c = "\<lparr>timer_id = 1, expiry = 5000\<rparr>" and ?d = "[Connecting \<mapsto> 10000]"
  let ?o = "Op_done example_lookup None 0 []" and ?p = "Op_done (Connect_to ?c) None 0 []"
  let ?w1 = "made_of 1 READY [(example_timer, Resolve_timer)] [example_lookup] [] [] ?d"
  let ?w2 = "made_of 1 READY [(example_timer, Resolve_timer)] [] [?o] [] ?d"
  let ?w3 = "made_of 2 READY [(?c, Connect_timer)] [Connect_to ?c] [cancelled 0 Resolve_timer] [] ?d"
  let ?w4 = "made_of 2 READY [(?c, Connect_timer)] [] [cancelled 0 Resolve_timer, ?p] [] ?d"
  let ?w5 = "made_of 2 READY [] [] [cancelled 0 Resolve_timer, cancelled 1 Connect_timer] [Connect_cb Succeeded] ?d"
  have "net_step fresh_net (N_connect example_uri) ?w1"
    by (rule net_connectI) (simp_all add: example_simps made_of_def)
  moreover have "net_step ?w1 (N_complete example_lookup None 0 []) ?w2"
    by (rule net_completeI [where xs = "[]" and ys = "[]"]) (simp_all add: made_of_def example_simps)
  moreover have "net_step ?w2 (N_run ?o) ?w3"
    by (rule net_runI [where xs = "[]" and ys = "[]"]) (simp_all add: made_of_def example_simps)
  moreover have "net_step ?w3 (N_complete (Connect_to ?c) None 0 []) ?w4"
    by (rule net_completeI [where xs = "[]" and ys = "[]"]) (simp_all add: made_of_def example_simps)
  moreover have "net_step ?w4 (N_run ?p) ?w5"
    by (rule net_runI [where xs = "[cancelled 0 Resolve_timer]" and ys = "[]"])
      (simp_all add: made_of_def example_simps handle_connect_def)
  moreover have "net_step ?w5 N_init made_net"
  proof -
    have "net_step ?w5 N_init (?w5\<lparr>con := init (con ?w5), due := (due ?w5)(Initializing \<mapsto> now (con ?w5) + proxy_wait (con ?w5))\<rparr>)"
      by (rule net_init) (simp_all add: made_of_def)
    moreover have "?w5\<lparr>con := init (con ?w5), due := (due ?w5)(Initializing \<mapsto> now (con ?w5) + proxy_wait (con ?w5))\<rparr> = made_net"
      by (simp add: made_of_def example_simps init_def pre_init_def handle_pre_init_def post_init_def handle_post_init_def timeout_socket_post_init_def proxy_wait_def)
    ultimately show ?thesis by simp
  qed
  ultimately show ?thesis unfolding made_events_def by (blast intro: runs_Cons runs_Nil)
qed

lemma write_transmits_given_witness: "pending (async_write_buffers [[1], [2, 3]] (Some 7) (con made_net)) = [Write [[1], [2, 3]] (Some 7)]"
proof -
  let ?w = "made_net\<lparr>con := async_write_buffers [[1], [2, 3]] (Some 7) (con made_net)\<rparr>"
  have "net_step made_net (N_write [[1], [2, 3]] (Some 7)) ?w"
    by (rule net_write) (simp_all add: made_of_def writing_def)
  from write_transmits_given [OF fresh_initial made_run this] show ?thesis by (simp add: made_of_def)
qed

section \<open>Other behaviour\<close>

text \<open>A plain socket is shut down at once: the callback is called, once, and no timer stays.\<close>

lemma shutdown_answers:
  assumes "tidy t" "ec \<noteq> Some op_aborted"
  shows "\<exists>c. calls (async_shutdown ec t) = calls t @ [Shutdown_cb c] \<and> (c = Succeeded \<longleftrightarrow> ec = None \<or> ec = Some not_connected) \<and>
    set (waiting (async_shutdown ec t)) = set (waiting t)"
proof -
  obtain tm u where s: "set_timer timeout_socket_shutdown Shutdown_timer t = (tm, u)" by fastforce
  then have u: "\<not> is_neg tm u" "calls u = calls t" "waiting u = waiting t @ [(tm, Shutdown_timer)]"
      "timer_id tm = next_timer t"
    by (auto simp: is_neg_def set_timer_eq timeout_socket_shutdown_def)
  have "x \<noteq> tm" if "(x, k) \<in> set (waiting t)" for x k using assms(1) u(4) that by (auto simp: tidy_def)
  then have "set (waiting (cancel_timer tm u)) = set (waiting t)" by (auto simp: cancel_timer_def u(3))
  then show ?thesis using s u assms(2)
    by (cases ec) (auto simp: async_shutdown_def handle_async_shutdown_def Let_def call_def)
qed

text \<open>Initialized on a socket that is not ready, the connection is told of the error, and then of success.\<close>

lemma unready_answered_twice:
  assumes "socket_state t \<noteq> READY" "m_proxy t = []"
  shows "filter (\<lambda>cb. cb_family cb = Some Initializing) (calls (init t)) =
    filter (\<lambda>cb. cb_family cb = Some Initializing) (calls t) @ [Init_cb Socket_invalid_state, Init_cb Succeeded]"
  using assms by (simp add: init_def pre_init_def handle_pre_init_def post_init_def timeout_socket_post_init_def set_timer_eq handle_post_init_def is_neg_def
      call_def Let_def)

text \<open>A line of the proxy's response that is too long for the buffer ends the reading, whatever follows it.\<close>

lemma long_line_ends_response:
  assumes "length l \<ge> 512" "LF \<notin> set l" "response_consume (take 511 l) r = Inr (n, r')"
  shows "response_consume_stream (l @ LF # s) r = Inr r'"
proof -
  have "takeWhile (\<lambda>c. c \<noteq> LF) (l @ LF # s) = l" using assms(2) by (induction l) auto
  then show ?thesis using assms(1,3)
    by (subst response_consume_stream.simps) (simp add: istream_buffer_def Let_def)
qed

end
