(* ===== verification/Spec2Isabelle.thy ===== *)
theory Spec2Isabelle
  imports Kvdn_Client Text_Encoding Bus_Connect Json_Stream_Builder Ws_Asio_Laws
begin

text \<open>
  The C++ client of KVDN (Client/cpp): the key-value operations of \<open>KvdnClient\<close>, the Vert.x event bus they go
  over, and the two libraries compiled into the client: JsonCpp, which reads and writes the envelopes, and
  WebSocket++, which carries them. Paths below are relative to src/Client/cpp/, those with ws/ to
  src/Client/cpp/websocketpp/websocketpp/.

  \<^bold>\<open>The parts.\<close> A call of \<open>KvdnClient\<close> (\<open>Kvdn_Client\<close>; KvdnClient.cpp) builds a request and hands it to \<open>kvdnOP\<close>,
  which sends it over the bus and lets the user's handler have the reply. The bus (\<open>Vertx_Bus\<close>; VertxBus.h,
  VertxBus.cpp) wraps it in an envelope, writes the envelope with \<open>FastWriter\<close> as one text frame, and takes the
  frames of the connection to the handlers. The JSON library (\<open>Json_*\<close>; json/jsoncpp.cpp) is in the theories
  \<open>Json_Text\<close> (text routines, quoting), \<open>Json_Real\<close> (doubles), \<open>Json_Value\<close> (\<open>Value\<close>), \<open>Json_Writer\<close> (\<open>FastWriter\<close>,
  \<open>StyledWriter\<close>), \<open>Json_Reader\<close> (the tokenizer), \<open>Json_Parser\<close> (the recursive descent and decoding) and
  \<open>Json_Errors\<close> (messages, lines and columns). Its second half is in \<open>Json_Our_Reader\<close> (\<open>OurReader\<close>, the copy of
  \<open>Reader\<close> with more features), \<open>Json_Builder\<close> (\<open>CharReaderBuilder\<close>, \<open>parseFromStream\<close>, \<open>operator>>\<close>),
  \<open>Json_Stream_Writer\<close> (\<open>BuiltStyledStreamWriter\<close>, \<open>StyledStreamWriter\<close>) and \<open>Json_Stream_Builder\<close>
  (\<open>StreamWriterBuilder\<close>, \<open>writeString\<close>, \<open>operator<<\<close>). Their laws are in \<open>Json_Parser_Laws\<close> and \<open>Json_Our_Laws\<close>
  (termination, exceptions), \<open>Json_Tokens\<close> (single tokens as written and read), \<open>Json_Layout\<close> (the texts of a value,
  and what a reader makes of them), \<open>Json_Roundtrip\<close>, \<open>Json_Written\<close> and \<open>Json_Styled\<close> (every writer writes such
  texts). The websocket library is in the theories \<open>Ws_*\<close>: an
  endpoint (\<open>Ws_Endpoint\<close>; ws/endpoint.hpp, ws/roles/client_endpoint.hpp) makes a connection from the text of a URI
  (\<open>Ws_Uri\<close>; ws/uri.hpp); the connection (\<open>Ws_Opening\<close>; ws/impl/connection_impl.hpp) exchanges an HTTP request and
  response (\<open>Ws_Http\<close>; ws/http) that the processors fill in and check (\<open>Ws_Handshake\<close>, \<open>Ws_Hybi00\<close>; ws/processors)
  with SHA-1 and base64 (\<open>Ws_Sha1\<close>, \<open>Ws_Base64\<close>) or MD5 (\<open>Ws_Md5\<close>); once open (\<open>Ws_Connection\<close>) it reads and writes
  frames (\<open>Ws_Hybi13\<close>; ws/processors/hybi13.hpp), whose headers and masks are in \<open>Ws_Frame\<close>, whose texts are validated
  by \<open>Ws_Utf8\<close> and whose closing payloads are in \<open>Ws_Close\<close>; the error codes are in \<open>Ws_Error\<close>. Below it
  is the transport over asio (\<open>Ws_Asio\<close>; the connecting side of ws/transport/asio, with the plain socket): it looks
  up the host, connects, asks the proxy if there is one, reads, writes and shuts down, each with a timer; it is not
  composed with the connection, which takes the completions of any transport as steps. \<open>Bus_Connect\<close> puts
  the bus on the client endpoint: the error \<open>Connect\<close> gets for an address, and the connection it gets.
  \<open>Text_Encoding\<close> relates the JSON library's UTF-8 to the websocket's validator.

  \<^bold>\<open>How the model reads.\<close> A class is a record, its methods functions from the object's state to a result and
  the new state, under the names of the code. What a method asks of the outside (a frame to write, a thread to
  start, a completion to wait for) is appended to a list of events or calls in the state (\<open>emit\<close>, \<open>ask\<close>). A
  callback of the transport or of a thread is an operation of its own; the state machines of
  \<open>Vertx_Bus_Machine\<close>, \<open>Ws_Connection_Machine\<close> and \<open>Ws_Asio_Machine\<close> let them come in every order (\<open>bus_step\<close>,
  \<open>con_step\<close>, \<open>net_step\<close>, with \<open>runs\<close> of the prelude for their sequences). Exceptions are the left side of a sum (\<open>exn\<close>, \<open>http\<close>, \<open>thrown\<close>), error codes
  are values of \<open>error_code\<close>. Machine integers are words, except for sizes that the code never lets wrap, which
  are natural numbers; a \<open>char\<close> is a byte. A \<open>std::map\<close> is a sorted association list (\<open>omap_insert\<close>), ordered as the
  code's comparison does.

  \<^bold>\<open>What is shown.\<close> The JSON reader reads back what the fast writer writes, returns on every document and
  throws nothing but its stack limit. Any writer of \<open>StreamWriterBuilder\<close> and any reader of \<open>CharReaderBuilder\<close> go
  together: what the one writes the other reads; on documents without apostrophes the two readers are one, and so
  are the two writers to streams under one format. The bus calls a reply handler once, sends what the reader recovers, never
  blocks in a reachable state and keeps nothing of a lost connection; the exceptions to what it means to do
  (an address the library refuses, a race of \<open>Close\<close>, a message that throws with the lock held) are theorems too.
  Frames, close payloads, headers and masks are read back; reading does not depend on how the bytes are cut
  into chunks. The connection refines a FIFO channel, has one write in flight, loses no wake-up, shuts down once
  and never opens again. The opening handshake of a client and a server completes with both open, and a client
  opens on no answer but that to its own key. The transport answers who asks for a connection once and by its
  deadline, unless a handler runs in the instant its timer expires; asio can always catch up; a write transmits what
  it was given (\<open>Ws_Asio_Laws\<close>). SHA-1 and MD5 are the functions of their standards, base64, URIs and
  HTTP requests are read back. Each theorem that is a claim is preceded by its number; the others are the steps
  and the laws they rest on, and findings of less weight.

  \<^bold>\<open>Interfaces.\<close> Locales state the contracts parts rely on, and are interpreted on the code's own functions: the
  ordered map of the bus and the JSON objects, encoders with their decoders (\<open>codec\<close>), and state machines with
  an invariant (in \<open>Prelude\<close>); the recursive descent of a JSON reader (\<open>reading\<close> in \<open>Json_Layout\<close>, kept by \<open>Reader\<close>
  and by \<open>OurReader\<close>) and an indenting writer (\<open>layout_writer\<close> and its extension \<open>value_writer\<close> in \<open>Json_Written\<close>,
  kept by \<open>BuiltStyledStreamWriter\<close> and by \<open>StyledWriter\<close>).

  \<^bold>\<open>Bounds and recursion.\<close> The functions of the JSON parsers take a bound on the calls, twice the length of
  the document and two: theorems say that it always suffices. Loops over buffers have a measure, the bytes left; the loop of the connection
  that reads frames is a partial function, and a theorem says that it returns in every state the processor can
  reach. SHA-1 is the standard's for messages below 2^29 bytes, as the code keeps the length in a 32-bit word. The
  handshake completes for requests whose target, host and subprotocols leave room in the 16000 bytes of headers
  (15700 for what varies). Words and byte order are those of a 64-bit little endian host.

  \<^bold>\<open>What is not modelled.\<close> asio and the operating system: an operation that is started completes at any time with any
  result its documentation allows, a timer once its time has come, and ready handlers run in any order; no time passes
  inside a handler. Of the transport the listening and accepting side, strands and the allocators of handlers. TLS: the client is built without. The logs. The generator of masking keys
  and of UUIDs is an argument. The handlers of the bus are functions that return what to do next. In the JSON library,
  the comments of a value and its offsets in the source (and with them \<open>pushError\<close>, which needs the offsets, and the
  functions that write comments), \<open>Path\<close> and the iterators, which the client does not use; doubles are given by the C
  library's conversions as its standard has them. In the websocket library, interrupts, pauses by handle and the server's role. The servers and the clients in other languages.
\<close>

end
